(* ===== verification/Gempba_Prelude.thy ===== *)
theory Gempba_Prelude
  imports Main "HOL-Library.Multiset"
begin

text \<open>
  Shared vocabulary of the development.

  \<^item> \<open>fault\<close> and \<open>'a res\<close>: what a C++ operation can end in. \<open>Thrown m\<close> is an exception that
    carries the message \<open>m\<close>, less a newline at its end (\<open>utils::log_and_throw\<close>, \<open>throw std::runtime_error\<close>); \<open>Undefined\<close> is
    an access the language leaves undefined (a null pointer followed, an index out of range);
    \<open>Aborted\<close> is \<open>std::abort\<close>; \<open>Diverged\<close> is a loop that never ends.
    A successful result is \<open>Inr\<close>.
  \<^item> \<open>rank\<close>: the rank of a process, a signed \<open>int\<close> in the code, with negative sentinels.
  \<^item> \<open>tally\<close>: how many members of a multiset satisfy a predicate, used to count messages in transit.
\<close>

named_theorems gempba_defs \<open>definitions of small operations, unfolded by the component proofs\<close>

datatype fault = Thrown string | Undefined | Aborted | Diverged

type_synonym 'a res = "fault + 'a"
type_synonym rank = int

section \<open>Sequencing fallible operations\<close>

definition rbind :: "'a res \<Rightarrow> ('a \<Rightarrow> 'b res) \<Rightarrow> 'b res" where
  "rbind r f = (case r of Inl e \<Rightarrow> Inl e | Inr x \<Rightarrow> f x)"

lemma rbind_Inl [simp]: "rbind (Inl e) f = Inl e"
  by (simp add: rbind_def)

lemma rbind_Inr [simp]: "rbind (Inr x) f = f x"
  by (simp add: rbind_def)

lemma rbind_eq_Inr [simp]: "rbind r f = Inr y \<longleftrightarrow> (\<exists>x. r = Inr x \<and> f x = Inr y)"
  by (cases r) simp_all

lemma rbind_cong [fundef_cong]:
  "r = r' \<Longrightarrow> (\<And>x. r' = Inr x \<Longrightarrow> f x = g x) \<Longrightarrow> rbind r f = rbind r' g"
  by (cases r') simp_all

text \<open>\<open>is_ok r\<close>: the operation returned normally.\<close>

definition is_ok :: "'a res \<Rightarrow> bool" where
  "is_ok r = (case r of Inl _ \<Rightarrow> False | Inr _ \<Rightarrow> True)"

lemma is_ok_simps [simp]: "is_ok (Inr x)" "\<not> is_ok (Inl e)"
  by (simp_all add: is_ok_def)

lemma is_ok_iff: "is_ok r \<longleftrightarrow> (\<exists>x. r = Inr x)"
  by (cases r) simp_all

section \<open>Counting members of a multiset\<close>

definition tally :: "('a \<Rightarrow> bool) \<Rightarrow> 'a multiset \<Rightarrow> int" where
  "tally P M = int (size (filter_mset P M))"

lemma tally_empty [simp]: "tally P {#} = 0"
  by (simp add: tally_def)

lemma tally_add [simp]: "tally P (add_mset x M) = (if P x then 1 else 0) + tally P M"
  by (simp add: tally_def)

lemma tally_plus [simp]: "tally P (M + N) = tally P M + tally P N"
  by (simp add: tally_def)

lemma tally_nonneg [simp]: "0 \<le> tally P M"
  by (simp add: tally_def)

lemma tally_remove:
  "x \<in># M \<Longrightarrow> tally P (M - {#x#}) = tally P M - (if P x then 1 else 0)"
  by (drule insert_DiffM) (metis add_diff_cancel_left' tally_add)

lemma tally_pos: "x \<in># M \<Longrightarrow> P x \<Longrightarrow> 0 < tally P M"
  using tally_remove [of x M P] tally_nonneg [of P "M - {#x#}"] by simp

lemma tally_zeroD: "tally P M = 0 \<Longrightarrow> x \<in># M \<Longrightarrow> \<not> P x"
  using tally_pos by fastforce

section \<open>Sets of ranks\<close>

lemma card_gain:
  assumes "finite A" and "x \<notin> A"
  shows "int (card (insert x A)) = int (card A) + 1"
  using assms by simp

lemma card_loss:
  assumes "finite A" and "x \<in> A"
  shows "int (card (A - {x})) = int (card A) - 1"
  using card_Suc_Diff1 [OF assms] by linarith

section \<open>Decimal numerals\<close>

definition digit_char :: "nat \<Rightarrow> char" where
  "digit_char d = char_of (48 + d)"

fun show_nat :: "nat \<Rightarrow> string" where
  "show_nat n = (if n < 10 then [digit_char n] else show_nat (n div 10) @ [digit_char (n mod 10)])"

declare show_nat.simps [simp del]

definition show_int :: "int \<Rightarrow> string" where
  "show_int i = (if i < 0 then CHR ''-'' # show_nat (nat (- i)) else show_nat (nat i))"

section \<open>Sequencing over a list\<close>

text \<open>\<open>rfold f xs s\<close>: the loop that runs the fallible body \<open>f\<close> once for each element.\<close>

fun rfold :: "('a \<Rightarrow> 's \<Rightarrow> 's res) \<Rightarrow> 'a list \<Rightarrow> 's \<Rightarrow> 's res" where
  "rfold f [] s = Inr s"
| "rfold f (x # xs) s = rbind (f x s) (rfold f xs)"

lemma rfold_append: "rfold f (xs @ ys) s = rbind (rfold f xs s) (rfold f ys)"
proof (induction xs arbitrary: s)
  case (Cons x xs)
  then show ?case by (cases "f x s") simp_all
qed simp

section \<open>Vectors\<close>

text \<open>\<open>operator[]\<close> of a vector, read and written; out of range is undefined.\<close>

definition vec_get :: "'a list \<Rightarrow> int \<Rightarrow> 'a res" where
  "vec_get xs i = (if 0 \<le> i \<and> i < int (length xs) then Inr (xs ! nat i) else Inl Undefined)"

definition vec_set :: "'a list \<Rightarrow> int \<Rightarrow> 'a \<Rightarrow> 'a list res" where
  "vec_set xs i v = (if 0 \<le> i \<and> i < int (length xs) then Inr (xs[nat i := v]) else Inl Undefined)"

definition vec_add :: "int list \<Rightarrow> int \<Rightarrow> int \<Rightarrow> int list res" where
  "vec_add xs i k = rbind (vec_get xs i) (\<lambda>v. vec_set xs i (v + k))"

lemma vec_in_range [simp]:
  "0 \<le> i \<Longrightarrow> i < int (length xs) \<Longrightarrow> vec_get xs i = Inr (xs ! nat i)"
  "0 \<le> i \<Longrightarrow> i < int (length xs) \<Longrightarrow> vec_set xs i v = Inr (xs[nat i := v])"
  by (simp_all add: vec_get_def vec_set_def)

lemma vec_add_in_range [simp]:
  "0 \<le> i \<Longrightarrow> i < int (length ys) \<Longrightarrow> vec_add ys i k = Inr (ys[nat i := ys ! nat i + k])"
  by (simp add: vec_add_def)

end
