(* ===== verification/Termination_Detector.thy ===== *)
theory Termination_Detector
  imports Gempba_Prelude
begin

text \<open>
  The per-rank termination detector (\<open>private/impl/schedulers/termination_detector.hpp\<close>). Every
  operation of the class is one function on its three fields; an operation that also returns a
  value returns the pair of the new detector and the value. A call with no acknowledgement to send
  (\<open>std::nullopt\<close>) is \<open>None\<close>.
\<close>

record detector =
  td_is_root :: bool
  td_deficit :: int
  td_parent :: rank

definition NO_PARENT :: rank where
  "NO_PARENT = -1"

definition new_detector :: "bool \<Rightarrow> detector" where
  "new_detector p_is_root = \<lparr>td_is_root = p_is_root, td_deficit = 0, td_parent = NO_PARENT\<rparr>"

definition on_task_sent :: "detector \<Rightarrow> detector" where
  "on_task_sent d = d\<lparr>td_deficit := td_deficit d + 1\<rparr>"

definition on_task_received :: "detector \<Rightarrow> rank \<Rightarrow> detector \<times> rank option" where
  "on_task_received d p_sender =
     (if td_is_root d \<or> td_parent d \<noteq> NO_PARENT then (d, Some p_sender)
      else (d\<lparr>td_parent := p_sender\<rparr>, None))"

definition on_ack_received :: "detector \<Rightarrow> detector \<times> bool" where
  "on_ack_received d =
     (if td_deficit d = 0 then (d, False) else (d\<lparr>td_deficit := td_deficit d - 1\<rparr>, True))"

definition on_passive :: "detector \<Rightarrow> detector \<times> rank option" where
  "on_passive d =
     (if td_deficit d \<noteq> 0 \<or> td_parent d = NO_PARENT then (d, None)
      else (d\<lparr>td_parent := NO_PARENT\<rparr>, Some (td_parent d)))"

definition is_quiescent :: "detector \<Rightarrow> bool" where
  "is_quiescent d \<longleftrightarrow> td_deficit d = 0 \<and> td_parent d = NO_PARENT"

section \<open>What one call changes\<close>

lemma new_detector_sel [simp]:
  "td_is_root (new_detector b) = b" "td_deficit (new_detector b) = 0"
  "td_parent (new_detector b) = NO_PARENT"
  by (simp_all add: new_detector_def)

lemma on_task_sent_sel [simp]:
  "td_is_root (on_task_sent d) = td_is_root d" "td_parent (on_task_sent d) = td_parent d"
  "td_deficit (on_task_sent d) = td_deficit d + 1"
  by (simp_all add: on_task_sent_def)

lemma on_task_received_sel [simp]:
  "td_is_root (fst (on_task_received d p)) = td_is_root d"
  "td_deficit (fst (on_task_received d p)) = td_deficit d"
  by (simp_all add: on_task_received_def)

lemma on_task_received_engaged:
  "td_is_root d \<or> td_parent d \<noteq> NO_PARENT \<Longrightarrow> on_task_received d p = (d, Some p)"
  by (simp add: on_task_received_def)

lemma on_task_received_fresh:
  "\<not> td_is_root d \<Longrightarrow> td_parent d = NO_PARENT \<Longrightarrow>
   on_task_received d p = (d\<lparr>td_parent := p\<rparr>, None)"
  by (simp add: on_task_received_def)

lemma on_ack_received_expected:
  "td_deficit d \<noteq> 0 \<Longrightarrow> on_ack_received d = (d\<lparr>td_deficit := td_deficit d - 1\<rparr>, True)"
  by (simp add: on_ack_received_def)

lemma on_passive_held:
  "td_deficit d \<noteq> 0 \<or> td_parent d = NO_PARENT \<Longrightarrow> on_passive d = (d, None)"
  by (simp add: on_passive_def)

lemma on_passive_release:
  "td_deficit d = 0 \<Longrightarrow> td_parent d \<noteq> NO_PARENT \<Longrightarrow>
   on_passive d = (d\<lparr>td_parent := NO_PARENT\<rparr>, Some (td_parent d))"
  by (simp add: on_passive_def)

lemma on_passive_sel [simp]:
  "td_is_root (fst (on_passive d)) = td_is_root d"
  "td_deficit (fst (on_passive d)) = td_deficit d"
  by (simp_all add: on_passive_def)

text \<open>After \<open>on_passive\<close> a rank is held by its parent only while some task it sent is unanswered.\<close>

lemma on_passive_parent_deficit:
  "td_parent (fst (on_passive d)) \<noteq> NO_PARENT \<Longrightarrow> td_deficit (fst (on_passive d)) \<noteq> 0"
  by (simp add: on_passive_def split: if_splits)

end
