(* ===== verification/Dijkstra_Scholten.thy ===== *)
theory Dijkstra_Scholten
  imports Termination_Detector
begin

text \<open>
  Termination detection among all ranks, over the detector of the code. The state holds the
  detector of every rank, which ranks have work, and the task messages and acknowledgements in
  transit; a message is the pair of its sender and its receiver. The steps are the moments at which
  a scheduler calls its detector, with the network delivering in any order. Both schedulers refine
  this system: the theories \<open>Semi_Network\<close> and \<open>Central_Network\<close> show that every step of theirs is
  a step of it or leaves it unchanged.

  The invariant \<open>ds_inv\<close> says that each deficit counts exactly the messages and children a rank
  still waits for, that a rank without parent is idle, and that parents lead back to the root.
\<close>

record ds =
  ds_world :: int
  ds_dets :: "rank \<Rightarrow> detector"
  ds_active :: "rank \<Rightarrow> bool"
  ds_tasks :: "(rank \<times> rank) multiset"
  ds_acks :: "(rank \<times> rank) multiset"

definition in_world :: "int \<Rightarrow> rank \<Rightarrow> bool" where
  "in_world n p \<longleftrightarrow> 0 \<le> p \<and> p < n"

definition ack_out :: "rank \<Rightarrow> rank option \<Rightarrow> (rank \<times> rank) multiset" where
  "ack_out q r = (case r of None \<Rightarrow> {#} | Some a \<Rightarrow> {#(q, a)#})"

lemma ack_out_simps [simp]: "ack_out q None = {#}" "ack_out q (Some a) = {#(q, a)#}"
  by (simp_all add: ack_out_def)

definition ds_init :: "int \<Rightarrow> ds" where
  "ds_init n = \<lparr>ds_world = n, ds_dets = (\<lambda>p. new_detector (p = 0)), ds_active = (\<lambda>p. p = 0),
                ds_tasks = {#}, ds_acks = {#}\<rparr>"

definition ds_send :: "ds \<Rightarrow> rank \<Rightarrow> rank \<Rightarrow> ds" where
  "ds_send s p q = s\<lparr>ds_dets := (ds_dets s)(p := on_task_sent (ds_dets s p)),
                     ds_tasks := add_mset (p, q) (ds_tasks s)\<rparr>"

definition ds_receive :: "ds \<Rightarrow> rank \<Rightarrow> rank \<Rightarrow> ds" where
  "ds_receive s p q =
     (let (d, r) = on_task_received (ds_dets s q) p
      in s\<lparr>ds_dets := (ds_dets s)(q := d), ds_active := (ds_active s)(q := True),
           ds_tasks := ds_tasks s - {#(p, q)#}, ds_acks := ds_acks s + ack_out q r\<rparr>)"

text \<open>
  \<open>ds_passive\<close> is \<open>release_parent_if_passive\<close>: when the detector lets go of its parent, the deferred
  acknowledgement leaves.
\<close>

definition ds_passive :: "ds \<Rightarrow> rank \<Rightarrow> ds" where
  "ds_passive s p =
     (let (d, r) = on_passive (ds_dets s p)
      in s\<lparr>ds_dets := (ds_dets s)(p := d), ds_acks := ds_acks s + ack_out p r\<rparr>)"

definition ds_finish :: "ds \<Rightarrow> rank \<Rightarrow> ds" where
  "ds_finish s p = ds_passive (s\<lparr>ds_active := (ds_active s)(p := False)\<rparr>) p"

definition ds_take_ack :: "ds \<Rightarrow> rank \<Rightarrow> rank \<Rightarrow> ds" where
  "ds_take_ack s q p = s\<lparr>ds_dets := (ds_dets s)(p := fst (on_ack_received (ds_dets s p))),
                         ds_acks := ds_acks s - {#(q, p)#}\<rparr>"

definition ds_ack :: "ds \<Rightarrow> rank \<Rightarrow> rank \<Rightarrow> ds" where
  "ds_ack s q p = ds_passive (ds_take_ack s q p) p"

inductive ds_step :: "ds \<Rightarrow> ds \<Rightarrow> bool" where
  send: "ds_active s p \<Longrightarrow> in_world (ds_world s) p \<Longrightarrow> in_world (ds_world s) q \<Longrightarrow>
    ds_step s (ds_send s p q)"
| receive: "(p, q) \<in># ds_tasks s \<Longrightarrow> ds_step s (ds_receive s p q)"
| finish: "ds_active s p \<Longrightarrow> in_world (ds_world s) p \<Longrightarrow> ds_step s (ds_finish s p)"
| ack: "(q, p) \<in># ds_acks s \<Longrightarrow> \<not> ds_active s p \<or> p = 0 \<Longrightarrow> ds_step s (ds_ack s q p)"

inductive ds_reachable :: "int \<Rightarrow> ds \<Rightarrow> bool" for n where
  start: "ds_reachable n (ds_init n)"
| step: "ds_reachable n s \<Longrightarrow> ds_step s t \<Longrightarrow> ds_reachable n t"

section \<open>The invariant\<close>

text \<open>\<open>linked D q\<close>: following parents from rank \<open>q\<close> reaches the root.\<close>

lemma fun_upd_other: "x \<noteq> q \<Longrightarrow> (D(q := d)) x = D x"
  by simp

inductive linked :: "(rank \<Rightarrow> detector) \<Rightarrow> rank \<Rightarrow> bool" for D where
  root: "linked D 0"
| child: "linked D (td_parent (D q)) \<Longrightarrow> td_parent (D q) \<noteq> NO_PARENT \<Longrightarrow> q \<noteq> 0 \<Longrightarrow> linked D q"

definition kids :: "int \<Rightarrow> (rank \<Rightarrow> detector) \<Rightarrow> rank \<Rightarrow> rank set" where
  "kids n D p = {q. in_world n q \<and> td_parent (D q) = p}"

definition owed :: "ds \<Rightarrow> rank \<Rightarrow> int" where
  "owed s p = tally (\<lambda>m. fst m = p) (ds_tasks s) + tally (\<lambda>m. snd m = p) (ds_acks s)
              + int (card (kids (ds_world s) (ds_dets s) p))"

definition msgs_ok :: "ds \<Rightarrow> bool" where
  "msgs_ok s \<longleftrightarrow> (\<forall>p q. (p, q) \<in># ds_tasks s \<or> (p, q) \<in># ds_acks s \<longrightarrow>
     in_world (ds_world s) p \<and> in_world (ds_world s) q)"

definition roots_ok :: "ds \<Rightarrow> bool" where
  "roots_ok s \<longleftrightarrow> (\<forall>q. td_is_root (ds_dets s q) \<longleftrightarrow> q = 0) \<and> td_parent (ds_dets s 0) = NO_PARENT"

definition parents_ok :: "ds \<Rightarrow> bool" where
  "parents_ok s \<longleftrightarrow> (\<forall>q. td_parent (ds_dets s q) \<noteq> NO_PARENT \<longrightarrow>
     in_world (ds_world s) (td_parent (ds_dets s q)) \<and> in_world (ds_world s) q \<and> linked (ds_dets s) q)"

definition deficits_ok :: "ds \<Rightarrow> bool" where
  "deficits_ok s \<longleftrightarrow> (\<forall>p. in_world (ds_world s) p \<longrightarrow> td_deficit (ds_dets s p) = owed s p)"

definition idle_ok :: "ds \<Rightarrow> bool" where
  "idle_ok s \<longleftrightarrow> (\<forall>q. q \<noteq> 0 \<and> td_parent (ds_dets s q) = NO_PARENT \<longrightarrow>
     td_deficit (ds_dets s q) = 0 \<and> \<not> ds_active s q)"

definition held_ok :: "rank set \<Rightarrow> ds \<Rightarrow> bool" where
  "held_ok X s \<longleftrightarrow> (\<forall>q. q \<notin> X \<and> td_parent (ds_dets s q) \<noteq> NO_PARENT \<and> \<not> ds_active s q \<longrightarrow>
     td_deficit (ds_dets s q) \<noteq> 0)"

text \<open>
  \<open>ds_inv_but X\<close> is the invariant while the ranks of \<open>X\<close> have yet to call \<open>on_passive\<close>; between
  two steps no rank has.
\<close>

definition ds_inv_but :: "rank set \<Rightarrow> ds \<Rightarrow> bool" where
  "ds_inv_but X s \<longleftrightarrow> 0 < ds_world s \<and> msgs_ok s \<and> roots_ok s \<and> parents_ok s \<and> deficits_ok s \<and>
     idle_ok s \<and> held_ok X s"

abbreviation ds_inv :: "ds \<Rightarrow> bool" where
  "ds_inv \<equiv> ds_inv_but {}"

lemma ds_inv_butI:
  "0 < ds_world s \<Longrightarrow> msgs_ok s \<Longrightarrow> roots_ok s \<Longrightarrow> parents_ok s \<Longrightarrow> deficits_ok s \<Longrightarrow>
   idle_ok s \<Longrightarrow> held_ok X s \<Longrightarrow> ds_inv_but X s"
  by (simp add: ds_inv_but_def)

lemma ds_inv_butD:
  assumes "ds_inv_but X s"
  shows "0 < ds_world s" "msgs_ok s" "roots_ok s" "parents_ok s" "deficits_ok s" "idle_ok s" "held_ok X s"
  using assms by (simp_all add: ds_inv_but_def)

lemma kids_finite [simp]: "finite (kids n D p)"
  by (rule finite_subset [of _ "{0..<n}"]) (auto simp: kids_def in_world_def)

lemma kids_empty_iff: "card (kids n D p) = 0 \<longleftrightarrow> (\<forall>q. in_world n q \<longrightarrow> td_parent (D q) \<noteq> p)"
  by (simp add: card_eq_0_iff) (auto simp: kids_def)

lemma owed_nonneg: "0 \<le> owed s p"
  by (simp add: owed_def)

lemma in_world_not_NO_PARENT [simp]: "in_world n p \<Longrightarrow> p \<noteq> NO_PARENT" "\<not> in_world n NO_PARENT"
  by (auto simp: in_world_def NO_PARENT_def)

lemma in_world_zero: "0 < n \<Longrightarrow> in_world n 0"
  by (simp add: in_world_def)

section \<open>The first state\<close>

lemma ds_init_inv: "0 < n \<Longrightarrow> ds_inv (ds_init n)"
  by (rule ds_inv_butI)
    (auto simp: ds_init_def msgs_ok_def roots_ok_def parents_ok_def deficits_ok_def idle_ok_def
      held_ok_def owed_def kids_empty_iff)

section \<open>Sending a task\<close>

lemma ds_send_world [simp]: "ds_world (ds_send s p q) = ds_world s"
  by (simp add: ds_send_def)

lemma linked_cong_parents:
  assumes "linked D q" and "\<And>r. td_parent (D' r) = td_parent (D r)"
  shows "linked D' q"
  using assms(1)
proof induction
  case root
  show ?case by (rule linked.root)
next
  case (child q)
  then show ?case using assms(2) [of q] by (metis linked.child)
qed

lemma kids_cong_parents:
  "(\<And>r. td_parent (D' r) = td_parent (D r)) \<Longrightarrow> kids n D' p = kids n D p"
  by (simp add: kids_def)

lemma ds_send_inv:
  assumes inv: "ds_inv s" and act: "ds_active s p"
    and p: "in_world (ds_world s) p" and q: "in_world (ds_world s) q"
  shows "ds_inv (ds_send s p q)"
proof -
  note i = ds_inv_butD [OF inv]
  let ?t = "ds_send s p q"
  have par: "\<And>r. td_parent (ds_dets ?t r) = td_parent (ds_dets s r)"
    by (simp add: ds_send_def)
  have kids: "\<And>r. kids (ds_world s) (ds_dets ?t) r = kids (ds_world s) (ds_dets s) r"
    by (rule kids_cong_parents) (rule par)
  show ?thesis
  proof (rule ds_inv_butI)
    show "0 < ds_world ?t" using i(1) by simp
    show "msgs_ok ?t" using i(2) p q by (auto simp: msgs_ok_def ds_send_def)
    show "roots_ok ?t" using i(3) by (auto simp: roots_ok_def ds_send_def)
    show "parents_ok ?t"
      using i(4) linked_cong_parents [OF _ par] by (simp add: parents_ok_def par)
    show "deficits_ok ?t"
      using i(5) kids by (auto simp: deficits_ok_def owed_def) (auto simp: ds_send_def)
    show "idle_ok ?t" using i(6) act by (auto simp: idle_ok_def ds_send_def)
    have "td_deficit (ds_dets s p) = owed s p"
      using i(5) p by (simp add: deficits_ok_def)
    then show "held_ok {} ?t"
      using i(7) owed_nonneg [of s p] by (auto simp: held_ok_def ds_send_def)
  qed
qed

section \<open>Receiving a task\<close>

lemma owed_sender_linked:
  assumes inv: "ds_inv_but X s" and p: "in_world (ds_world s) p" and o: "0 < owed s p"
  shows "linked (ds_dets s) p"
proof (cases "p = 0")
  case True
  then show ?thesis by (simp add: linked.root)
next
  case False
  note i = ds_inv_butD [OF inv]
  from i(5) p o have "td_deficit (ds_dets s p) \<noteq> 0" by (simp add: deficits_ok_def)
  with i(6) False have "td_parent (ds_dets s p) \<noteq> NO_PARENT" by (auto simp: idle_ok_def)
  with i(4) show ?thesis by (simp add: parents_ok_def)
qed

lemma linked_engage:
  assumes "linked D x" and "td_parent (D q) = NO_PARENT" and "q \<noteq> 0"
  shows "x \<noteq> q \<and> linked (D(q := d)) x"
  using assms(1)
proof induction
  case root
  show ?case using assms(3) by (simp add: linked.root)
next
  case (child x)
  then have x: "x \<noteq> q" using assms(2) by auto
  then have e: "(D(q := d)) x = D x" by (rule fun_upd_other)
  have "linked (D(q := d)) x"
    by (rule linked.child) (use child in \<open>simp_all only: e simp_thms\<close>)
  with x show ?case by (rule conjI)
qed

lemma kids_engage:
  assumes "in_world n q" and "td_parent (D q) = NO_PARENT" and "in_world n r"
  shows "int (card (kids n (D(q := d)) r)) = int (card (kids n D r)) + (if td_parent d = r then 1 else 0)"
proof -
  have q: "q \<notin> kids n D r" using assms by (auto simp: kids_def)
  have "kids n (D(q := d)) r = (if td_parent d = r then insert q (kids n D r) else kids n D r)"
    using assms q by (auto simp: kids_def)
  with q show ?thesis by simp
qed

lemma ds_receive_world [simp]: "ds_world (ds_receive s p q) = ds_world s"
  by (simp add: ds_receive_def split: prod.split)

lemma ds_receive_again:
  assumes "td_is_root (ds_dets s q) \<or> td_parent (ds_dets s q) \<noteq> NO_PARENT"
  shows "ds_receive s p q = s\<lparr>ds_active := (ds_active s)(q := True),
    ds_tasks := ds_tasks s - {#(p, q)#}, ds_acks := add_mset (q, p) (ds_acks s)\<rparr>"
  by (simp add: ds_receive_def on_task_received_engaged [OF assms])

lemma ds_receive_first:
  assumes "\<not> td_is_root (ds_dets s q)" and "td_parent (ds_dets s q) = NO_PARENT"
  shows "ds_receive s p q = s\<lparr>ds_dets := (ds_dets s)(q := (ds_dets s q)\<lparr>td_parent := p\<rparr>),
    ds_active := (ds_active s)(q := True), ds_tasks := ds_tasks s - {#(p, q)#}\<rparr>"
  by (simp add: ds_receive_def on_task_received_fresh [OF assms])

lemma ds_receive_again_inv:
  assumes inv: "ds_inv s" and m: "(p, q) \<in># ds_tasks s"
    and e: "td_is_root (ds_dets s q) \<or> td_parent (ds_dets s q) \<noteq> NO_PARENT"
  shows "ds_inv (ds_receive s p q)"
proof -
  note i = ds_inv_butD [OF inv]
  show ?thesis
    unfolding ds_receive_again [OF e]
  proof (rule ds_inv_butI, goal_cases)
    case 2 show ?case using i(2) m by (auto simp: msgs_ok_def dest: in_diffD)
  next
    case 5 show ?case using i(5) m by (auto simp: deficits_ok_def owed_def tally_remove)
  next
    case 6 show ?case using i(3,6) e by (auto simp: idle_ok_def roots_ok_def)
  next
    case 7 show ?case using i(7) by (auto simp: held_ok_def)
  qed (use i(1,3,4) in \<open>simp_all add: roots_ok_def parents_ok_def\<close>)
qed

lemma ds_receive_first_inv:
  assumes inv: "ds_inv s" and m: "(p, q) \<in># ds_tasks s"
    and r: "\<not> td_is_root (ds_dets s q)" and f: "td_parent (ds_dets s q) = NO_PARENT"
  shows "ds_inv (ds_receive s p q)"
proof -
  note i = ds_inv_butD [OF inv]
  let ?D = "(ds_dets s)(q := (ds_dets s q)\<lparr>td_parent := p\<rparr>)"
  from i(2) m have p: "in_world (ds_world s) p" and q: "in_world (ds_world s) q"
    by (auto simp: msgs_ok_def)
  from r i(3) have q0: "q \<noteq> 0" by (auto simp: roots_ok_def)
  from m have "0 < owed s p" using tally_pos [OF m, of "\<lambda>m. fst m = p"]
    by (simp add: owed_def add_pos_nonneg)
  then have lp: "linked (ds_dets s) p" by (rule owed_sender_linked [OF inv p])
  have lp': "p \<noteq> q" "linked ?D p" using linked_engage [OF lp f q0] by auto
  have lq: "linked ?D q" using lp' p q0 linked.child [of ?D q] by simp
  show ?thesis
    unfolding ds_receive_first [OF r f]
  proof (rule ds_inv_butI, goal_cases)
    case 2 show ?case using i(2) by (auto simp: msgs_ok_def dest: in_diffD)
  next
    case 3 show ?case using i(3) q0 by (auto simp: roots_ok_def)
  next
    case 4 show ?case
    proof -
      have "linked ?D x" if "td_parent (ds_dets s x) \<noteq> NO_PARENT" for x
        using linked_engage [of "ds_dets s" x q, OF _ f q0] that i(4) unfolding parents_ok_def by blast
      then show ?thesis using i(4) p q lq by (simp add: parents_ok_def)
    qed
  next
    case 5 show ?case
      using i(5) m kids_engage [of _ q "ds_dets s", OF q f] by (auto simp: deficits_ok_def owed_def tally_remove)
  next
    case 6 show ?case using i(6) p by (auto simp: idle_ok_def)
  next
    case 7 show ?case using i(7) by (auto simp: held_ok_def)
  qed (use i(1) in simp_all)
qed

lemma ds_receive_inv: "ds_inv s \<Longrightarrow> (p, q) \<in># ds_tasks s \<Longrightarrow> ds_inv (ds_receive s p q)"
  using ds_receive_again_inv ds_receive_first_inv by blast

section \<open>Becoming passive\<close>

lemma ds_passive_world [simp]: "ds_world (ds_passive s p) = ds_world s"
  by (simp add: ds_passive_def split: prod.split)

lemma ds_passive_held:
  "td_deficit (ds_dets s p) \<noteq> 0 \<or> td_parent (ds_dets s p) = NO_PARENT \<Longrightarrow> ds_passive s p = s"
  by (simp add: ds_passive_def on_passive_held)

lemma ds_passive_release:
  assumes "td_deficit (ds_dets s p) = 0" and "td_parent (ds_dets s p) \<noteq> NO_PARENT"
  shows "ds_passive s p = s\<lparr>ds_dets := (ds_dets s)(p := (ds_dets s p)\<lparr>td_parent := NO_PARENT\<rparr>),
    ds_acks := add_mset (p, td_parent (ds_dets s p)) (ds_acks s)\<rparr>"
  by (simp add: ds_passive_def on_passive_release [OF assms])

lemma linked_release:
  assumes "linked D x" and "x \<noteq> p" and "\<And>y. td_parent (D y) \<noteq> p"
  shows "linked (D(p := d)) x"
  using assms(1,2)
proof induction
  case root
  show ?case by (rule linked.root)
next
  case (child x)
  then have e: "(D(p := d)) x = D x" by (intro fun_upd_other)
  have l: "linked (D(p := d)) (td_parent (D x))" by (rule child.IH) (rule assms(3))
  show ?case
    by (rule linked.child) (use child l in \<open>simp_all only: e simp_thms\<close>)
qed

lemma kids_release:
  assumes "in_world n p" and "in_world n r"
  shows "int (card (kids n (D(p := (D p)\<lparr>td_parent := NO_PARENT\<rparr>)) r)) =
    int (card (kids n D r)) - (if td_parent (D p) = r then 1 else 0)"
proof -
  have "kids n (D(p := (D p)\<lparr>td_parent := NO_PARENT\<rparr>)) r = kids n D r - {p}"
    using assms by (auto simp: kids_def)
  moreover have "p \<in> kids n D r \<longleftrightarrow> td_parent (D p) = r" using assms by (simp add: kids_def)
  ultimately show ?thesis using card_loss [of "kids n D r" p] by simp
qed

lemma ds_passive_inv:
  assumes inv: "ds_inv_but {p} s" and idle: "\<not> ds_active s p \<or> p = 0"
  shows "ds_inv (ds_passive s p)"
proof (cases "td_deficit (ds_dets s p) \<noteq> 0 \<or> td_parent (ds_dets s p) = NO_PARENT")
  case True
  have "held_ok {} s"
    unfolding held_ok_def
  proof (intro allI impI, goal_cases)
    case (1 q)
    then show ?case using ds_inv_butD(7) [OF inv] True by (cases "q = p") (auto simp: held_ok_def)
  qed
  then show ?thesis
    using inv unfolding ds_passive_held [OF True] by (simp add: ds_inv_but_def)
next
  case False
  then have d: "td_deficit (ds_dets s p) = 0" and pa: "td_parent (ds_dets s p) \<noteq> NO_PARENT"
    by auto
  note i = ds_inv_butD [OF inv]
  let ?D = "(ds_dets s)(p := (ds_dets s p)\<lparr>td_parent := NO_PARENT\<rparr>)"
  let ?a = "td_parent (ds_dets s p)"
  from i(4) pa have a: "in_world (ds_world s) ?a" and p: "in_world (ds_world s) p"
    by (auto simp: parents_ok_def)
  from pa i(3) have p0: "p \<noteq> 0" by (auto simp: roots_ok_def)
  from i(5) p d have "owed s p = 0" by (simp add: deficits_ok_def)
  then have "card (kids (ds_world s) (ds_dets s) p) = 0"
    using tally_nonneg [of "\<lambda>m. fst m = p" "ds_tasks s"] tally_nonneg [of "\<lambda>m. snd m = p" "ds_acks s"]
    unfolding owed_def by linarith
  then have k: "in_world (ds_world s) y \<Longrightarrow> td_parent (ds_dets s y) \<noteq> p" for y
    unfolding kids_empty_iff by blast
  have nokids: "td_parent (ds_dets s y) \<noteq> p" for y
    using k [of y] i(4) in_world_not_NO_PARENT(1) [OF p] unfolding parents_ok_def by metis
  show ?thesis
    unfolding ds_passive_release [OF d pa]
  proof (rule ds_inv_butI, goal_cases)
    case 2 show ?case using i(2) a p by (auto simp: msgs_ok_def)
  next
    case 3 show ?case using i(3) p0 by (auto simp: roots_ok_def)
  next
    case 4 show ?case
    proof -
      have "linked ?D x" if "td_parent (ds_dets s x) \<noteq> NO_PARENT" "x \<noteq> p" for x
      proof (rule linked_release [of "ds_dets s" x p])
        show "linked (ds_dets s) x" using that(1) i(4) unfolding parents_ok_def by blast
      qed (rule that(2), rule nokids)
      then show ?thesis using i(4) by (simp add: parents_ok_def)
    qed
  next
    case 5 show ?case
      using i(5) kids_release [of _ p _ "ds_dets s", OF p] by (auto simp: deficits_ok_def owed_def)
  next
    case 6 show ?case using i(6) idle p0 d by (auto simp: idle_ok_def)
  next
    case 7 show ?case using i(7) by (auto simp: held_ok_def)
  qed (use i(1) in simp_all)
qed

lemma ds_finish_inv:
  assumes inv: "ds_inv s"
  shows "ds_inv (ds_finish s p)"
  unfolding ds_finish_def
proof (rule ds_passive_inv)
  show "ds_inv_but {p} (s\<lparr>ds_active := (ds_active s)(p := False)\<rparr>)"
    using inv by (auto simp: ds_inv_but_def msgs_ok_def roots_ok_def parents_ok_def deficits_ok_def
        owed_def idle_ok_def held_ok_def)
qed simp

section \<open>Taking an acknowledgement\<close>

lemma ds_ack_expected:
  assumes inv: "ds_inv s" and m: "(q, p) \<in># ds_acks s"
  shows "0 < td_deficit (ds_dets s p)" "in_world (ds_world s) p"
proof -
  note i = ds_inv_butD [OF inv]
  from i(2) m show p: "in_world (ds_world s) p" by (auto simp: msgs_ok_def)
  have "0 < owed s p" using tally_pos [OF m, of "\<lambda>m. snd m = p"]
    by (simp add: owed_def add_pos_nonneg add_nonneg_pos)
  with i(5) p show "0 < td_deficit (ds_dets s p)" by (simp add: deficits_ok_def)
qed

lemma ds_take_ack_world [simp]: "ds_world (ds_take_ack s q p) = ds_world s"
  by (simp add: ds_take_ack_def)

lemma ds_take_ack_inv:
  assumes inv: "ds_inv s" and m: "(q, p) \<in># ds_acks s"
  shows "ds_inv_but {p} (ds_take_ack s q p)"
proof -
  note i = ds_inv_butD [OF inv]
  let ?t = "ds_take_ack s q p"
  have d: "0 < td_deficit (ds_dets s p)" by (rule ds_ack_expected [OF inv m])
  have t: "?t = s\<lparr>ds_dets := (ds_dets s)(p := (ds_dets s p)\<lparr>td_deficit := td_deficit (ds_dets s p) - 1\<rparr>),
                 ds_acks := ds_acks s - {#(q, p)#}\<rparr>"
    using d by (simp add: ds_take_ack_def on_ack_received_expected)
  have par: "\<And>r. td_parent (ds_dets ?t r) = td_parent (ds_dets s r)"
    by (simp add: t)
  have kids: "\<And>r. kids (ds_world s) (ds_dets ?t) r = kids (ds_world s) (ds_dets s) r"
    by (rule kids_cong_parents) (rule par)
  show ?thesis
  proof (rule ds_inv_butI)
    show "0 < ds_world ?t" using i(1) by simp
    show "msgs_ok ?t" using i(2) by (auto simp: msgs_ok_def t dest: in_diffD)
    show "roots_ok ?t" using i(3) by (auto simp: roots_ok_def t)
    show "parents_ok ?t"
      using i(4) linked_cong_parents [OF _ par] by (simp add: parents_ok_def par)
    show "deficits_ok ?t"
      using i(5) m kids by (auto simp: deficits_ok_def owed_def) (auto simp: t tally_remove)
    show "idle_ok ?t" using i(6) d by (auto simp: idle_ok_def t)
    show "held_ok {p} ?t" using i(7) by (auto simp: held_ok_def t)
  qed
qed

lemma ds_ack_inv:
  assumes "ds_inv s" and "(q, p) \<in># ds_acks s" and "\<not> ds_active s p \<or> p = 0"
  shows "ds_inv (ds_ack s q p)"
  unfolding ds_ack_def
  by (rule ds_passive_inv [OF ds_take_ack_inv]) (use assms in \<open>auto simp: ds_take_ack_def\<close>)

section \<open>Every reachable state\<close>

lemma ds_step_inv: "ds_step s t \<Longrightarrow> ds_inv s \<Longrightarrow> ds_inv t"
  by (induction rule: ds_step.induct) (auto intro: ds_send_inv ds_receive_inv ds_finish_inv ds_ack_inv)

lemma ds_reachable_inv: "ds_reachable n s \<Longrightarrow> 0 < n \<Longrightarrow> ds_inv s"
  by (induction rule: ds_reachable.induct) (auto intro: ds_init_inv ds_step_inv)

section \<open>What the root may conclude\<close>

lemma unlinked_when_root_free:
  assumes inv: "ds_inv s" and d: "td_deficit (ds_dets s 0) = 0"
  shows "td_parent (ds_dets s q) = NO_PARENT"
proof (rule ccontr)
  note i = ds_inv_butD [OF inv]
  have "owed s 0 = 0" using i(1,5) d by (simp add: deficits_ok_def in_world_zero)
  then have "card (kids (ds_world s) (ds_dets s) 0) = 0"
    using tally_nonneg [of "\<lambda>m. fst m = 0" "ds_tasks s"] tally_nonneg [of "\<lambda>m. snd m = 0" "ds_acks s"]
    unfolding owed_def by linarith
  then have k: "in_world (ds_world s) y \<Longrightarrow> td_parent (ds_dets s y) \<noteq> 0" for y
    unfolding kids_empty_iff by blast
  have only: "linked (ds_dets s) x \<Longrightarrow> x = 0" for x
  proof (induction rule: linked.induct)
    case (child x)
    then have "in_world (ds_world s) x" using i(4) unfolding parents_ok_def by blast
    from k [OF this] child show ?case by simp
  qed simp
  assume "td_parent (ds_dets s q) \<noteq> NO_PARENT"
  moreover from this have "linked (ds_dets s) q" using i(4) unfolding parents_ok_def by blast
  then have "q = 0" by (rule only)
  ultimately show False using i(3) by (simp add: roots_ok_def)
qed

lemma ds_terminated:
  assumes inv: "ds_inv s" and d: "td_deficit (ds_dets s 0) = 0"
  shows "ds_tasks s = {#}" "ds_acks s = {#}"
    "in_world (ds_world s) q \<Longrightarrow> is_quiescent (ds_dets s q)"
    "q \<noteq> 0 \<Longrightarrow> \<not> ds_active s q"
proof -
  note i = ds_inv_butD [OF inv]
  note par = unlinked_when_root_free [OF inv d]
  show "q \<noteq> 0 \<Longrightarrow> \<not> ds_active s q" for q using i(6) par by (simp add: idle_ok_def)
  have zero: "td_deficit (ds_dets s q) = 0" for q
    using i(6) par d by (cases "q = 0") (simp_all add: idle_ok_def)
  then show "in_world (ds_world s) q \<Longrightarrow> is_quiescent (ds_dets s q)" for q
    using par by (simp add: is_quiescent_def)
  have o: "in_world (ds_world s) p \<Longrightarrow> owed s p = 0" for p
    using i(5) zero [of p] by (simp add: deficits_ok_def)
  show "ds_tasks s = {#}"
  proof (rule multiset_eqI, rule ccontr)
    fix m assume "count (ds_tasks s) m \<noteq> count {#} m"
    then have m: "m \<in># ds_tasks s" by (auto simp: not_in_iff)
    have "0 < tally (\<lambda>k. fst k = fst m) (ds_tasks s)" by (rule tally_pos [OF m]) simp
    then have "0 < owed s (fst m)" by (simp add: owed_def add_pos_nonneg)
    moreover have "in_world (ds_world s) (fst m)" using i(2) m by (cases m) (auto simp: msgs_ok_def)
    ultimately show False using o [of "fst m"] by simp
  qed
  show "ds_acks s = {#}"
  proof (rule multiset_eqI, rule ccontr)
    fix m assume "count (ds_acks s) m \<noteq> count {#} m"
    then have m: "m \<in># ds_acks s" by (auto simp: not_in_iff)
    have "0 < tally (\<lambda>k. snd k = snd m) (ds_acks s)" by (rule tally_pos [OF m]) simp
    then have "0 < owed s (snd m)" by (simp add: owed_def add_pos_nonneg add_nonneg_pos)
    moreover have "in_world (ds_world s) (snd m)" using i(2) m by (cases m) (auto simp: msgs_ok_def)
    ultimately show False using o [of "snd m"] by simp
  qed
qed

text \<open>
  The other direction: when nothing is left to do and nothing is in transit, the root knows. Were
  its deficit positive, every engaged rank and the root would have an engaged child of its own,
  which is one child too many.
\<close>

lemma ds_quiet_detected:
  assumes inv: "ds_inv s" and quiet: "\<And>q. \<not> ds_active s q" "ds_tasks s = {#}" "ds_acks s = {#}"
  shows "td_deficit (ds_dets s 0) = 0"
proof (rule ccontr)
  assume d: "td_deficit (ds_dets s 0) \<noteq> 0"
  note i = ds_inv_butD [OF inv]
  let ?E = "{q. in_world (ds_world s) q \<and> td_parent (ds_dets s q) \<noteq> NO_PARENT}"
  let ?par = "\<lambda>q. td_parent (ds_dets s q)"
  have fin: "finite ?E" by (rule finite_subset [of _ "{0..<ds_world s}"]) (auto simp: in_world_def)
  have child: "\<exists>y \<in> ?E. ?par y = x" if "in_world (ds_world s) x" "td_deficit (ds_dets s x) \<noteq> 0" for x
  proof -
    have "card (kids (ds_world s) (ds_dets s) x) \<noteq> 0"
      using i(5) that quiet(2,3) by (simp add: deficits_ok_def owed_def)
    then show ?thesis using that(1) unfolding kids_empty_iff by auto
  qed
  have "insert 0 ?E \<subseteq> ?par ` ?E"
  proof
    fix x assume "x \<in> insert 0 ?E"
    then have "in_world (ds_world s) x \<and> td_deficit (ds_dets s x) \<noteq> 0"
      using d i(1,7) quiet(1) in_world_zero by (auto simp: held_ok_def)
    then show "x \<in> ?par ` ?E" using child [of x] by blast
  qed
  then have "card (insert 0 ?E) \<le> card ?E"
    using fin by (meson card_image_le card_mono finite_imageI order_trans)
  moreover have "0 \<notin> ?E" using i(3) by (simp add: roots_ok_def)
  ultimately show False using fin by simp
qed

end
