(* ===== verification/Byte_Codec.thy ===== *)
theory Byte_Codec
  imports Gempba_Prelude "HOL-Library.Word"
begin

text \<open>
  The object representation of unsigned integers on the little-endian targets of the library:
  \<open>le_bytes n x\<close> is what \<open>std::memcpy\<close> copies out of an \<open>n\<close>-byte integer with the value \<open>x\<close>, and
  \<open>le_nat\<close> reads it back.
\<close>

type_synonym byte = "8 word"

fun le_bytes :: "nat \<Rightarrow> nat \<Rightarrow> byte list" where
  "le_bytes 0 x = []"
| "le_bytes (Suc n) x = word_of_nat x # le_bytes n (x div 256)"

fun le_nat :: "byte list \<Rightarrow> nat" where
  "le_nat [] = 0"
| "le_nat (b # bs) = unat b + 256 * le_nat bs"

lemma length_le_bytes [simp]: "length (le_bytes n x) = n"
  by (induction n arbitrary: x) simp_all

lemma unat_byte_of_nat: "unat (word_of_nat x :: byte) = x mod 256"
  by (simp add: unat_of_nat)

lemma le_nat_le_bytes: "le_nat (le_bytes n x) = x mod 256 ^ n"
proof (induction n arbitrary: x)
  case 0
  show ?case by simp
next
  case (Suc n)
  have "x mod 256 + 256 * (x div 256 mod 256 ^ n) = x mod 256 ^ Suc n"
    by (simp add: mod_mult2_eq)
  with Suc show ?case by (simp add: unat_byte_of_nat)
qed

lemma unat_byte_less: "unat (b :: byte) < 256"
  using unsigned_less [of b] by simp

lemma le_nat_less: "le_nat bs < 256 ^ length bs"
proof (induction bs)
  case Nil
  show ?case by simp
next
  case (Cons b bs)
  have "unat b + 256 * le_nat bs < 256 + 256 * le_nat bs" using unat_byte_less [of b] by simp
  also have "\<dots> \<le> 256 * 256 ^ length bs" using Cons by simp
  finally show ?case by simp
qed

lemma le_bytes_le_nat: "le_bytes (length bs) (le_nat bs) = bs"
proof (induction bs)
  case Nil
  show ?case by simp
next
  case (Cons b bs)
  have "(unat b + 256 * le_nat bs) div 256 = le_nat bs" using unat_byte_less [of b] by simp
  moreover have "word_of_nat (unat b + 256 * le_nat bs) = b"
    by (rule word_unat_eq_iff [THEN iffD2]) (use unat_byte_less [of b] in \<open>simp add: unat_byte_of_nat del: of_nat_add\<close>)
  ultimately show ?case using Cons by simp
qed

text \<open>A whole word.\<close>

definition word_bytes :: "'a::len word \<Rightarrow> byte list" where
  "word_bytes w = le_bytes (LENGTH('a) div 8) (unat w)"

definition bytes_word :: "byte list \<Rightarrow> 'a::len word" where
  "bytes_word bs = word_of_nat (le_nat bs)"

lemma length_word_bytes [simp]: "length (word_bytes (w :: 'a::len word)) = LENGTH('a) div 8"
  by (simp add: word_bytes_def)

lemma bytes_word_le_bytes:
  assumes "8 * n = LENGTH('a::len)"
  shows "bytes_word (le_bytes n (unat (w :: 'a word))) = w"
proof -
  have "(256::nat) ^ n = 2 ^ LENGTH('a)" using assms power_mult [of "2::nat" 8 n] by simp
  then show ?thesis
    using unsigned_less [of w] by (simp add: bytes_word_def le_nat_le_bytes)
qed

lemma bytes_word_word_bytes:
  "8 dvd LENGTH('a::len) \<Longrightarrow> bytes_word (word_bytes (w :: 'a word)) = w"
  by (simp add: word_bytes_def bytes_word_le_bytes)

text \<open>The same on integers, which is how these conversions are evaluated.\<close>

fun int_bytes :: "nat \<Rightarrow> int \<Rightarrow> byte list" where
  "int_bytes 0 x = []"
| "int_bytes (Suc n) x = word_of_int x # int_bytes n (x div 256)"

fun bytes_int :: "byte list \<Rightarrow> int" where
  "bytes_int [] = 0"
| "bytes_int (b # bs) = uint b + 256 * bytes_int bs"

lemma le_bytes_int: "le_bytes n x = int_bytes n (int x)"
proof (induction n arbitrary: x)
  case (Suc n)
  have "int_bytes (Suc n) (int x) = word_of_int (int x) # int_bytes n (int (x div 256))"
    by (simp add: zdiv_int)
  then show ?case using Suc by simp
qed simp

lemma le_nat_int: "int (le_nat bs) = bytes_int bs"
  by (induction bs) simp_all

lemma word_bytes_code [code]: "word_bytes (w :: 'a::len word) = int_bytes (LENGTH('a) div 8) (uint w)"
  by (simp add: word_bytes_def le_bytes_int)

lemma bytes_word_code [code]: "bytes_word bs = word_of_int (bytes_int bs)"
  by (simp add: bytes_word_def flip: le_nat_int)

end
