(* ===== verification/Score.thy ===== *)
theory Score
  imports Complex_Main Byte_Codec
begin

text \<open>
  The numeric value container of \<open>include/gempba/utils/score.hpp\<close>: a type tag and sixteen payload
  bytes. The template parameter \<open>T\<close> of the class is a \<open>score_type\<close> here, and a C++ value of one of
  the supported types is a \<open>number\<close>, which keeps the bits of the value at its width.

  A floating-point value is read from its bits as \<open>fval\<close>: a NaN, an infinity, or the dyadic number
  \<open>m * 2^e\<close>. The targets are the x86-64 ones, where \<open>long double\<close> is the 80-bit extended format in
  16 bytes, with a significand of \<open>LDBL_MANT_DIG\<close> bits to which a conversion rounds.
\<close>

datatype score_type = I32 | U_I32 | I64 | U_I64 | F32 | F64 | F128

datatype goal = MAXIMISE | MINIMISE

datatype number =
    NI32 "32 word" | NU32 "32 word" | NI64 "64 word" | NU64 "64 word"
  | NF32 "32 word" | NF64 "64 word" | NF128 "128 word"

record score =
  m_kind :: score_type
  m_payload :: "byte list"

definition PAYLOAD_SIZE :: nat where
  "PAYLOAD_SIZE = 16"

fun size_of :: "score_type \<Rightarrow> nat" where
  "size_of I32 = 4"
| "size_of U_I32 = 4"
| "size_of F32 = 4"
| "size_of I64 = 8"
| "size_of U_I64 = 8"
| "size_of F64 = 8"
| "size_of F128 = 16"

fun type_of :: "number \<Rightarrow> score_type" where
  "type_of (NI32 _) = I32"
| "type_of (NU32 _) = U_I32"
| "type_of (NI64 _) = I64"
| "type_of (NU64 _) = U_I64"
| "type_of (NF32 _) = F32"
| "type_of (NF64 _) = F64"
| "type_of (NF128 _) = F128"

text \<open>\<open>std::bit_cast\<close> of a value to its bytes, and \<open>std::memcpy\<close> of bytes into a value of type \<open>t\<close>.\<close>

fun number_bytes :: "number \<Rightarrow> byte list" where
  "number_bytes (NI32 w) = word_bytes w"
| "number_bytes (NU32 w) = word_bytes w"
| "number_bytes (NI64 w) = word_bytes w"
| "number_bytes (NU64 w) = word_bytes w"
| "number_bytes (NF32 w) = word_bytes w"
| "number_bytes (NF64 w) = word_bytes w"
| "number_bytes (NF128 w) = word_bytes w"

fun bytes_number :: "score_type \<Rightarrow> byte list \<Rightarrow> number" where
  "bytes_number I32 bs = NI32 (bytes_word bs)"
| "bytes_number U_I32 bs = NU32 (bytes_word bs)"
| "bytes_number I64 bs = NI64 (bytes_word bs)"
| "bytes_number U_I64 bs = NU64 (bytes_word bs)"
| "bytes_number F32 bs = NF32 (bytes_word bs)"
| "bytes_number F64 bs = NF64 (bytes_word bs)"
| "bytes_number F128 bs = NF128 (bytes_word bs)"

definition make_raw :: "number \<Rightarrow> score" where
  "make_raw v = \<lparr>m_kind = type_of v,
     m_payload = number_bytes v @ replicate (PAYLOAD_SIZE - size_of (type_of v)) 0\<rparr>"

fun make_score :: "number \<Rightarrow> score" where
  "make_score (NI32 w) = make_raw (NI32 w)"
| "make_score (NU32 w) = make_raw (NU32 w)"
| "make_score (NI64 w) = make_raw (NI64 w)"
| "make_score (NU64 w) = make_raw (NU64 w)"
| "make_score (NF32 w) = make_raw (NF32 w)"
| "make_score (NF64 w) = make_raw (NF64 w)"
| "make_score (NF128 w) = make_raw (NF128 w)"

definition kind :: "score \<Rightarrow> score_type" where
  "kind s = m_kind s"

definition read_as :: "score_type \<Rightarrow> score \<Rightarrow> number" where
  "read_as t s = bytes_number t (take (size_of t) (m_payload s))"

definition get :: "score_type \<Rightarrow> score \<Rightarrow> number res" where
  "get t s = (if m_kind s \<noteq> t then Inl (Thrown ''score: wrong target type'')
              else Inr (bytes_number t (take (size_of t) (m_payload s))))"

text \<open>\<open>try_get\<close> returns whether the types match and what the output variable holds afterwards.\<close>

definition try_get :: "score_type \<Rightarrow> score \<Rightarrow> number \<Rightarrow> bool \<times> number" where
  "try_get t s p_out = (if m_kind s \<noteq> t then (False, p_out)
                        else (True, bytes_number t (take (size_of t) (m_payload s))))"

text \<open>The 64-bit raw integer: \<open>memcpy\<close> of the first bytes of the payload into a zero.\<close>

fun to_raw_of :: "score_type \<Rightarrow> byte list \<Rightarrow> (64 word) res" where
  "to_raw_of I32 p = Inr (bytes_word (take 4 p @ replicate 4 0))"
| "to_raw_of U_I32 p = Inr (bytes_word (take 4 p @ replicate 4 0))"
| "to_raw_of F32 p = Inr (bytes_word (take 4 p @ replicate 4 0))"
| "to_raw_of I64 p = Inr (bytes_word (take 8 p))"
| "to_raw_of U_I64 p = Inr (bytes_word (take 8 p))"
| "to_raw_of F64 p = Inr (bytes_word (take 8 p))"
| "to_raw_of F128 p = Inl Aborted"

definition to_raw :: "score \<Rightarrow> (64 word) res" where
  "to_raw s = to_raw_of (m_kind s) (m_payload s)"

fun from_raw :: "score_type \<Rightarrow> 64 word \<Rightarrow> score res" where
  "from_raw F128 raw = Inl Aborted"
| "from_raw t raw = Inr \<lparr>m_kind = t,
     m_payload = take (size_of t) (word_bytes raw) @ replicate (PAYLOAD_SIZE - size_of t) 0\<rparr>"

section \<open>The values of floating-point bits\<close>

datatype fval = NaN | Inf bool | Fin int int

text \<open>
  \<open>ieee fb eb x\<close>: the value of the IEEE interchange format with \<open>fb\<close> fraction bits and \<open>eb\<close>
  exponent bits; \<open>x87\<close>: the 80-bit extended format, whose integer bit is explicit. The padding bytes
  of a \<open>long double\<close> carry nothing. An encoding the x87 rejects as an invalid operand is a NaN.
\<close>

definition signed_mantissa :: "bool \<Rightarrow> nat \<Rightarrow> int" where
  "signed_mantissa neg m = (if neg then - int m else int m)"

definition ieee :: "nat \<Rightarrow> nat \<Rightarrow> nat \<Rightarrow> fval" where
  "ieee fb eb x =
     (let f = x mod 2 ^ fb; e = x div 2 ^ fb mod 2 ^ eb; neg = odd (x div 2 ^ (fb + eb));
          b = int (2 ^ (eb - 1)) - 1 + int fb
      in if e = 2 ^ eb - 1 then (if f = 0 then Inf neg else NaN)
         else if e = 0 then Fin (signed_mantissa neg f) (1 - b)
         else Fin (signed_mantissa neg (2 ^ fb + f)) (int e - b))"

definition x87 :: "nat \<Rightarrow> fval" where
  "x87 x =
     (let f = x mod 2 ^ 64; e = x div 2 ^ 64 mod 2 ^ 15; neg = odd (x div 2 ^ 79)
      in if e = 2 ^ 15 - 1 then (if f = 2 ^ 63 then Inf neg else NaN)
         else if e = 0 then Fin (signed_mantissa neg f) (-16445)
         else if f < 2 ^ 63 then NaN
         else Fin (signed_mantissa neg f) (int e - 16446))"

fun number_value :: "number \<Rightarrow> fval" where
  "number_value (NI32 w) = Fin (sint w) 0"
| "number_value (NU32 w) = Fin (uint w) 0"
| "number_value (NI64 w) = Fin (sint w) 0"
| "number_value (NU64 w) = Fin (uint w) 0"
| "number_value (NF32 w) = ieee 23 8 (unat w)"
| "number_value (NF64 w) = ieee 52 11 (unat w)"
| "number_value (NF128 w) = x87 (unat w)"

text \<open>
  \<open>static_cast<long double>\<close>: a value whose significand is longer than that of the target is rounded to
  the nearest one that fits, ties to the even one. The exponents of the narrower types are in the
  range of a \<open>long double\<close>, so it neither overflows nor becomes denormal.
\<close>

definition LDBL_MANT_DIG :: nat where
  "LDBL_MANT_DIG = 64"

fun bit_length :: "nat \<Rightarrow> nat" where
  "bit_length n = (if n = 0 then 0 else Suc (bit_length (n div 2)))"

declare bit_length.simps [simp del]

definition half_even :: "nat \<Rightarrow> nat \<Rightarrow> nat" where
  "half_even k n =
     (let q = n div 2 ^ k; r = n mod 2 ^ k
      in if 2 * r < 2 ^ k \<or> 2 * r = 2 ^ k \<and> even q then q else q + 1)"

fun round_significand :: "nat \<Rightarrow> fval \<Rightarrow> fval" where
  "round_significand p (Fin m e) =
     (let n = nat (abs m); k = bit_length n - p
      in if k = 0 then Fin m e else Fin (signed_mantissa (m < 0) (half_even k n)) (e + int k))"
| "round_significand p x = x"

fun long_double_of :: "number \<Rightarrow> fval" where
  "long_double_of (NF128 w) = number_value (NF128 w)"
| "long_double_of v = round_significand LDBL_MANT_DIG (number_value v)"

definition to_long_double :: "score \<Rightarrow> fval" where
  "to_long_double s = long_double_of (read_as (m_kind s) s)"

section \<open>Comparison\<close>

text \<open>\<open>std::partial_ordering\<close>.\<close>

datatype ordering = Less | Equivalent | Greater | Unordered

definition int_order :: "int \<Rightarrow> int \<Rightarrow> ordering" where
  "int_order a b = (if a < b then Less else if a = b then Equivalent else Greater)"

definition scale_to :: "int \<Rightarrow> int \<Rightarrow> int \<Rightarrow> int" where
  "scale_to e0 m e = m * 2 ^ nat (e - e0)"

fun fval_order :: "fval \<Rightarrow> fval \<Rightarrow> ordering" where
  "fval_order NaN y = Unordered"
| "fval_order x NaN = Unordered"
| "fval_order (Inf n) (Inf n') = (if n = n' then Equivalent else if n then Less else Greater)"
| "fval_order (Inf n) (Fin m e) = (if n then Less else Greater)"
| "fval_order (Fin m e) (Inf n) = (if n then Greater else Less)"
| "fval_order (Fin m e) (Fin m' e') = int_order (scale_to (min e e') m e) (scale_to (min e e') m' e')"

text \<open>The comparison \<open>a <=> b\<close> of two values of the same C++ type.\<close>

fun number_order :: "number \<Rightarrow> number \<Rightarrow> ordering" where
  "number_order (NI32 a) (NI32 b) = (if a <s b then Less else if a = b then Equivalent else Greater)"
| "number_order (NU32 a) (NU32 b) = (if a < b then Less else if a = b then Equivalent else Greater)"
| "number_order (NI64 a) (NI64 b) = (if a <s b then Less else if a = b then Equivalent else Greater)"
| "number_order (NU64 a) (NU64 b) = (if a < b then Less else if a = b then Equivalent else Greater)"
| "number_order a b = fval_order (number_value a) (number_value b)"

fun number_eq :: "number \<Rightarrow> number \<Rightarrow> bool" where
  "number_eq (NI32 a) (NI32 b) \<longleftrightarrow> a = b"
| "number_eq (NU32 a) (NU32 b) \<longleftrightarrow> a = b"
| "number_eq (NI64 a) (NI64 b) \<longleftrightarrow> a = b"
| "number_eq (NU64 a) (NU64 b) \<longleftrightarrow> a = b"
| "number_eq a b \<longleftrightarrow> fval_order (number_value a) (number_value b) = Equivalent"

definition score_order :: "score \<Rightarrow> score \<Rightarrow> ordering" where
  "score_order a b =
     (if m_kind a = m_kind b then number_order (read_as (m_kind a) a) (read_as (m_kind a) b)
      else fval_order (to_long_double a) (to_long_double b))"

definition score_eq :: "score \<Rightarrow> score \<Rightarrow> bool" where
  "score_eq a b = (if m_kind a \<noteq> m_kind b then False
                   else number_eq (read_as (m_kind a) a) (read_as (m_kind a) b))"

text \<open>\<open>should_update\<close> of both schedulers and of the node manager.\<close>

definition should_update :: "goal \<Rightarrow> score \<Rightarrow> score \<Rightarrow> bool" where
  "should_update g old new \<longleftrightarrow>
     (g = MAXIMISE \<and> score_order new old = Greater) \<or> (g = MINIMISE \<and> score_order new old = Less)"

definition should_update_global :: "goal \<Rightarrow> score \<Rightarrow> score \<Rightarrow> bool" where
  "should_update_global g p_global p_local = should_update g p_global p_local"

definition should_update_local :: "goal \<Rightarrow> score \<Rightarrow> score \<Rightarrow> bool" where
  "should_update_local g p_global p_local = should_update g p_local p_global"

definition should_broadcast_global :: "goal \<Rightarrow> score \<Rightarrow> score \<Rightarrow> bool" where
  "should_broadcast_global g old new = should_update g old new"

text \<open>
  \<open>get_loose\<close> to an integral type: an integer is converted modulo the width of the target; a
  floating-point value is truncated towards zero, which is undefined when the target cannot hold it.
  The targets of the class are the types of \<open>score_type\<close>; a floating-point target is not modelled.
\<close>

fun fits :: "score_type \<Rightarrow> int \<Rightarrow> bool" where
  "fits I32 v \<longleftrightarrow> - (2 ^ 31) \<le> v \<and> v < 2 ^ 31"
| "fits U_I32 v \<longleftrightarrow> 0 \<le> v \<and> v < 2 ^ 32"
| "fits I64 v \<longleftrightarrow> - (2 ^ 63) \<le> v \<and> v < 2 ^ 63"
| "fits U_I64 v \<longleftrightarrow> 0 \<le> v \<and> v < 2 ^ 64"
| "fits t v \<longleftrightarrow> False"

fun integral_number :: "score_type \<Rightarrow> int \<Rightarrow> number" where
  "integral_number I32 v = NI32 (word_of_int v)"
| "integral_number U_I32 v = NU32 (word_of_int v)"
| "integral_number I64 v = NI64 (word_of_int v)"
| "integral_number t v = NU64 (word_of_int v)"

fun truncated :: "fval \<Rightarrow> int option" where
  "truncated NaN = None"
| "truncated (Inf n) = None"
| "truncated (Fin m e) = Some (if 0 \<le> e then m * 2 ^ nat e
                              else if 0 \<le> m then m div 2 ^ nat (- e) else - ((- m) div 2 ^ nat (- e)))"

fun convert_to :: "score_type \<Rightarrow> number \<Rightarrow> number res" where
  "convert_to t (NI32 w) = Inr (integral_number t (sint w))"
| "convert_to t (NU32 w) = Inr (integral_number t (uint w))"
| "convert_to t (NI64 w) = Inr (integral_number t (sint w))"
| "convert_to t (NU64 w) = Inr (integral_number t (uint w))"
| "convert_to t v = (case truncated (number_value v) of None \<Rightarrow> Inl Undefined
                     | Some i \<Rightarrow> if fits t i then Inr (integral_number t i) else Inl Undefined)"

definition get_loose :: "score_type \<Rightarrow> score \<Rightarrow> number res" where
  "get_loose t s = convert_to t (read_as (m_kind s) s)"

section \<open>Default scores\<close>

text \<open>
  \<open>utils::get_default_score\<close> (\<open>include/gempba/utils/utils.hpp\<close>), with the limits of \<open>climits\<close> and
  \<open>cfloat\<close> given by their bits. The message shows the enumerator's number.
\<close>

fun score_type_index :: "score_type \<Rightarrow> string" where
  "score_type_index I32 = ''0''"
| "score_type_index U_I32 = ''1''"
| "score_type_index I64 = ''2''"
| "score_type_index U_I64 = ''3''"
| "score_type_index F32 = ''4''"
| "score_type_index F64 = ''5''"
| "score_type_index F128 = ''6''"

fun get_default_score :: "goal \<Rightarrow> score_type \<Rightarrow> score res" where
  "get_default_score g I32 =
     Inr (if g = MAXIMISE then make_score (NI32 0x80000000) else make_score (NI32 0x7FFFFFFF))"
| "get_default_score g I64 =
     Inr (if g = MAXIMISE then make_score (NI64 0x8000000000000000) else make_score (NI64 0x7FFFFFFFFFFFFFFF))"
| "get_default_score g F32 =
     Inr (if g = MAXIMISE then make_score (NF32 0x00800000) else make_score (NF32 0x7F7FFFFF))"
| "get_default_score g F64 =
     Inr (if g = MAXIMISE then make_score (NF64 0x0010000000000000) else make_score (NF64 0x7FEFFFFFFFFFFFFF))"
| "get_default_score g F128 =
     Inr (if g = MAXIMISE then make_score (NF128 0x00018000000000000000)
          else make_score (NF128 0x7FFEFFFFFFFFFFFFFFFF))"
| "get_default_score g t = Inl (Thrown (''Invalid score type: '' @ score_type_index t))"

section \<open>Reading back what was stored\<close>

lemma length_number_bytes [simp]: "length (number_bytes v) = size_of (type_of v)"
  by (cases v) simp_all

lemma size_of_le [simp]: "size_of t \<le> PAYLOAD_SIZE"
  by (cases t) (simp_all add: PAYLOAD_SIZE_def)

lemma bytes_number_bytes [simp]: "bytes_number (type_of v) (number_bytes v) = v"
  by (cases v) (simp_all add: bytes_word_word_bytes)

lemma type_of_bytes_number [simp]: "type_of (bytes_number t bs) = t"
  by (cases t) simp_all

lemma make_make_raw: "make_score v = make_raw v"
  by (cases v) simp_all

lemma make_sel [simp]:
  "m_kind (make_score v) = type_of v" "length (m_payload (make_score v)) = PAYLOAD_SIZE"
  by (simp_all add: make_make_raw make_raw_def)

lemma take_make [simp]: "take (size_of (type_of v)) (m_payload (make_score v)) = number_bytes v"
  by (simp add: make_make_raw make_raw_def)

lemma read_as_make [simp]: "type_of v = t \<Longrightarrow> read_as t (make_score v) = v"
  by (auto simp: read_as_def)

text \<open>
  Converting to \<open>long double\<close> does not round: 64 bits hold every integer of the class and the
  significand of every narrower float.
\<close>

lemma bit_length_le: "n < 2 ^ p \<Longrightarrow> bit_length n \<le> p"
proof (induction p arbitrary: n)
  case 0
  then show ?case by (simp add: bit_length.simps)
next
  case (Suc p)
  then have "bit_length (n div 2) \<le> p" by (intro Suc.IH) simp
  then show ?case by (simp add: bit_length.simps [of n])
qed

definition holds_significand :: "nat \<Rightarrow> fval \<Rightarrow> bool" where
  "holds_significand p x \<longleftrightarrow> (\<forall>m e. x = Fin m e \<longrightarrow> abs m < 2 ^ p)"

lemma round_significand_id: "holds_significand p x \<Longrightarrow> round_significand p x = x"
proof (cases x)
  case (Fin m e)
  assume "holds_significand p x"
  then have "nat (abs m) < 2 ^ p" using Fin by (simp add: holds_significand_def nat_less_iff)
  from bit_length_le [OF this] show ?thesis by (simp add: Fin)
qed simp_all

lemma ieee_significand: "holds_significand (Suc fb) (ieee fb eb x)"
proof -
  define f where "f = x mod 2 ^ fb"
  have "f < 2 ^ fb" by (simp add: f_def)
  then have "int f < 2 ^ fb" by (metis of_nat_less_iff of_nat_numeral of_nat_power)
  moreover have "0 < (2::int) ^ fb" "int (2 ^ fb + f) = 2 ^ fb + int f" by simp_all
  ultimately have "int f < 2 * 2 ^ fb" "int (2 ^ fb + f) < 2 * 2 ^ fb" by linarith+
  moreover have "abs (signed_mantissa neg k) = int k" for neg k by (simp add: signed_mantissa_def)
  ultimately have "abs (signed_mantissa neg f) < 2 * 2 ^ fb" "abs (signed_mantissa neg (2 ^ fb + f)) < 2 * 2 ^ fb" for neg
    by (simp_all only:)
  then show ?thesis
    unfolding holds_significand_def ieee_def Let_def f_def [symmetric] by simp
qed

lemma holds_significand_mono: "holds_significand p x \<Longrightarrow> p \<le> q \<Longrightarrow> holds_significand q x"
  unfolding holds_significand_def using power_increasing [of p q "2::int"] by (metis less_le_trans one_le_numeral)

lemma integer_significand:
  "holds_significand 64 (Fin (sint (v :: 32 word)) 0)" "holds_significand 64 (Fin (uint (v :: 32 word)) 0)"
  "holds_significand 64 (Fin (sint (w :: 64 word)) 0)" "holds_significand 64 (Fin (uint (w :: 64 word)) 0)"
proof -
  have v: "- 2147483648 \<le> sint v" "sint v < 2147483648" using sint_greater_eq [of v] sint_less [of v] by simp_all
  have w: "- 9223372036854775808 \<le> sint w" "sint w < 9223372036854775808"
    using sint_greater_eq [of w] sint_less [of w] by simp_all
  have u: "0 \<le> uint v" "uint v < 4294967296" "0 \<le> uint w" "uint w < 18446744073709551616"
    using uint_bounded [of v] uint_bounded [of w] by simp_all
  show "holds_significand 64 (Fin (sint v) 0)" "holds_significand 64 (Fin (uint v) 0)"
    "holds_significand 64 (Fin (sint w) 0)" "holds_significand 64 (Fin (uint w) 0)"
    using v w u by (simp_all add: holds_significand_def abs_less_iff, linarith+)
qed

lemma long_double_exact: "long_double_of v = number_value v"
  using holds_significand_mono [OF ieee_significand, of 23 64] holds_significand_mono [OF ieee_significand, of 52 64]
  by (cases v) (simp_all add: LDBL_MANT_DIG_def round_significand_id integer_significand del: round_significand.simps)

lemma to_long_double_make [simp]: "to_long_double (make_score v) = number_value v"
  by (simp add: to_long_double_def long_double_exact)

text \<open>\<open>score_ok\<close>: what every way of building a score gives: sixteen bytes.\<close>

definition score_ok :: "score \<Rightarrow> bool" where
  "score_ok s \<longleftrightarrow> length (m_payload s) = PAYLOAD_SIZE"

lemma from_raw_ok: "from_raw t raw = Inr s \<Longrightarrow> score_ok s"
  by (cases t) (auto simp: score_ok_def PAYLOAD_SIZE_def)

section \<open>Comparison is a strict weak order away from NaN\<close>

definition is_number :: "fval \<Rightarrow> bool" where
  "is_number x \<longleftrightarrow> x \<noteq> NaN"

fun f_class :: "fval \<Rightarrow> int" where
  "f_class NaN = 0"
| "f_class (Inf n) = (if n then -1 else 1)"
| "f_class (Fin m e) = 0"

fun f_real :: "fval \<Rightarrow> real" where
  "f_real (Fin m e) = real_of_int m * 2 powr real_of_int e"
| "f_real x = 0"

definition f_below :: "fval \<Rightarrow> fval \<Rightarrow> bool" where
  "f_below x y \<longleftrightarrow> f_class x < f_class y \<or> f_class x = f_class y \<and> f_real x < f_real y"

lemma scale_to_real:
  assumes "e0 \<le> e"
  shows "real_of_int (scale_to e0 m e) * 2 powr real_of_int e0 = real_of_int m * 2 powr real_of_int e"
proof -
  have "(2::real) ^ nat (e - e0) = 2 powr real_of_int (e - e0)"
    using assms powr_realpow [of 2 "nat (e - e0)"] by simp
  then show ?thesis by (simp add: scale_to_def powr_diff)
qed

lemma scale_to_less:
  "scale_to (min e e') m e < scale_to (min e e') m' e' \<longleftrightarrow> f_real (Fin m e) < f_real (Fin m' e')"
proof -
  let ?c = "2 powr real_of_int (min e e')"
  have "f_real (Fin m e) < f_real (Fin m' e') \<longleftrightarrow>
    real_of_int (scale_to (min e e') m e) * ?c < real_of_int (scale_to (min e e') m' e') * ?c"
    by (simp only: scale_to_real min.cobounded1 min.cobounded2 f_real.simps)
  then show ?thesis by simp
qed

lemma fval_order_Less: "fval_order x y = Less \<longleftrightarrow> is_number x \<and> is_number y \<and> f_below x y"
proof (cases "(x, y)" rule: fval_order.cases)
  case (6 m e m' e')
  then show ?thesis
    using scale_to_less [of e e' m m'] by (simp add: is_number_def f_below_def int_order_def)
qed (auto simp: is_number_def f_below_def)

lemma fval_order_Greater: "fval_order x y = Greater \<longleftrightarrow> is_number x \<and> is_number y \<and> f_below y x"
proof (cases "(x, y)" rule: fval_order.cases)
  case (6 m e m' e')
  then show ?thesis
    using scale_to_less [of e' e m' m] by (auto simp: is_number_def f_below_def int_order_def min.commute)
qed (auto simp: is_number_def f_below_def)

lemma f_below_irrefl: "\<not> f_below x x"
  by (simp add: f_below_def)

lemma f_below_trans: "f_below x y \<Longrightarrow> f_below y z \<Longrightarrow> f_below x z"
  by (auto simp: f_below_def)

lemma f_below_weak: "\<not> f_below x y \<Longrightarrow> \<not> f_below y z \<Longrightarrow> \<not> f_below x z"
  by (auto simp: f_below_def)

text \<open>
  The comparison of two scores of one kind agrees with the comparison of their \<open>long double\<close>s.
\<close>

lemma scale_to_zero [simp]: "scale_to 0 m 0 = m"
  by (simp add: scale_to_def)

lemma number_order_value:
  "type_of x = type_of y \<Longrightarrow> number_order x y = fval_order (number_value x) (number_value y)"
  by (cases "(x, y)" rule: number_order.cases)
    (auto simp: int_order_def word_sless_alt word_less_def intro: signed_word_eqI unsigned_word_eqI)

lemma score_order_value: "score_order a b = fval_order (to_long_double a) (to_long_double b)"
  unfolding score_order_def to_long_double_def
  by (simp add: number_order_value read_as_def long_double_exact)

definition is_nan :: "score \<Rightarrow> bool" where
  "is_nan s \<longleftrightarrow> to_long_double s = NaN"

text \<open>\<open>better g new old\<close>, the order \<open>should_update\<close> follows.\<close>

definition better :: "goal \<Rightarrow> score \<Rightarrow> score \<Rightarrow> bool" where
  "better g new old \<longleftrightarrow> should_update g old new"

lemma better_value:
  "better g a b \<longleftrightarrow> \<not> is_nan a \<and> \<not> is_nan b \<and>
     (if g = MAXIMISE then f_below (to_long_double b) (to_long_double a)
      else f_below (to_long_double a) (to_long_double b))"
  by (cases g)
    (auto simp: better_def should_update_def score_order_value fval_order_Less fval_order_Greater
      is_nan_def is_number_def)

lemma better_irrefl: "\<not> better g a a"
  by (simp add: better_value f_below_irrefl)

lemma better_trans: "better g a b \<Longrightarrow> better g b c \<Longrightarrow> better g a c"
  by (auto simp: better_value split: if_splits intro: f_below_trans)

lemma better_weak:
  "\<not> is_nan b \<Longrightarrow> \<not> better g a b \<Longrightarrow> \<not> better g b c \<Longrightarrow> \<not> better g a c"
  by (auto simp: better_value split: if_splits dest: f_below_weak)

section \<open>Keeping the best of a sequence of scores\<close>

text \<open>
  The interface of every component that keeps a best value: a strict order under which, among the
  admissible values, being no better is transitive. \<open>keep\<close> replaces the kept value by a better one.
\<close>

locale improvement =
  fixes ok :: "'a \<Rightarrow> bool" and btr :: "'a \<Rightarrow> 'a \<Rightarrow> bool"
  assumes irrefl: "\<not> btr x x"
    and trans: "btr x y \<Longrightarrow> btr y z \<Longrightarrow> btr x z"
    and weak: "ok y \<Longrightarrow> \<not> btr x y \<Longrightarrow> \<not> btr y z \<Longrightarrow> \<not> btr x z"
begin

definition keep :: "'a \<Rightarrow> 'a \<Rightarrow> 'a" where
  "keep old new = (if btr new old then new else old)"

lemma asym: "btr x y \<Longrightarrow> \<not> btr y x"
  using irrefl trans by blast

lemma keep_not_worse: "\<not> btr old (keep old new)"
  by (simp add: keep_def irrefl asym)

lemma keep_bounds: "\<not> btr new (keep old new)"
  by (simp add: keep_def irrefl)

lemma keep_mono: "\<not> btr x old \<Longrightarrow> ok old \<Longrightarrow> \<not> btr x (keep old new)"
  by (meson keep_not_worse weak)

lemma keep_ok: "ok old \<Longrightarrow> ok new \<Longrightarrow> ok (keep old new)"
  by (simp add: keep_def)

lemma fold_keep_ok: "ok old \<Longrightarrow> \<forall>x \<in> set xs. ok x \<Longrightarrow> ok (foldl keep old xs)"
  by (induction xs arbitrary: old) (simp_all add: keep_ok)

lemma fold_keep_mono:
  "\<not> btr y old \<Longrightarrow> ok old \<Longrightarrow> \<forall>x \<in> set xs. ok x \<Longrightarrow> \<not> btr y (foldl keep old xs)"
  by (induction xs arbitrary: old) (simp_all add: keep_mono keep_ok)

lemma fold_keep_best:
  "ok old \<Longrightarrow> \<forall>x \<in> set xs. ok x \<Longrightarrow> x \<in> set (old # xs) \<Longrightarrow> \<not> btr x (foldl keep old xs)"
proof (induction xs arbitrary: old)
  case Nil
  then show ?case by (simp add: irrefl)
next
  case (Cons y ys)
  then have ok: "ok (keep old y)" "\<forall>x \<in> set ys. ok x" by (simp_all add: keep_ok)
  show ?case
  proof (cases "x \<in> set ys")
    case True
    then show ?thesis using Cons.IH [OF ok] by simp
  next
    case False
    then have "\<not> btr x (keep old y)"
      using Cons.prems(3) keep_bounds [of y old] keep_not_worse [of old y] by auto
    then show ?thesis using fold_keep_mono [OF _ ok] by simp
  qed
qed

lemma fold_keep_member: "foldl keep old xs \<in> set (old # xs)"
  by (induction xs arbitrary: old) (auto simp: keep_def split: if_splits)

end

interpretation sc: improvement "\<lambda>s. \<not> is_nan s" "better g" for g
  by unfold_locales (auto simp: better_irrefl intro: better_trans dest: better_weak)

section \<open>Properties\<close>

lemma le_nat_append_zeros [simp]: "le_nat (bs @ replicate n 0) = le_nat bs"
proof -
  have "le_nat (replicate n 0) = 0" by (induction n) simp_all
  then show ?thesis by (induction bs) simp_all
qed

lemma le_bytes_take:
  "k \<le> n \<Longrightarrow> take k (le_bytes n x) = le_bytes k x"
proof (induction n arbitrary: k x)
  case (Suc n)
  then show ?case by (cases k) simp_all
qed simp

lemma le_bytes_mod: "le_bytes k (x mod 256 ^ k) = le_bytes k x"
proof (induction k arbitrary: x)
  case (Suc k)
  have a: "x mod 256 ^ Suc k mod 256 = x mod 256" by (simp add: mod_mod_cancel)
  have "word_of_nat (x mod 256 ^ Suc k) = (word_of_nat x :: byte)"
    by (rule word_unat_eq_iff [THEN iffD2]) (simp only: unat_byte_of_nat a)
  moreover have "x mod 256 ^ Suc k div 256 = x div 256 mod 256 ^ k"
    by (simp add: mod_mult2_eq)
  ultimately show ?case using Suc by (simp del: power_Suc)
qed simp

lemma raw_four:
  "take 4 (word_bytes (bytes_word (word_bytes (w :: 32 word) @ replicate n 0) :: 64 word)) = word_bytes w"
proof -
  have u: "unat w < 256 ^ 4" using unsigned_less [of w] by simp
  have "unat (bytes_word (word_bytes w @ replicate n 0) :: 64 word) = unat w"
    using u by (simp add: bytes_word_def word_bytes_def le_nat_le_bytes unsigned_ucast_eq
        take_bit_nat_eq_self)
  then show ?thesis by (simp add: word_bytes_def le_bytes_take)
qed

lemma raw_eight: "word_bytes (bytes_word (word_bytes (w :: 64 word)) :: 64 word) = word_bytes w"
  by (simp add: bytes_word_word_bytes)

text \<open>A score gives back, bit for bit, the value it was made from, when it is read as the type of
  that value, and any other type is refused: \<open>get\<close> throws and \<open>try_get\<close> leaves its output alone.\<close>

theorem score_get_make:
  "get t (make_score v) = (if t = type_of v then Inr v else Inl (Thrown ''score: wrong target type'')) \<and>
   try_get t (make_score v) out = (if t = type_of v then (True, v) else (False, out))"
  by (auto simp: get_def try_get_def)

text \<open>Going through the raw 64-bit integer of the JNI transport and back rebuilds the very same
  score, payload padding included, for every value of at most 64 bits; a \<open>long double\<close> aborts.\<close>

theorem score_raw_roundtrip:
  "rbind (to_raw (make_score v)) (from_raw (type_of v)) =
     (if type_of v = F128 then Inl Aborted else Inr (make_score v))"
  by (cases v) (simp_all add: to_raw_def make_raw_def PAYLOAD_SIZE_def raw_four raw_eight)

lemma score_eq_order: "score_eq a b \<longleftrightarrow> m_kind a = m_kind b \<and> score_order a b = Equivalent"
proof -
  have "number_eq x y \<longleftrightarrow> number_order x y = Equivalent" if "type_of x = type_of y" for x y
    using that by (cases "(x, y)" rule: number_order.cases) auto
  then show ?thesis by (auto simp: score_eq_def score_order_def read_as_def)
qed

text \<open>The value a score stands for, before any conversion.\<close>

definition exact_value :: "score \<Rightarrow> fval" where
  "exact_value s = number_value (read_as (m_kind s) s)"

lemma exact_long_double: "to_long_double s = exact_value s"
  by (simp add: to_long_double_def exact_value_def long_double_exact)

lemma fval_order_Equivalent:
  "fval_order x y = Equivalent \<longleftrightarrow> x \<noteq> NaN \<and> y \<noteq> NaN \<and> \<not> f_below x y \<and> \<not> f_below y x"
  using fval_order_Less [of x y] fval_order_Greater [of x y]
  by (cases "(x, y)" rule: fval_order.cases) (auto simp: is_number_def int_order_def split: if_splits)

text \<open>C31: No comparison of two scores rounds. Two scores of one kind are compared at their own C++
  type and two of different kinds as \<open>long double\<close>s, to which a conversion rounds; in every case the
  result is that of comparing the two numbers the bits stand for (\<open>exact_value\<close>) as real numbers, with
  the infinities at the ends, and a NaN is unordered. \<open>==\<close> is equivalence together with equality of the
  kinds. It holds because a \<open>long double\<close> has 64 bits of significand: with the 53 bits of a \<open>double\<close> the
  greatest 64-bit integer would be equivalent to the float \<open>2^63\<close>, which is greater.\<close>

theorem score_order_exact:
  "(let x = exact_value a; y = exact_value b
    in score_order a b = (if x = NaN \<or> y = NaN then Unordered else if f_below x y then Less
         else if f_below y x then Greater else Equivalent) \<and>
       score_eq a b = (m_kind a = m_kind b \<and> x \<noteq> NaN \<and> y \<noteq> NaN \<and> \<not> f_below x y \<and> \<not> f_below y x)) \<and>
   fval_order (round_significand 53 (exact_value (make_score (NI64 0x7FFFFFFFFFFFFFFF))))
     (exact_value (make_score (NF64 0x43E0000000000000))) = Equivalent \<and>
   score_order (make_score (NI64 0x7FFFFFFFFFFFFFFF)) (make_score (NF64 0x43E0000000000000)) = Less"
proof -
  let ?x = "exact_value a" and ?y = "exact_value b"
  have v: "exact_value (make_score (NI64 0x7FFFFFFFFFFFFFFF)) = Fin 0x7FFFFFFFFFFFFFFF 0"
    "exact_value (make_score (NF64 0x43E0000000000000)) = Fin 0x10000000000000 11"
    by (simp_all add: exact_value_def ieee_def signed_mantissa_def del: make_score.simps)
  have "bit_length 0x7FFFFFFFFFFFFFFF = 63" by (simp add: bit_length.simps)
  then have rounded: "fval_order (round_significand 53 (Fin 0x7FFFFFFFFFFFFFFF 0)) (Fin 0x10000000000000 11) = Equivalent"
    by (simp add: Let_def half_even_def signed_mantissa_def int_order_def scale_to_def)
  have o: "score_order a b = fval_order ?x ?y" by (simp add: score_order_value exact_long_double)
  have order: "score_order a b = (if ?x = NaN \<or> ?y = NaN then Unordered else if f_below ?x ?y then Less
      else if f_below ?y ?x then Greater else Equivalent)"
    using fval_order_Less [of ?x ?y] fval_order_Greater [of ?x ?y] fval_order_Equivalent [of ?x ?y]
    unfolding o by (cases "fval_order ?x ?y") (auto simp: is_number_def)
  moreover have "score_eq a b = (m_kind a = m_kind b \<and> ?x \<noteq> NaN \<and> ?y \<noteq> NaN \<and> \<not> f_below ?x ?y \<and> \<not> f_below ?y ?x)"
    using order by (auto simp: score_eq_order)
  moreover have "fval_order (round_significand 53 (exact_value (make_score (NI64 0x7FFFFFFFFFFFFFFF))))
      (exact_value (make_score (NF64 0x43E0000000000000))) = Equivalent"
    unfolding v by (rule rounded)
  moreover have "score_order (make_score (NI64 0x7FFFFFFFFFFFFFFF)) (make_score (NF64 0x43E0000000000000)) = Less"
    unfolding score_order_value exact_long_double v by (simp add: int_order_def scale_to_def)
  ultimately show ?thesis by (simp only: Let_def simp_thms)
qed

lemma make_inj [simp]: "make_score v = make_score w \<longleftrightarrow> v = w"
  by (metis bytes_number_bytes make_sel(1) take_make)

lemma better_make:
  "better g (make_score v) (make_score w) \<longleftrightarrow>
     fval_order (number_value v) (number_value w) = (if g = MAXIMISE then Greater else Less)"
  by (cases g) (simp_all add: better_def should_update_def score_order_value)

lemma sint_neq: "(w :: 'a::len word) \<noteq> v \<longleftrightarrow> sint w \<noteq> sint v"
  by (auto intro: signed_word_eqI)

lemma least_word32: "- 2147483648 < sint w \<longleftrightarrow> w \<noteq> (0x80000000 :: 32 word)"
  using sint_greater_eq [where w = w] by (simp add: sint_neq) linarith

lemma greatest_word32: "sint w < 2147483647 \<longleftrightarrow> w \<noteq> (0x7FFFFFFF :: 32 word)"
  using sint_less [where w = w] by (simp add: sint_neq) linarith

lemma least_word64: "- 9223372036854775808 < sint w \<longleftrightarrow> w \<noteq> (0x8000000000000000 :: 64 word)"
  using sint_greater_eq [where w = w] by (simp add: sint_neq) linarith

lemma greatest_word64: "sint w < 9223372036854775807 \<longleftrightarrow> w \<noteq> (0x7FFFFFFFFFFFFFFF :: 64 word)"
  using sint_less [where w = w] by (simp add: sint_neq) linarith

lemma int_order_eqs [simp]:
  "int_order a b = Less \<longleftrightarrow> a < b" "int_order a b = Greater \<longleftrightarrow> b < a"
  "int_order a b = Equivalent \<longleftrightarrow> a = b"
  by (auto simp: int_order_def)

text \<open>For the integer kinds the default score is the worst one: every other value of the kind
  improves on it, whatever the goal.\<close>

theorem default_score_worst:
  assumes "get_default_score g (type_of v) = Inr d" and "type_of v = I32 \<or> type_of v = I64"
  shows "better g (make_score v) d \<longleftrightarrow> make_score v \<noteq> d"
  using assms
  by (cases v; cases g)
    (auto simp: better_make least_word32 greatest_word32 least_word64 greatest_word64
      simp del: make_score.simps)

lemma default_score_worst_witness:
  "better MAXIMISE (make_score (NI32 5)) (make_score (NI32 0x80000000))"
  using default_score_worst [of MAXIMISE "NI32 5" "make_score (NI32 0x80000000)"]
  by (simp del: make_score.simps)

text \<open>For the floating-point kinds this fails when maximising: the default is the smallest
  \<^emph>\<open>positive\<close> normal number, so no score whose value is zero or negative ever improves on it.\<close>

theorem default_score_float_positive:
  assumes "get_default_score MAXIMISE t = Inr d" and "t = F32 \<or> t = F64 \<or> t = F128"
    and "to_long_double s = Fin m e" and "m \<le> 0"
  shows "\<not> better MAXIMISE s d"
proof -
  have "\<exists>k l. to_long_double d = Fin k l \<and> 0 < k"
    using assms(1,2) by (auto simp: ieee_def x87_def signed_mantissa_def Let_def simp del: make_score.simps)
  then obtain k l where d: "to_long_double d = Fin k l" and k: "0 < k" by blast
  have "f_real (Fin m e) \<le> 0" using assms(4) by (simp add: mult_nonpos_nonneg)
  moreover have "0 < f_real (Fin k l)" using k by simp
  ultimately show ?thesis by (simp add: better_value assms(3) d f_below_def)
qed

lemma default_score_float_positive_witness:
  "\<not> better MAXIMISE (make_score (NI32 0xFFFFFFFB)) (make_score (NF64 0x0010000000000000))"
  using default_score_float_positive
    [of F64 "make_score (NF64 0x0010000000000000)" "make_score (NI32 0xFFFFFFFB)" "-5" 0]
  by (simp del: make_score.simps)

end
