(* ===== verification/Task_Packet.thy ===== *)
theory Task_Packet
  imports Score
begin

text \<open>
  What travels between ranks: the byte buffer \<open>task_packet\<close>, the \<open>task_bundle\<close> that pairs it with the
  id of the function to run, and the \<open>result\<close> that pairs it with a score
  (\<open>include/gempba/utils/task_packet.hpp\<close>, \<open>task_bundle.hpp\<close>, \<open>result.hpp\<close>).
\<close>

section \<open>Packets\<close>

datatype task_packet = Task_Packet (packet_data: "byte list")

definition packet_size :: "task_packet \<Rightarrow> nat" where
  "packet_size p = length (packet_data p)"

definition packet_empty :: "task_packet \<Rightarrow> bool" where
  "packet_empty p \<longleftrightarrow> packet_data p = []"

definition packet_EMPTY :: task_packet where
  "packet_EMPTY = Task_Packet []"

text \<open>
  The constructor from a pointer and a size: \<open>None\<close> is the null pointer, \<open>Some bs\<close> a pointer to the
  readable bytes \<open>bs\<close>. Copying more than is readable is undefined.
\<close>

definition packet_of_buffer :: "byte list option \<Rightarrow> nat \<Rightarrow> task_packet res" where
  "packet_of_buffer p_buffer p_size =
     (case p_buffer of
        None \<Rightarrow> if 0 < p_size then Inl (Thrown ''task_packet: null buffer with non-zero size'')
                else Inr (Task_Packet [])
      | Some bs \<Rightarrow> if length bs < p_size then Inl Undefined else Inr (Task_Packet (take p_size bs)))"

text \<open>The lexicographic comparison of the byte vectors.\<close>

fun bytes_order :: "byte list \<Rightarrow> byte list \<Rightarrow> ordering" where
  "bytes_order [] [] = Equivalent"
| "bytes_order [] (b # bs) = Less"
| "bytes_order (a # as) [] = Greater"
| "bytes_order (a # as) (b # bs) = (if a < b then Less else if b < a then Greater else bytes_order as bs)"

definition packet_order :: "task_packet \<Rightarrow> task_packet \<Rightarrow> ordering" where
  "packet_order p q =
     (if packet_size p < packet_size q then Less
      else if packet_size q < packet_size p then Greater
      else bytes_order (packet_data p) (packet_data q))"

lemma bytes_order_Equivalent: "bytes_order as bs = Equivalent \<longleftrightarrow> as = bs"
  by (induction as bs rule: bytes_order.induct) auto

lemma bytes_order_Greater: "bytes_order as bs = Greater \<longleftrightarrow> bytes_order bs as = Less"
  by (induction as bs rule: bytes_order.induct) auto

lemma bytes_order_Unordered: "bytes_order as bs \<noteq> Unordered"
  by (induction as bs rule: bytes_order.induct) auto

lemma bytes_order_trans:
  "bytes_order as bs = Less \<Longrightarrow> bytes_order bs cs = Less \<Longrightarrow> bytes_order as cs = Less"
proof (induction as bs arbitrary: cs rule: bytes_order.induct)
  case (2 b bs)
  then show ?case by (cases cs) simp_all
next
  case (4 a as b bs)
  then show ?case by (cases cs) (auto split: if_splits)
qed auto

lemma packet_order_Equivalent: "packet_order p q = Equivalent \<longleftrightarrow> p = q"
  by (cases p; cases q) (auto simp: packet_order_def packet_size_def bytes_order_Equivalent)

lemma packet_order_Greater: "packet_order p q = Greater \<longleftrightarrow> packet_order q p = Less"
  by (auto simp: packet_order_def bytes_order_Greater)

lemma packet_order_Unordered: "packet_order p q \<noteq> Unordered"
  by (simp add: packet_order_def bytes_order_Unordered)

lemma packet_order_trans:
  "packet_order p q = Less \<Longrightarrow> packet_order q r = Less \<Longrightarrow> packet_order p r = Less"
  by (auto simp: packet_order_def split: if_splits dest: bytes_order_trans)

text \<open>The \<open>std::strong_ordering\<close> of the class is a linear order, so packets are a \<open>linorder\<close>.\<close>

instantiation task_packet :: linorder
begin

definition less_task_packet :: "task_packet \<Rightarrow> task_packet \<Rightarrow> bool" where
  "less_task_packet p q \<longleftrightarrow> packet_order p q = Less"

definition less_eq_task_packet :: "task_packet \<Rightarrow> task_packet \<Rightarrow> bool" where
  "less_eq_task_packet p q \<longleftrightarrow> packet_order p q = Less \<or> packet_order p q = Equivalent"

instance
proof
  fix p q r :: task_packet
  show "p < q \<longleftrightarrow> p \<le> q \<and> \<not> q \<le> p"
    using packet_order_Equivalent [of p q] packet_order_Equivalent [of q p] packet_order_Greater [of p q]
    by (cases "packet_order p q"; cases "packet_order q p")
      (auto simp: less_task_packet_def less_eq_task_packet_def)
  show "p \<le> p" by (simp add: less_eq_task_packet_def packet_order_Equivalent)
  show "p \<le> q \<Longrightarrow> q \<le> r \<Longrightarrow> p \<le> r"
    by (auto simp: less_eq_task_packet_def packet_order_Equivalent dest: packet_order_trans)
  show "p \<le> q \<Longrightarrow> q \<le> p \<Longrightarrow> p = q"
    using packet_order_Equivalent [of p q] packet_order_Greater [of p q] packet_order_Greater [of q p]
    by (auto simp: less_eq_task_packet_def)
  show "p \<le> q \<or> q \<le> p"
    using packet_order_Unordered [of p q] packet_order_Greater [of p q]
    by (cases "packet_order p q") (auto simp: less_eq_task_packet_def)
qed

end

section \<open>Bundles and results\<close>

record task_bundle =
  bundle_packet :: task_packet
  bundle_runnable_id :: int

definition bundle_empty :: "task_bundle \<Rightarrow> bool" where
  "bundle_empty b \<longleftrightarrow> packet_empty (bundle_packet b)"

definition bundle_size :: "task_bundle \<Rightarrow> nat" where
  "bundle_size b = packet_size (bundle_packet b)"

record gresult =
  result_score :: score
  result_packet :: task_packet

definition result_EMPTY :: gresult where
  "result_EMPTY = \<lparr>result_score = make_score (NI32 (-1)), result_packet = packet_EMPTY\<rparr>"

definition result_eq :: "gresult \<Rightarrow> gresult \<Rightarrow> bool" where
  "result_eq r r' \<longleftrightarrow> score_eq (result_score r) (result_score r') \<and> result_packet r = result_packet r'"

definition get_score_as_integer :: "gresult \<Rightarrow> number res" where
  "get_score_as_integer r = get_loose I32 (result_score r)"

text \<open>\<open>task_packet\<close>'s \<open><=>\<close> is the order the linear order of packets is built from: exactly one of
  less, equal and greater holds of two packets, a shorter packet is always less, and packets are
  equivalent only when they are equal byte for byte.\<close>

theorem packet_order_linear:
  "packet_order p q =
     (if p < q then Less else if q < p then Greater else Equivalent) \<and>
   (packet_order p q = Equivalent \<longleftrightarrow> packet_data p = packet_data q)"
  using packet_order_Unordered [of p q] packet_order_Greater [of p q]
  by (cases "packet_order p q"; cases p; cases q)
    (auto simp: less_task_packet_def packet_order_Equivalent)

end
