(* ===== verification/Mpi_Stats.thy ===== *)
theory Mpi_Stats
  imports Task_Packet
begin

text \<open>
  The per-rank counters of the MPI schedulers and their transport form
  (\<open>private/impl/schedulers/default_mpi_stats.hpp\<close>). The transport form is the memory of
  \<open>internal_data\<close>: a 4-byte \<open>int\<close>, 4 bytes of padding whose contents nothing fixes, and seven
  8-byte fields, 64 bytes in all. A \<open>double\<close> is kept as its bits.
\<close>

record mpi_stats =
  st_rank :: "32 word"
  st_received_task_count :: "64 word"
  st_sent_task_count :: "64 word"
  st_total_requested_tasks :: "64 word"
  st_total_thread_requests :: "64 word"
  st_idle_time :: "64 word"
  st_elapsed_time :: "64 word"
  st_coordinator_messages_handled :: "64 word"

definition new_stats :: "32 word \<Rightarrow> mpi_stats" where
  "new_stats p_rank = \<lparr>st_rank = p_rank, st_received_task_count = 0, st_sent_task_count = 0,
     st_total_requested_tasks = 0, st_total_thread_requests = 0, st_idle_time = 0,
     st_elapsed_time = 0, st_coordinator_messages_handled = 0\<rparr>"

definition INTERNAL_DATA_SIZE :: nat where
  "INTERNAL_DATA_SIZE = 64"

definition stats_bytes :: "byte list \<Rightarrow> mpi_stats \<Rightarrow> byte list" where
  "stats_bytes padding s =
     word_bytes (st_rank s) @ padding @ word_bytes (st_received_task_count s) @
     word_bytes (st_sent_task_count s) @ word_bytes (st_total_requested_tasks s) @
     word_bytes (st_total_thread_requests s) @ word_bytes (st_idle_time s) @
     word_bytes (st_elapsed_time s) @ word_bytes (st_coordinator_messages_handled s)"

definition stats_serialize :: "byte list \<Rightarrow> mpi_stats \<Rightarrow> task_packet res" where
  "stats_serialize padding s = packet_of_buffer (Some (stats_bytes padding s)) INTERNAL_DATA_SIZE"

definition field_at :: "nat \<Rightarrow> nat \<Rightarrow> byte list \<Rightarrow> 'a::len word" where
  "field_at offset n bs = bytes_word (take n (drop offset bs))"

definition stats_from_packet :: "task_packet \<Rightarrow> mpi_stats res" where
  "stats_from_packet p =
     (if packet_size p \<noteq> INTERNAL_DATA_SIZE
      then Inl (Thrown ''Invalid packet size for stats deserialization'')
      else let d = packet_data p in
        Inr ((new_stats (field_at 0 4 d))
          \<lparr>st_received_task_count := field_at 8 8 d, st_sent_task_count := field_at 16 8 d,
           st_total_requested_tasks := field_at 24 8 d, st_total_thread_requests := field_at 32 8 d,
           st_idle_time := field_at 40 8 d, st_elapsed_time := field_at 48 8 d,
           st_coordinator_messages_handled := field_at 56 8 d\<rparr>))"

definition stats_labels :: "string list" where
  "stats_labels = [''rank'', ''received_task_count'', ''sent_task_count'', ''total_requested_tasks'',
     ''total_thread_requests'', ''idle_time'', ''elapsed_time'', ''coordinator_messages_handled'']"

text \<open>What the visitor is called with, in order: \<open>std::any\<close> of an \<open>int\<close>, a \<open>size_t\<close> or a \<open>double\<close>.\<close>

datatype stat_value = Any_Int "32 word" | Any_Size "64 word" | Any_Double "64 word"

definition stats_visit :: "mpi_stats \<Rightarrow> (string \<times> stat_value) list" where
  "stats_visit s =
     [(''rank'', Any_Int (st_rank s)),
      (''received_task_count'', Any_Size (st_received_task_count s)),
      (''sent_task_count'', Any_Size (st_sent_task_count s)),
      (''total_requested_tasks'', Any_Size (st_total_requested_tasks s)),
      (''total_thread_requests'', Any_Size (st_total_thread_requests s)),
      (''idle_time'', Any_Double (st_idle_time s)),
      (''elapsed_time'', Any_Double (st_elapsed_time s)),
      (''coordinator_messages_handled'', Any_Size (st_coordinator_messages_handled s))]"

fun stat_order :: "stat_value \<Rightarrow> stat_value \<Rightarrow> ordering" where
  "stat_order (Any_Int a) (Any_Int b) = int_order (sint a) (sint b)"
| "stat_order (Any_Size a) (Any_Size b) = int_order (uint a) (uint b)"
| "stat_order (Any_Double a) (Any_Double b) = fval_order (ieee 52 11 (unat a)) (ieee 52 11 (unat b))"
| "stat_order _ _ = Unordered"

text \<open>\<open>std::tie(...) <=> std::tie(...)\<close>: the first field that is not equivalent decides.\<close>

fun tuple_order :: "stat_value list \<Rightarrow> stat_value list \<Rightarrow> ordering" where
  "tuple_order (a # as) (b # bs) =
     (if stat_order a b = Equivalent then tuple_order as bs else stat_order a b)"
| "tuple_order _ _ = Equivalent"

definition stats_fields :: "mpi_stats \<Rightarrow> stat_value list" where
  "stats_fields s = map snd (stats_visit s)"

definition stats_order :: "mpi_stats \<Rightarrow> mpi_stats \<Rightarrow> ordering" where
  "stats_order s t = tuple_order (stats_fields s) (stats_fields t)"

definition stats_eq :: "mpi_stats \<Rightarrow> mpi_stats \<Rightarrow> bool" where
  "stats_eq s t = list_all2 (\<lambda>a b. stat_order a b = Equivalent) (stats_fields s) (stats_fields t)"

lemma length_stats_bytes [simp]: "length (stats_bytes padding s) = 60 + length padding"
  by (simp add: stats_bytes_def)

lemma tuple_order_Equivalent:
  "length as = length bs \<Longrightarrow>
   tuple_order as bs = Equivalent \<longleftrightarrow> list_all2 (\<lambda>a b. stat_order a b = Equivalent) as bs"
  by (induction as bs rule: tuple_order.induct) auto

text \<open>The statistics packet of a rank is 64 bytes, whatever the padding holds, and reading it back
  gives the statistics it was made from, field by field.\<close>

lemma stats_roundtrip:
  assumes "length padding = 4"
  shows "rbind (stats_serialize padding s) stats_from_packet = Inr s"
proof -
  have l: "length (stats_bytes padding s) = 64" using assms by simp
  have "take 64 (stats_bytes padding s) = stats_bytes padding s" using l by simp
  then show ?thesis
    using assms l
    by (simp add: stats_serialize_def packet_of_buffer_def INTERNAL_DATA_SIZE_def stats_from_packet_def
        packet_size_def new_stats_def field_at_def)
      (simp add: stats_bytes_def bytes_word_word_bytes)
qed

text \<open>The labels the statistics announce are exactly the names the visitor is called with, in the
  same order, and two statistics compare equal exactly when their ordering is equivalence.\<close>

theorem stats_labels_visit:
  "map fst (stats_visit s) = stats_labels \<and> (stats_eq s t \<longleftrightarrow> stats_order s t = Equivalent)"
  by (simp add: stats_visit_def stats_labels_def stats_eq_def stats_order_def tuple_order_Equivalent
      stats_fields_def)

section \<open>Gathering\<close>

text \<open>
  \<open>synchronize_stats\<close> at rank 0: what arrives from the other ranks, in the order of the ranks it probes; None
  where the probe or the receive fails. At another rank, what it sends.
\<close>

fun collect_stats :: "task_packet option list \<Rightarrow> mpi_stats list \<Rightarrow> mpi_stats list res" where
  "collect_stats [] v = Inr v"
| "collect_stats (None # arrived) v = collect_stats arrived v"
| "collect_stats (Some p # arrived) v = rbind (stats_from_packet p) (\<lambda>s. collect_stats arrived (v @ [s]))"

definition synchronize_stats_center :: "mpi_stats \<Rightarrow> task_packet option list \<Rightarrow> mpi_stats list \<Rightarrow> mpi_stats list res" where
  "synchronize_stats_center mine arrived v = collect_stats arrived (v @ [mine])"

definition synchronize_stats_worker :: "byte list \<Rightarrow> mpi_stats \<Rightarrow> task_packet res" where
  "synchronize_stats_worker padding s = stats_serialize padding s"

text \<open>All ranks together; \<open>fails i\<close> says that the probe or the receive from the \<open>i\<close>-th worker fails.\<close>

fun sent_stats :: "(byte list \<times> bool \<times> mpi_stats) list \<Rightarrow> task_packet option list res" where
  "sent_stats [] = Inr []"
| "sent_stats ((padding, fails, s) # ws) =
     rbind (synchronize_stats_worker padding s) (\<lambda>p. rbind (sent_stats ws) (\<lambda>ps. Inr ((if fails then None else Some p) # ps)))"

lemma collect_sent:
  assumes "\<forall>w \<in> set ws. length (fst w) = 4"
  obtains arrived where "sent_stats ws = Inr arrived"
    "collect_stats arrived v = Inr (v @ map (\<lambda>w. snd (snd w)) (filter (\<lambda>w. \<not> fst (snd w)) ws))"
proof -
  have "\<exists>arrived. sent_stats ws = Inr arrived \<and>
      collect_stats arrived v = Inr (v @ map (\<lambda>w. snd (snd w)) (filter (\<lambda>w. \<not> fst (snd w)) ws))"
    using assms
  proof (induction ws arbitrary: v)
    case (Cons w ws)
    obtain padding fails s where w: "w = (padding, fails, s)" by (metis prod.exhaust)
    have r: "rbind (stats_serialize padding s) stats_from_packet = Inr s" using Cons.prems by (intro stats_roundtrip) (simp add: w)
    then obtain p where p: "stats_serialize padding s = Inr p" "stats_from_packet p = Inr s"
      by (cases "stats_serialize padding s") auto
    have t: "\<forall>w \<in> set ws. length (fst w) = 4" using Cons.prems by simp
    show ?case
    proof (cases fails)
      case True
      with Cons.IH [OF t, of v] p show ?thesis by (auto simp: w synchronize_stats_worker_def)
    next
      case False
      with Cons.IH [OF t, of "v @ [s]"] p show ?thesis by (auto simp: w synchronize_stats_worker_def)
    qed
  qed simp
  then show thesis using that by blast
qed

text \<open>C40: \<open>synchronize_stats\<close> appends, to what rank 0 has gathered before, its own statistics and those of every
  other rank from which the message could be received, in the order of the ranks and exactly as each rank
  counted them, whatever the padding bytes are; nothing throws.\<close>

theorem stats_gathered:
  assumes "\<forall>w \<in> set ws. length (fst w) = 4"
  shows "rbind (sent_stats ws) (\<lambda>arrived. synchronize_stats_center mine arrived v) =
    Inr (v @ mine # map (\<lambda>w. snd (snd w)) (filter (\<lambda>w. \<not> fst (snd w)) ws))"
proof -
  obtain arrived where "sent_stats ws = Inr arrived"
    "collect_stats arrived (v @ [mine]) = Inr ((v @ [mine]) @ map (\<lambda>w. snd (snd w)) (filter (\<lambda>w. \<not> fst (snd w)) ws))"
    using collect_sent [OF assms, of "v @ [mine]"] .
  then show ?thesis by (simp add: synchronize_stats_center_def)
qed

lemma stats_gathered_witness:
  "rbind (sent_stats [([1, 2, 3, 4], False, new_stats 1), ([0, 0, 0, 0], True, new_stats 2), ([9, 9, 9, 9], False, new_stats 3)])
     (\<lambda>arrived. synchronize_stats_center (new_stats 0) arrived []) = Inr [new_stats 0, new_stats 1, new_stats 3]"
  by (subst stats_gathered) simp_all

end
