(* ===== verification/Process_Tree.thy ===== *)
theory Process_Tree
  imports Gempba_Prelude
begin

text \<open>
  The process tree of \<open>include/gempba/utils/tree.hpp\<close> and \<open>src/utils/tree.cpp\<close>: a vector of nodes
  linked by raw pointers into that vector. A pointer is the position of the node it points to, or
  \<open>None\<close> for null; following a null pointer, or indexing out of the vector, is \<open>Undefined\<close>.

  \<open>tree_rep t ch\<close> relates the linked nodes to an abstract tree, where \<open>ch p\<close> is the list of the
  children of \<open>p\<close>; the operations of the class implement the obvious operations on those lists.
\<close>

record tree_node =
  tn_parent :: "nat option"
  tn_left :: "nat option"
  tn_right :: "nat option"
  tn_next :: "nat option"
  tn_last :: "nat option"
  tn_index :: int
  tn_count :: int

type_synonym tree = "tree_node list"

definition new_node :: "nat \<Rightarrow> tree_node" where
  "new_node i = \<lparr>tn_parent = None, tn_left = None, tn_right = None, tn_next = None, tn_last = None,
                 tn_index = int i, tn_count = 0\<rparr>"

definition new_tree :: "nat \<Rightarrow> tree" where
  "new_tree n = map new_node [0..<n]"

text \<open>
  \<open>resize\<close> appends nodes, numbered from 0 again. Growing the vector may move the nodes, so the
  pointers of a tree with links are lost.
\<close>

definition unlinked :: "tree_node \<Rightarrow> bool" where
  "unlinked x \<longleftrightarrow> tn_parent x = None \<and> tn_left x = None \<and> tn_right x = None \<and> tn_next x = None \<and>
     tn_last x = None"

definition tree_resize :: "tree \<Rightarrow> nat \<Rightarrow> tree res" where
  "tree_resize t n = (if n = 0 \<or> list_all unlinked t then Inr (t @ new_tree n) else Inl Undefined)"

definition tree_size :: "tree \<Rightarrow> nat" where
  "tree_size t = length t"

section \<open>Access through pointers\<close>

definition node_at :: "tree \<Rightarrow> nat \<Rightarrow> tree_node res" where
  "node_at t p = (if p < length t then Inr (t ! p) else Inl Undefined)"

definition deref :: "tree \<Rightarrow> nat option \<Rightarrow> nat res" where
  "deref t r = (case r of None \<Rightarrow> Inl Undefined | Some p \<Rightarrow> if p < length t then Inr p else Inl Undefined)"

definition upd :: "tree \<Rightarrow> nat \<Rightarrow> (tree_node \<Rightarrow> tree_node) \<Rightarrow> tree" where
  "upd t p f = t[p := f (t ! p)]"

definition index_of :: "tree \<Rightarrow> int \<Rightarrow> nat res" where
  "index_of t i = (if 0 \<le> i \<and> i < int (length t) then Inr (nat i) else Inl Undefined)"

section \<open>The operations of a node\<close>

definition is_assigned :: "tree \<Rightarrow> nat \<Rightarrow> bool" where
  "is_assigned t p \<longleftrightarrow> tn_parent (t ! p) \<noteq> None"

definition has_next :: "tree \<Rightarrow> nat \<Rightarrow> bool" where
  "has_next t p \<longleftrightarrow> tn_next (t ! p) \<noteq> None"

definition get_next :: "tree \<Rightarrow> nat \<Rightarrow> int" where
  "get_next t p = (case tn_next (t ! p) of None \<Rightarrow> -1 | Some q \<Rightarrow> tn_index (t ! q))"

definition get_parent :: "tree \<Rightarrow> nat \<Rightarrow> int" where
  "get_parent t p = (case tn_parent (t ! p) of None \<Rightarrow> -1 | Some q \<Rightarrow> tn_index (t ! q))"

definition children_count :: "tree \<Rightarrow> nat \<Rightarrow> int" where
  "children_count t p = tn_count (t ! p)"

text \<open>
  The walk \<open>while (v_tail->m_right_sibling)\<close>. A tree of \<open>n\<close> nodes gives it \<open>n\<close> rounds: a walk that
  is still going after visiting \<open>n\<close> nodes has visited one twice and never ends.
\<close>

fun find_tail :: "tree \<Rightarrow> nat \<Rightarrow> nat \<Rightarrow> nat res" where
  "find_tail t 0 p = Inl Diverged"
| "find_tail t (Suc k) p =
     rbind (node_at t p) (\<lambda>x. case tn_right x of None \<Rightarrow> Inr p | Some q \<Rightarrow> find_tail t k q)"

definition add_next :: "tree \<Rightarrow> nat \<Rightarrow> int \<Rightarrow> tree res" where
  "add_next t self p_index =
     (if int (length t) \<le> p_index then Inl (Thrown (''node '' @ show_int p_index @ '' is out of bounds''))
      else rbind (index_of t p_index) (\<lambda>i.
        case tn_parent (t ! i) of
          Some a \<Rightarrow> Inl (Thrown (''node '' @ show_int (tn_index (t ! self)) @
                                 '' is already assigned to '' @ show_int (tn_index (t ! a))))
        | None \<Rightarrow>
          let t1 = upd t i (\<lambda>x. x\<lparr>tn_parent := Some self\<rparr>);
              linked_in = (if tn_count (t1 ! self) = 0 then Inr (upd t1 self (\<lambda>x. x\<lparr>tn_next := Some i\<rparr>))
                else rbind (deref t1 (tn_next (t1 ! self))) (\<lambda>h.
                     rbind (find_tail t1 (length t1) h) (\<lambda>v_tail.
                       let t2 = upd t1 i (\<lambda>x. x\<lparr>tn_left := Some v_tail\<rparr>)
                       in Inr (upd t2 v_tail (\<lambda>x. x\<lparr>tn_right := Some i\<rparr>)))))
          in rbind linked_in (\<lambda>t3.
               Inr (upd t3 self (\<lambda>x. x\<lparr>tn_last := Some i, tn_count := tn_count x + 1\<rparr>)))))"

definition pop_front :: "tree \<Rightarrow> nat \<Rightarrow> tree res" where
  "pop_front t self =
     (case tn_next (t ! self) of
        None \<Rightarrow> Inl (Thrown ''there's no next to pop'')
      | Some h \<Rightarrow>
        let t1 = (case tn_right (t ! h) of
            Some r \<Rightarrow>
              let t2 = upd t self (\<lambda>x. x\<lparr>tn_next := Some r\<rparr>);
                  t3 = upd t2 r (\<lambda>x. x\<lparr>tn_left := None\<rparr>)
              in upd t3 h (\<lambda>x. x\<lparr>tn_parent := None, tn_left := None, tn_right := None\<rparr>)
          | None \<Rightarrow>
              let t2 = upd t h (\<lambda>x. x\<lparr>tn_parent := None\<rparr>)
              in upd t2 self (\<lambda>x. x\<lparr>tn_next := None, tn_last := None\<rparr>))
        in Inr (upd t1 self (\<lambda>x. x\<lparr>tn_count := tn_count x - 1\<rparr>)))"

definition release :: "tree \<Rightarrow> nat \<Rightarrow> tree res" where
  "release t self =
     (case tn_parent (t ! self) of
        None \<Rightarrow> Inl (Thrown (''node '' @ show_int (tn_index (t ! self)) @
                            '' is not assigned to any other node''))
      | Some a \<Rightarrow>
        (case tn_left (t ! self) of
           None \<Rightarrow> pop_front t a
         | Some l \<Rightarrow>
           (case tn_right (t ! self) of
              Some r \<Rightarrow>
                let t1 = upd t l (\<lambda>x. x\<lparr>tn_right := Some r\<rparr>);
                    t2 = upd t1 r (\<lambda>x. x\<lparr>tn_left := Some l\<rparr>);
                    t3 = upd t2 a (\<lambda>x. x\<lparr>tn_count := tn_count x - 1\<rparr>)
                in Inr (upd t3 self (\<lambda>x. x\<lparr>tn_parent := None, tn_right := None, tn_left := None\<rparr>))
            | None \<Rightarrow>
                let t1 = upd t l (\<lambda>x. x\<lparr>tn_right := None\<rparr>);
                    t2 = upd t1 a (\<lambda>x. x\<lparr>tn_last := Some l, tn_count := tn_count x - 1\<rparr>)
                in Inr (upd t2 self (\<lambda>x. x\<lparr>tn_parent := None, tn_left := None\<rparr>)))))"

text \<open>\<open>clear\<close> pops while there is a next; every round detaches one of the \<open>n\<close> nodes.\<close>

fun clear_rounds :: "nat \<Rightarrow> tree \<Rightarrow> nat \<Rightarrow> tree res" where
  "clear_rounds 0 t self = (if tn_next (t ! self) = None then Inr t else Inl Diverged)"
| "clear_rounds (Suc k) t self =
     (if tn_next (t ! self) = None then Inr t
      else rbind (pop_front t self) (\<lambda>t'. clear_rounds k t' self))"

definition clear :: "tree \<Rightarrow> nat \<Rightarrow> tree res" where
  "clear t self = clear_rounds (length t) t self"

text \<open>The iterator from \<open>begin()\<close> to \<open>end()\<close>: the indices of the children, by right siblings.\<close>

fun walk :: "tree \<Rightarrow> nat \<Rightarrow> nat option \<Rightarrow> nat list res" where
  "walk t k None = Inr []"
| "walk t 0 (Some p) = Inl Diverged"
| "walk t (Suc k) (Some p) =
     rbind (node_at t p) (\<lambda>x. rbind (walk t k (tn_right x)) (\<lambda>ps. Inr (p # ps)))"

definition iterate :: "tree \<Rightarrow> nat \<Rightarrow> int list res" where
  "iterate t p = rbind (walk t (length t) (tn_next (t ! p))) (\<lambda>ps. Inr (map (\<lambda>q. tn_index (t ! q)) ps))"

text \<open>\<open>to_string\<close>: every node without a parent, each with its subtree, two spaces per level.\<close>

fun print_node :: "nat \<Rightarrow> tree \<Rightarrow> int \<Rightarrow> nat \<Rightarrow> string res" where
  "print_node 0 t p_index p_indent = Inl Diverged"
| "print_node (Suc k) t p_index p_indent =
     rbind (index_of t p_index) (\<lambda>p. rbind (iterate t p) (\<lambda>is.
       rfold (\<lambda>i s. rbind (print_node k t i (p_indent + 1)) (\<lambda>s'. Inr (s @ s'))) is
         (replicate (p_indent * 2) CHR '' '' @ ''- Node '' @ show_int p_index @ [CHR 0x0A])))"

definition tree_to_string :: "tree \<Rightarrow> string res" where
  "tree_to_string t =
     rfold (\<lambda>i s. if get_parent t i = -1
                  then rbind (print_node (Suc (length t)) t (int i) 0) (\<lambda>s'. Inr (s @ s'))
                  else Inr s) [0..<length t] []"

section \<open>Trees that are linked properly\<close>

text \<open>\<open>chain t pv xs nx\<close>: the nodes \<open>xs\<close> are doubly linked, after \<open>pv\<close> and before \<open>nx\<close>.\<close>

fun chain :: "tree \<Rightarrow> nat option \<Rightarrow> nat list \<Rightarrow> nat option \<Rightarrow> bool" where
  "chain t pv [] nx \<longleftrightarrow> True"
| "chain t pv (x # xs) nx \<longleftrightarrow> tn_left (t ! x) = pv \<and>
     tn_right (t ! x) = (if xs = [] then nx else Some (hd xs)) \<and> chain t (Some x) xs nx"

lemma chain_append:
  "chain t pv (xs @ ys) nx \<longleftrightarrow> chain t pv xs (if ys = [] then nx else Some (hd ys)) \<and>
     chain t (if xs = [] then pv else Some (last xs)) ys nx"
proof (induction xs arbitrary: pv)
  case (Cons x xs)
  then show ?case by (cases xs) (simp_all add: conj_assoc)
qed simp

lemma chain_cong:
  "(\<And>x. x \<in> set xs \<Longrightarrow> tn_left (t' ! x) = tn_left (t ! x) \<and> tn_right (t' ! x) = tn_right (t ! x)) \<Longrightarrow>
   chain t' pv xs nx \<longleftrightarrow> chain t pv xs nx"
  by (induction xs arbitrary: pv) simp_all

definition first_of :: "nat list \<Rightarrow> nat option" where
  "first_of xs = (if xs = [] then None else Some (hd xs))"

definition last_of :: "nat list \<Rightarrow> nat option" where
  "last_of xs = (if xs = [] then None else Some (last xs))"

definition parent_rep :: "tree \<Rightarrow> (nat \<Rightarrow> nat list) \<Rightarrow> nat \<Rightarrow> bool" where
  "parent_rep t ch p \<longleftrightarrow> tn_index (t ! p) = int p \<and> tn_count (t ! p) = int (length (ch p)) \<and>
     tn_next (t ! p) = first_of (ch p) \<and> tn_last (t ! p) = last_of (ch p) \<and> distinct (ch p) \<and>
     set (ch p) \<subseteq> {..<length t} \<and> chain t None (ch p) None"

definition child_rep :: "tree \<Rightarrow> (nat \<Rightarrow> nat list) \<Rightarrow> nat \<Rightarrow> bool" where
  "child_rep t ch q \<longleftrightarrow>
     (case tn_parent (t ! q) of
        None \<Rightarrow> tn_left (t ! q) = None \<and> tn_right (t ! q) = None \<and> (\<forall>p < length t. q \<notin> set (ch p))
      | Some a \<Rightarrow> a < length t \<and> (\<forall>p < length t. q \<in> set (ch p) \<longleftrightarrow> p = a))"

definition tree_rep :: "tree \<Rightarrow> (nat \<Rightarrow> nat list) \<Rightarrow> bool" where
  "tree_rep t ch \<longleftrightarrow> (\<forall>p < length t. parent_rep t ch p \<and> child_rep t ch p)"

lemma tree_repD:
  assumes "tree_rep t ch" and "p < length t"
  shows "parent_rep t ch p" "child_rep t ch p"
  using assms by (simp_all add: tree_rep_def)

lemma first_of_simps [simp]: "first_of [] = None" "first_of (x # xs) = Some x"
  "first_of xs = None \<longleftrightarrow> xs = []"
  by (simp_all add: first_of_def)

lemma last_of_simps [simp]: "last_of [] = None" "last_of (xs @ [x]) = Some x"
  by (simp_all add: last_of_def)

lemma length_upd [simp]: "length (upd t p f) = length t"
  by (simp add: upd_def)

lemma upd_nth: "q < length t \<Longrightarrow> upd t p f ! q = (if q = p then f (t ! p) else t ! q)"
  by (auto simp: upd_def nth_list_update)

lemma child_rep_child:
  "tree_rep t ch \<Longrightarrow> p < length t \<Longrightarrow> q \<in> set (ch p) \<Longrightarrow> tn_parent (t ! q) = Some p \<and> q < length t"
  using tree_repD [of t ch p] tree_repD [of t ch q]
  by (auto simp: parent_rep_def child_rep_def split: option.splits)

lemma length_new_tree [simp]: "length (new_tree n) = n"
  by (simp add: new_tree_def)

lemma new_tree_rep: "tree_rep (new_tree n) (\<lambda>_. [])"
  by (simp add: tree_rep_def new_tree_def parent_rep_def child_rep_def new_node_def)

lemma children_short:
  assumes "tree_rep t ch" and "p < length t"
  shows "length (ch p) \<le> length t"
proof -
  have "distinct (ch p)" "set (ch p) \<subseteq> {..<length t}"
    using tree_repD(1) [OF assms] by (simp_all add: parent_rep_def)
  then show ?thesis
    using card_mono [of "{..<length t}" "set (ch p)"] by (simp add: distinct_card)
qed

section \<open>Walks\<close>

lemma find_tail_chain:
  "chain t pv (x # xs) None \<Longrightarrow> set (x # xs) \<subseteq> {..<length t} \<Longrightarrow> length xs < k \<Longrightarrow>
   find_tail t k x = Inr (last (x # xs))"
proof (induction xs arbitrary: pv x k)
  case Nil
  then show ?case by (cases k) (simp_all add: node_at_def)
next
  case (Cons y ys)
  then show ?case by (cases k) (simp_all add: node_at_def)
qed

lemma walk_chain:
  "chain t pv xs None \<Longrightarrow> set xs \<subseteq> {..<length t} \<Longrightarrow> length xs \<le> k \<Longrightarrow>
   walk t k (first_of xs) = Inr xs"
proof (induction xs arbitrary: pv k)
  case (Cons y ys)
  then show ?case by (cases k) (auto simp: node_at_def first_of_def)
qed simp

lemma walk_children:
  assumes "tree_rep t ch" and "p < length t"
  shows "walk t (length t) (tn_next (t ! p)) = Inr (ch p)"
  using tree_repD(1) [OF assms] children_short [OF assms] walk_chain [of t None "ch p" "length t"]
  by (simp add: parent_rep_def)

lemma iterate_children:
  assumes "tree_rep t ch" and "p < length t"
  shows "iterate t p = Inr (map int (ch p))"
proof -
  have "\<forall>q \<in> set (ch p). tn_index (t ! q) = int q"
    using child_rep_child [OF assms] tree_repD(1) [OF assms(1)] by (auto simp: parent_rep_def)
  then show ?thesis by (simp add: iterate_def walk_children [OF assms])
qed

section \<open>Adding a child\<close>

lemma add_next_fields:
  assumes rep: "tree_rep t ch" and s: "s < length t" and i: "i < length t"
    and free: "tn_parent (t ! i) = None"
  obtains t' where "add_next t s (int i) = Inr t'" and "length t' = length t"
    and "\<And>q. q < length t \<Longrightarrow> t' ! q = \<lparr>
       tn_parent = (if q = i then Some s else tn_parent (t ! q)),
       tn_left = (if q = i then last_of (ch s) else tn_left (t ! q)),
       tn_right = (if last_of (ch s) = Some q then Some i else tn_right (t ! q)),
       tn_next = (if q = s \<and> ch s = [] then Some i else tn_next (t ! q)),
       tn_last = (if q = s then Some i else tn_last (t ! q)),
       tn_index = tn_index (t ! q),
       tn_count = (if q = s then tn_count (t ! q) + 1 else tn_count (t ! q))\<rparr>"
proof -
  note p = tree_repD(1) [OF rep s, unfolded parent_rep_def]
  note c = tree_repD(2) [OF rep i, unfolded child_rep_def, unfolded free, simplified]
  have idx: "index_of t (int i) = Inr i" using i by (simp add: index_of_def)
  let ?t1 = "upd t i (\<lambda>x. x\<lparr>tn_parent := Some s\<rparr>)"
  have cnt: "tn_count (?t1 ! s) = int (length (ch s))" using s p by (auto simp: upd_nth)
  show thesis
  proof (cases "ch s" rule: rev_cases)
    case Nil
    let ?t2 = "upd ?t1 s (\<lambda>x. x\<lparr>tn_next := Some i\<rparr>)"
    let ?t3 = "upd ?t2 s (\<lambda>x. x\<lparr>tn_last := Some i, tn_count := tn_count x + 1\<rparr>)"
    show thesis
    proof (rule that [of ?t3])
      show "add_next t s (int i) = Inr ?t3"
        using i cnt Nil by (simp add: add_next_def idx free Let_def)
    next
      fix q assume "q < length t"
      then show "?t3 ! q = \<lparr>tn_parent = (if q = i then Some s else tn_parent (t ! q)),
       tn_left = (if q = i then last_of (ch s) else tn_left (t ! q)),
       tn_right = (if last_of (ch s) = Some q then Some i else tn_right (t ! q)),
       tn_next = (if q = s \<and> ch s = [] then Some i else tn_next (t ! q)),
       tn_last = (if q = s then Some i else tn_last (t ! q)),
       tn_index = tn_index (t ! q),
       tn_count = (if q = s then tn_count (t ! q) + 1 else tn_count (t ! q))\<rparr>"
        using s i c Nil by (simp add: upd_nth)
    qed simp
  next
    case (snoc ys z)
    let ?t2 = "upd (upd ?t1 i (\<lambda>x. x\<lparr>tn_left := Some z\<rparr>)) z (\<lambda>x. x\<lparr>tn_right := Some i\<rparr>)"
    let ?t3 = "upd ?t2 s (\<lambda>x. x\<lparr>tn_last := Some i, tn_count := tn_count x + 1\<rparr>)"
    have z: "z < length t" using p snoc by simp
    have zi: "z \<noteq> i" using c s snoc by auto
    obtain h hs where h: "ch s = h # hs" using snoc by (metis neq_Nil_conv snoc_eq_iff_butlast)
    have "chain ?t1 None (ch s) None \<longleftrightarrow> chain t None (ch s) None"
      by (rule chain_cong) (use p in \<open>auto simp: upd_nth\<close>)
    then have tl: "find_tail ?t1 (length t) h = Inr z"
      using find_tail_chain [of ?t1 None h hs "length t"] p children_short [OF rep s] snoc
      unfolding h [symmetric] by (simp add: h) (metis h last_snoc last_ConsL last_ConsR)
    have h1: "deref ?t1 (tn_next (?t1 ! s)) = Inr h"
      using p s h by (cases "s = i") (simp_all add: deref_def upd_nth)
    show thesis
    proof (rule that [of ?t3])
      show "add_next t s (int i) = Inr ?t3"
        using i cnt snoc by (simp add: add_next_def idx free Let_def h1 tl)
    next
      fix q assume "q < length t"
      then show "?t3 ! q = \<lparr>tn_parent = (if q = i then Some s else tn_parent (t ! q)),
       tn_left = (if q = i then last_of (ch s) else tn_left (t ! q)),
       tn_right = (if last_of (ch s) = Some q then Some i else tn_right (t ! q)),
       tn_next = (if q = s \<and> ch s = [] then Some i else tn_next (t ! q)),
       tn_last = (if q = s then Some i else tn_last (t ! q)),
       tn_index = tn_index (t ! q),
       tn_count = (if q = s then tn_count (t ! q) + 1 else tn_count (t ! q))\<rparr>"
        using s i z zi snoc by (simp add: upd_nth)
    qed simp
  qed
qed

lemma add_next_rep:
  assumes rep: "tree_rep t ch" and s: "s < length t" and i: "i < length t"
    and free: "tn_parent (t ! i) = None"
  shows "\<exists>t'. add_next t s (int i) = Inr t' \<and> length t' = length t \<and>
    tree_rep t' (ch(s := ch s @ [i])) \<and>
    (\<forall>q < length t. tn_parent (t' ! q) = (if q = i then Some s else tn_parent (t ! q)))"
proof -
  from add_next_fields [OF assms] obtain t' where a: "add_next t s (int i) = Inr t'"
    and l: "length t' = length t"
    and f: "\<And>q. q < length t \<Longrightarrow> t' ! q = \<lparr>
       tn_parent = (if q = i then Some s else tn_parent (t ! q)),
       tn_left = (if q = i then last_of (ch s) else tn_left (t ! q)),
       tn_right = (if last_of (ch s) = Some q then Some i else tn_right (t ! q)),
       tn_next = (if q = s \<and> ch s = [] then Some i else tn_next (t ! q)),
       tn_last = (if q = s then Some i else tn_last (t ! q)),
       tn_index = tn_index (t ! q),
       tn_count = (if q = s then tn_count (t ! q) + 1 else tn_count (t ! q))\<rparr>"
    by blast
  note c = tree_repD(2) [OF rep i, unfolded child_rep_def, unfolded free, simplified]
  have last_in: "last_of (ch s) = Some q \<Longrightarrow> q \<in> set (ch s)" for q
    by (auto simp: last_of_def split: if_splits)
  have "parent_rep t' (ch(s := ch s @ [i])) p \<and> child_rep t' (ch(s := ch s @ [i])) p"
    if p: "p < length t" for p
  proof
    note pp = tree_repD(1) [OF rep p, unfolded parent_rep_def]
    show "parent_rep t' (ch(s := ch s @ [i])) p"
    proof (cases "p = s")
      case False
      have "\<forall>x \<in> set (ch p). x \<noteq> i \<and> last_of (ch s) \<noteq> Some x"
        using c p last_in child_rep_child [OF rep p] child_rep_child [OF rep s] False by fastforce
      then have "chain t' None (ch p) None \<longleftrightarrow> chain t None (ch p) None"
        by (intro chain_cong) (use pp f in auto)
      then show ?thesis using pp p f False by (simp add: parent_rep_def l)
    next
      case True
      have "chain t' None (ch s @ [i]) None"
      proof (cases "ch s" rule: rev_cases)
        case Nil
        then show ?thesis using c i f by simp
      next
        case (snoc ys z)
        have pz: "z < length t" "z \<notin> set ys" "i \<noteq> z" "i \<notin> set ys"
          "chain t None (ys @ [z]) None" "set ys \<subseteq> {..<length t}"
          using pp c s snoc True by auto
        have "chain t' None ys (Some z) \<longleftrightarrow> chain t None ys (Some z)"
          by (rule chain_cong) (use pz f snoc in auto)
        then show ?thesis using pz i f c snoc by (simp add: chain_append)
      qed
      then show ?thesis
        using pp p i f c s True by (simp add: parent_rep_def l first_of_def)
    qed
    show "child_rep t' (ch(s := ch s @ [i])) p"
    proof (cases "p = i")
      case True
      then show ?thesis using f [OF i] c s by (auto simp: child_rep_def l)
    next
      case False
      have "tn_parent (t ! p) = None \<Longrightarrow> last_of (ch s) \<noteq> Some p"
        using last_in child_rep_child [OF rep s] by fastforce
      then show ?thesis
        using tree_repD(2) [OF rep p] f [OF p] False
        by (auto simp: child_rep_def l split: option.splits)
    qed
  qed
  then have "tree_rep t' (ch(s := ch s @ [i]))" by (simp add: tree_rep_def l)
  with a l f show ?thesis by auto
qed

section \<open>Taking a child out\<close>

text \<open>\<open>detached t t' a q xs ys\<close>: \<open>t'\<close> is \<open>t\<close> with \<open>q\<close> taken out of the children \<open>xs @ q # ys\<close> of \<open>a\<close>.\<close>

definition detached :: "tree \<Rightarrow> tree \<Rightarrow> nat \<Rightarrow> nat \<Rightarrow> nat list \<Rightarrow> nat list \<Rightarrow> bool" where
  "detached t t' a q xs ys \<longleftrightarrow> length t' = length t \<and> (\<forall>p < length t. t' ! p = \<lparr>
     tn_parent = (if p = q then None else tn_parent (t ! p)),
     tn_left = (if p = q then None else if first_of ys = Some p then last_of xs else tn_left (t ! p)),
     tn_right = (if p = q then None else if last_of xs = Some p then first_of ys else tn_right (t ! p)),
     tn_next = (if p = a then first_of (xs @ ys) else tn_next (t ! p)),
     tn_last = (if p = a then last_of (xs @ ys) else tn_last (t ! p)),
     tn_index = tn_index (t ! p),
     tn_count = (if p = a then tn_count (t ! p) - 1 else tn_count (t ! p))\<rparr>)"

lemma first_of_mem: "first_of xs = Some x \<Longrightarrow> x \<in> set xs"
  by (auto simp: first_of_def split: if_splits)

lemma last_of_mem: "last_of xs = Some x \<Longrightarrow> x \<in> set xs"
  by (auto simp: last_of_def split: if_splits)

lemma detached_chain:
  assumes c: "chain t None (xs @ q # ys) None" and d: "distinct (xs @ q # ys)"
    and l: "set (xs @ q # ys) \<subseteq> {..<length t}" and dt: "detached t t' a q xs ys"
  shows "chain t' None (xs @ ys) None"
proof -
  have f: "p < length t \<Longrightarrow> tn_left (t' ! p) = (if p = q then None else if first_of ys = Some p
      then last_of xs else tn_left (t ! p)) \<and> tn_right (t' ! p) = (if p = q then None
      else if last_of xs = Some p then first_of ys else tn_right (t ! p))" for p
    using dt by (simp add: detached_def)
  have c1: "chain t None xs (Some q)" and c2: "chain t (Some q) ys None"
    using c by (simp_all add: chain_append)
  have x: "chain t' None xs (first_of ys)"
  proof (cases xs rule: rev_cases)
    case (snoc zs z)
    have n: "z < length t" "z \<noteq> q" "z \<notin> set ys" "z \<notin> set zs" "\<forall>x \<in> set zs. x \<noteq> q \<and> x \<notin> set ys \<and> x < length t"
      using d l snoc by auto
    have "chain t' None zs (Some z) \<longleftrightarrow> chain t None zs (Some z)"
      by (rule chain_cong) (use n f snoc first_of_mem [of ys] in fastforce)
    then show ?thesis
      using c1 n f [of z] first_of_mem [of ys z] snoc by (auto simp: chain_append)
  qed simp
  have y: "chain t' (last_of xs) ys None"
  proof (cases ys)
    case (Cons w ws)
    have n: "w < length t" "w \<noteq> q" "w \<notin> set xs" "w \<notin> set ws" "\<forall>x \<in> set ws. x \<noteq> q \<and> x \<notin> set xs \<and> x < length t"
      using d l Cons by auto
    have "chain t' (Some w) ws None \<longleftrightarrow> chain t (Some w) ws None"
      by (rule chain_cong) (use n f Cons last_of_mem [of xs] in fastforce)
    then show ?thesis
      using c2 n f [of w] last_of_mem [of xs w] Cons by auto
  qed simp
  show ?thesis using x y by (simp add: chain_append first_of_def last_of_def split: if_splits)
qed

lemma detached_rep:
  assumes rep: "tree_rep t ch" and a: "a < length t" and ch: "ch a = xs @ q # ys"
    and dt: "detached t t' a q xs ys"
  shows "tree_rep t' (ch(a := xs @ ys))"
proof -
  have l: "length t' = length t" using dt by (simp add: detached_def)
  note f = dt [unfolded detached_def, THEN conjunct2, rule_format]
  note pa = tree_repD(1) [OF rep a, unfolded parent_rep_def ch]
  have q: "tn_parent (t ! q) = Some a" "q < length t"
    using child_rep_child [OF rep a, of q] ch by auto
  have dq: "q \<notin> set (xs @ ys)" using pa by auto
  have mem: "first_of ys = Some p \<or> last_of xs = Some p \<Longrightarrow> tn_parent (t ! p) = Some a" for p
    using first_of_mem [of ys p] last_of_mem [of xs p] child_rep_child [OF rep a, of p] ch by auto
  have "parent_rep t' (ch(a := xs @ ys)) p \<and> child_rep t' (ch(a := xs @ ys)) p" if p: "p < length t" for p
  proof
    note pp = tree_repD(1) [OF rep p, unfolded parent_rep_def]
    show "parent_rep t' (ch(a := xs @ ys)) p"
    proof (cases "p = a")
      case True
      have "chain t' None (xs @ ys) None" by (rule detached_chain [OF _ _ _ dt]) (use pa in auto)
      then show ?thesis using pa p f [OF p] True by (auto simp: parent_rep_def l)
    next
      case False
      have "\<forall>x \<in> set (ch p). x \<noteq> q \<and> first_of ys \<noteq> Some x \<and> last_of xs \<noteq> Some x"
        using child_rep_child [OF rep p] mem q False by fastforce
      then have "chain t' None (ch p) None \<longleftrightarrow> chain t None (ch p) None"
        by (intro chain_cong) (use pp f in auto)
      then show ?thesis using pp f [OF p] False by (simp add: parent_rep_def l)
    qed
    show "child_rep t' (ch(a := xs @ ys)) p"
    proof (cases "p = q")
      case True
      have "\<forall>x < length t. x \<noteq> a \<longrightarrow> q \<notin> set (ch x)"
        using child_rep_child [OF rep] q by fastforce
      then show ?thesis using f [OF p] True dq by (auto simp: child_rep_def l)
    next
      case False
      have "tn_parent (t ! p) = None \<Longrightarrow> first_of ys \<noteq> Some p \<and> last_of xs \<noteq> Some p"
        using mem by fastforce
      then show ?thesis
        using tree_repD(2) [OF rep p] f [OF p] False ch a
        by (auto simp: child_rep_def l split: option.splits)
    qed
  qed
  then show ?thesis by (simp add: tree_rep_def l)
qed

lemma pop_front_detached:
  assumes rep: "tree_rep t ch" and a: "a < length t" and ch: "ch a = h # ys"
  shows "\<exists>t'. pop_front t a = Inr t' \<and> detached t t' a h [] ys"
proof -
  note pa = tree_repD(1) [OF rep a, unfolded parent_rep_def ch]
  have h: "h < length t" using pa by auto
  show ?thesis
  proof (cases ys)
    case Nil
    have r: "tn_right (t ! h) = None" "tn_left (t ! h) = None" using pa Nil by auto
    show ?thesis using pa a h r Nil
      by (auto simp: pop_front_def detached_def upd_nth)
  next
    case (Cons r rs)
    have r: "tn_right (t ! h) = Some r" "r < length t" "r \<noteq> h" "last (r # rs) = last (h # r # rs)"
      using pa Cons by auto
    show ?thesis using pa a h r Cons
      by (auto simp: pop_front_def detached_def upd_nth last_of_def)
  qed
qed

lemma release_detached:
  assumes rep: "tree_rep t ch" and a: "a < length t" and ch: "ch a = xs @ q # ys"
  shows "\<exists>t'. release t q = Inr t' \<and> detached t t' a q xs ys"
proof -
  note pa = tree_repD(1) [OF rep a, unfolded parent_rep_def ch]
  have q: "tn_parent (t ! q) = Some a" "q < length t"
    using child_rep_child [OF rep a, of q] ch by auto
  have lr: "tn_left (t ! q) = last_of xs" "tn_right (t ! q) = first_of ys"
    using pa by (auto simp: chain_append first_of_def last_of_def split: if_splits)
  show ?thesis
  proof (cases xs rule: rev_cases)
    case Nil
    then show ?thesis
      using pop_front_detached [OF rep a, of q ys] ch q lr by (simp add: release_def)
  next
    case (snoc zs z)
    have z: "z < length t" "z \<noteq> q" using pa snoc by auto
    have nx: "first_of (xs @ q # ys) = first_of (xs @ ys)" using snoc by (cases zs) (simp_all add: first_of_def)
    show ?thesis
    proof (cases ys)
      case Nil
      then show ?thesis using q lr z pa nx snoc a
        by (auto simp: release_def detached_def upd_nth)
    next
      case (Cons r rs)
      have r: "r < length t" "r \<noteq> q" "r \<noteq> z" using pa Cons snoc by auto
      have ls: "last_of (xs @ q # ys) = last_of (xs @ ys)" using Cons by (simp add: last_of_def)
      show ?thesis using q lr z r pa nx ls snoc Cons a
        by (auto simp: release_def detached_def upd_nth)
    qed
  qed
qed

lemma pop_front_rep:
  assumes rep: "tree_rep t ch" and a: "a < length t" and ch: "ch a = h # ys"
  shows "\<exists>t'. pop_front t a = Inr t' \<and> length t' = length t \<and> tree_rep t' (ch(a := ys))"
  using pop_front_detached [OF assms] detached_rep [OF rep a, of "[]" h ys] ch
  by (auto simp: detached_def)

lemma release_rep:
  assumes rep: "tree_rep t ch" and q: "q < length t" and p: "tn_parent (t ! q) = Some a"
  shows "\<exists>t'. release t q = Inr t' \<and> length t' = length t \<and> tree_rep t' (ch(a := remove1 q (ch a))) \<and>
    (\<forall>x < length t. tn_parent (t' ! x) = (if x = q then None else tn_parent (t ! x)))"
proof -
  have a: "a < length t" and m: "q \<in> set (ch a)"
    using tree_repD(2) [OF rep q] p by (auto simp: child_rep_def)
  then obtain xs ys where ch: "ch a = xs @ q # ys" by (meson split_list)
  have "q \<notin> set xs" using tree_repD(1) [OF rep a] ch by (simp add: parent_rep_def)
  then have r: "remove1 q (ch a) = xs @ ys" by (simp add: ch remove1_append)
  from release_detached [OF rep a ch] obtain t' where t: "release t q = Inr t'"
    and dt: "detached t t' a q xs ys" by blast
  have "tree_rep t' (ch(a := remove1 q (ch a)))" using detached_rep [OF rep a ch dt] by (simp add: r)
  then show ?thesis using t dt by (auto simp: detached_def)
qed

lemma pop_front_empty:
  assumes "tree_rep t ch" and "a < length t" and "ch a = []"
  shows "pop_front t a = Inl (Thrown ''there's no next to pop'')"
  using tree_repD(1) [OF assms(1,2)] assms(3) by (simp add: parent_rep_def pop_front_def)

lemma clear_rounds_rep:
  "tree_rep t ch \<Longrightarrow> a < length t \<Longrightarrow> length (ch a) \<le> k \<Longrightarrow>
   \<exists>t'. clear_rounds k t a = Inr t' \<and> length t' = length t \<and> tree_rep t' (ch(a := []))"
proof (induction k arbitrary: t ch)
  case 0
  then show ?case
    using tree_repD(1) [OF 0(1,2)] by (simp add: parent_rep_def fun_upd_idem)
next
  case (Suc k)
  show ?case
  proof (cases "ch a")
    case Nil
    then show ?thesis
      using tree_repD(1) [OF Suc.prems(1,2)] Suc.prems(1) by (simp add: parent_rep_def fun_upd_idem)
  next
    case (Cons h ys)
    then have "tn_next (t ! a) \<noteq> None"
      using tree_repD(1) [OF Suc.prems(1,2)] by (simp add: parent_rep_def)
    moreover from pop_front_rep [OF Suc.prems(1,2) Cons] obtain t1 where
      t1: "pop_front t a = Inr t1" "length t1 = length t" "tree_rep t1 (ch(a := ys))" by blast
    have "\<exists>t'. clear_rounds k t1 a = Inr t' \<and> length t' = length t1 \<and>
        tree_rep t' ((ch(a := ys))(a := []))"
      by (rule Suc.IH [OF t1(3)]) (use t1(2) Suc.prems(2,3) Cons in simp_all)
    then obtain t' where "clear_rounds k t1 a = Inr t'" "length t' = length t1"
      "tree_rep t' (ch(a := []))" by (metis fun_upd_upd)
    moreover have "clear_rounds (Suc k) t a = clear_rounds k t1 a"
      using calculation(1) t1(1) by auto
    ultimately show ?thesis using t1(2) by metis
  qed
qed

section \<open>Properties\<close>

text \<open>C20: The process tree refines a map from nodes to lists of children. On every properly linked
  tree: adding an unassigned node appends it to the children of its new parent; popping drops the
  first child; releasing a child removes it from its parent's list; clearing empties the list, and
  ends; and iterating yields the children in order. Every result is properly linked again.\<close>

theorem tree_refines_children:
  assumes rep: "tree_rep t ch" and p: "p < length t" and q: "q < length t"
  shows "(if tn_parent (t ! q) = None
     then \<exists>t'. add_next t p (int q) = Inr t' \<and> tree_rep t' (ch(p := ch p @ [q]))
     else \<exists>t'. release t q = Inr t' \<and>
       tree_rep t' (ch(the (tn_parent (t ! q)) := remove1 q (ch (the (tn_parent (t ! q))))))) \<and>
    (if ch p = [] then pop_front t p = Inl (Thrown ''there's no next to pop'')
     else \<exists>t'. pop_front t p = Inr t' \<and> tree_rep t' (ch(p := tl (ch p)))) \<and>
    (\<exists>t'. clear t p = Inr t' \<and> tree_rep t' (ch(p := []))) \<and>
    iterate t p = Inr (map int (ch p)) \<and> children_count t p = int (length (ch p))"
proof (intro conjI)
  show "if tn_parent (t ! q) = None
     then \<exists>t'. add_next t p (int q) = Inr t' \<and> tree_rep t' (ch(p := ch p @ [q]))
     else \<exists>t'. release t q = Inr t' \<and>
       tree_rep t' (ch(the (tn_parent (t ! q)) := remove1 q (ch (the (tn_parent (t ! q))))))"
    using add_next_rep [OF rep p q] release_rep [OF rep q] by fastforce
  show "if ch p = [] then pop_front t p = Inl (Thrown ''there's no next to pop'')
     else \<exists>t'. pop_front t p = Inr t' \<and> tree_rep t' (ch(p := tl (ch p)))"
    using pop_front_empty [OF rep p] pop_front_rep [OF rep p] by (cases "ch p") auto
  show "\<exists>t'. clear t p = Inr t' \<and> tree_rep t' (ch(p := []))"
    using clear_rounds_rep [OF rep p children_short [OF rep p]] by (auto simp: clear_def)
  show "iterate t p = Inr (map int (ch p))" by (rule iterate_children [OF rep p])
  show "children_count t p = int (length (ch p))"
    using tree_repD(1) [OF rep p] by (simp add: parent_rep_def children_count_def)
qed

lemma tree_refines_children_witness:
  "\<exists>t'. add_next (new_tree 3) 1 2 = Inr t' \<and> tree_rep t' ((\<lambda>_. [])(1 := [2]))"
  using tree_refines_children [OF new_tree_rep, of 1 3 2]
  by (simp add: new_tree_def new_node_def)

end
