(* ===== verification/Topology.thy ===== *)
theory Topology
  imports Process_Tree
begin

text \<open>
  The free functions of \<open>include/gempba/utils/utils.hpp\<close> that lay out and consume the helper lists:
  \<open>get_next_child\<close> and \<open>build_topology\<close>, which hang every worker under the worker that is to feed it,
  and \<open>shift_left\<close>, which drops the head of a list padded with \<open>-1\<close>.
  Integers are 32-bit: a product or sum out of range is \<open>Undefined\<close>, as is the conversion of a power
  that does not fit.
\<close>

definition INT_MAX :: int where
  "INT_MAX = 2147483647"

definition int_checked :: "int \<Rightarrow> int res" where
  "int_checked v = (if - INT_MAX - 1 \<le> v \<and> v \<le> INT_MAX then Inr v else Inl Undefined)"

definition get_next_child :: "int \<Rightarrow> int \<Rightarrow> int \<Rightarrow> nat \<Rightarrow> int res" where
  "get_next_child p_child p_parent p_children_per_node p_depth =
     rbind (int_checked (p_children_per_node ^ p_depth)) (\<lambda>w.
     rbind (int_checked (p_child * w)) (\<lambda>v. int_checked (v + p_parent)))"

lemma power_gap_less: "(2::int) ^ d < n \<Longrightarrow> nat (n - 2 ^ Suc d) < nat (n - 2 ^ d)"
  by (simp add: nat_less_iff)

text \<open>
  The two loops of \<open>build_topology\<close> and its recursive call, as one recursion: \<open>v_depth\<close> and \<open>v_child\<close>
  are the loop variables. The bound \<open>v_depth < log2(p_total)\<close> is \<open>2 ^ v_depth < p_total\<close>: the
  logarithm of an \<open>int\<close> that is not a power of two is far enough from an integer not to round to it,
  and that of a number below one is negative, infinite or a NaN, for which the loop does not run.
\<close>

function topology_loop :: "tree \<Rightarrow> int \<Rightarrow> nat \<Rightarrow> int \<Rightarrow> int \<Rightarrow> int \<Rightarrow> tree res" where
  "topology_loop t p_parent v_depth v_child p_children_per_node p_total =
     (if \<not> 2 ^ v_depth < p_total then Inr t
      else if \<not> v_child < p_children_per_node
        then topology_loop t p_parent (Suc v_depth) 1 p_children_per_node p_total
      else rbind (get_next_child v_child p_parent p_children_per_node v_depth) (\<lambda>v_next_child.
        if p_total \<le> v_next_child \<or> v_next_child \<le> 0
          then topology_loop t p_parent v_depth (v_child + 1) p_children_per_node p_total
        else rbind (index_of t p_parent) (\<lambda>p.
             rbind (add_next t p v_next_child) (\<lambda>t1.
             rbind (topology_loop t1 v_next_child (Suc v_depth) 1 p_children_per_node p_total) (\<lambda>t2.
               topology_loop t2 p_parent v_depth (v_child + 1) p_children_per_node p_total)))))"
  by pat_completeness auto

termination
  by (relation "measures [\<lambda>(t, p, d, c, k, n). nat (n - 2 ^ d), \<lambda>(t, p, d, c, k, n). nat (k - c)]")
    (auto simp: power_gap_less simp del: power_Suc)

declare topology_loop.simps [simp del]

definition build_topology :: "tree \<Rightarrow> int \<Rightarrow> nat \<Rightarrow> int \<Rightarrow> int \<Rightarrow> tree res" where
  "build_topology t p_parent p_depth_start p_children_per_node p_total =
     topology_loop t p_parent p_depth_start 1 p_children_per_node p_total"

section \<open>Shifting\<close>

function shift_from :: "int list \<Rightarrow> nat \<Rightarrow> int list" where
  "shift_from v i =
     (if Suc i < length v then
        if v ! i \<noteq> -1 then
          let v1 = v[i := v ! (i + 1)];
              v2 = (if i + 2 = length v \<and> v1 ! i \<noteq> -1 then v1[i + 1 := -1] else v1)
          in shift_from v2 (i + 1)
        else v
      else v)"
  by pat_completeness auto

termination
  by (relation "measure (\<lambda>(v, i). length v - i)") (auto split: if_splits)

declare shift_from.simps [simp del]

definition shift_left :: "int list \<Rightarrow> int list res" where
  "shift_left v = (if v = [] then Inl (Thrown ''Attempted to shift an empty vector'') else Inr (shift_from v 0))"

lemma length_shift_from [simp]: "length (shift_from v i) = length v"
proof (induction v i rule: shift_from.induct)
  case (1 v i)
  then show ?case by (subst shift_from.simps) (simp add: Let_def)
qed

lemma shift_from_set: "set (shift_from v i) \<subseteq> insert (-1) (set v)"
proof (induction v i rule: shift_from.induct)
  case (1 v i)
  show ?case
  proof (cases "Suc i < length v \<and> v ! i \<noteq> -1")
    case True
    define v1 where "v1 = v[i := v ! (i + 1)]"
    define v2 where "v2 = (if i + 2 = length v \<and> v1 ! i \<noteq> -1 then v1[i + 1 := -1] else v1)"
    have "set v1 \<subseteq> set v" unfolding v1_def using True by (intro set_update_subsetI) simp_all
    then have "set v2 \<subseteq> insert (-1) (set v)"
      using set_update_subset_insert [of v1 "i + 1" "-1"] by (auto simp: v2_def)
    moreover have "set (shift_from v2 (i + 1)) \<subseteq> insert (-1) (set v2)"
      using 1 [OF _ _ v1_def v2_def] True by simp
    moreover have "shift_from v i = shift_from v2 (i + 1)"
      using True by (subst shift_from.simps) (simp add: Let_def v1_def v2_def)
    ultimately show ?thesis by auto
  next
    case False
    then have "shift_from v i = v" by (subst shift_from.simps) auto
    then show ?thesis by auto
  qed
qed

lemma shift_left_sel:
  assumes "v \<noteq> []"
  shows "\<exists>v'. shift_left v = Inr v' \<and> length v' = length v \<and> set v' \<subseteq> insert (-1) (set v)"
  using assms shift_from_set [of v 0] by (auto simp: shift_left_def)

lemma shift_from_padded:
  "-1 \<notin> set ys \<Longrightarrow> 0 < k \<or> 2 \<le> length ys \<Longrightarrow>
   shift_from (pre @ ys @ replicate k (-1)) (length pre) =
     (if ys = [] then pre @ replicate k (-1) else pre @ tl ys @ replicate (Suc k) (-1))"
proof (induction ys arbitrary: pre k)
  case Nil
  then show ?case by (cases k) (simp_all add: shift_from.simps nth_append)
next
  case (Cons y zs)
  show ?case
  proof (cases zs)
    case Nil
    then obtain k' where k: "k = Suc k'" using Cons.prems by (cases k) auto
    have "shift_from (pre @ y # replicate k (-1)) (length pre) =
      shift_from ((pre @ [-1]) @ replicate k (-1)) (length (pre @ [-1]))"
      using Cons.prems Nil k by (subst shift_from.simps) (simp add: nth_append list_update_append)
    then show ?thesis using Cons.IH [of k "pre @ [-1]"] Nil k by simp
  next
    case (Cons z ws)
    note zs = this
    show ?thesis
    proof (cases "0 < k \<or> ws \<noteq> []")
      case True
      have "shift_from (pre @ y # z # ws @ replicate k (-1)) (length pre) =
        shift_from ((pre @ [z]) @ (z # ws) @ replicate k (-1)) (length (pre @ [z]))"
        using Cons.prems zs True
        by (subst shift_from.simps) (auto simp: nth_append list_update_append Let_def)
      moreover have "0 < k \<or> 2 \<le> length zs" using True zs by (cases ws) auto
      ultimately show ?thesis using Cons.IH [of k "pre @ [z]"] Cons.prems zs by simp
    next
      case False
      then show ?thesis using Cons.prems zs
        by (subst shift_from.simps) (simp add: nth_append list_update_append Let_def shift_from.simps)
    qed
  qed
qed

text \<open>On a list of at least two cells whose entries are followed only by \<open>-1\<close> padding,
  \<open>shift_left\<close> drops the first entry and pads with one more \<open>-1\<close>; a list of padding is unchanged.\<close>

theorem shift_left_padded:
  assumes "-1 \<notin> set ys" and "2 \<le> length ys + k"
  shows "shift_left (ys @ replicate k (-1)) =
     Inr (if ys = [] then replicate k (-1) else tl ys @ replicate (Suc k) (-1))"
proof -
  have "0 < k \<or> 2 \<le> length ys" using assms(2) by arith
  from shift_from_padded [OF assms(1) this, of "[]"] show ?thesis
    using assms(2) by (auto simp: shift_left_def)
qed

lemma shift_left_padded_witness: "shift_left [4, 7, -1] = Inr [7, -1, -1]"
  using shift_left_padded [of "[4, 7]" 1] by (simp add: numeral_2_eq_2)

section \<open>The topology that is built\<close>

text \<open>
  \<open>helpers n x\<close>: rank \<open>x\<close> feeds the ranks \<open>x + 2^e\<close> for the powers \<open>2^e\<close> not below \<open>x\<close>. \<open>under n p d x\<close>:
  the call at \<open>p\<close> from depth \<open>d\<close> places \<open>x\<close>.
\<close>

definition hops :: "nat \<Rightarrow> nat \<Rightarrow> nat \<Rightarrow> nat list" where
  "hops n x d = map (\<lambda>e. x + 2 ^ e) (filter (\<lambda>e. x + 2 ^ e < n) [d..<31])"

definition helpers :: "nat \<Rightarrow> nat \<Rightarrow> nat list" where
  "helpers n x = map (\<lambda>e. x + 2 ^ e) (filter (\<lambda>e. x \<le> 2 ^ e \<and> x + 2 ^ e < n) [0..<31])"

definition under :: "nat \<Rightarrow> nat \<Rightarrow> nat \<Rightarrow> nat \<Rightarrow> bool" where
  "under n p d x \<longleftrightarrow> p < x \<and> x < n \<and> 2 ^ d dvd (x - p)"

lemma under_least: "under n p d x \<Longrightarrow> p + 2 ^ d \<le> x"
  using dvd_imp_le [of "2 ^ d" "x - p"] by (simp add: under_def) arith

lemma under_split:
  assumes "p + 2 ^ d < n"
  shows "under n p d x \<longleftrightarrow> x = p + 2 ^ d \<or> under n (p + 2 ^ d) (Suc d) x \<or> under n p (Suc d) x"
proof
  assume "under n p d x"
  then obtain k where x: "p < x" "x < n" "x - p = 2 ^ d * k" by (auto simp: under_def dvd_def)
  then have xk: "x = p + 2 ^ d * k" by simp
  show "x = p + 2 ^ d \<or> under n (p + 2 ^ d) (Suc d) x \<or> under n p (Suc d) x"
  proof (cases "even k")
    case True
    then show ?thesis using x xk by (auto simp: under_def elim!: evenE)
  next
    case False
    then obtain j where k: "k = 2 * j + 1" by (elim oddE)
    then show ?thesis using x xk by (cases j) (auto simp: under_def algebra_simps)
  qed
next
  assume "x = p + 2 ^ d \<or> under n (p + 2 ^ d) (Suc d) x \<or> under n p (Suc d) x"
  then show "under n p d x"
  proof (elim disjE)
    assume "under n (p + 2 ^ d) (Suc d) x"
    then obtain k where k: "p + 2 ^ d < x" "x < n" "x - (p + 2 ^ d) = 2 ^ Suc d * k"
      by (auto simp: under_def)
    then have "x - p = 2 ^ d * (2 * k + 1)" by (simp add: algebra_simps)
    then show ?thesis using k by (simp add: under_def)
  next
    assume "under n p (Suc d) x"
    then show ?thesis by (auto simp: under_def elim: dvd_mult_right dest: dvd_mult_right)
  qed (use assms in \<open>simp add: under_def\<close>)
qed

lemma under_disjoint:
  assumes "under n (p + 2 ^ d) (Suc d) x" and "under n p (Suc d) x"
  shows False
proof -
  from assms obtain k j where "x - (p + 2 ^ d) = 2 ^ Suc d * k" "x - p = 2 ^ Suc d * j" "p + 2 ^ d < x"
    unfolding under_def by (metis dvdE)
  then have "2 ^ d * (2 * k + 1) = 2 ^ d * (2 * j)" by (simp add: algebra_simps)
  then have "2 * k + 1 = 2 * j" by (metis mult_left_cancel power_not_zero zero_neq_numeral)
  then show False by presburger
qed

lemma hops_step:
  "d < 31 \<Longrightarrow> hops n p d = (if p + 2 ^ d < n then (p + 2 ^ d) # hops n p (Suc d) else hops n p (Suc d))"
  by (simp add: hops_def upt_conv_Cons)

lemma hops_helpers:
  assumes "0 < p" and "p \<le> 2 ^ d"
  shows "hops n (p + 2 ^ d) (Suc d) = helpers n (p + 2 ^ d)"
proof -
  have le: "p + 2 ^ d \<le> 2 ^ e \<longleftrightarrow> Suc d \<le> e" for e :: nat
  proof
    assume "p + 2 ^ d \<le> 2 ^ e"
    then have "2 ^ d < (2 :: nat) ^ e" using assms by linarith
    then show "Suc d \<le> e" by simp
  next
    assume "Suc d \<le> e"
    then have "(2 :: nat) ^ Suc d \<le> 2 ^ e" by (rule power_increasing) simp
    then show "p + 2 ^ d \<le> 2 ^ e" using assms by simp
  qed
  have "filter (\<lambda>e. Suc d \<le> e \<and> p + 2 ^ d + 2 ^ e < n) [0..<31] =
    filter (\<lambda>e. p + 2 ^ d + 2 ^ e < n) (filter (\<lambda>e. Suc d \<le> e) [0..<31])"
    by (simp add: conj_commute)
  also have "filter (\<lambda>e. Suc d \<le> e) [0..<31] = [Suc d..<31]"
  proof (cases "Suc d \<le> 31")
    case True
    then have "[0..<31] = [0..<Suc d] @ [Suc d..<31]" using upt_add_eq_append [of 0 "Suc d" "30 - d"] by simp
    then show ?thesis by (simp add: filter_id_conv filter_empty_conv)
  qed (auto simp: filter_empty_conv)
  finally show ?thesis by (simp add: hops_def helpers_def le)
qed

text \<open>\<open>grown n p d ch\<close>: the children after the call at \<open>p\<close> from depth \<open>d\<close>.\<close>

definition grown :: "nat \<Rightarrow> nat \<Rightarrow> nat \<Rightarrow> (nat \<Rightarrow> nat list) \<Rightarrow> nat \<Rightarrow> nat list" where
  "grown n p d ch x = (if x = p then ch p @ hops n p d else if under n p d x then helpers n x else ch x)"

lemma grown_stop:
  assumes "n \<le> p + 2 ^ d" and "d \<le> 31" and "n \<le> 2 ^ 30"
  shows "grown n p d ch = ch"
proof
  fix x
  have "\<not> under n p d x" using under_least [of n p d x] assms(1) by (auto simp: under_def)
  moreover have "\<not> p + 2 ^ e < n" if "d \<le> e" for e
  proof -
    have "(2::nat) ^ d \<le> 2 ^ e" using that by (intro power_increasing) simp_all
    then show ?thesis using assms(1) by linarith
  qed
  then have "hops n p d = []" by (auto simp: hops_def filter_empty_conv)
  ultimately show "grown n p d ch x = ch x" by (simp add: grown_def)
qed

lemma grown_skip:
  assumes "n \<le> p + 2 ^ d" and "d < 31" and "n \<le> 2 ^ 30"
  shows "grown n p (Suc d) ch = grown n p d ch"
  using grown_stop [of n p d ch] grown_stop [of n p "Suc d" ch] assms by (simp add: power_Suc)

lemma grown_next:
  assumes p: "0 < p" "p \<le> 2 ^ d" and q: "p + 2 ^ d < n" and d: "d < 31" and "ch (p + 2 ^ d) = []"
  shows "grown n p (Suc d) (grown n (p + 2 ^ d) (Suc d) (ch(p := ch p @ [p + 2 ^ d]))) = grown n p d ch"
proof
  fix x
  have n: "\<not> under n (p + 2 ^ d) (Suc d) p" "\<not> under n p (Suc d) (p + 2 ^ d)" "\<not> under n p d p"
    "\<not> under n p (Suc d) p"
    using under_least [of n p "Suc d" "p + 2 ^ d"] by (auto simp: under_def)
  show "grown n p (Suc d) (grown n (p + 2 ^ d) (Suc d) (ch(p := ch p @ [p + 2 ^ d]))) x = grown n p d ch x"
    using n under_split [OF q, of x] hops_step [OF d, of n p] hops_helpers [OF p, of n] assms(5) q
    by (auto simp: grown_def)
qed

definition placed :: "nat \<Rightarrow> tree \<Rightarrow> tree \<Rightarrow> (nat \<Rightarrow> nat list) \<Rightarrow> (nat \<Rightarrow> bool) \<Rightarrow> bool" where
  "placed n t t' ch U \<longleftrightarrow> length t' = n \<and> tree_rep t' ch \<and>
     (\<forall>x < n. \<not> U x \<longrightarrow> tn_parent (t' ! x) = tn_parent (t ! x))"

lemma next_child_two:
  assumes "p < n" and "2 ^ d < n" and "n \<le> 2 ^ 30"
  shows "get_next_child 1 (int p) 2 d = Inr (int (p + 2 ^ d))"
proof -
  have n: "int n \<le> 1073741824" using assms(3) by simp
  have d: "int (2 ^ d) < int n" using assms(2) by (simp only: of_nat_less_iff)
  then have d': "(2::int) ^ d < int n" by simp
  have "0 \<le> (2::int) ^ d" by simp
  then have "- INT_MAX - 1 \<le> 2 ^ d \<and> 2 ^ d \<le> INT_MAX"
    "- INT_MAX - 1 \<le> 2 ^ d + int p \<and> 2 ^ d + int p \<le> INT_MAX"
    using n d' assms(1) unfolding INT_MAX_def by linarith+
  then have "int_checked (2 ^ d) = Inr (2 ^ d)" "int_checked (2 ^ d + int p) = Inr (2 ^ d + int p)"
    unfolding int_checked_def by (simp_all only: if_True simp_thms)
  then show ?thesis by (simp add: get_next_child_def add.commute)
qed

lemma two_power_int: "2 ^ d < int n \<longleftrightarrow> 2 ^ d < n"
  by (metis of_nat_less_iff of_nat_numeral of_nat_power)

lemma topology_loop_last_child:
  "2 ^ d < n \<Longrightarrow> topology_loop t p d 2 2 (int n) = topology_loop t p (Suc d) 1 2 (int n)"
  by (subst topology_loop.simps) (simp add: two_power_int)

lemma topology_loop_unfold:
  assumes "0 < p" and "p < n" and "2 ^ d < n" and "n \<le> 2 ^ 30" and "length t = n"
  shows "topology_loop t (int p) d 1 2 (int n) =
    (if n \<le> p + 2 ^ d then topology_loop t (int p) (Suc d) 1 2 (int n)
     else rbind (add_next t p (int (p + 2 ^ d))) (\<lambda>t1.
          rbind (topology_loop t1 (int (p + 2 ^ d)) (Suc d) 1 2 (int n)) (\<lambda>t2.
            topology_loop t2 (int p) (Suc d) 1 2 (int n))))"
proof -
  have "int n \<le> int (p + 2 ^ d) \<longleftrightarrow> n \<le> p + 2 ^ d" by (simp only: of_nat_le_iff)
  moreover have "\<not> int (p + 2 ^ d) \<le> 0" using assms(1) by (simp only: of_nat_le_0_iff)
  moreover have "index_of t (int p) = Inr p" using assms(2,5) by (simp add: index_of_def)
  moreover note next_child_two [OF assms(2,3,4)] topology_loop_last_child [OF assms(3)]
  ultimately show ?thesis
    using assms(3) by (subst topology_loop.simps) (simp add: two_power_int del: of_nat_add)
qed

lemma topology_loop_two:
  "d + k = 31 \<Longrightarrow> n \<le> 2 ^ 30 \<Longrightarrow> length t = n \<Longrightarrow> tree_rep t ch \<Longrightarrow> 0 < p \<Longrightarrow> p < n \<Longrightarrow> p \<le> 2 ^ d \<Longrightarrow>
   (\<And>x. under n p d x \<Longrightarrow> tn_parent (t ! x) = None \<and> ch x = []) \<Longrightarrow>
   \<exists>t'. topology_loop t (int p) d 1 2 (int n) = Inr t' \<and> placed n t t' (grown n p d ch) (under n p d)"
proof (induction k arbitrary: d t ch p)
  case 0
  have "\<not> 2 ^ d < int n"
    using 0(1,2) by simp
  moreover have "n \<le> p + 2 ^ d" using 0(1,2) by simp
  ultimately show ?case
    using 0 grown_stop [of n p d ch] by (subst topology_loop.simps) (simp add: placed_def)
next
  case (Suc k)
  note prem = Suc.prems
  have d: "d < 31" "Suc d + k = 31" using prem(1) by simp_all
  have p2: "p \<le> 2 ^ Suc d" using prem(7) by simp
  consider "\<not> 2 ^ d < n" | "2 ^ d < n" "n \<le> p + 2 ^ d" | "p + 2 ^ d < n" by linarith
  then show ?case
  proof cases
    case 1
    then show ?thesis
      using prem grown_stop [of n p d ch] d by (subst topology_loop.simps) (simp add: placed_def two_power_int)
  next
    case 2
    have "\<exists>t'. topology_loop t (int p) (Suc d) 1 2 (int n) = Inr t' \<and>
        placed n t t' (grown n p (Suc d) ch) (under n p (Suc d))"
    proof (rule Suc.IH [OF d(2) prem(2-6) p2])
      fix x assume "under n p (Suc d) x"
      then have False using under_least [of n p "Suc d" x] 2(2) by (auto simp: under_def)
      then show "tn_parent (t ! x) = None \<and> ch x = []" ..
    qed
    moreover have "topology_loop t (int p) d 1 2 (int n) = topology_loop t (int p) (Suc d) 1 2 (int n)"
      using topology_loop_unfold [OF prem(5,6) 2(1) prem(2,3)] 2(2) by simp
    moreover have "under n p d x \<longleftrightarrow> under n p (Suc d) x" for x
      using under_least [of n p d x] under_least [of n p "Suc d" x] 2(2) by (auto simp: under_def)
    ultimately show ?thesis using grown_skip [OF 2(2) d(1) prem(2)] by (simp add: placed_def)
  next
    case 3
    define q where "q = p + 2 ^ d"
    have q: "0 < q" "q < n" "q \<le> 2 ^ Suc d" and 2: "2 ^ d < n" using 3 prem(5,7) by (simp_all add: q_def)
    have uq: "under n p d q" using under_split [OF 3] by (simp add: q_def)
    have free: "tn_parent (t ! q) = None" "ch q = []" using prem(8) [OF uq] by simp_all
    from add_next_rep [OF prem(4), of p q] prem(3,6) q(2) free(1) obtain t1 where
      t1: "add_next t p (int q) = Inr t1" "length t1 = n" "tree_rep t1 (ch(p := ch p @ [q]))"
      "\<And>x. x < n \<Longrightarrow> tn_parent (t1 ! x) = (if x = q then Some p else tn_parent (t ! x))" by auto
    have "\<exists>t2. topology_loop t1 (int q) (Suc d) 1 2 (int n) = Inr t2 \<and>
        placed n t1 t2 (grown n q (Suc d) (ch(p := ch p @ [q]))) (under n q (Suc d))"
    proof (rule Suc.IH [OF d(2) prem(2) t1(2,3) q])
      fix x assume u: "under n q (Suc d) x"
      then have "under n p d x" using under_split [OF 3] by (simp add: q_def)
      moreover have "x < n" "x \<noteq> q" "x \<noteq> p" using u by (auto simp: under_def q_def)
      ultimately show "tn_parent (t1 ! x) = None \<and> (ch(p := ch p @ [q])) x = []"
        using prem(8) t1(4) by simp
    qed
    then obtain t2 where t2: "topology_loop t1 (int q) (Suc d) 1 2 (int n) = Inr t2" "length t2 = n"
      "tree_rep t2 (grown n q (Suc d) (ch(p := ch p @ [q])))"
      "\<And>x. x < n \<Longrightarrow> \<not> under n q (Suc d) x \<Longrightarrow> tn_parent (t2 ! x) = tn_parent (t1 ! x)"
      by (auto simp: placed_def)
    let ?g = "grown n q (Suc d) (ch(p := ch p @ [q]))"
    have "\<exists>t3. topology_loop t2 (int p) (Suc d) 1 2 (int n) = Inr t3 \<and>
        placed n t2 t3 (grown n p (Suc d) ?g) (under n p (Suc d))"
    proof (rule Suc.IH [OF d(2) prem(2) t2(2,3) prem(5,6) p2])
      fix x assume u: "under n p (Suc d) x"
      then have "under n p d x" using under_split [OF 3] by simp
      moreover have "x < n" "x \<noteq> q" "x \<noteq> p" "\<not> under n q (Suc d) x"
        using u under_least [OF u] under_disjoint [of n p d x] by (auto simp: under_def q_def)
      ultimately show "tn_parent (t2 ! x) = None \<and> ?g x = []"
        using prem(8) t1(4) t2(4) by (simp add: grown_def)
    qed
    then obtain t3 where t3: "topology_loop t2 (int p) (Suc d) 1 2 (int n) = Inr t3"
      "placed n t2 t3 (grown n p d ch) (under n p (Suc d))"
      using grown_next [OF prem(5,7) 3 d(1), of ch] free(2) by (auto simp: q_def)
    have "topology_loop t (int p) d 1 2 (int n) = Inr t3"
      using topology_loop_unfold [OF prem(5,6) 2 prem(2,3)] 3 t1(1) t2(1) t3(1) by (simp add: q_def)
    moreover have "placed n t t3 (grown n p d ch) (under n p d)"
      using t3(2) t2(4) t1(4) under_split [OF 3] by (auto simp: placed_def q_def)
    ultimately show ?thesis by blast
  qed
qed

definition worker_helpers :: "nat \<Rightarrow> nat \<Rightarrow> nat list" where
  "worker_helpers n x = (if x = 0 then [] else helpers n x)"

lemma build_topology_tree:
  assumes "2 \<le> n" and "n \<le> 2 ^ 30"
  shows "\<exists>t. build_topology (new_tree n) 1 0 2 (int n) = Inr t \<and> length t = n \<and>
    tree_rep t (worker_helpers n)"
proof -
  have p: "x < n \<Longrightarrow> tn_parent (new_tree n ! x) = None" for x by (simp add: new_tree_def new_node_def)
  have "\<exists>t'. topology_loop (new_tree n) (int 1) 0 1 2 (int n) = Inr t' \<and>
    placed n (new_tree n) t' (grown n 1 0 (\<lambda>_. [])) (under n 1 0)"
    by (rule topology_loop_two [where k = 31])
      (use assms p in \<open>simp_all add: new_tree_rep under_def\<close>)
  moreover have "grown n 1 0 (\<lambda>_. []) = worker_helpers n"
  proof
    fix x
    have "hops n 1 0 = helpers n 1" by (simp add: hops_def helpers_def)
    moreover have "n \<le> x \<Longrightarrow> helpers n x = []" by (simp add: helpers_def)
    ultimately show "grown n 1 0 (\<lambda>_. []) x = worker_helpers n x"
      by (auto simp: grown_def worker_helpers_def under_def not_less)
  qed
  ultimately show ?thesis by (auto simp: build_topology_def placed_def)
qed

lemma helper_exists:
  assumes "2 \<le> q" and "q < n" and "n \<le> 2 ^ 30"
  shows "\<exists>p. 0 < p \<and> p < q \<and> q \<in> set (helpers n p)"
proof -
  have "1 \<le> q - 1" using assms(1) by arith
  from ex_power_ivl1 [OF order_refl this] obtain e where e: "2 ^ e \<le> q - 1" "q - 1 < 2 ^ Suc e"
    by auto
  have "(2::nat) ^ e < 2 ^ 31" using e(1) assms by simp
  then have "e < 31" by (rule power_less_imp_less_exp [rotated]) simp
  then have "q \<in> set (helpers n (q - 2 ^ e))"
    using e assms by (auto simp: helpers_def intro!: image_eqI [of _ _ e])
  moreover have "0 < q - 2 ^ e" "q - 2 ^ e < q" using e(1) assms(1) by auto
  ultimately show ?thesis by blast
qed

text \<open>C18: For every world of two to \<open>2^30\<close> ranks the initial topology is built without an error, and it
  is the binomial tree: rank \<open>x\<close> is to feed exactly the ranks \<open>x + 2^e\<close> with \<open>2^e \<ge> x\<close>, in increasing
  order. Every worker but rank 1 has exactly one rank that feeds it, and nobody feeds ranks 0 and 1.\<close>

theorem build_topology_binomial:
  assumes "2 \<le> n" and "n \<le> 2 ^ 30"
  shows "\<exists>t. build_topology (new_tree n) 1 0 2 (int n) = Inr t \<and> tree_rep t (worker_helpers n) \<and>
    (\<forall>q < n. (\<exists>!p. p < n \<and> q \<in> set (worker_helpers n p)) \<longleftrightarrow> 2 \<le> q)"
proof -
  from build_topology_tree [OF assms] obtain t where
    t: "build_topology (new_tree n) 1 0 2 (int n) = Inr t" "length t = n" "tree_rep t (worker_helpers n)"
    by blast
  have "(\<exists>!p. p < n \<and> q \<in> set (worker_helpers n p)) \<longleftrightarrow> 2 \<le> q" if q: "q < n" for q
  proof
    assume "2 \<le> q"
    from helper_exists [OF this q assms(2)] obtain p where "0 < p" "p < q" "q \<in> set (helpers n p)" by blast
    then have p: "p < n" "q \<in> set (worker_helpers n p)" using q by (simp_all add: worker_helpers_def)
    moreover have "r = p" if "r < n" "q \<in> set (worker_helpers n r)" for r
      using child_rep_child [OF t(3), of r q] child_rep_child [OF t(3), of p q] p that t(2) by simp
    ultimately show "\<exists>!p. p < n \<and> q \<in> set (worker_helpers n p)" by blast
  next
    assume "\<exists>!p. p < n \<and> q \<in> set (worker_helpers n p)"
    then obtain p e where "0 < p" "q = p + 2 ^ e"
      by (auto simp: worker_helpers_def helpers_def split: if_splits)
    moreover have "(1::nat) \<le> 2 ^ e" by simp
    ultimately show "2 \<le> q" by linarith
  qed
  then show ?thesis using t by blast
qed

lemma build_topology_binomial_witness:
  "\<exists>t. build_topology (new_tree 6) 1 0 2 6 = Inr t \<and> tree_rep t (worker_helpers 6)"
  using build_topology_binomial [of 6] by auto

end
