(* ===== verification/Task_Priority.thy ===== *)
theory Task_Priority
  imports Task_Packet
begin

text \<open>
  The center's task priorities and the hand-out of queued tasks
  (\<open>private/impl/schedulers/centralized_utils.hpp\<close>). The priority of a task is the number of set bits
  of its bytes, plus those of the low byte of its function id.

  \<open>std::priority_queue\<close> is a list kept in the order it is emptied: \<open>pq_push\<close> moves a task ahead of
  those the comparator does not rank above it, \<open>pq_top\<close> is the first and \<open>pq_pop\<close> removes it. The
  library demands a strict weak order, which a comparator with \<open>\<le>\<close> is not (below): that the queue
  keeps its elements and yields one of highest priority all the same is an assumption about the library.
  The order in which it yields tasks of equal priority is one of those the library may choose. The
  memory functions at the end of the file ask the operating system and are not modelled.
\<close>

unbundle bit_operations_syntax

section \<open>Counting set bits\<close>

definition get_nb_set_bits_char :: "byte \<Rightarrow> int" where
  "get_nb_set_bits_char c = uint (((ucast c * 0x8040201) AND (0x111111111 :: 64 word)) mod 15)"

definition get_nb_set_bits_packet :: "task_packet \<Rightarrow> int" where
  "get_nb_set_bits_packet p = foldl (\<lambda>v_nb b. v_nb + get_nb_set_bits_char b) 0 (packet_data p)"

definition task_comparator :: "task_packet \<Rightarrow> task_packet \<Rightarrow> bool" where
  "task_comparator a b \<longleftrightarrow> get_nb_set_bits_packet a \<le> get_nb_set_bits_packet b"

definition get_nb_set_bits_bundle :: "task_bundle \<Rightarrow> int" where
  "get_nb_set_bits_bundle b = get_nb_set_bits_packet (bundle_packet b) +
     get_nb_set_bits_char (word_of_int (bundle_runnable_id b))"

definition task_bundle_comparator :: "task_bundle \<Rightarrow> task_bundle \<Rightarrow> bool" where
  "task_bundle_comparator a b \<longleftrightarrow> get_nb_set_bits_bundle a \<le> get_nb_set_bits_bundle b"

section \<open>The priority queue\<close>

fun pq_push :: "task_bundle \<Rightarrow> task_bundle list \<Rightarrow> task_bundle list" where
  "pq_push x [] = [x]"
| "pq_push x (y # ys) = (if task_bundle_comparator y x then x # y # ys else y # pq_push x ys)"

definition pq_top :: "task_bundle list \<Rightarrow> task_bundle" where
  "pq_top q = hd q"

definition pq_pop :: "task_bundle list \<Rightarrow> task_bundle list" where
  "pq_pop q = tl q"

section \<open>Handing out tasks\<close>

text \<open>
  The loop of \<open>dispatch_to_available\<close> from rank \<open>v_rank\<close>: the tasks handed out, in order, with the
  queue and the states that are left. States are the tags of the schedulers.
\<close>

fun dispatch_from :: "nat \<Rightarrow> nat \<Rightarrow> task_bundle list \<Rightarrow> int list \<Rightarrow> int \<Rightarrow> int \<Rightarrow>
    (rank \<times> task_bundle) list \<times> task_bundle list \<times> int list" where
  "dispatch_from 0 v_rank q st av asg = ([], q, st)"
| "dispatch_from (Suc k) v_rank q st av asg =
     (if v_rank < length st \<and> q \<noteq> [] then
        if st ! v_rank \<noteq> av then dispatch_from k (Suc v_rank) q st av asg
        else let (out, q', st') = dispatch_from k (Suc v_rank) (pq_pop q) (st[v_rank := asg]) av asg
             in ((int v_rank, pq_top q) # out, q', st')
      else ([], q, st))"

definition dispatch_to_available :: "task_bundle list \<Rightarrow> int list \<Rightarrow> int \<Rightarrow> int \<Rightarrow>
    (rank \<times> task_bundle) list \<times> task_bundle list \<times> int list" where
  "dispatch_to_available q st av asg = dispatch_from (length st) 1 q st av asg"

section \<open>Lemmas\<close>

definition bits_set :: "byte \<Rightarrow> nat" where
  "bits_set b = length (filter (bit b) [0..<8])"

lemma all_bytes:
  assumes "list_all (\<lambda>i. P (word_of_nat i)) [0..<256]"
  shows "P (b :: byte)"
proof -
  have "unat b \<in> set [0..<256]" using unat_byte_less [of b] by simp
  then have "P (word_of_nat (unat b))" using assms unfolding list_all_iff by blast
  then show ?thesis by simp
qed

lemma set_bits_table:
  "list_all (\<lambda>i. get_nb_set_bits_char (word_of_nat i) = int (bits_set (word_of_nat i))) [0..<256]"
  by code_simp

lemma get_nb_set_bits_char_count: "get_nb_set_bits_char b = int (bits_set b)"
  using all_bytes [OF set_bits_table] .

lemma foldl_sum: "foldl (\<lambda>n b. n + f b) k xs = k + sum_list (map f xs)" for k :: int
  by (induction xs arbitrary: k) simp_all

section \<open>The queue as an interface\<close>

text \<open>
  What the center uses of its queue: a push adds one task, the top is one of the tasks and none has a
  higher priority, and a pop removes the top.
\<close>

locale task_queue =
  fixes ok :: "'q \<Rightarrow> bool" and tasks :: "'q \<Rightarrow> 'a multiset" and push :: "'a \<Rightarrow> 'q \<Rightarrow> 'q"
    and top :: "'q \<Rightarrow> 'a" and pop :: "'q \<Rightarrow> 'q" and prio :: "'a \<Rightarrow> int"
  assumes push_ok: "ok q \<Longrightarrow> ok (push x q)"
    and push_tasks: "ok q \<Longrightarrow> tasks (push x q) = add_mset x (tasks q)"
    and top_mem: "ok q \<Longrightarrow> tasks q \<noteq> {#} \<Longrightarrow> top q \<in># tasks q"
    and top_max: "ok q \<Longrightarrow> y \<in># tasks q \<Longrightarrow> prio y \<le> prio (top q)"
    and pop_ok: "ok q \<Longrightarrow> tasks q \<noteq> {#} \<Longrightarrow> ok (pop q)"
    and pop_tasks: "ok q \<Longrightarrow> tasks q \<noteq> {#} \<Longrightarrow> tasks (pop q) = tasks q - {#top q#}"
begin

fun take_tops :: "nat \<Rightarrow> 'q \<Rightarrow> 'a list" where
  "take_tops 0 q = []"
| "take_tops (Suc k) q = (if tasks q = {#} then [] else top q # take_tops k (pop q))"

fun left_after :: "nat \<Rightarrow> 'q \<Rightarrow> 'q" where
  "left_after 0 q = q"
| "left_after (Suc k) q = (if tasks q = {#} then q else left_after k (pop q))"

lemma take_tops_tasks:
  "ok q \<Longrightarrow> mset (take_tops k q) + tasks (left_after k q) = tasks q"
  by (induction k arbitrary: q) (simp_all add: pop_ok pop_tasks top_mem)

lemma pop_mem: "ok q \<Longrightarrow> tasks q \<noteq> {#} \<Longrightarrow> y \<in># tasks (pop q) \<Longrightarrow> y \<in># tasks q"
  by (auto simp: pop_tasks dest: in_diffD)

lemma take_tops_mem: "ok q \<Longrightarrow> y \<in> set (take_tops k q) \<Longrightarrow> y \<in># tasks q"
  using take_tops_tasks [of q k] by (metis mset_subset_eq_add_left mset_subset_eqD set_mset_mset)

lemma left_after_mem: "ok q \<Longrightarrow> y \<in># tasks (left_after k q) \<Longrightarrow> y \<in># tasks q"
  using take_tops_tasks [of q k] by (metis mset_subset_eq_add_right mset_subset_eqD)

lemma take_tops_sorted: "ok q \<Longrightarrow> sorted_wrt (\<lambda>x y. prio y \<le> prio x) (take_tops k q)"
proof (induction k arbitrary: q)
  case (Suc k)
  then show ?case
    using take_tops_mem [of "pop q" _ k] pop_mem [of q] top_max [of q] pop_ok [of q] by auto
qed simp

lemma take_tops_highest:
  "ok q \<Longrightarrow> x \<in> set (take_tops k q) \<Longrightarrow> y \<in># tasks (left_after k q) \<Longrightarrow> prio y \<le> prio x"
proof (induction k arbitrary: q)
  case (Suc k)
  then show ?case
    using left_after_mem [of "pop q" y k] pop_mem [of q y] top_max [of q y] pop_ok [of q]
    by (auto split: if_splits)
qed simp

end

lemma pq_Cons [simp]: "pq_top (x # q) = x" "pq_pop (x # q) = q"
  by (simp_all add: pq_top_def pq_pop_def)

definition pq_sorted :: "task_bundle list \<Rightarrow> bool" where
  "pq_sorted q \<longleftrightarrow> sorted_wrt (\<lambda>x y. task_bundle_comparator y x) q"

lemma pq_push_mset [simp]: "mset (pq_push x q) = add_mset x (mset q)"
  by (induction q) simp_all

lemma pq_push_set: "set (pq_push x q) = insert x (set q)"
  using pq_push_mset [of x q] by (metis set_mset_add_mset_insert set_mset_mset)

lemma pq_push_sorted: "pq_sorted q \<Longrightarrow> pq_sorted (pq_push x q)"
  by (induction q) (auto simp: pq_sorted_def pq_push_set task_bundle_comparator_def)

interpretation lq: task_queue pq_sorted mset pq_push pq_top pq_pop get_nb_set_bits_bundle
proof
  show "pq_sorted (pq_push x q)" if "pq_sorted q" for x q using that by (rule pq_push_sorted)
  show "mset (pq_push x q) = add_mset x (mset q)" for x q by simp
  show "pq_top q \<in># mset q" if "mset q \<noteq> {#}" for q using that by (cases q) (simp_all add: pq_top_def)
  show "get_nb_set_bits_bundle y \<le> get_nb_set_bits_bundle (pq_top q)"
    if "pq_sorted q" "y \<in># mset q" for y q
    using that by (cases q) (auto simp: pq_top_def pq_sorted_def task_bundle_comparator_def)
  show "pq_sorted (pq_pop q)" if "pq_sorted q" "mset q \<noteq> {#}" for q
    using that by (cases q) (simp_all add: pq_pop_def pq_sorted_def)
  show "mset (pq_pop q) = mset q - {#pq_top q#}" if "mset q \<noteq> {#}" for q
    using that by (cases q) (simp_all add: pq_pop_def pq_top_def)
qed

section \<open>What is handed out, and to whom\<close>

text \<open>The available ranks among the first \<open>k\<close> from rank \<open>r\<close>, in order.\<close>

fun available_from :: "nat \<Rightarrow> nat \<Rightarrow> int list \<Rightarrow> int \<Rightarrow> nat list" where
  "available_from 0 r st av = []"
| "available_from (Suc k) r st av =
     (if r < length st then if st ! r = av then r # available_from k (Suc r) st av
                            else available_from k (Suc r) st av
      else [])"

lemma available_from_update: "r < s \<Longrightarrow> available_from k s (st[r := x]) av = available_from k s st av"
  by (induction k arbitrary: s) auto

lemma available_from_mem: "x \<in> set (available_from k r st av) \<Longrightarrow> r \<le> x \<and> x < length st \<and> st ! x = av"
proof (induction k arbitrary: r)
  case (Suc k)
  then show ?case using Suc.IH [of "Suc r"] by (fastforce split: if_splits)
qed simp

lemma dispatch_from_spec:
  "dispatch_from k r q st av asg =
     (let a = available_from k r st av; m = min (length a) (length q)
      in (zip (map int a) q, drop m q, foldl (\<lambda>s i. s[i := asg]) st (take m a)))"
proof (induction k arbitrary: r q st)
  case 0
  show ?case by (cases q) simp_all
next
  case (Suc k)
  show ?case
  proof (cases "r < length st \<and> q \<noteq> []")
    case True
    then show ?thesis
      by (cases q) (simp_all add: Suc.IH available_from_update pq_pop_def pq_top_def Let_def)
  next
    case False
    then show ?thesis by (cases "q = []") (auto simp: Let_def)
  qed
qed

lemma take_tops_prefix: "lq.take_tops k q = take k q"
proof (induction k arbitrary: q)
  case (Suc k)
  then show ?case by (cases q) simp_all
qed simp

lemma left_after_drop: "lq.left_after k q = drop k q"
proof (induction k arbitrary: q)
  case (Suc k)
  then show ?case by (cases q) simp_all
qed simp

definition workers_available :: "int list \<Rightarrow> int \<Rightarrow> nat list" where
  "workers_available st av = filter (\<lambda>r. st ! r = av) [1..<length st]"

lemma available_from_filter:
  "length st \<le> r + k \<Longrightarrow> available_from k r st av = filter (\<lambda>x. st ! x = av) [r..<length st]"
proof (induction k arbitrary: r)
  case (Suc k)
  then show ?case by (cases "r < length st") (simp_all add: upt_conv_Cons)
qed simp

lemma dispatch_spec:
  "dispatch_to_available q st av asg =
     (let a = workers_available st av; m = min (length a) (length q)
      in (zip (map int a) q, drop m q, foldl (\<lambda>s i. s[i := asg]) st (take m a)))"
  using available_from_filter [of st 1 "length st" av]
  by (simp add: dispatch_to_available_def dispatch_from_spec workers_available_def)

lemma assign_states:
  "length (foldl (\<lambda>s i. s[i := asg]) st is) = length st \<and>
   (\<forall>r < length st. foldl (\<lambda>s i. s[i := asg]) st is ! r = (if r \<in> set is then asg else st ! r))"
  by (induction "is" arbitrary: st) (auto simp: nth_list_update)

lemma foldl_update_other: "r \<notin> set is \<Longrightarrow> foldl (\<lambda>s i. s[i := asg]) st is ! r = st ! r"
  by (induction "is" arbitrary: st) auto

section \<open>Properties\<close>

text \<open>The multiplication trick counts bits: a byte's \<open>get_nb_set_bits\<close> is the number of its bits
  that are set, for all 256 bytes, and the priority of a packet is the sum over its bytes.\<close>

theorem nb_set_bits_count:
  "get_nb_set_bits_char b = int (length (filter (bit b) [0..<8])) \<and>
   get_nb_set_bits_packet p = (\<Sum>c\<leftarrow>packet_data p. int (length (filter (bit c) [0..<8])))"
  by (simp add: get_nb_set_bits_char_count get_nb_set_bits_packet_def foldl_sum bits_set_def)

text \<open>The comparators the queues are built with are not strict: every task compares below itself,
  and of two tasks of equal priority each compares below the other, which \<open>std::priority_queue\<close> does
  not allow of its comparator.\<close>

theorem comparators_not_strict:
  "task_comparator t t \<and> task_bundle_comparator b b \<and>
   (task_bundle_comparator b c \<and> task_bundle_comparator c b \<longleftrightarrow>
    get_nb_set_bits_bundle b = get_nb_set_bits_bundle c)"
  by (auto simp: task_comparator_def task_bundle_comparator_def)

text \<open>C21: \<open>dispatch_to_available\<close> gives the highest-priority tasks, in order, to the available workers
  in the order of their ranks, one each, and never to rank 0; no task is lost or duplicated, nothing
  left in the queue has a higher priority than a task handed out, exactly the ranks served change
  state, and it stops only when the queue or the available workers run out.\<close>

theorem dispatch_highest_first:
  assumes q: "pq_sorted q" and d: "dispatch_to_available q st av asg = (out, q', st')"
  shows "map fst out = map int (take (length out) (workers_available st av)) \<and>
    length out = min (length (workers_available st av)) (length q) \<and>
    mset (map snd out) + mset q' = mset q \<and> pq_sorted q' \<and>
    sorted_wrt (\<lambda>x y. get_nb_set_bits_bundle y \<le> get_nb_set_bits_bundle x) (map snd out) \<and>
    (\<forall>x \<in> set (map snd out). \<forall>y \<in> set q'. get_nb_set_bits_bundle y \<le> get_nb_set_bits_bundle x) \<and>
    length st' = length st \<and>
    (\<forall>r < length st. st' ! r = (if int r \<in> set (map fst out) then asg else st ! r))"
proof -
  let ?a = "workers_available st av" and ?m = "min (length (workers_available st av)) (length q)"
  have out: "out = zip (map int ?a) q" and q': "q' = drop ?m q"
    and st': "st' = foldl (\<lambda>s i. s[i := asg]) st (take ?m ?a)"
    using d by (auto simp: dispatch_spec Let_def)
  have len: "length out = ?m" by (simp add: out)
  have f: "map fst out = map int (take ?m ?a)" by (simp add: out map_fst_zip_take take_map)
  have s: "map snd out = lq.take_tops ?m q" by (simp add: out map_snd_zip_take take_tops_prefix)
  have l: "q' = lq.left_after ?m q" by (simp add: q' left_after_drop)
  have "int r \<in> set (map fst out) \<longleftrightarrow> r \<in> set (take ?m ?a)" for r
    unfolding f by (auto simp: image_iff)
  then have st: "length st' = length st \<and>
      (\<forall>r < length st. st' ! r = (if int r \<in> set (map fst out) then asg else st ! r))"
    using assign_states [of asg st "take ?m ?a"] unfolding st' [symmetric] by simp
  have "pq_sorted q'" using q by (simp add: q' pq_sorted_def sorted_wrt_drop)
  moreover have "mset (map snd out) + mset q' = mset q"
    unfolding s l by (rule lq.take_tops_tasks [OF q])
  moreover have "sorted_wrt (\<lambda>x y. get_nb_set_bits_bundle y \<le> get_nb_set_bits_bundle x) (map snd out)"
    unfolding s by (rule lq.take_tops_sorted [OF q])
  moreover have "\<forall>x \<in> set (map snd out). \<forall>y \<in> set q'. get_nb_set_bits_bundle y \<le> get_nb_set_bits_bundle x"
    unfolding s l using lq.take_tops_highest [OF q] by simp
  ultimately show ?thesis using f st unfolding len by blast
qed

definition sample_bundle :: "byte \<Rightarrow> task_bundle" where
  "sample_bundle b = \<lparr>bundle_packet = Task_Packet [b], bundle_runnable_id = 0\<rparr>"

lemma dispatch_highest_first_witness:
  "mset (map snd [(2 :: rank, sample_bundle 7)]) + mset [sample_bundle 1] = mset [sample_bundle 7, sample_bundle 1]"
proof -
  have "get_nb_set_bits_char 7 = 3" "get_nb_set_bits_char 1 = 1" "get_nb_set_bits_char 0 = 0"
    by (simp_all add: get_nb_set_bits_char_def)
  then have "pq_sorted [sample_bundle 7, sample_bundle 1]"
    by (simp add: pq_sorted_def task_bundle_comparator_def get_nb_set_bits_bundle_def
        get_nb_set_bits_packet_def sample_bundle_def)
  moreover have "dispatch_to_available [sample_bundle 7, sample_bundle 1] [3, 1, 3] 3 2 =
      ([(2, sample_bundle 7)], [sample_bundle 1], [3, 1, 2])"
    by (simp add: dispatch_to_available_def numeral_3_eq_3)
  ultimately show ?thesis by (rule dispatch_highest_first [THEN conjunct2, THEN conjunct2, THEN conjunct1])
qed

end
