(* ===== verification/Mpi_Channels.thy ===== *)
theory Mpi_Channels
  imports Task_Packet
begin

text \<open>
  The messages of the two MPI schedulers and the channels that carry them. A message is named after
  its tag and holds what the receiver reads. MPI keeps the order of the messages between two ranks on
  one communicator, and nothing else: a channel is the list of the messages from a source to a
  destination on a communicator, oldest first. A send never waits for room; where the code uses a
  synchronous send, the sender waits for its message to leave the channel.
\<close>

datatype comm = World | Global_Score | Next_Process_Comm | Center_Fullness

datatype msg =
    Running_State | Available_State | Task task_packet | Runnable_Id int | Task_Received
  | Termination int int | Has_Result task_packet | Has_Result_Score score | No_Result
  | Score_Proposal score | Score_Update score | Next_Process "int list"
  | Center_Is_Full | Center_Is_Free | Task_For_Center task_packet

type_synonym chans = "comm \<Rightarrow> rank \<Rightarrow> rank \<Rightarrow> msg list"
type_synonym out = "comm \<times> rank \<times> msg"

definition no_messages :: chans where
  "no_messages = (\<lambda>c s d. [])"

definition set_chan :: "chans \<Rightarrow> comm \<Rightarrow> rank \<Rightarrow> rank \<Rightarrow> msg list \<Rightarrow> chans" where
  "set_chan ch c s d l = (\<lambda>c' s' d'. if c' = c \<and> s' = s \<and> d' = d then l else ch c' s' d')"

definition chan_upd :: "chans \<Rightarrow> comm \<Rightarrow> rank \<Rightarrow> rank \<Rightarrow> (msg list \<Rightarrow> msg list) \<Rightarrow> chans" where
  "chan_upd ch c s d f = set_chan ch c s d (f (ch c s d))"

text \<open>A form for evaluation that mentions the channels once, so that the term of a long run stays small.\<close>

lemma chan_upd_once [code]:
  "chan_upd ch c s d f = (\<lambda>c' s' d'. (if c' = c \<and> s' = s \<and> d' = d then f else (\<lambda>l. l)) (ch c' s' d'))"
  by (simp add: fun_eq_iff chan_upd_def set_chan_def)

text \<open>\<open>post ch src outs\<close>: rank \<open>src\<close> sends \<open>outs\<close>, in order.\<close>

definition post :: "chans \<Rightarrow> rank \<Rightarrow> out list \<Rightarrow> chans" where
  "post ch src outs = foldl (\<lambda>h (c, d, m). chan_upd h c src d (\<lambda>l. l @ [m])) ch outs"

text \<open>\<open>takes ch c s d ms\<close>: the channel starts with \<open>ms\<close>, which a receiver can take.\<close>

definition takes :: "chans \<Rightarrow> comm \<Rightarrow> rank \<Rightarrow> rank \<Rightarrow> msg list \<Rightarrow> bool" where
  "takes ch c s d ms \<longleftrightarrow> take (length ms) (ch c s d) = ms"

definition discard :: "chans \<Rightarrow> comm \<Rightarrow> rank \<Rightarrow> rank \<Rightarrow> nat \<Rightarrow> chans" where
  "discard ch c s d k = chan_upd ch c s d (drop k)"

definition sent_to :: "comm \<Rightarrow> rank \<Rightarrow> out list \<Rightarrow> msg list" where
  "sent_to c d outs = map (\<lambda>(_, _, m). m) (filter (\<lambda>(c', d', _). c' = c \<and> d' = d) outs)"

lemma sent_to_simps [simp]:
  "sent_to c d [] = []"
  "sent_to c d ((c', d', m) # outs) = (if c' = c \<and> d' = d then m # sent_to c d outs else sent_to c d outs)"
  "sent_to c d (xs @ ys) = sent_to c d xs @ sent_to c d ys"
  by (simp_all add: sent_to_def)

lemma post_apply: "post ch src outs c s d = ch c s d @ (if s = src then sent_to c d outs else [])"
proof (induction outs arbitrary: ch)
  case (Cons x xs)
  then show ?case by (cases x) (auto simp: post_def chan_upd_def set_chan_def)
qed (simp add: post_def)

lemma discard_apply:
  "discard ch c s d k c' s' d' = (if c' = c \<and> s' = s \<and> d' = d then drop k (ch c s d) else ch c' s' d')"
  by (simp add: discard_def chan_upd_def set_chan_def)

lemma no_messages_apply [simp]: "no_messages c s d = []"
  by (simp add: no_messages_def)

lemma takesD: "takes ch c s d ms \<Longrightarrow> ch c s d = ms @ drop (length ms) (ch c s d)"
  by (metis append_take_drop_id takes_def)

lemma takes_split: "takes ch c s d ms \<longleftrightarrow> (\<exists>r. ch c s d = ms @ r)"
  by (metis append_eq_conv_conj takes_def)

text \<open>How many messages of a channel satisfy a predicate.\<close>

definition how_many :: "(msg \<Rightarrow> bool) \<Rightarrow> msg list \<Rightarrow> nat" where
  "how_many P l = length (filter P l)"

lemma how_many_simps [simp]:
  "how_many P [] = 0" "how_many P (m # l) = (if P m then Suc (how_many P l) else how_many P l)"
  "how_many P (l @ r) = how_many P l + how_many P r"
  by (simp_all add: how_many_def)

lemma how_many_zero: "how_many P l = 0 \<longleftrightarrow> (\<forall>m \<in> set l. \<not> P m)"
  by (simp add: how_many_def filter_empty_conv)

fun is_task :: "msg \<Rightarrow> bool" where
  "is_task (Task p) \<longleftrightarrow> True"
| "is_task (Task_For_Center p) \<longleftrightarrow> True"
| "is_task m \<longleftrightarrow> False"

fun is_ack :: "msg \<Rightarrow> bool" where
  "is_ack Task_Received \<longleftrightarrow> True"
| "is_ack m \<longleftrightarrow> False"

end
