(* ===== verification/Node_Manager.thy ===== *)
theory Node_Manager
  imports Task_Packet
begin

text \<open>
  The best result a process knows (\<open>include/gempba/node_manager.hpp\<close>): a goal, a score and the result
  that has it, which is either a value kept in memory or the packet it was serialised to. Every
  method locks the manager's mutex, so a call is one step.
  The calls that only forward to the load balancer are not here.
\<close>

datatype 'r stored = Stored_Any "'r option" | Stored_Packet task_packet

record 'r node_manager =
  nm_goal :: goal
  nm_score :: score
  nm_result :: "'r stored"

definition new_node_manager :: "'r node_manager" where
  "new_node_manager = \<lparr>nm_goal = MAXIMISE, nm_score = make_score (NI32 0x80000000), nm_result = Stored_Any None\<rparr>"

definition nm_set_goal :: "goal \<Rightarrow> score_type \<Rightarrow> 'r node_manager \<Rightarrow> 'r node_manager res" where
  "nm_set_goal g t nm = rbind (get_default_score g t) (\<lambda>s. Inr (nm\<lparr>nm_goal := g, nm_score := s\<rparr>))"

definition nm_set_score :: "score \<Rightarrow> 'r node_manager \<Rightarrow> 'r node_manager" where
  "nm_set_score s nm = nm\<lparr>nm_score := s\<rparr>"

definition should_update_result :: "'r node_manager \<Rightarrow> score \<Rightarrow> bool" where
  "should_update_result nm s \<longleftrightarrow>
     (nm_goal nm = MAXIMISE \<and> score_order s (nm_score nm) = Greater) \<or>
     (nm_goal nm = MINIMISE \<and> score_order s (nm_score nm) = Less)"

text \<open>The two overloads of \<open>try_update_result\<close>: the second takes the packet the serializer made.\<close>

definition try_update_value :: "'r \<Rightarrow> score \<Rightarrow> 'r node_manager \<Rightarrow> 'r node_manager \<times> bool" where
  "try_update_value r s nm =
     (if \<not> should_update_result nm s then (nm, False)
      else (nm\<lparr>nm_result := Stored_Any (Some r), nm_score := s\<rparr>, True))"

definition try_update_result :: "task_packet \<Rightarrow> score \<Rightarrow> 'r node_manager \<Rightarrow> 'r node_manager \<times> bool" where
  "try_update_result p s nm =
     (if \<not> should_update_result nm s then (nm, False)
      else (nm\<lparr>nm_result := Stored_Packet p, nm_score := s\<rparr>, True))"

definition try_update_score_and_invalidate_result ::
    "score \<Rightarrow> 'r node_manager \<Rightarrow> 'r node_manager \<times> bool" where
  "try_update_score_and_invalidate_result s nm =
     (if should_update_result nm s then (nm\<lparr>nm_score := s, nm_result := Stored_Packet packet_EMPTY\<rparr>, True)
      else (nm, False))"

definition get_result_bytes :: "'r node_manager \<Rightarrow> gresult option" where
  "get_result_bytes nm =
     (case nm_result nm of
        Stored_Any _ \<Rightarrow> None
      | Stored_Packet p \<Rightarrow> Some \<lparr>result_score = nm_score nm, result_packet = p\<rparr>)"

definition get_result :: "'r node_manager \<Rightarrow> 'r option" where
  "get_result nm = (case nm_result nm of Stored_Any v \<Rightarrow> v | Stored_Packet _ \<Rightarrow> None)"

section \<open>Keeping the best offer\<close>

lemma should_update_result_better: "should_update_result nm s \<longleftrightarrow> better (nm_goal nm) s (nm_score nm)"
  by (simp add: should_update_result_def better_def should_update_def)

datatype 'r offer = Offer_Value 'r score | Offer_Packet task_packet score | Offer_Remote score

fun offer_score :: "'r offer \<Rightarrow> score" where
  "offer_score (Offer_Value r s) = s"
| "offer_score (Offer_Packet p s) = s"
| "offer_score (Offer_Remote s) = s"

fun offer_stored :: "'r offer \<Rightarrow> 'r stored" where
  "offer_stored (Offer_Value r s) = Stored_Any (Some r)"
| "offer_stored (Offer_Packet p s) = Stored_Packet p"
| "offer_stored (Offer_Remote s) = Stored_Packet packet_EMPTY"

fun make_offer :: "'r node_manager \<Rightarrow> 'r offer \<Rightarrow> 'r node_manager" where
  "make_offer nm (Offer_Value r s) = fst (try_update_value r s nm)"
| "make_offer nm (Offer_Packet p s) = fst (try_update_result p s nm)"
| "make_offer nm (Offer_Remote s) = fst (try_update_score_and_invalidate_result s nm)"

lemma make_offer_eq:
  "make_offer nm x = (if better (nm_goal nm) (offer_score x) (nm_score nm)
     then nm\<lparr>nm_score := offer_score x, nm_result := offer_stored x\<rparr> else nm)"
  by (cases x) (simp_all add: try_update_value_def try_update_result_def
      try_update_score_and_invalidate_result_def should_update_result_better)

lemma make_offer_goal [simp]: "nm_goal (make_offer nm x) = nm_goal nm"
  by (simp add: make_offer_eq)

lemma make_offer_score: "nm_score (make_offer nm x) = sc.keep (nm_goal nm) (nm_score nm) (offer_score x)"
  by (simp add: make_offer_eq sc.keep_def)

lemma foldl_make_offer_score:
  "nm_score (foldl make_offer nm xs) = foldl (sc.keep (nm_goal nm)) (nm_score nm) (map offer_score xs)"
  by (induction xs arbitrary: nm) (simp_all add: make_offer_score)

lemma foldl_make_offer_pair:
  "(nm_score (foldl make_offer nm xs), nm_result (foldl make_offer nm xs)) \<in>
     insert (nm_score nm, nm_result nm) ((\<lambda>x. (offer_score x, offer_stored x)) ` set xs)"
proof (induction xs arbitrary: nm)
  case (Cons x xs)
  have "(nm_score (make_offer nm x), nm_result (make_offer nm x)) \<in>
      {(nm_score nm, nm_result nm), (offer_score x, offer_stored x)}"
    by (simp add: make_offer_eq)
  then show ?case using Cons.IH [of "make_offer nm x"] by auto
qed simp

text \<open>C23: Whatever results and remote scores a process is offered, in whatever order, it ends with a
  score no offer and no earlier score improves on, and its result is the one that came with that
  score: a remote score never stays paired with a local result.\<close>

theorem node_manager_keeps_best:
  assumes "\<not> is_nan (nm_score nm)" and "\<forall>x \<in> set xs. \<not> is_nan (offer_score x)"
  shows "(\<forall>s \<in> insert (nm_score nm) (offer_score ` set xs).
      \<not> better (nm_goal nm) s (nm_score (foldl make_offer nm xs))) \<and>
    (nm_score (foldl make_offer nm xs), nm_result (foldl make_offer nm xs)) \<in>
      insert (nm_score nm, nm_result nm) ((\<lambda>x. (offer_score x, offer_stored x)) ` set xs)"
proof
  show "\<forall>s \<in> insert (nm_score nm) (offer_score ` set xs).
      \<not> better (nm_goal nm) s (nm_score (foldl make_offer nm xs))"
    using sc.fold_keep_best [of "nm_score nm" "map offer_score xs" _ "nm_goal nm"] assms
    by (auto simp: foldl_make_offer_score)
qed (rule foldl_make_offer_pair)

lemma node_manager_keeps_best_witness:
  "\<not> better MAXIMISE (make_score (NI32 9)) (nm_score (foldl make_offer (new_node_manager :: nat node_manager)
      [Offer_Packet (Task_Packet [1]) (make_score (NI32 4)), Offer_Remote (make_score (NI32 9))]))"
proof -
  let ?nm = "new_node_manager :: nat node_manager"
  let ?xs = "[Offer_Packet (Task_Packet [1]) (make_score (NI32 4)), Offer_Remote (make_score (NI32 9))]"
  have g: "nm_goal ?nm = MAXIMISE" by (simp add: new_node_manager_def)
  have "\<not> is_nan (nm_score ?nm)" "\<forall>x \<in> set ?xs. \<not> is_nan (offer_score x)"
    by (simp_all add: new_node_manager_def is_nan_def del: make_score.simps)
  from node_manager_keeps_best [OF this, THEN conjunct1, unfolded g, THEN bspec, of "make_score (NI32 9)"]
  show ?thesis by (simp del: make_score.simps make_offer.simps foldl.simps)
qed

end
