(* ===== verification/Task_Funneling.thy ===== *)
theory Task_Funneling
  imports Mpi_Channels Node_Manager Termination_Detector
begin

text \<open>
  The part of a worker that both schedulers share: the hand-over of tasks from the thread pool to the
  one thread that may call MPI, \<open>task_funneling\<close> in \<open>src/schedulers/mpi/*.cpp\<close>.

  A worker runs its receive loop (\<open>Listening\<close>) or is inside \<open>process_message\<close>; the program counter
  \<open>fn_pc\<close> names the points of the loop of \<open>task_funneling\<close> between which other threads may act:

  \<^item> \<open>Entering\<close>: before the first pop; \<open>Sending b\<close>: the inner loop, with the task \<open>b\<close> taken;
  \<^item> \<open>Polling\<close>: before the section that probes for messages; \<open>Proposing\<close>: inside it, waiting for the
    synchronous send of a score, with the mutex held;
  \<^item> \<open>Popping\<close>: before the pop after it; \<open>Checking\<close>: that pop found nothing, before the pool is asked;
    \<open>Rechecking\<close>: the pool was found idle, before the second pop;
  \<^item> \<open>Leaving\<close>: after the loop; \<open>Proposing_Last\<close>: in the last score update of the semi-centralized
    scheduler;
  \<^item> \<open>Draining a b\<close>, \<open>At_Barrier\<close>, \<open>Exited\<close>: the stages of the termination of the worker.

  The tasks of the thread pool act while \<open>fn_pool\<close> holds; the node manager is done when it does not.
\<close>

datatype fn_pc =
    Listening | Entering | Sending task_bundle | Polling | Proposing | Popping | Checking | Rechecking | Leaving
  | Proposing_Last | Draining int int | At_Barrier | Exited

record funnel =
  fn_pc :: fn_pc
  fn_pool :: bool
  fn_queue :: "task_bundle list"
  fn_transmitting :: bool

definition new_funnel :: funnel where
  "new_funnel = \<lparr>fn_pc = Listening, fn_pool = False, fn_queue = [], fn_transmitting = False\<rparr>"

text \<open>The channel is open to a pool thread when the mutex is free and no transmission is in progress.\<close>

definition fn_open :: "funnel \<Rightarrow> bool" where
  "fn_open f \<longleftrightarrow> fn_pc f \<noteq> Proposing \<and> \<not> fn_transmitting f"

definition fn_begin :: "funnel \<Rightarrow> funnel" where
  "fn_begin f = f\<lparr>fn_pc := Entering, fn_pool := True\<rparr>"

definition fn_goto :: "fn_pc \<Rightarrow> funnel \<Rightarrow> funnel" where
  "fn_goto c f = f\<lparr>fn_pc := c\<rparr>"

definition fn_push :: "task_bundle \<Rightarrow> funnel \<Rightarrow> funnel res" where
  "fn_push b f =
     (if fn_queue f \<noteq> [] then Inl (Thrown ''ERROR: q is not empty !!!!'')
      else Inr (f\<lparr>fn_transmitting := True, fn_queue := fn_queue f @ [b]\<rparr>))"

definition fn_enter :: "funnel \<Rightarrow> funnel" where
  "fn_enter f = (case fn_queue f of [] \<Rightarrow> f\<lparr>fn_pc := Polling\<rparr>
                 | b # q \<Rightarrow> f\<lparr>fn_pc := Sending b, fn_queue := q\<rparr>)"

definition fn_sent :: "funnel \<Rightarrow> funnel res" where
  "fn_sent f =
     (case fn_queue f of
        [] \<Rightarrow> Inr (f\<lparr>fn_pc := Polling, fn_transmitting := False\<rparr>)
      | b # q \<Rightarrow> Inl (Thrown ''Task found in queue, this should not happen in task_funneling()''))"

definition fn_pop :: "funnel \<Rightarrow> funnel" where
  "fn_pop f = (case fn_queue f of
                 [] \<Rightarrow> f\<lparr>fn_pc := Checking\<rparr>
               | b # q \<Rightarrow> f\<lparr>fn_pc := Sending b, fn_queue := q\<rparr>)"

definition fn_check :: "funnel \<Rightarrow> funnel" where
  "fn_check f = f\<lparr>fn_pc := if \<not> fn_pool f then Rechecking else Polling\<rparr>"

definition fn_recheck :: "funnel \<Rightarrow> funnel" where
  "fn_recheck f = (case fn_queue f of [] \<Rightarrow> f\<lparr>fn_pc := Leaving\<rparr>
                   | b # q \<Rightarrow> f\<lparr>fn_pc := Sending b, fn_queue := q\<rparr>)"

definition fn_finish :: "funnel \<Rightarrow> funnel res" where
  "fn_finish f = (if fn_queue f \<noteq> [] then Inl (Thrown ''leaving process with a pending message'')
                  else Inr (f\<lparr>fn_pc := Listening\<rparr>))"

text \<open>
  \<open>update_score\<close>: adopt the global score when it is better than the local one, or propose the local
  score when that is better; \<open>Some s\<close> is the score proposed.
\<close>

definition update_score ::
    "goal \<Rightarrow> score \<Rightarrow> 'r node_manager \<Rightarrow> 'r node_manager \<times> score option" where
  "update_score g p_global nm =
     (let v_local = nm_score nm
      in if should_update_local g p_global v_local
         then (fst (try_update_score_and_invalidate_result p_global nm), None)
         else if should_update_global g p_global v_local then (nm, Some v_local)
         else (nm, None))"

text \<open>\<open>send_final_solution_to_center\<close>: what a worker reports when it exits.\<close>

definition final_solution :: "'r node_manager \<Rightarrow> out list" where
  "final_solution nm =
     (case get_result_bytes nm of
        None \<Rightarrow> [(World, 0, No_Result)]
      | Some r \<Rightarrow>
          if packet_empty (result_packet r) then [(World, 0, No_Result)]
          else [(World, 0, Has_Result (result_packet r)), (World, 0, Has_Result_Score (result_score r))])"

text \<open>\<open>send_task_ack\<close>, for the rank that is owed an acknowledgement, if any.\<close>

definition ack_to :: "rank option \<Rightarrow> out list" where
  "ack_to r = (case r of None \<Rightarrow> [] | Some p \<Rightarrow> [(World, p, Task_Received)])"

text \<open>A handler that sends nothing; and a test of the counts a worker drains up to.\<close>

definition quietly :: "'w \<Rightarrow> ('w \<times> out list) res" where
  "quietly w = Inr (w, [])"

fun at_draining :: "(int \<Rightarrow> int \<Rightarrow> bool) \<Rightarrow> fn_pc \<Rightarrow> bool" where
  "at_draining P (Draining a b) \<longleftrightarrow> P a b"
| "at_draining P c \<longleftrightarrow> False"

lemma at_draining_iff [simp]: "at_draining P c \<longleftrightarrow> (\<exists>a b. c = Draining a b \<and> P a b)"
  by (cases c) simp_all

section \<open>The invariant of the hand-over\<close>

text \<open>
  A transmission is in progress exactly while a task is queued or being sent, and there is never a
  second task; outside the loop there is no task and the pool is idle.
\<close>

fun fn_busy :: "fn_pc \<Rightarrow> bool" where
  "fn_busy Listening \<longleftrightarrow> False"
| "fn_busy (Draining a b) \<longleftrightarrow> False"
| "fn_busy At_Barrier \<longleftrightarrow> False"
| "fn_busy Exited \<longleftrightarrow> False"
| "fn_busy _ \<longleftrightarrow> True"

fun fn_sending :: "fn_pc \<Rightarrow> bool" where
  "fn_sending (Sending b) \<longleftrightarrow> True"
| "fn_sending _ \<longleftrightarrow> False"

fun fn_after :: "fn_pc \<Rightarrow> bool" where
  "fn_after Leaving \<longleftrightarrow> True"
| "fn_after Proposing_Last \<longleftrightarrow> True"
| "fn_after c \<longleftrightarrow> \<not> fn_busy c"

definition funnel_ok :: "funnel \<Rightarrow> bool" where
  "funnel_ok f \<longleftrightarrow>
     (fn_transmitting f \<longleftrightarrow> fn_queue f \<noteq> [] \<or> fn_sending (fn_pc f)) \<and>
     length (fn_queue f) \<le> 1 \<and> (fn_sending (fn_pc f) \<longrightarrow> fn_queue f = []) \<and>
     (fn_after (fn_pc f) \<longrightarrow> fn_queue f = [] \<and> \<not> fn_pool f) \<and>
     (fn_pc f = Rechecking \<longrightarrow> \<not> fn_pool f)"

lemma new_funnel_ok: "funnel_ok new_funnel"
  by (simp add: funnel_ok_def new_funnel_def)

lemma fn_begin_ok: "funnel_ok f \<Longrightarrow> fn_pc f = Listening \<Longrightarrow> funnel_ok (fn_begin f)"
  by (simp add: funnel_ok_def fn_begin_def)

lemma fn_push_ok:
  "funnel_ok f \<Longrightarrow> fn_open f \<Longrightarrow> fn_pool f \<Longrightarrow> \<exists>f'. fn_push b f = Inr f' \<and> funnel_ok f'"
  by (auto simp: funnel_ok_def fn_push_def fn_open_def)

lemma fn_enter_ok: "funnel_ok f \<Longrightarrow> fn_pc f = Entering \<Longrightarrow> funnel_ok (fn_enter f)"
  by (auto simp: funnel_ok_def fn_enter_def split: list.split)

lemma fn_sent_ok: "funnel_ok f \<Longrightarrow> fn_pc f = Sending b \<Longrightarrow> \<exists>f'. fn_sent f = Inr f' \<and> funnel_ok f'"
  by (auto simp: funnel_ok_def fn_sent_def split: list.split)

lemma fn_pop_ok: "funnel_ok f \<Longrightarrow> fn_pc f = Popping \<Longrightarrow> funnel_ok (fn_pop f)"
  by (auto simp: funnel_ok_def fn_pop_def split: list.split)

lemma fn_check_ok: "funnel_ok f \<Longrightarrow> fn_pc f = Checking \<Longrightarrow> funnel_ok (fn_check f)"
  by (auto simp: funnel_ok_def fn_check_def)

lemma fn_recheck_ok: "funnel_ok f \<Longrightarrow> fn_pc f = Rechecking \<Longrightarrow> funnel_ok (fn_recheck f)"
  by (auto simp: funnel_ok_def fn_recheck_def split: list.split)

lemma fn_finish_ok:
  "funnel_ok f \<Longrightarrow> fn_pc f = Leaving \<or> fn_pc f = Proposing_Last \<Longrightarrow>
   \<exists>f'. fn_finish f = Inr f' \<and> funnel_ok f'"
  by (auto simp: funnel_ok_def fn_finish_def)

lemma fn_goto_ok:
  "funnel_ok f \<Longrightarrow> fn_sending c = fn_sending (fn_pc f) \<Longrightarrow> fn_after c = fn_after (fn_pc f) \<Longrightarrow>
   c \<noteq> Rechecking \<Longrightarrow> funnel_ok (fn_goto c f)"
  by (auto simp: funnel_ok_def fn_goto_def)

lemma fn_pool_done_ok: "funnel_ok f \<Longrightarrow> funnel_ok (f\<lparr>fn_pool := False\<rparr>)"
  by (auto simp: funnel_ok_def)

lemma funnel_ok_quiet:
  "funnel_ok f \<Longrightarrow> fn_after (fn_pc f) \<Longrightarrow> fn_queue f = [] \<and> \<not> fn_transmitting f \<and> \<not> fn_pool f"
  by (cases "fn_pc f") (auto simp: funnel_ok_def)

end
