(* ===== verification/Semi_Worker.thy ===== *)
theory Semi_Worker
  imports Task_Funneling Topology Mpi_Stats
begin

text \<open>
  The worker side of the semi-centralized scheduler
  (\<open>private/impl/schedulers/mpi_semi_centralized_scheduler.hpp\<close>,
  \<open>src/schedulers/mpi/mpi_semi_centralized_scheduler.cpp\<close>): a worker sends its spare tasks straight to
  the workers the center has lent it. A handler maps the state of the worker, with the messages it
  received, to its new state and the messages it sends. What only feeds logs or telemetry is left out.
\<close>

record semi_worker =
  sw_term :: detector
  sw_goal :: goal
  sw_score :: score
  sw_next_processes :: "int list"
  sw_next_process :: int
  sw_destination :: int
  sw_updates_received :: int
  sw_next_received :: int
  sw_received_tasks :: int
  sw_sent_tasks :: int
  sw_total_requests :: "64 word"
  sw_stats :: mpi_stats
  sw_funnel :: funnel
  sw_nm :: "unit node_manager"

text \<open>\<open>init_member_variables\<close> and \<open>set_goal\<close> on a worker.\<close>

definition semi_worker_init :: "int \<Rightarrow> rank \<Rightarrow> goal \<Rightarrow> score \<Rightarrow> unit node_manager \<Rightarrow> semi_worker" where
  "semi_worker_init n me g s nm =
     \<lparr>sw_term = new_detector (me = 0), sw_goal = g, sw_score = s,
      sw_next_processes = replicate (nat n) (-1), sw_next_process = -1, sw_destination = -1,
      sw_updates_received = 0, sw_next_received = 0, sw_received_tasks = 0, sw_sent_tasks = 0,
      sw_total_requests = 0, sw_stats = new_stats (word_of_int me), sw_funnel = new_funnel, sw_nm = nm\<rparr>"

definition semi_channel_open :: "semi_worker \<Rightarrow> bool" where
  "semi_channel_open w \<longleftrightarrow> fn_open (sw_funnel w) \<and> 0 < sw_next_process w"

definition semi_force_push :: "rank \<Rightarrow> task_packet \<Rightarrow> int \<Rightarrow> semi_worker \<Rightarrow> semi_worker res" where
  "semi_force_push me p fid w =
     (if packet_empty p
      then Inl (Thrown (''rank '' @ show_int me @ '', attempted to send empty buffer ''))
      else rbind (shift_left (sw_next_processes w)) (\<lambda>np.
           rbind (fn_push \<lparr>bundle_packet = p, bundle_runnable_id = fid\<rparr> (sw_funnel w)) (\<lambda>f.
             Inr (w\<lparr>sw_destination := sw_next_process w, sw_next_processes := np, sw_funnel := f\<rparr>))))"

text \<open>\<open>release_parent_if_passive\<close> with \<open>send_task_ack\<close>.\<close>

definition semi_release_parent :: "semi_worker \<Rightarrow> semi_worker \<times> out list" where
  "semi_release_parent w =
     (let (d, r) = on_passive (sw_term w) in (w\<lparr>sw_term := d\<rparr>, ack_to r))"

definition semi_task_received_ack :: "rank \<Rightarrow> rank \<Rightarrow> semi_worker \<Rightarrow> semi_worker res" where
  "semi_task_received_ack me src w =
     (let (d, expected) = on_ack_received (sw_term w)
      in if \<not> expected
         then Inl (Thrown (''rank '' @ show_int me @
                     '' received an unexpected task acknowledgement from rank '' @ show_int src))
         else Inr (w\<lparr>sw_term := d\<rparr>))"

definition semi_receive_score :: "score \<Rightarrow> semi_worker \<Rightarrow> semi_worker" where
  "semi_receive_score s w = w\<lparr>sw_score := s, sw_updates_received := sw_updates_received w + 1\<rparr>"

text \<open>The receive overwrites the front of the vector; a longer message does not fit the buffer.\<close>

definition semi_receive_next :: "int list \<Rightarrow> semi_worker \<Rightarrow> semi_worker res" where
  "semi_receive_next xs w =
     (if length (sw_next_processes w) < length xs then Inl Undefined
      else Inr (w\<lparr>sw_next_processes := xs @ drop (length xs) (sw_next_processes w),
                  sw_next_received := sw_next_received w + 1\<rparr>))"

text \<open>
  \<open>process_message\<close> up to the call of \<open>task_funneling\<close>: the runnable hands the task to the thread
  pool. A function id without a runnable calls through a null pointer.
\<close>

definition semi_process_message ::
    "int list \<Rightarrow> rank \<Rightarrow> task_packet \<Rightarrow> int \<Rightarrow> semi_worker \<Rightarrow> (semi_worker \<times> out list) res" where
  "semi_process_message runnables src p fid w =
     (let (d, ack) = on_task_received (sw_term w) src;
          w1 = w\<lparr>sw_term := d, sw_received_tasks := sw_received_tasks w + 1,
                 sw_stats := (sw_stats w)
                   \<lparr>st_received_task_count := st_received_task_count (sw_stats w) + 1,
                    st_total_requested_tasks := st_total_requested_tasks (sw_stats w) + 1\<rparr>\<rparr>
      in if fid \<notin> set runnables then Inl Undefined
         else Inr (w1\<lparr>sw_funnel := fn_begin (sw_funnel w1)\<rparr>,
                   ack_to ack @ [(World, 0, Running_State)]))"

definition semi_send_task :: "rank \<Rightarrow> task_bundle \<Rightarrow> semi_worker \<Rightarrow> (semi_worker \<times> out list) res" where
  "semi_send_task me b w =
     (if INT_MAX < int (bundle_size b)
      then Inl (Thrown ''message is to long to be sent in a single message, currently not supported'')
      else if 0 < sw_destination w then
        (if sw_destination w = me
         then Inl (Thrown (''rank '' @ show_int me @ '' attempting to send to itself !!!''))
         else Inr (w\<lparr>sw_term := on_task_sent (sw_term w), sw_destination := -1\<rparr>,
                   [(World, sw_destination w, Task (bundle_packet b)),
                    (World, sw_destination w, Runnable_Id (bundle_runnable_id b))]))
      else Inl (Thrown (''rank '' @ show_int me @ '', could not send task to rank '' @
                        show_int (sw_destination w))))"

section \<open>The points of task_funneling\<close>

definition semi_enter :: "semi_worker \<Rightarrow> semi_worker" where
  "semi_enter w = w\<lparr>sw_funnel := fn_enter (sw_funnel w)\<rparr>"

definition semi_send :: "rank \<Rightarrow> task_bundle \<Rightarrow> semi_worker \<Rightarrow> (semi_worker \<times> out list) res" where
  "semi_send me b w =
     (let w1 = w\<lparr>sw_sent_tasks := sw_sent_tasks w + 1, sw_total_requests := sw_total_requests w + 1,
                 sw_stats := (sw_stats w)
                   \<lparr>st_sent_task_count := st_sent_task_count (sw_stats w) + 1,
                    st_total_requested_tasks := st_total_requested_tasks (sw_stats w) + 1\<rparr>\<rparr>
      in rbind (semi_send_task me b w1) (\<lambda>(w2, outs).
         rbind (fn_sent (sw_funnel w2)) (\<lambda>f. Inr (w2\<lparr>sw_funnel := f\<rparr>, outs))))"

text \<open>
  \<open>update_score\<close>: the counter says where the worker waits for its proposal to be received, and where
  it goes on when it has none.
\<close>

definition semi_update_score :: "fn_pc \<Rightarrow> semi_worker \<Rightarrow> semi_worker \<times> out list \<times> bool" where
  "semi_update_score waiting w =
     (let (nm, prop) = update_score (sw_goal w) (sw_score w) (sw_nm w)
      in case prop of
           None \<Rightarrow> (w\<lparr>sw_nm := nm\<rparr>, [], False)
         | Some s \<Rightarrow> (w\<lparr>sw_nm := nm, sw_funnel := fn_goto waiting (sw_funnel w)\<rparr>,
                      [(Global_Score, 0, Score_Proposal s)], True))"

text \<open>\<open>update_next_process\<close>, the end of the section that probes.\<close>

definition semi_polled :: "semi_worker \<Rightarrow> semi_worker" where
  "semi_polled w = w\<lparr>sw_next_process := sw_next_processes w ! 0,
                     sw_funnel := fn_goto Popping (sw_funnel w)\<rparr>"

definition semi_poll :: "score option \<Rightarrow> int list option \<Rightarrow> semi_worker \<Rightarrow> (semi_worker \<times> out list) res" where
  "semi_poll ms mn w =
     (let w1 = (case ms of None \<Rightarrow> w | Some s \<Rightarrow> semi_receive_score s w)
      in rbind (case mn of None \<Rightarrow> Inr w1 | Some xs \<Rightarrow> semi_receive_next xs w1) (\<lambda>w2.
           let (w3, outs, waits) = semi_update_score Proposing w2
           in Inr (if waits then w3 else semi_polled w3, outs)))"

definition semi_pop :: "semi_worker \<Rightarrow> semi_worker" where
  "semi_pop w = w\<lparr>sw_funnel := fn_pop (sw_funnel w)\<rparr>"

definition semi_check :: "semi_worker \<Rightarrow> semi_worker" where
  "semi_check w = w\<lparr>sw_funnel := fn_check (sw_funnel w)\<rparr>"

definition semi_recheck :: "semi_worker \<Rightarrow> semi_worker" where
  "semi_recheck w = w\<lparr>sw_funnel := fn_recheck (sw_funnel w)\<rparr>"

text \<open>The end of \<open>task_funneling\<close> after the last score update, and of \<open>process_message\<close>.\<close>

definition semi_finish :: "semi_worker \<Rightarrow> (semi_worker \<times> out list) res" where
  "semi_finish w =
     rbind (fn_finish (sw_funnel w)) (\<lambda>f.
       let (w1, outs) = semi_release_parent (w\<lparr>sw_funnel := f\<rparr>)
       in Inr (w1, (World, 0, Available_State) # outs))"

definition semi_leave :: "semi_worker \<Rightarrow> (semi_worker \<times> out list) res" where
  "semi_leave w =
     (let (w1, outs, waits) = semi_update_score Proposing_Last w
      in if waits then Inr (w1, outs) else semi_finish w1)"

section \<open>Termination\<close>

definition semi_process_termination :: "rank \<Rightarrow> int \<Rightarrow> int \<Rightarrow> semi_worker \<Rightarrow> semi_worker res" where
  "semi_process_termination me scores nexts w =
     (if \<not> is_quiescent (sw_term w) \<or> fn_queue (sw_funnel w) \<noteq> [] \<or> fn_transmitting (sw_funnel w)
      then Inl (Thrown (''rank '' @ show_int me @ '' received termination with work in progress: deficit '' @
             show_int (td_deficit (sw_term w)) @ '', parent '' @ show_int (td_parent (sw_term w))))
      else Inr (w\<lparr>sw_funnel := fn_goto (Draining scores nexts) (sw_funnel w)\<rparr>))"

text \<open>The end of \<open>drain_center_messages\<close>, when neither loop receives any more.\<close>

definition semi_drained :: "rank \<Rightarrow> int \<Rightarrow> int \<Rightarrow> semi_worker \<Rightarrow> semi_worker res" where
  "semi_drained me scores nexts w =
     (if sw_updates_received w \<noteq> scores \<or> sw_next_received w \<noteq> nexts
      then Inl (Thrown (''rank '' @ show_int me @ '' received more center messages than the center sent: score updates '' @
             show_int (sw_updates_received w) @ ''/'' @ show_int scores @ '', next processes '' @
             show_int (sw_next_received w) @ ''/'' @ show_int nexts))
      else Inr (w\<lparr>sw_funnel := fn_goto At_Barrier (sw_funnel w)\<rparr>))"

text \<open>
  After the barrier: \<open>collect_stats_data\<close>, with the idle time and thread requests the node manager
  reports, and \<open>send_final_solution_to_center\<close>.
\<close>

definition semi_exit :: "64 word \<Rightarrow> 64 word \<Rightarrow> semi_worker \<Rightarrow> semi_worker \<times> out list" where
  "semi_exit idle requests w =
     (w\<lparr>sw_stats := (sw_stats w)\<lparr>st_idle_time := idle, st_total_thread_requests := requests\<rparr>,
        sw_funnel := fn_goto Exited (sw_funnel w)\<rparr>, final_solution (sw_nm w))"

section \<open>One step of a worker\<close>

text \<open>
  An event is one step with what the environment decides in it: the messages received, the calls the
  pool's tasks make, the end of the pool's tasks.
\<close>

datatype wevent =
    Recv_Task rank task_packet int | Recv_Ack rank | Recv_Score score | Recv_Next "int list"
  | Recv_Termination int int | Push task_packet int | Offer task_packet score | Pool_Done
  | Enter | Send_Task task_bundle | Poll "score option" "int list option" | Resume | Pop | Check | Recheck
  | Leave | Resume_Last | Drain_Score score | Drain_Next "int list" | Drained | Exit "64 word" "64 word"

text \<open>Where the program counter must be, and what the loop conditions say.\<close>

fun semi_enabled :: "wevent \<Rightarrow> semi_worker \<Rightarrow> bool" where
  "semi_enabled (Recv_Task src p i) w \<longleftrightarrow> fn_pc (sw_funnel w) = Listening"
| "semi_enabled (Recv_Ack src) w \<longleftrightarrow> fn_pc (sw_funnel w) = Listening"
| "semi_enabled (Recv_Score s) w \<longleftrightarrow> fn_pc (sw_funnel w) = Listening"
| "semi_enabled (Recv_Next xs) w \<longleftrightarrow> fn_pc (sw_funnel w) = Listening"
| "semi_enabled (Recv_Termination a b) w \<longleftrightarrow> fn_pc (sw_funnel w) = Listening"
| "semi_enabled (Push p i) w \<longleftrightarrow> fn_pool (sw_funnel w) \<and> semi_channel_open w"
| "semi_enabled (Offer p s) w \<longleftrightarrow> fn_pool (sw_funnel w)"
| "semi_enabled Pool_Done w \<longleftrightarrow> fn_pool (sw_funnel w)"
| "semi_enabled Enter w \<longleftrightarrow> fn_pc (sw_funnel w) = Entering"
| "semi_enabled (Send_Task b) w \<longleftrightarrow> fn_pc (sw_funnel w) = Sending b"
| "semi_enabled (Poll ms mn) w \<longleftrightarrow> fn_pc (sw_funnel w) = Polling"
| "semi_enabled Resume w \<longleftrightarrow> fn_pc (sw_funnel w) = Proposing"
| "semi_enabled Pop w \<longleftrightarrow> fn_pc (sw_funnel w) = Popping"
| "semi_enabled Check w \<longleftrightarrow> fn_pc (sw_funnel w) = Checking"
| "semi_enabled Recheck w \<longleftrightarrow> fn_pc (sw_funnel w) = Rechecking"
| "semi_enabled Leave w \<longleftrightarrow> fn_pc (sw_funnel w) = Leaving"
| "semi_enabled Resume_Last w \<longleftrightarrow> fn_pc (sw_funnel w) = Proposing_Last"
| "semi_enabled (Drain_Score s) w \<longleftrightarrow>
     at_draining (\<lambda>a b. sw_updates_received w < a) (fn_pc (sw_funnel w))"
| "semi_enabled (Drain_Next xs) w \<longleftrightarrow>
     at_draining (\<lambda>a b. \<not> sw_updates_received w < a \<and> sw_next_received w < b) (fn_pc (sw_funnel w))"
| "semi_enabled Drained w \<longleftrightarrow>
     at_draining (\<lambda>a b. \<not> sw_updates_received w < a \<and> \<not> sw_next_received w < b) (fn_pc (sw_funnel w))"
| "semi_enabled (Exit idle req) w \<longleftrightarrow> fn_pc (sw_funnel w) = At_Barrier"

fun semi_apply :: "int list \<Rightarrow> rank \<Rightarrow> wevent \<Rightarrow> semi_worker \<Rightarrow> (semi_worker \<times> out list) res" where
  "semi_apply rs me (Recv_Task src p i) w = semi_process_message rs src p i w"
| "semi_apply rs me (Recv_Ack src) w =
     rbind (semi_task_received_ack me src w) (\<lambda>w1. Inr (semi_release_parent w1))"
| "semi_apply rs me (Recv_Score s) w = quietly (semi_receive_score s w)"
| "semi_apply rs me (Recv_Next xs) w = rbind (semi_receive_next xs w) quietly"
| "semi_apply rs me (Recv_Termination a b) w = rbind (semi_process_termination me a b w) quietly"
| "semi_apply rs me (Push p i) w = rbind (semi_force_push me p i w) quietly"
| "semi_apply rs me (Offer p s) w = quietly (w\<lparr>sw_nm := fst (try_update_result p s (sw_nm w))\<rparr>)"
| "semi_apply rs me Pool_Done w = quietly (w\<lparr>sw_funnel := (sw_funnel w)\<lparr>fn_pool := False\<rparr>\<rparr>)"
| "semi_apply rs me Enter w = quietly (semi_enter w)"
| "semi_apply rs me (Send_Task b) w = semi_send me b w"
| "semi_apply rs me (Poll ms mn) w = semi_poll ms mn w"
| "semi_apply rs me Resume w = quietly (semi_polled w)"
| "semi_apply rs me Pop w = quietly (semi_pop w)"
| "semi_apply rs me Check w = quietly (semi_check w)"
| "semi_apply rs me Recheck w = quietly (semi_recheck w)"
| "semi_apply rs me Leave w = semi_leave w"
| "semi_apply rs me Resume_Last w = semi_finish w"
| "semi_apply rs me (Drain_Score s) w = quietly (semi_receive_score s w)"
| "semi_apply rs me (Drain_Next xs) w = rbind (semi_receive_next xs w) quietly"
| "semi_apply rs me Drained w =
     (case fn_pc (sw_funnel w) of
        Draining a b \<Rightarrow> rbind (semi_drained me a b w) quietly | _ \<Rightarrow> Inr (w, []))"
| "semi_apply rs me (Exit idle req) w = Inr (semi_exit idle req w)"

section \<open>The invariant of a worker\<close>

text \<open>
  \<open>peer n p x\<close>: \<open>x\<close> is \<open>-1\<close> or a worker other than \<open>p\<close>. The helpers a worker knows are peers, a
  transmission has a destination, and the tasks in hand can be sent and run.
\<close>

definition peer :: "nat \<Rightarrow> rank \<Rightarrow> int \<Rightarrow> bool" where
  "peer n p x \<longleftrightarrow> x = -1 \<or> 1 \<le> x \<and> x < int n \<and> x \<noteq> p"

definition bundle_ok :: "int list \<Rightarrow> task_bundle \<Rightarrow> bool" where
  "bundle_ok rs b \<longleftrightarrow> int (bundle_size b) \<le> INT_MAX \<and> bundle_runnable_id b \<in> set rs"

fun in_hand :: "fn_pc \<Rightarrow> task_bundle list" where
  "in_hand (Sending b) = [b]"
| "in_hand _ = []"

definition worker_ok :: "int list \<Rightarrow> nat \<Rightarrow> rank \<Rightarrow> semi_worker \<Rightarrow> bool" where
  "worker_ok rs n p w \<longleftrightarrow> 0 < n \<and> funnel_ok (sw_funnel w) \<and> length (sw_next_processes w) = n \<and>
     (\<forall>x \<in> set (sw_next_processes w). peer n p x) \<and> peer n p (sw_next_process w) \<and>
     (fn_transmitting (sw_funnel w) \<longrightarrow> sw_destination w \<noteq> -1 \<and> peer n p (sw_destination w)) \<and>
     (\<forall>b \<in> set (fn_queue (sw_funnel w) @ in_hand (fn_pc (sw_funnel w))). bundle_ok rs b)"

text \<open>What the messages received may be.\<close>

definition next_ok :: "nat \<Rightarrow> rank \<Rightarrow> int list \<Rightarrow> bool" where
  "next_ok n p xs \<longleftrightarrow> length xs \<le> n \<and> (\<forall>x \<in> set xs. peer n p x)"

fun input_ok :: "int list \<Rightarrow> nat \<Rightarrow> rank \<Rightarrow> semi_worker \<Rightarrow> wevent \<Rightarrow> bool" where
  "input_ok rs n p w (Recv_Task src q i) \<longleftrightarrow> i \<in> set rs"
| "input_ok rs n p w (Recv_Ack src) \<longleftrightarrow> td_deficit (sw_term w) \<noteq> 0"
| "input_ok rs n p w (Recv_Next xs) \<longleftrightarrow> next_ok n p xs"
| "input_ok rs n p w (Drain_Next xs) \<longleftrightarrow> next_ok n p xs"
| "input_ok rs n p w (Poll ms mn) \<longleftrightarrow> (mn = None \<or> next_ok n p (the mn))"
| "input_ok rs n p w (Recv_Termination a b) \<longleftrightarrow> is_quiescent (sw_term w)"
| "input_ok rs n p w Drained \<longleftrightarrow> (\<forall>a b. fn_pc (sw_funnel w) = Draining a b \<longrightarrow>
     sw_updates_received w \<le> a \<and> sw_next_received w \<le> b)"
| "input_ok rs n p w (Push q i) \<longleftrightarrow> \<not> packet_empty q \<and> int (packet_size q) \<le> INT_MAX \<and> i \<in> set rs"
| "input_ok rs n p w e \<longleftrightarrow> True"

lemma worker_okD:
  assumes "worker_ok rs n p w"
  shows "0 < n" "funnel_ok (sw_funnel w)" "length (sw_next_processes w) = n"
    "x \<in> set (sw_next_processes w) \<Longrightarrow> peer n p x" "peer n p (sw_next_process w)"
    "fn_transmitting (sw_funnel w) \<Longrightarrow> sw_destination w \<noteq> -1 \<and> peer n p (sw_destination w)"
    "b \<in> set (fn_queue (sw_funnel w)) \<Longrightarrow> bundle_ok rs b"
    "fn_pc (sw_funnel w) = Sending b \<Longrightarrow> bundle_ok rs b"
  using assms by (auto simp: worker_ok_def)

text \<open>A step of the hand-over that leaves the rest of the worker alone.\<close>

lemma worker_ok_funnel:
  assumes "worker_ok rs n p w" and "funnel_ok f" and "fn_transmitting f \<Longrightarrow> fn_transmitting (sw_funnel w)"
    and "set (fn_queue f @ in_hand (fn_pc f)) \<subseteq>
         set (fn_queue (sw_funnel w) @ in_hand (fn_pc (sw_funnel w)))"
  shows "worker_ok rs n p (w\<lparr>sw_funnel := f\<rparr>)"
  using assms by (auto simp: worker_ok_def)

lemma worker_ok_cong:
  assumes "worker_ok rs n p w" and "sw_funnel w' = sw_funnel w" and "sw_next_processes w' = sw_next_processes w"
    and "sw_next_process w' = sw_next_process w" and "sw_destination w' = sw_destination w"
  shows "worker_ok rs n p w'"
  using assms by (simp add: worker_ok_def)

lemma in_hand_plain [simp]: "\<not> fn_sending c \<Longrightarrow> in_hand c = []"
  by (cases c) simp_all

lemma worker_ok_goto:
  assumes "worker_ok rs n p w" and "\<not> fn_sending (fn_pc (sw_funnel w))" and "\<not> fn_sending c"
    and "fn_after c = fn_after (fn_pc (sw_funnel w))" and "c \<noteq> Rechecking"
  shows "worker_ok rs n p (w\<lparr>sw_funnel := fn_goto c (sw_funnel w)\<rparr>)"
  by (rule worker_ok_funnel [OF assms(1) fn_goto_ok])
    (use assms worker_okD(2) [OF assms(1)] in \<open>auto simp: fn_goto_def\<close>)

lemma semi_receive_score_ok: "worker_ok rs n p w \<Longrightarrow> worker_ok rs n p (semi_receive_score s w)"
  by (rule worker_ok_cong) (simp_all add: semi_receive_score_def)

lemma semi_receive_next_ok:
  assumes ok: "worker_ok rs n p w" and xs: "next_ok n p xs"
  shows "\<exists>w'. semi_receive_next xs w = Inr w' \<and> worker_ok rs n p w' \<and> sw_funnel w' = sw_funnel w"
proof -
  have l: "length xs \<le> length (sw_next_processes w)" using xs worker_okD(3) [OF ok] by (simp add: next_ok_def)
  let ?w = "w\<lparr>sw_next_processes := xs @ drop (length xs) (sw_next_processes w),
              sw_next_received := sw_next_received w + 1\<rparr>"
  have "\<forall>x \<in> set (xs @ drop (length xs) (sw_next_processes w)). peer n p x"
    using xs worker_okD(4) [OF ok] by (auto simp: next_ok_def dest: in_set_dropD)
  then have "worker_ok rs n p ?w" using ok l by (auto simp: worker_ok_def)
  then show ?thesis using l by (simp add: semi_receive_next_def)
qed

lemma semi_force_push_ok:
  assumes ok: "worker_ok rs n p w" and q: "\<not> packet_empty q" "int (packet_size q) \<le> INT_MAX" "i \<in> set rs"
    and op: "fn_pool (sw_funnel w)" "semi_channel_open w"
  shows "\<exists>w'. semi_force_push p q i w = Inr w' \<and> worker_ok rs n p w'"
proof -
  let ?b = "\<lparr>bundle_packet = q, bundle_runnable_id = i\<rparr>"
  have o: "fn_open (sw_funnel w)" "0 < sw_next_process w" using op(2) by (simp_all add: semi_channel_open_def)
  from fn_push_ok [OF worker_okD(2) [OF ok] o(1) op(1)] obtain f where
    f: "fn_push ?b (sw_funnel w) = Inr f" "funnel_ok f" by blast
  have ff: "fn_queue f = [?b]" "fn_pc f = fn_pc (sw_funnel w)"
    using f(1) by (auto simp: fn_push_def split: if_splits)
  have "sw_next_processes w \<noteq> []" using worker_okD(1,3) [OF ok] by auto
  from shift_left_sel [OF this] obtain v where v: "shift_left (sw_next_processes w) = Inr v"
    "length v = n" "set v \<subseteq> insert (-1) (set (sw_next_processes w))" using worker_okD(3) [OF ok] by auto
  let ?w = "w\<lparr>sw_destination := sw_next_process w, sw_next_processes := v, sw_funnel := f\<rparr>"
  have "\<forall>x \<in> set v. peer n p x" using v(3) worker_okD(4) [OF ok] by (auto simp: peer_def)
  moreover have "sw_next_process w \<noteq> -1" "peer n p (sw_next_process w)" using o(2) worker_okD(5) [OF ok] by auto
  moreover have "bundle_ok rs ?b" using q by (simp add: bundle_ok_def bundle_size_def)
  moreover have "in_hand (fn_pc f) = in_hand (fn_pc (sw_funnel w))" by (simp add: ff)
  ultimately have "worker_ok rs n p ?w"
    using ok v(2) f(2) ff by (auto simp: worker_ok_def)
  then show ?thesis using q v f by (simp add: semi_force_push_def)
qed

lemma semi_update_score_ok:
  assumes ok: "worker_ok rs n p w" and u: "semi_update_score c w = (w', outs, b)"
    and c: "\<not> fn_sending (fn_pc (sw_funnel w))" "\<not> fn_sending c"
      "fn_after c = fn_after (fn_pc (sw_funnel w))" "c \<noteq> Rechecking"
  shows "worker_ok rs n p w'"
proof -
  have "worker_ok rs n p (w\<lparr>sw_nm := nm\<rparr>)" for nm by (rule worker_ok_cong [OF ok]) simp_all
  moreover from worker_ok_goto [OF this, of nm c for nm] c
  have "worker_ok rs n p (w\<lparr>sw_nm := nm, sw_funnel := fn_goto c (sw_funnel w)\<rparr>)" for nm by simp
  ultimately show ?thesis
    using u by (auto simp: semi_update_score_def split: prod.splits option.splits)
qed

lemma semi_send_result:
  assumes ok: "worker_ok rs n p w" and pc: "fn_pc (sw_funnel w) = Sending b"
  shows "\<exists>w'. semi_send p b w = Inr (w', [(World, sw_destination w, Task (bundle_packet b)),
      (World, sw_destination w, Runnable_Id (bundle_runnable_id b))]) \<and>
    worker_ok rs n p w' \<and> sw_term w' = on_task_sent (sw_term w) \<and> fn_pc (sw_funnel w') = Polling"
proof -
  have "fn_transmitting (sw_funnel w)" using worker_okD(2) [OF ok] pc by (simp add: funnel_ok_def)
  then have d: "sw_destination w \<noteq> -1" "peer n p (sw_destination w)"
    using worker_okD(6) [OF ok] by simp_all
  then have d': "0 < sw_destination w" "sw_destination w \<noteq> p" by (auto simp: peer_def)
  have b: "int (bundle_size b) \<le> INT_MAX" using worker_okD(8) [OF ok pc] by (simp add: bundle_ok_def)
  from fn_sent_ok [OF worker_okD(2) [OF ok] pc] obtain f where
    f: "fn_sent (sw_funnel w) = Inr f" "funnel_ok f" by blast
  have ff: "fn_pc f = Polling" "fn_queue f = []" "\<not> fn_transmitting f"
    using f(1) by (auto simp: fn_sent_def split: list.splits)
  show ?thesis
    using d' b f ff ok
    by (simp add: semi_send_def semi_send_task_def worker_ok_def)
qed

lemma semi_finish_ok:
  assumes ok: "worker_ok rs n p w" and pc: "fn_pc (sw_funnel w) = Leaving \<or> fn_pc (sw_funnel w) = Proposing_Last"
  shows "\<exists>w'. semi_finish w = Inr (w', (World, 0, Available_State) # ack_to (snd (on_passive (sw_term w)))) \<and>
    worker_ok rs n p w' \<and> sw_term w' = fst (on_passive (sw_term w)) \<and> fn_pc (sw_funnel w') = Listening"
proof -
  from fn_finish_ok [OF worker_okD(2) [OF ok] pc] obtain f where
    f: "fn_finish (sw_funnel w) = Inr f" "funnel_ok f" by blast
  have ff: "f = (sw_funnel w)\<lparr>fn_pc := Listening\<rparr>"
    using f(1) by (auto simp: fn_finish_def split: if_splits)
  have "worker_ok rs n p (w\<lparr>sw_funnel := f\<rparr>)"
    by (rule worker_ok_funnel [OF ok f(2)]) (auto simp: ff)
  then have "worker_ok rs n p (w\<lparr>sw_funnel := f, sw_term := d\<rparr>)" for d
    by (rule worker_ok_cong) simp_all
  then show ?thesis using f(1) ff
    by (simp add: semi_finish_def semi_release_parent_def split: prod.split)
qed

lemma semi_leave_cases:
  assumes ok: "worker_ok rs n p w" and pc: "fn_pc (sw_funnel w) = Leaving"
  obtains (propose) w' s where "semi_leave w = Inr (w', [(Global_Score, 0, Score_Proposal s)])"
      "worker_ok rs n p w'" "sw_term w' = sw_term w" "fn_pc (sw_funnel w') = Proposing_Last"
      "s = nm_score (sw_nm w)" "sw_nm w' = sw_nm w" "sw_score w' = sw_score w"
      "sw_updates_received w' = sw_updates_received w" "sw_next_received w' = sw_next_received w"
      "sw_goal w' = sw_goal w"
    | (finish) w1 where "semi_leave w = semi_finish w1" "worker_ok rs n p w1" "sw_term w1 = sw_term w"
      "fn_pc (sw_funnel w1) = Leaving" "sw_score w1 = sw_score w" "sw_goal w1 = sw_goal w"
      "update_score (sw_goal w) (sw_score w) (sw_nm w) = (sw_nm w1, None)"
      "sw_updates_received w1 = sw_updates_received w" "sw_next_received w1 = sw_next_received w"
proof -
  obtain w1 outs b where u: "semi_update_score Proposing_Last w = (w1, outs, b)" by (metis prod_cases3)
  have ok1: "worker_ok rs n p w1" by (rule semi_update_score_ok [OF ok u]) (use pc in simp_all)
  obtain nm pr where ns: "update_score (sw_goal w) (sw_score w) (sw_nm w) = (nm, pr)" by (metis prod.exhaust)
  show thesis
  proof (cases pr)
    case None
    then have "w1 = w\<lparr>sw_nm := nm\<rparr>" "\<not> b" using u ns by (auto simp: semi_update_score_def)
    then show thesis using finish [of w1] ok1 u ns None pc by (simp add: semi_leave_def)
  next
    case (Some s)
    then have w1: "w1 = w\<lparr>sw_nm := nm, sw_funnel := fn_goto Proposing_Last (sw_funnel w)\<rparr>" "b"
      "outs = [(Global_Score, 0, Score_Proposal s)]" using u ns by (auto simp: semi_update_score_def)
    have "nm = sw_nm w" "s = nm_score (sw_nm w)"
      using ns Some by (auto simp: update_score_def Let_def split: if_splits)
    then show thesis using propose [of w1 s] ok1 u w1
      by (simp add: semi_leave_def fn_goto_def)
  qed
qed

lemma semi_poll_ok:
  assumes ok: "worker_ok rs n p w" and pc: "fn_pc (sw_funnel w) = Polling" and mn: "mn = None \<or> next_ok n p (the mn)"
  shows "\<exists>w' outs. semi_poll ms mn w = Inr (w', outs) \<and> worker_ok rs n p w'"
proof -
  let ?w1 = "case ms of None \<Rightarrow> w | Some s \<Rightarrow> semi_receive_score s w"
  have ok1: "worker_ok rs n p ?w1" "sw_funnel ?w1 = sw_funnel w"
    using ok semi_receive_score_ok [OF ok] by (auto simp: semi_receive_score_def split: option.split)
  have "\<exists>w2. (case mn of None \<Rightarrow> Inr ?w1 | Some xs \<Rightarrow> semi_receive_next xs ?w1) = Inr w2 \<and>
      worker_ok rs n p w2 \<and> sw_funnel w2 = sw_funnel w"
    using ok1 semi_receive_next_ok [OF ok1(1)] mn by (cases mn) auto
  then obtain w2 where w2: "(case mn of None \<Rightarrow> Inr ?w1 | Some xs \<Rightarrow> semi_receive_next xs ?w1) = Inr w2"
    "worker_ok rs n p w2" "sw_funnel w2 = sw_funnel w" by blast
  obtain w3 outs b where u: "semi_update_score Proposing w2 = (w3, outs, b)" by (metis prod_cases3)
  have ok3: "worker_ok rs n p w3" by (rule semi_update_score_ok [OF w2(2) u]) (use w2(3) pc in simp_all)
  have "worker_ok rs n p (semi_polled w3)" if "\<not> b"
  proof -
    have f3: "fn_pc (sw_funnel w3) = Polling"
      using u that w2(3) pc by (auto simp: semi_update_score_def split: prod.splits option.splits)
    have "sw_next_processes w3 ! 0 \<in> set (sw_next_processes w3)"
      using worker_okD(1,3) [OF ok3] by (intro nth_mem) simp
    then have "worker_ok rs n p (w3\<lparr>sw_next_process := sw_next_processes w3 ! 0\<rparr>)"
      using ok3 by (auto simp: worker_ok_def)
    then have "worker_ok rs n p ((w3\<lparr>sw_next_process := sw_next_processes w3 ! 0\<rparr>)
        \<lparr>sw_funnel := fn_goto Popping (sw_funnel (w3\<lparr>sw_next_process := sw_next_processes w3 ! 0\<rparr>))\<rparr>)"
      by (rule worker_ok_goto) (use f3 in simp_all)
    then show ?thesis by (simp add: semi_polled_def)
  qed
  then show ?thesis using w2(1) u ok3 by (auto simp: semi_poll_def Let_def)
qed

lemma semi_polled_ok:
  assumes ok: "worker_ok rs n p w" and pc: "fn_pc (sw_funnel w) = Proposing"
  shows "worker_ok rs n p (semi_polled w)"
proof -
  have "sw_next_processes w ! 0 \<in> set (sw_next_processes w)"
    using worker_okD(1,3) [OF ok] by (intro nth_mem) simp
  then have "worker_ok rs n p (w\<lparr>sw_next_process := sw_next_processes w ! 0\<rparr>)"
    using ok by (auto simp: worker_ok_def)
  then have "worker_ok rs n p ((w\<lparr>sw_next_process := sw_next_processes w ! 0\<rparr>)
      \<lparr>sw_funnel := fn_goto Popping (sw_funnel (w\<lparr>sw_next_process := sw_next_processes w ! 0\<rparr>))\<rparr>)"
    by (rule worker_ok_goto) (use pc in simp_all)
  then show ?thesis by (simp add: semi_polled_def)
qed

lemma semi_funnel_step_ok:
  assumes ok: "worker_ok rs n p w"
  shows "fn_pc (sw_funnel w) = Entering \<Longrightarrow> worker_ok rs n p (semi_enter w)"
    "fn_pc (sw_funnel w) = Popping \<Longrightarrow> worker_ok rs n p (semi_pop w)"
    "fn_pc (sw_funnel w) = Checking \<Longrightarrow> worker_ok rs n p (semi_check w)"
    "fn_pc (sw_funnel w) = Rechecking \<Longrightarrow> worker_ok rs n p (semi_recheck w)"
    "worker_ok rs n p (w\<lparr>sw_funnel := (sw_funnel w)\<lparr>fn_pool := False\<rparr>\<rparr>)"
proof -
  note f = worker_okD(2) [OF ok]
  show "fn_pc (sw_funnel w) = Entering \<Longrightarrow> worker_ok rs n p (semi_enter w)" unfolding semi_enter_def
    by (rule worker_ok_funnel [OF ok fn_enter_ok [OF f]]) (auto simp: fn_enter_def split: list.splits)
  show "fn_pc (sw_funnel w) = Popping \<Longrightarrow> worker_ok rs n p (semi_pop w)" unfolding semi_pop_def
    by (rule worker_ok_funnel [OF ok fn_pop_ok [OF f]]) (auto simp: fn_pop_def split: list.splits)
  show "fn_pc (sw_funnel w) = Checking \<Longrightarrow> worker_ok rs n p (semi_check w)" unfolding semi_check_def
    by (rule worker_ok_funnel [OF ok fn_check_ok [OF f]]) (auto simp: fn_check_def split: if_splits)
  show "fn_pc (sw_funnel w) = Rechecking \<Longrightarrow> worker_ok rs n p (semi_recheck w)" unfolding semi_recheck_def
    by (rule worker_ok_funnel [OF ok fn_recheck_ok [OF f]]) (auto simp: fn_recheck_def split: list.splits)
  show "worker_ok rs n p (w\<lparr>sw_funnel := (sw_funnel w)\<lparr>fn_pool := False\<rparr>\<rparr>)"
    by (rule worker_ok_funnel [OF ok fn_pool_done_ok [OF f]]) auto
qed

lemma semi_apply_ok:
  assumes ok: "worker_ok rs n p w" and en: "semi_enabled e w" and inp: "input_ok rs n p w e"
  shows "\<exists>w' outs. semi_apply rs p e w = Inr (w', outs) \<and> worker_ok rs n p w'"
proof (cases e)
  case (Recv_Task src q i)
  then have pc: "fn_pc (sw_funnel w) = Listening" and i: "i \<in> set rs" using en inp by simp_all
  have "worker_ok rs n p (w\<lparr>sw_funnel := fn_begin (sw_funnel w)\<rparr>)"
    by (rule worker_ok_funnel [OF ok fn_begin_ok [OF worker_okD(2) [OF ok] pc]]) (auto simp: fn_begin_def)
  then have "worker_ok rs n p (w\<lparr>sw_term := d, sw_received_tasks := k, sw_stats := st,
      sw_funnel := fn_begin (sw_funnel w)\<rparr>)" for d k st
    by (rule worker_ok_cong) simp_all
  then show ?thesis using i Recv_Task
    by (simp add: semi_process_message_def Let_def split: prod.split)
next
  case (Recv_Ack src)
  have "worker_ok rs n p (w\<lparr>sw_term := d\<rparr>)" for d by (rule worker_ok_cong [OF ok]) simp_all
  then show ?thesis using inp Recv_Ack
    by (simp add: semi_task_received_ack_def on_ack_received_def semi_release_parent_def split: prod.split)
next
  case (Recv_Next xs)
  then show ?thesis using semi_receive_next_ok [OF ok, of xs] inp by (auto simp: quietly_def)
next
  case (Drain_Next xs)
  then show ?thesis using semi_receive_next_ok [OF ok, of xs] inp by (auto simp: quietly_def)
next
  case (Recv_Termination a b)
  then have pc: "fn_pc (sw_funnel w) = Listening" using en by simp
  then have "fn_queue (sw_funnel w) = [] \<and> \<not> fn_transmitting (sw_funnel w)"
    using funnel_ok_quiet [OF worker_okD(2) [OF ok]] by simp
  moreover have "worker_ok rs n p (w\<lparr>sw_funnel := fn_goto (Draining a b) (sw_funnel w)\<rparr>)"
    by (rule worker_ok_goto [OF ok]) (use pc in simp_all)
  ultimately show ?thesis using inp Recv_Termination
    by (simp add: semi_process_termination_def quietly_def)
next
  case (Push q i)
  then show ?thesis using semi_force_push_ok [OF ok, of q i] en inp by (auto simp: quietly_def)
next
  case (Send_Task b)
  then show ?thesis using semi_send_result [OF ok, of b] en by auto
next
  case (Poll ms mn)
  then show ?thesis using semi_poll_ok [OF ok, of mn ms] en inp by auto
next
  case Leave
  then have pc: "fn_pc (sw_funnel w) = Leaving" using en by simp
  show ?thesis
    using Leave semi_finish_ok [of rs n p] by (cases rule: semi_leave_cases [OF ok pc]) fastforce+
next
  case Resume_Last
  then show ?thesis using semi_finish_ok [OF ok] en by auto
next
  case Drained
  then obtain a b where pc: "fn_pc (sw_funnel w) = Draining a b" "\<not> sw_updates_received w < a"
    "\<not> sw_next_received w < b" using en by auto
  moreover have "worker_ok rs n p (w\<lparr>sw_funnel := fn_goto At_Barrier (sw_funnel w)\<rparr>)"
    by (rule worker_ok_goto [OF ok]) (use pc in simp_all)
  ultimately show ?thesis using inp Drained by (auto simp: semi_drained_def quietly_def)
next
  case (Exit idle req)
  then have pc: "fn_pc (sw_funnel w) = At_Barrier" using en by simp
  have "worker_ok rs n p (w\<lparr>sw_funnel := fn_goto Exited (sw_funnel w)\<rparr>)"
    by (rule worker_ok_goto [OF ok]) (use pc in simp_all)
  then have "worker_ok rs n p (w\<lparr>sw_stats := st, sw_funnel := fn_goto Exited (sw_funnel w)\<rparr>)" for st
    by (rule worker_ok_cong) simp_all
  then show ?thesis using Exit by (simp add: semi_exit_def)
next
  case (Offer q s)
  have "worker_ok rs n p (w\<lparr>sw_nm := nm\<rparr>)" for nm by (rule worker_ok_cong [OF ok]) simp_all
  then show ?thesis using Offer by (simp add: quietly_def)
qed (use en ok semi_funnel_step_ok [OF ok] semi_receive_score_ok [OF ok] semi_polled_ok [OF ok]
    in \<open>auto simp: quietly_def\<close>)

lemma semi_recv_ack_result:
  assumes "semi_apply rs p (Recv_Ack src) w = Inr (w', outs)"
  shows "w' = w\<lparr>sw_term := fst (on_passive (fst (on_ack_received (sw_term w))))\<rparr> \<and>
    outs = ack_to (snd (on_passive (fst (on_ack_received (sw_term w)))))"
proof -
  obtain d1 b where b: "on_ack_received (sw_term w) = (d1, b)" by (metis prod.exhaust)
  obtain d r where r: "on_passive d1 = (d, r)" by (metis prod.exhaust)
  show ?thesis using assms b r
    by (cases b) (auto simp: semi_task_received_ack_def semi_release_parent_def)
qed

end
