(* ===== verification/Semi_Center.thy ===== *)
theory Semi_Center
  imports Mpi_Channels Termination_Detector Topology Mpi_Stats
begin

text \<open>
  The center of the semi-centralized scheduler
  (\<open>private/impl/schedulers/mpi_semi_centralized_scheduler.hpp\<close>). It never holds a task after the
  seed: it only decides which available worker each running worker may feed, in the process tree,
  relays better scores, detects termination and collects the solutions. A custom initial topology,
  which the user supplies, is not modelled.
\<close>

definition RUNNING_STATE :: int where "RUNNING_STATE = 1"
definition ASSIGNED_STATE :: int where "ASSIGNED_STATE = 2"
definition AVAILABLE_STATE :: int where "AVAILABLE_STATE = 3"

lemma state_tags [simp]:
  "RUNNING_STATE \<noteq> ASSIGNED_STATE" "ASSIGNED_STATE \<noteq> RUNNING_STATE" "RUNNING_STATE \<noteq> AVAILABLE_STATE"
  "AVAILABLE_STATE \<noteq> RUNNING_STATE" "ASSIGNED_STATE \<noteq> AVAILABLE_STATE" "AVAILABLE_STATE \<noteq> ASSIGNED_STATE"
  by (simp_all add: RUNNING_STATE_def ASSIGNED_STATE_def AVAILABLE_STATE_def)

text \<open>Where the center is in \<open>run\<close>: in its loop, collecting the solution of a rank, or done.\<close>

datatype phase = Looping | Collecting int | Finished

record semi_center =
  ct_term :: detector
  ct_goal :: goal
  ct_score :: score
  ct_state :: "int list"
  ct_running :: int
  ct_available :: int
  ct_tree :: tree
  ct_next_sent :: "int list"
  ct_updates_sent :: int
  ct_best :: "gresult list"
  ct_sent_tasks :: int
  ct_total_requests :: "64 word"
  ct_stats :: mpi_stats
  ct_phase :: phase

definition semi_center_init :: "nat \<Rightarrow> goal \<Rightarrow> score \<Rightarrow> semi_center" where
  "semi_center_init n g s =
     \<lparr>ct_term = new_detector True, ct_goal = g, ct_score = s, ct_state = replicate n AVAILABLE_STATE,
      ct_running = 0, ct_available = 0, ct_tree = new_tree n, ct_next_sent = replicate n 0,
      ct_updates_sent = 0, ct_best = replicate n result_EMPTY, ct_sent_tasks = 0, ct_total_requests = 0,
      ct_stats = new_stats 0, ct_phase = Looping\<rparr>"

definition ct_count_request :: "semi_center \<Rightarrow> semi_center" where
  "ct_count_request c = c\<lparr>ct_total_requests := ct_total_requests c + 1,
     ct_stats := (ct_stats c)\<lparr>st_total_requested_tasks := st_total_requested_tasks (ct_stats c) + 1\<rparr>\<rparr>"

definition ct_count_message :: "semi_center \<Rightarrow> semi_center" where
  "ct_count_message c = c\<lparr>ct_stats := (ct_stats c)
     \<lparr>st_coordinator_messages_handled := st_coordinator_messages_handled (ct_stats c) + 1\<rparr>\<rparr>"

definition ranks_from_1 :: "int list \<Rightarrow> int list" where
  "ranks_from_1 xs = map int [1..<length xs]"

definition semi_get_available :: "semi_center \<Rightarrow> int" where
  "semi_get_available c =
     (case List.find (\<lambda>r. ct_state c ! nat r = AVAILABLE_STATE) (ranks_from_1 (ct_state c)) of
        None \<Rightarrow> -1 | Some r \<Rightarrow> r)"

text \<open>Lending rank \<open>lent\<close> to rank \<open>to\<close>: the message, the counters, the tree and the state.\<close>

definition semi_lend :: "int \<Rightarrow> int \<Rightarrow> semi_center \<Rightarrow> (semi_center \<times> out list) res" where
  "semi_lend to lent c =
     rbind (vec_add (ct_next_sent c) to 1) (\<lambda>ns.
     rbind (index_of (ct_tree c) to) (\<lambda>p.
     rbind (add_next (ct_tree c) p lent) (\<lambda>t.
     rbind (vec_set (ct_state c) lent ASSIGNED_STATE) (\<lambda>st.
       Inr (c\<lparr>ct_next_sent := ns, ct_tree := t, ct_state := st, ct_available := ct_available c - 1\<rparr>,
            [(Next_Process_Comm, to, Next_Process [lent])])))))"

definition semi_release_node :: "int \<Rightarrow> semi_center \<Rightarrow> semi_center res" where
  "semi_release_node src c =
     rbind (index_of (ct_tree c) src) (\<lambda>p.
       if is_assigned (ct_tree c) p
       then rbind (release (ct_tree c) p) (\<lambda>t. Inr (c\<lparr>ct_tree := t\<rparr>)) else Inr c)"

definition semi_process_running :: "rank \<Rightarrow> semi_center \<Rightarrow> (semi_center \<times> out list) res" where
  "semi_process_running src c =
     rbind (vec_set (ct_state c) src RUNNING_STATE) (\<lambda>st.
     rbind (semi_release_node src (ct_count_message
              (c\<lparr>ct_state := st, ct_running := ct_running c + 1\<rparr>))) (\<lambda>c1.
     rbind (index_of (ct_tree c1) src) (\<lambda>p.
     rbind (let v_next = semi_get_available c1
            in if \<not> has_next (ct_tree c1) p \<and> 0 < v_next then semi_lend src v_next c1 else Inr (c1, []))
       (\<lambda>(c2, outs). Inr (ct_count_request c2, outs)))))"

text \<open>
  The search of \<open>process_available\<close>: the first running rank without a helper, going round from a
  random offset between \<open>0\<close> and the number of ranks.
\<close>

definition needs_helper :: "semi_center \<Rightarrow> int \<Rightarrow> bool" where
  "needs_helper c r \<longleftrightarrow> 0 < r \<and> ct_state c ! nat r = RUNNING_STATE \<and> \<not> has_next (ct_tree c) (nat r)"

definition round_from :: "nat \<Rightarrow> nat \<Rightarrow> int list" where
  "round_from offset n = map (\<lambda>i. int ((i + offset) mod n)) [0..<n]"

definition semi_process_available :: "nat \<Rightarrow> rank \<Rightarrow> semi_center \<Rightarrow> (semi_center \<times> out list) res" where
  "semi_process_available offset src c =
     rbind (vec_set (ct_state c) src AVAILABLE_STATE) (\<lambda>st.
     rbind (semi_release_node src (ct_count_message (ct_count_request
              (c\<lparr>ct_state := st, ct_available := ct_available c + 1, ct_running := ct_running c - 1\<rparr>))))
       (\<lambda>c1. case List.find (needs_helper c1) (round_from offset (length (ct_state c1))) of
                None \<Rightarrow> Inr (c1, [])
              | Some r \<Rightarrow> semi_lend r src c1))"

text \<open>\<open>maybe_broadcast_global_score\<close>.\<close>

definition to_workers :: "int list \<Rightarrow> (int \<Rightarrow> out) \<Rightarrow> out list" where
  "to_workers xs m = map m (ranks_from_1 xs)"

definition semi_score_proposal :: "score \<Rightarrow> semi_center \<Rightarrow> semi_center \<times> out list" where
  "semi_score_proposal s c0 =
     (let c = ct_count_message c0
      in if \<not> should_broadcast_global (ct_goal c) (ct_score c) s then (c, [])
         else (ct_count_request (ct_count_message
                 (c\<lparr>ct_score := s, ct_updates_sent := ct_updates_sent c + 1\<rparr>)),
               to_workers (ct_state c) (\<lambda>r. (Global_Score, r, Score_Update s))))"

text \<open>\<open>notify_termination\<close>.\<close>

definition semi_notify_termination :: "semi_center \<Rightarrow> out list" where
  "semi_notify_termination c = to_workers (ct_state c)
     (\<lambda>r. (World, r, Termination (ct_updates_sent c) (ct_next_sent c ! nat r)))"

definition semi_center_ack :: "rank \<Rightarrow> semi_center \<Rightarrow> (semi_center \<times> out list) res" where
  "semi_center_ack src c =
     (let (d, expected) = on_ack_received (ct_term c)
      in if \<not> expected
         then Inl (Thrown (''rank 0 received an unexpected task acknowledgement from rank '' @ show_int src))
         else let c1 = c\<lparr>ct_term := d\<rparr>
              in if td_deficit d = 0 then Inr (c1\<lparr>ct_phase := Collecting 1\<rparr>, semi_notify_termination c1)
                 else Inr (c1, []))"

section \<open>Starting\<close>

text \<open>\<open>broadcast_nodes_topology\<close>: one rank's list of helpers, then all of them.\<close>

definition semi_assign :: "int \<Rightarrow> semi_center \<Rightarrow> semi_center res" where
  "semi_assign child c = rbind (vec_set (ct_state c) child ASSIGNED_STATE) (\<lambda>st.
     Inr (c\<lparr>ct_state := st, ct_available := ct_available c - 1\<rparr>))"

definition semi_broadcast_to :: "int \<Rightarrow> semi_center \<times> out list \<Rightarrow> (semi_center \<times> out list) res" where
  "semi_broadcast_to r = (\<lambda>(c, outs).
     rbind (index_of (ct_tree c) r) (\<lambda>p.
     rbind (iterate (ct_tree c) p) (\<lambda>children.
     rbind (rfold semi_assign children c) (\<lambda>c1.
       if children = [] then Inr (c1, outs)
       else rbind (vec_add (ct_next_sent c1) r 1) (\<lambda>ns.
         Inr (c1\<lparr>ct_next_sent := ns\<rparr>, outs @ [(Next_Process_Comm, r, Next_Process children)]))))))"

definition semi_broadcast_topology :: "semi_center \<Rightarrow> (semi_center \<times> out list) res" where
  "semi_broadcast_topology c = rfold semi_broadcast_to (ranks_from_1 (ct_state c)) (c, [])"

definition semi_send_seed :: "task_packet \<Rightarrow> int \<Rightarrow> semi_center \<Rightarrow> (semi_center \<times> out list) res" where
  "semi_send_seed p fid c =
     rbind (vec_set (ct_state c) 1 RUNNING_STATE) (\<lambda>st.
       let c1 = c\<lparr>ct_available := ct_available c - 1, ct_state := st, ct_term := on_task_sent (ct_term c),
                  ct_sent_tasks := ct_sent_tasks c + 1\<rparr>;
           c2 = c1\<lparr>ct_stats := (ct_stats c1)\<lparr>st_sent_task_count := st_sent_task_count (ct_stats c1) + 1\<rparr>\<rparr>
       in Inr (ct_count_message (ct_count_request c2), [(World, 1, Task p), (World, 1, Runnable_Id fid)]))"

definition semi_center_start :: "task_packet \<Rightarrow> int \<Rightarrow> semi_center \<Rightarrow> (semi_center \<times> out list) res" where
  "semi_center_start seed fid c =
     rbind (build_topology (ct_tree c) 1 0 2 (int (length (ct_state c)))) (\<lambda>t.
     rbind (semi_broadcast_topology (c\<lparr>ct_tree := t\<rparr>)) (\<lambda>(c1, outs1).
     rbind (semi_send_seed seed fid c1) (\<lambda>(c2, outs2). Inr (c2, outs1 @ outs2))))"

section \<open>Collecting the solutions\<close>

text \<open>
  One round of \<open>receive_solution_from\<close> on rank \<open>r\<close>, given the message it takes and, for a result, the
  score that comes after it: without one the receive waits for ever. \<open>tag_number\<close> is what the error
  for an unknown tag shows.
\<close>

fun tag_number :: "msg \<Rightarrow> string" where
  "tag_number (Termination a b) = ''4''"
| "tag_number (Task p) = ''10''"
| "tag_number (Runnable_Id i) = ''11''"
| "tag_number Task_Received = ''12''"
| "tag_number m = ''''"

definition next_rank :: "int \<Rightarrow> semi_center \<Rightarrow> semi_center" where
  "next_rank r c =
     c\<lparr>ct_phase := if r + 1 < int (length (ct_state c)) then Collecting (r + 1) else Finished\<rparr>"

definition semi_collect :: "int \<Rightarrow> msg \<Rightarrow> score option \<Rightarrow> semi_center \<Rightarrow> semi_center res" where
  "semi_collect r m ms c =
     (case m of
        Running_State \<Rightarrow> Inr (ct_count_message (ct_count_request c))
      | Available_State \<Rightarrow> Inr (ct_count_message (ct_count_request c))
      | Has_Result p \<Rightarrow>
          (case ms of
             None \<Rightarrow> Inl Diverged
           | Some s \<Rightarrow> rbind (vec_set (ct_best c) r \<lparr>result_score = s, result_packet = p\<rparr>) (\<lambda>b.
               Inr (next_rank r (c\<lparr>ct_best := b\<rparr>))))
      | No_Result \<Rightarrow> Inr (next_rank r c)
      | _ \<Rightarrow> Inl (Thrown (''rank 0 received unknown tag '' @ tag_number m @ '' from rank '' @ show_int r @
                        '' in receive_solution()'')))"

text \<open>\<open>fetch_solution\<close>: the packet of the first rank whose score equals the global one.\<close>

definition fetch_solution :: "semi_center \<Rightarrow> task_packet" where
  "fetch_solution c =
     (case List.find (\<lambda>r. score_eq (result_score (ct_best c ! nat r)) (ct_score c)) (ranks_from_1 (ct_state c)) of
        None \<Rightarrow> packet_EMPTY | Some r \<Rightarrow> result_packet (ct_best c ! nat r))"

section \<open>The invariant of the center\<close>

text \<open>
  \<open>lendable n d xs\<close>: the ranks \<open>xs\<close> may be lent to \<open>d\<close>. The tree is properly linked, and an available
  rank hangs under nobody, so no operation on the tree can fail.
\<close>

definition lendable :: "nat \<Rightarrow> int \<Rightarrow> int list \<Rightarrow> bool" where
  "lendable n d xs \<longleftrightarrow> length xs \<le> n \<and> (\<forall>v \<in> set xs. 1 \<le> v \<and> v < int n \<and> v \<noteq> d)"

definition center_ok_but :: "nat set \<Rightarrow> nat \<Rightarrow> semi_center \<Rightarrow> bool" where
  "center_ok_but X n c \<longleftrightarrow> 2 \<le> n \<and> length (ct_state c) = n \<and> length (ct_next_sent c) = n \<and>
     length (ct_best c) = n \<and> length (ct_tree c) = n \<and> (\<exists>ch. tree_rep (ct_tree c) ch) \<and>
     (\<forall>r < n. r \<notin> X \<and> ct_state c ! r = AVAILABLE_STATE \<longrightarrow> tn_parent (ct_tree c ! r) = None)"

abbreviation center_ok :: "nat \<Rightarrow> semi_center \<Rightarrow> bool" where
  "center_ok \<equiv> center_ok_but {}"

definition same_core :: "semi_center \<Rightarrow> semi_center \<Rightarrow> bool" where
  "same_core c c' \<longleftrightarrow> ct_term c' = ct_term c \<and> ct_goal c' = ct_goal c \<and> ct_score c' = ct_score c \<and>
     ct_updates_sent c' = ct_updates_sent c \<and> ct_phase c' = ct_phase c"

text \<open>What a handler may send: ranks lent, which the counters of sent messages count.\<close>

definition lends :: "nat \<Rightarrow> semi_center \<Rightarrow> semi_center \<Rightarrow> out list \<Rightarrow> bool" where
  "lends n c c' outs \<longleftrightarrow>
     (\<forall>(k, d, m) \<in> set outs. k = Next_Process_Comm \<and> 1 \<le> d \<and> d < int n \<and>
        (\<exists>xs. m = Next_Process xs \<and> lendable n d xs)) \<and>
     (\<forall>r. 1 \<le> r \<and> r < int n \<longrightarrow> ct_next_sent c' ! nat r =
        ct_next_sent c ! nat r + int (length (sent_to Next_Process_Comm r outs)))"

lemma counts_sel [simp]:
  "ct_state (ct_count_request c) = ct_state c" "ct_tree (ct_count_request c) = ct_tree c"
  "ct_next_sent (ct_count_request c) = ct_next_sent c" "ct_best (ct_count_request c) = ct_best c"
  "ct_state (ct_count_message c) = ct_state c" "ct_tree (ct_count_message c) = ct_tree c"
  "ct_next_sent (ct_count_message c) = ct_next_sent c" "ct_best (ct_count_message c) = ct_best c"
  "ct_term (ct_count_request c) = ct_term c" "ct_term (ct_count_message c) = ct_term c"
  "ct_goal (ct_count_request c) = ct_goal c" "ct_goal (ct_count_message c) = ct_goal c"
  "ct_score (ct_count_request c) = ct_score c" "ct_score (ct_count_message c) = ct_score c"
  "ct_updates_sent (ct_count_request c) = ct_updates_sent c"
  "ct_updates_sent (ct_count_message c) = ct_updates_sent c"
  "ct_phase (ct_count_request c) = ct_phase c" "ct_phase (ct_count_message c) = ct_phase c"
  by (simp_all add: ct_count_request_def ct_count_message_def)

lemma counts_ok [simp]:
  "center_ok_but X n (ct_count_request c) = center_ok_but X n c"
  "center_ok_but X n (ct_count_message c) = center_ok_but X n c"
  "same_core c (ct_count_request c') = same_core c c'" "same_core c (ct_count_message c') = same_core c c'"
  "lends n c (ct_count_request c') outs = lends n c c' outs"
  "lends n c (ct_count_message c') outs = lends n c c' outs"
  by (simp_all add: center_ok_but_def same_core_def lends_def)

lemma index_of_nat: "0 \<le> r \<Longrightarrow> r < int (length t) \<Longrightarrow> index_of t r = Inr (nat r)"
  by (simp add: index_of_def)

text \<open>Releasing a node, after its state was set.\<close>

lemma set_state_ok:
  "center_ok n c \<Longrightarrow> 1 \<le> src \<Longrightarrow> src < int n \<Longrightarrow>
   center_ok_but {nat src} n (c\<lparr>ct_state := (ct_state c)[nat src := st], ct_running := rn\<rparr>) \<and>
   center_ok_but {nat src} n (c\<lparr>ct_state := (ct_state c)[nat src := st], ct_available := av, ct_running := rn\<rparr>)"
  by (auto simp: center_ok_but_def nth_list_update)

lemma release_node_ok:
  assumes ok: "center_ok_but {nat src} n c" and src: "1 \<le> src" "src < int n"
  shows "\<exists>c'. semi_release_node src c = Inr c' \<and> center_ok n c' \<and> ct_state c' = ct_state c \<and>
    same_core c c' \<and> ct_next_sent c' = ct_next_sent c \<and> tn_parent (ct_tree c' ! nat src) = None"
proof -
  from ok obtain ch where rep: "tree_rep (ct_tree c) ch" and len: "length (ct_tree c) = n"
    by (auto simp: center_ok_but_def)
  have i: "index_of (ct_tree c) src = Inr (nat src)" and l: "nat src < length (ct_tree c)"
    using src len by (auto simp: index_of_def)
  show ?thesis
  proof (cases "tn_parent (ct_tree c ! nat src)")
    case None
    have "\<forall>r < n. ct_state c ! r = AVAILABLE_STATE \<longrightarrow> tn_parent (ct_tree c ! r) = None"
      using ok None unfolding center_ok_but_def by (metis singletonD)
    then have "center_ok n c" using ok by (simp add: center_ok_but_def)
    then show ?thesis using None by (simp add: semi_release_node_def i is_assigned_def same_core_def)
  next
    case (Some a)
    from release_rep [OF rep l Some] obtain t' where t: "release (ct_tree c) (nat src) = Inr t'"
      "length t' = n" "tree_rep t' (ch(a := remove1 (nat src) (ch a)))"
      "\<forall>x < n. tn_parent (t' ! x) = (if x = nat src then None else tn_parent (ct_tree c ! x))"
      using len by auto
    have "\<forall>r < n. ct_state c ! r = AVAILABLE_STATE \<longrightarrow> tn_parent (t' ! r) = None"
      using ok t(4) unfolding center_ok_but_def by (metis singletonD)
    then have "center_ok n (c\<lparr>ct_tree := t'\<rparr>)"
      using ok t(2,3) by (auto simp: center_ok_but_def)
    then show ?thesis using Some t l len src
      by (simp add: semi_release_node_def i is_assigned_def same_core_def)
  qed
qed

lemma lend_ok:
  assumes ok: "center_ok n c" and to: "1 \<le> to" "to < int n" and lent: "1 \<le> lent" "lent < int n"
    and ne: "lent \<noteq> to" and free: "tn_parent (ct_tree c ! nat lent) = None"
  shows "\<exists>c' outs. semi_lend to lent c = Inr (c', outs) \<and> center_ok n c' \<and> same_core c c' \<and> lends n c c' outs"
proof -
  from ok obtain ch where rep: "tree_rep (ct_tree c) ch" and len: "length (ct_tree c) = n"
    "length (ct_state c) = n" "length (ct_next_sent c) = n" by (auto simp: center_ok_but_def)
  have "nat to < length (ct_tree c)" "nat lent < length (ct_tree c)" using to lent len by auto
  from add_next_rep [OF rep this free] lent obtain t' where
    t: "add_next (ct_tree c) (nat to) lent = Inr t'" "length t' = n"
      "tree_rep t' (ch(nat to := ch (nat to) @ [nat lent]))"
      "\<forall>q < n. tn_parent (t' ! q) = (if q = nat lent then Some (nat to) else tn_parent (ct_tree c ! q))"
    using len by auto
  let ?c = "c\<lparr>ct_next_sent := (ct_next_sent c)[nat to := ct_next_sent c ! nat to + 1], ct_tree := t',
              ct_state := (ct_state c)[nat lent := ASSIGNED_STATE], ct_available := ct_available c - 1\<rparr>"
  have s: "semi_lend to lent c = Inr (?c, [(Next_Process_Comm, to, Next_Process [lent])])"
    using to lent len t(1) by (simp add: semi_lend_def index_of_def)
  have "center_ok n ?c"
    using ok t(2,3,4) len by (auto simp: center_ok_but_def nth_list_update)
  moreover have "lends n c ?c [(Next_Process_Comm, to, Next_Process [lent])]"
    using ok to lent ne len
    by (auto simp: lends_def lendable_def center_ok_but_def nth_list_update nat_eq_iff)
  ultimately show ?thesis using s by (auto simp: same_core_def)
qed

lemma lends_nothing: "ct_next_sent c' = ct_next_sent c \<Longrightarrow> lends n c c' []"
  by (simp add: lends_def)

lemma lends_from: "ct_next_sent c1 = ct_next_sent c \<Longrightarrow> lends n c1 c' outs \<Longrightarrow> lends n c c' outs"
  by (simp add: lends_def)

lemma same_core_trans: "same_core c c1 \<Longrightarrow> same_core c1 c2 \<Longrightarrow> same_core c c2"
  by (simp add: same_core_def)

lemma ranks_from_1_mem: "r \<in> set (ranks_from_1 xs) \<longleftrightarrow> 1 \<le> r \<and> r < int (length xs)"
  by (auto simp: ranks_from_1_def image_iff intro!: bexI [of _ "nat r"])

lemma find_SomeD: "List.find P xs = Some x \<Longrightarrow> P x \<and> x \<in> set xs"
  by (induction xs) (auto split: if_splits)

lemma get_available_ok:
  assumes "0 < semi_get_available c"
  shows "semi_get_available c \<in> set (ranks_from_1 (ct_state c)) \<and>
    ct_state c ! nat (semi_get_available c) = AVAILABLE_STATE"
  using assms by (auto simp: semi_get_available_def split: option.splits dest: find_SomeD)

lemma process_running_ok:
  assumes ok: "center_ok n c" and src: "1 \<le> src" "src < int n"
  shows "\<exists>c' outs. semi_process_running src c = Inr (c', outs) \<and> center_ok n c' \<and> same_core c c' \<and>
    lends n c c' outs"
proof -
  have len: "length (ct_state c) = n" using ok by (simp add: center_ok_but_def)
  let ?c0 = "ct_count_message (c\<lparr>ct_state := (ct_state c)[nat src := RUNNING_STATE],
      ct_running := ct_running c + 1\<rparr>)"
  have "center_ok_but {nat src} n ?c0" using set_state_ok [OF ok src] by simp
  from release_node_ok [OF this src] obtain c1 where c1: "semi_release_node src ?c0 = Inr c1"
    "center_ok n c1" "ct_state c1 = (ct_state c)[nat src := RUNNING_STATE]" "same_core c c1"
    "ct_next_sent c1 = ct_next_sent c"
    by (auto simp: same_core_def)
  have l1: "length (ct_tree c1) = n" using c1(2) by (simp add: center_ok_but_def)
  let ?v = "semi_get_available c1"
  have v: "1 \<le> ?v \<and> ?v < int n \<and> ?v \<noteq> src \<and> tn_parent (ct_tree c1 ! nat ?v) = None" if "0 < ?v"
  proof -
    have *: "1 \<le> ?v \<and> ?v < int n" "ct_state c1 ! nat ?v = AVAILABLE_STATE"
      using get_available_ok [OF that] c1(3) len by (simp_all add: ranks_from_1_mem)
    have "?v \<noteq> src" using *(2) c1(3) src len by auto
    moreover have "nat ?v < n" using *(1) by arith
    ultimately show ?thesis using * c1(2) by (simp add: center_ok_but_def)
  qed
  have "\<exists>c2 outs. (if \<not> has_next (ct_tree c1) (nat src) \<and> 0 < ?v then semi_lend src ?v c1 else Inr (c1, [])) =
      Inr (c2, outs) \<and> center_ok n c2 \<and> same_core c c2 \<and> lends n c c2 outs"
    using lend_ok [OF c1(2) src, of ?v] v c1 lends_nothing [of c1 c] lends_from [of c1 c] same_core_trans [of c c1]
    by auto
  then obtain c2 outs where "(if \<not> has_next (ct_tree c1) (nat src) \<and> 0 < ?v then semi_lend src ?v c1
      else Inr (c1, [])) = Inr (c2, outs)" "center_ok n c2" "same_core c c2" "lends n c c2 outs"
    by blast
  then show ?thesis
    using src len l1 c1(1) by (simp add: semi_process_running_def index_of_def Let_def)
qed

lemma process_available_ok:
  assumes ok: "center_ok n c" and src: "1 \<le> src" "src < int n"
  shows "\<exists>c' outs. semi_process_available offset src c = Inr (c', outs) \<and> center_ok n c' \<and>
    same_core c c' \<and> lends n c c' outs"
proof -
  have len: "length (ct_state c) = n" using ok by (simp add: center_ok_but_def)
  let ?c0 = "ct_count_message (ct_count_request (c\<lparr>ct_state := (ct_state c)[nat src := AVAILABLE_STATE],
      ct_available := ct_available c + 1, ct_running := ct_running c - 1\<rparr>))"
  have "center_ok_but {nat src} n ?c0" using set_state_ok [OF ok src] by simp
  from release_node_ok [OF this src] obtain c1 where c1: "semi_release_node src ?c0 = Inr c1"
    "center_ok n c1" "ct_state c1 = (ct_state c)[nat src := AVAILABLE_STATE]" "same_core c c1"
    "ct_next_sent c1 = ct_next_sent c" "tn_parent (ct_tree c1 ! nat src) = None"
    by (auto simp: same_core_def)
  show ?thesis
  proof (cases "List.find (needs_helper c1) (round_from offset (length (ct_state c1)))")
    case None
    then show ?thesis
      using src len c1 lends_nothing [of c1 c] by (simp add: semi_process_available_def)
  next
    case (Some r)
    have r: "needs_helper c1 r" "r \<in> set (round_from offset n)"
      using find_SomeD [OF Some] c1(3) len by simp_all
    then have "1 \<le> r" "r < int n" by (auto simp: needs_helper_def round_from_def)
    moreover have "src \<noteq> r" using r(1) c1(3) src len by (auto simp: needs_helper_def)
    ultimately show ?thesis
      using lend_ok [OF c1(2), of r src] src len c1 Some lends_from [of c1 c] same_core_trans [of c c1]
      by (fastforce simp: semi_process_available_def)
  qed
qed

section \<open>The start succeeds\<close>

definition only_states :: "semi_center \<Rightarrow> semi_center \<Rightarrow> bool" where
  "only_states c c' \<longleftrightarrow> ct_tree c' = ct_tree c \<and> ct_best c' = ct_best c \<and> same_core c c' \<and>
     length (ct_state c') = length (ct_state c) \<and> length (ct_next_sent c') = length (ct_next_sent c)"

lemma assign_all:
  "\<forall>x \<in> set xs. 0 \<le> x \<and> x < int (length (ct_state c)) \<Longrightarrow>
   \<exists>c'. rfold semi_assign xs c = Inr c' \<and> only_states c c' \<and> ct_next_sent c' = ct_next_sent c \<and>
     (\<forall>q < length (ct_state c). ct_state c' ! q = (if int q \<in> set xs then ASSIGNED_STATE else ct_state c ! q))"
proof (induction xs arbitrary: c)
  case (Cons x xs)
  let ?c = "c\<lparr>ct_state := (ct_state c)[nat x := ASSIGNED_STATE], ct_available := ct_available c - 1\<rparr>"
  have a: "semi_assign x c = Inr ?c" using Cons.prems by (simp add: semi_assign_def)
  have "\<exists>c'. rfold semi_assign xs ?c = Inr c' \<and> only_states ?c c' \<and> ct_next_sent c' = ct_next_sent ?c \<and>
     (\<forall>q < length (ct_state ?c). ct_state c' ! q = (if int q \<in> set xs then ASSIGNED_STATE else ct_state ?c ! q))"
    by (rule Cons.IH) (use Cons.prems in simp)
  then show ?case using a Cons.prems
    by (auto simp: only_states_def same_core_def nth_list_update)
qed (simp add: only_states_def same_core_def)

lemma lends_append:
  "lends n c c1 outs1 \<Longrightarrow> lends n c1 c2 outs2 \<Longrightarrow> lends n c c2 (outs1 @ outs2)"
  by (fastforce simp: lends_def)

definition helpers_ok :: "nat \<Rightarrow> (nat \<Rightarrow> nat list) \<Rightarrow> bool" where
  "helpers_ok n ch \<longleftrightarrow> (\<forall>r < n. 0 < r \<longrightarrow> (\<forall>q \<in> set (ch r). 0 < q \<and> q < n \<and> q \<noteq> r) \<and> length (ch r) \<le> n)"

lemma broadcast_one:
  assumes rep: "tree_rep (ct_tree c) ch" and len: "length (ct_tree c) = n" "length (ct_state c) = n"
    "length (ct_next_sent c) = n" and h: "helpers_ok n ch" and r: "1 \<le> r" "r < int n"
  shows "\<exists>c' outs'. semi_broadcast_to r (c, outs) = Inr (c', outs @ outs') \<and> only_states c c' \<and>
    lends n c c' outs' \<and> (\<forall>q < n. ct_state c' ! q =
      (if q \<in> set (ch (nat r)) then ASSIGNED_STATE else ct_state c ! q))"
proof -
  have rn: "nat r < n" "0 < nat r" using r by auto
  have it: "iterate (ct_tree c) (nat r) = Inr (map int (ch (nat r)))"
    by (rule iterate_children [OF rep]) (use rn len in simp)
  have hr: "\<forall>q \<in> set (ch (nat r)). 0 < q \<and> q < n \<and> q \<noteq> nat r" "length (ch (nat r)) \<le> n"
    using h rn by (auto simp: helpers_ok_def)
  have ix: "index_of (ct_tree c) r = Inr (nat r)" using r len by (simp add: index_of_def)
  have "\<forall>x \<in> set (map int (ch (nat r))). 0 \<le> x \<and> x < int (length (ct_state c))"
    using hr(1) len(2) by auto
  from assign_all [OF this] obtain c1 where c1: "rfold semi_assign (map int (ch (nat r))) c = Inr c1"
    "only_states c c1" "ct_next_sent c1 = ct_next_sent c"
    "\<forall>q < n. ct_state c1 ! q = (if q \<in> set (ch (nat r)) then ASSIGNED_STATE else ct_state c ! q)"
    using len(2) by (auto simp: image_iff)
  show ?thesis
  proof (cases "ch (nat r) = []")
    case True
    then show ?thesis using c1 it ix lends_nothing [of c1 c n]
      by (auto simp: semi_broadcast_to_def)
  next
    case False
    let ?m = "[(Next_Process_Comm, r, Next_Process (map int (ch (nat r))))]"
    let ?c = "c1\<lparr>ct_next_sent := (ct_next_sent c)[nat r := ct_next_sent c ! nat r + 1]\<rparr>"
    have "semi_broadcast_to r (c, outs) = Inr (?c, outs @ ?m)"
      using c1 it ix len r False by (simp add: semi_broadcast_to_def)
    moreover have "lends n c ?c ?m"
      using hr r len by (auto simp: lends_def lendable_def nth_list_update nat_eq_iff)
    moreover have "only_states c ?c"
      using c1(2,3) by (simp add: only_states_def same_core_def)
    ultimately show ?thesis using c1(4) by (intro exI [of _ ?c] exI [of _ ?m]) simp
  qed
qed

lemma broadcast_all:
  "tree_rep (ct_tree c) ch \<Longrightarrow> length (ct_tree c) = n \<Longrightarrow> length (ct_state c) = n \<Longrightarrow>
   length (ct_next_sent c) = n \<Longrightarrow> helpers_ok n ch \<Longrightarrow> \<forall>r \<in> set rs. 1 \<le> r \<and> r < int n \<Longrightarrow>
   \<exists>c' outs'. rfold semi_broadcast_to rs (c, outs) = Inr (c', outs @ outs') \<and> only_states c c' \<and>
     lends n c c' outs' \<and> (\<forall>q < n. ct_state c' ! q =
       (if \<exists>r \<in> set rs. q \<in> set (ch (nat r)) then ASSIGNED_STATE else ct_state c ! q))"
proof (induction rs arbitrary: c outs)
  case Nil
  then show ?case using lends_nothing [of c c n] by (auto simp: only_states_def same_core_def)
next
  case (Cons r rs)
  from broadcast_one [OF Cons.prems(1-5), of r outs] Cons.prems(6) obtain c1 o1 where
    c1: "semi_broadcast_to r (c, outs) = Inr (c1, outs @ o1)" "only_states c c1" "lends n c c1 o1"
      "\<forall>q < n. ct_state c1 ! q = (if q \<in> set (ch (nat r)) then ASSIGNED_STATE else ct_state c ! q)"
    by auto
  have "\<exists>c' outs'. rfold semi_broadcast_to rs (c1, outs @ o1) = Inr (c', (outs @ o1) @ outs') \<and>
     only_states c1 c' \<and> lends n c1 c' outs' \<and> (\<forall>q < n. ct_state c' ! q =
       (if \<exists>r \<in> set rs. q \<in> set (ch (nat r)) then ASSIGNED_STATE else ct_state c1 ! q))"
    by (rule Cons.IH) (use c1(2) Cons.prems in \<open>simp_all add: only_states_def\<close>)
  then obtain c2 o2 where c2: "rfold semi_broadcast_to rs (c1, outs @ o1) = Inr (c2, outs @ o1 @ o2)"
     "only_states c1 c2" "lends n c1 c2 o2" "\<forall>q < n. ct_state c2 ! q =
       (if \<exists>r \<in> set rs. q \<in> set (ch (nat r)) then ASSIGNED_STATE else ct_state c1 ! q)" by auto
  have "only_states c c2" using c1(2) c2(2) by (simp add: only_states_def same_core_def)
  moreover have "lends n c c2 (o1 @ o2)" by (rule lends_append [OF c1(3) c2(3)])
  ultimately show ?case using c1(1,4) c2(1,4) by (intro exI [of _ c2] exI [of _ "o1 @ o2"]) auto
qed

lemma worker_helpers_ok: "helpers_ok n (worker_helpers n)"
proof -
  have "length (helpers n r) \<le> n" if "r < n" "0 < r" for r
  proof -
    have "distinct (helpers n r)" by (auto simp: helpers_def distinct_map inj_on_def)
    moreover have "set (helpers n r) \<subseteq> {..<n}" by (auto simp: helpers_def)
    ultimately show ?thesis using card_mono [of "{..<n}" "set (helpers n r)"] by (simp add: distinct_card)
  qed
  then show ?thesis by (auto simp: helpers_ok_def worker_helpers_def helpers_def)
qed

lemma semi_start_ok:
  assumes n: "2 \<le> n" "n \<le> 2 ^ 30"
  shows "\<exists>c outs. semi_center_start seed fid (semi_center_init n g s) =
      Inr (c, outs @ [(World, 1, Task seed), (World, 1, Runnable_Id fid)]) \<and>
    center_ok n c \<and> lends n (semi_center_init n g s) c outs \<and>
    ct_term c = on_task_sent (new_detector True) \<and> ct_goal c = g \<and> ct_score c = s \<and>
    ct_updates_sent c = 0 \<and> ct_phase c = Looping \<and> ct_best c = replicate n result_EMPTY"
proof -
  let ?i = "semi_center_init n g s"
  have i: "ct_tree ?i = new_tree n" "length (ct_state ?i) = n" "length (ct_next_sent ?i) = n"
    "length (ct_best ?i) = n" by (simp_all add: semi_center_init_def)
  from build_topology_tree [OF n] obtain t where t: "build_topology (new_tree n) 1 0 2 (int n) = Inr t"
    "length t = n" "tree_rep t (worker_helpers n)" by blast
  let ?c = "?i\<lparr>ct_tree := t\<rparr>"
  have "\<exists>c' outs'. rfold semi_broadcast_to (ranks_from_1 (ct_state ?c)) (?c, []) = Inr (c', [] @ outs') \<and>
     only_states ?c c' \<and> lends n ?c c' outs' \<and> (\<forall>q < n. ct_state c' ! q =
       (if \<exists>r \<in> set (ranks_from_1 (ct_state ?c)). q \<in> set (worker_helpers n (nat r))
        then ASSIGNED_STATE else ct_state ?c ! q))"
    by (rule broadcast_all) (use t i worker_helpers_ok in \<open>simp_all add: ranks_from_1_mem\<close>)
  then obtain c1 o1 where c1: "semi_broadcast_topology ?c = Inr (c1, o1)" "only_states ?c c1"
    "lends n ?c c1 o1" "\<forall>q < n. ct_state c1 ! q =
       (if \<exists>r. 1 \<le> r \<and> r < int n \<and> q \<in> set (worker_helpers n (nat r))
        then ASSIGNED_STATE else ct_state ?c ! q)"
    using i by (auto simp: semi_broadcast_topology_def ranks_from_1_mem Bex_def conj_assoc)
  have l1: "length (ct_state c1) = n" "length (ct_next_sent c1) = n" "length (ct_best c1) = n"
    "ct_tree c1 = t" "same_core ?i c1"
    using c1(2) i by (simp_all add: only_states_def same_core_def)
  have free: "tn_parent (t ! q) = None" if q: "q < n" "ct_state c1 ! q = AVAILABLE_STATE" for q
  proof (rule ccontr)
    assume "tn_parent (t ! q) \<noteq> None"
    then obtain a where a: "tn_parent (t ! q) = Some a" by blast
    then have "a < n" "q \<in> set (worker_helpers n a)"
      using tree_repD(2) [OF t(3), of q] q t(2) by (simp_all add: child_rep_def)
    moreover from this have "a \<noteq> 0" by (cases "a = 0") (simp_all add: worker_helpers_def)
    ultimately have "1 \<le> int a \<and> int a < int n \<and> q \<in> set (worker_helpers n (nat (int a)))" by simp
    then have "\<exists>r. 1 \<le> r \<and> r < int n \<and> q \<in> set (worker_helpers n (nat r))" by blast
    then have "ct_state c1 ! q = ASSIGNED_STATE" using c1(4) q(1) by simp
    then show False using q(2) by simp
  qed
  then have pre: "center_ok n c1" using l1 t n by (auto simp: center_ok_but_def)
  have one: "1 < int n" using n by simp
  have "center_ok n (c1\<lparr>ct_available := av, ct_state := (ct_state c1)[nat 1 := RUNNING_STATE],
      ct_term := d, ct_sent_tasks := k\<rparr>)" for av d k
    using pre free l1 by (auto simp: center_ok_but_def nth_list_update)
  then obtain c2 where c2: "semi_send_seed seed fid c1 = Inr (c2, [(World, 1, Task seed), (World, 1, Runnable_Id fid)])"
    "center_ok n c2" "ct_term c2 = on_task_sent (ct_term c1)" "ct_goal c2 = ct_goal c1"
    "ct_score c2 = ct_score c1" "ct_updates_sent c2 = ct_updates_sent c1" "ct_phase c2 = ct_phase c1"
    "ct_next_sent c2 = ct_next_sent c1" "ct_best c2 = ct_best c1"
    using one l1 by (auto simp: semi_send_seed_def Let_def center_ok_but_def)
  have "semi_center_start seed fid ?i = Inr (c2, o1 @ [(World, 1, Task seed), (World, 1, Runnable_Id fid)])"
    using t(1) i c1(1) c2(1) by (simp add: semi_center_start_def)
  moreover have "lends n ?i c2 o1" using c1(3) c2(8) by (simp add: lends_def)
  ultimately show ?thesis
    using c2 l1(5) c1(2) by (auto simp: same_core_def only_states_def semi_center_init_def)
qed

end
