(* ===== verification/Semi_Network.thy ===== *)
theory Semi_Network
  imports Semi_Worker Semi_Center Dijkstra_Scholten
begin

text \<open>
  All ranks of a semi-centralized run together: the center, the workers and the channels between
  them. A step is one event of one worker, or one message handled by the center; a step whose handler
  fails has no successor state but a \<open>fault\<close>. The environment chooses which step is taken: the order
  of messages of different senders, the random offset of the center, and what the user's tasks do.

  The first part is the step relation; the second shows that the run implements the termination
  detection of \<open>Dijkstra_Scholten\<close>; the third that no handler ever fails and what termination means.
\<close>

record semi_net =
  sn_size :: nat
  sn_runnables :: "int list"
  sn_kind :: score_type
  sn_center :: semi_center
  sn_workers :: "rank \<Rightarrow> semi_worker"
  sn_chans :: chans

definition semi_start ::
    "nat \<Rightarrow> int list \<Rightarrow> goal \<Rightarrow> score_type \<Rightarrow> task_packet \<Rightarrow> int \<Rightarrow> semi_net res" where
  "semi_start n rs g t seed fid =
     rbind (get_default_score g t) (\<lambda>s.
     rbind (semi_center_start seed fid (semi_center_init n g s)) (\<lambda>(c, outs).
       Inr \<lparr>sn_size = n, sn_runnables = rs, sn_kind = t, sn_center = c,
            sn_workers = (\<lambda>p. semi_worker_init (int n) p g s
              \<lparr>nm_goal = g, nm_score = s, nm_result = Stored_Any None\<rparr>),
            sn_chans = post no_messages 0 outs\<rparr>))"

text \<open>The messages an event of a worker receives: the communicator, the source and the messages.\<close>

fun semi_inputs :: "wevent \<Rightarrow> (comm \<times> rank \<times> msg list) list" where
  "semi_inputs (Recv_Task src p i) = [(World, src, [Task p, Runnable_Id i])]"
| "semi_inputs (Recv_Ack src) = [(World, src, [Task_Received])]"
| "semi_inputs (Recv_Score s) = [(Global_Score, 0, [Score_Update s])]"
| "semi_inputs (Drain_Score s) = [(Global_Score, 0, [Score_Update s])]"
| "semi_inputs (Recv_Next xs) = [(Next_Process_Comm, 0, [Next_Process xs])]"
| "semi_inputs (Drain_Next xs) = [(Next_Process_Comm, 0, [Next_Process xs])]"
| "semi_inputs (Recv_Termination a b) = [(World, 0, [Termination a b])]"
| "semi_inputs (Poll ms mn) =
     (case ms of None \<Rightarrow> [] | Some s \<Rightarrow> [(Global_Score, 0, [Score_Update s])]) @
     (case mn of None \<Rightarrow> [] | Some xs \<Rightarrow> [(Next_Process_Comm, 0, [Next_Process xs])])"
| "semi_inputs _ = []"

definition ready :: "rank \<Rightarrow> (comm \<times> rank \<times> msg list) list \<Rightarrow> chans \<Rightarrow> bool" where
  "ready p ins ch \<longleftrightarrow> list_all (\<lambda>(c, src, ms). takes ch c src p ms) ins"

definition consume :: "rank \<Rightarrow> (comm \<times> rank \<times> msg list) list \<Rightarrow> chans \<Rightarrow> chans" where
  "consume p ins ch = foldl (\<lambda>h (c, src, ms). discard h c src p (length ms)) ch ins"

text \<open>
  What an event waits for: a synchronous send that was received, the barrier every rank has entered.
  A probe may find nothing at any time, whatever is in the channel: the message may still be under way.
\<close>

definition all_at_barrier :: "semi_net \<Rightarrow> bool" where
  "all_at_barrier net \<longleftrightarrow> ct_phase (sn_center net) \<noteq> Looping \<and>
     list_all (\<lambda>p. fn_pc (sw_funnel (sn_workers net (int p))) \<in> {At_Barrier, Exited}) [1..<sn_size net]"

fun semi_waits :: "rank \<Rightarrow> wevent \<Rightarrow> semi_net \<Rightarrow> bool" where
  "semi_waits p Resume net \<longleftrightarrow> sn_chans net Global_Score p 0 = []"
| "semi_waits p Resume_Last net \<longleftrightarrow> sn_chans net Global_Score p 0 = []"
| "semi_waits p (Exit idle req) net \<longleftrightarrow> all_at_barrier net"
| "semi_waits p e net \<longleftrightarrow> True"

text \<open>
  What the user's tasks are trusted with: they push packets that are not empty and fit one message,
  for functions that are registered, and offer results that are not empty, with a score that is a
  number of the kind the search was set up for.
\<close>

fun user_ok :: "int list \<Rightarrow> score_type \<Rightarrow> wevent \<Rightarrow> bool" where
  "user_ok rs t (Push p i) \<longleftrightarrow> \<not> packet_empty p \<and> int (packet_size p) \<le> INT_MAX \<and> i \<in> set rs"
| "user_ok rs t (Offer p s) \<longleftrightarrow> \<not> packet_empty p \<and> \<not> is_nan s \<and> m_kind s = t"
| "user_ok rs t e \<longleftrightarrow> True"

definition semi_worker_step :: "rank \<Rightarrow> wevent \<Rightarrow> semi_net \<Rightarrow> semi_net res" where
  "semi_worker_step p e net =
     rbind (semi_apply (sn_runnables net) p e (sn_workers net p)) (\<lambda>(w, outs).
       Inr (net\<lparr>sn_workers := (sn_workers net)(p := w),
                sn_chans := post (consume p (semi_inputs e) (sn_chans net)) p outs\<rparr>))"

definition semi_center_step ::
    "comm \<Rightarrow> rank \<Rightarrow> nat \<Rightarrow> (semi_center \<times> out list) res \<Rightarrow> semi_net \<Rightarrow> semi_net res" where
  "semi_center_step c src k r net =
     rbind r (\<lambda>(ct, outs).
       Inr (net\<lparr>sn_center := ct, sn_chans := post (discard (sn_chans net) c src 0 k) 0 outs\<rparr>))"

definition is_worker :: "semi_net \<Rightarrow> rank \<Rightarrow> bool" where
  "is_worker net p \<longleftrightarrow> 1 \<le> p \<and> p < int (sn_size net)"

inductive semi_step :: "semi_net \<Rightarrow> semi_net res \<Rightarrow> bool" where
  worker: "is_worker net p \<Longrightarrow> user_ok (sn_runnables net) (sn_kind net) e \<Longrightarrow> semi_enabled e (sn_workers net p) \<Longrightarrow>
    ready p (semi_inputs e) (sn_chans net) \<Longrightarrow> semi_waits p e net \<Longrightarrow>
    semi_step net (semi_worker_step p e net)"
| running: "is_worker net src \<Longrightarrow> ct_phase (sn_center net) = Looping \<Longrightarrow>
    takes (sn_chans net) World src 0 [Running_State] \<Longrightarrow>
    semi_step net (semi_center_step World src 1 (semi_process_running src (sn_center net)) net)"
| available: "is_worker net src \<Longrightarrow> ct_phase (sn_center net) = Looping \<Longrightarrow>
    takes (sn_chans net) World src 0 [Available_State] \<Longrightarrow> offset \<le> sn_size net \<Longrightarrow>
    semi_step net (semi_center_step World src 1 (semi_process_available offset src (sn_center net)) net)"
| proposal: "is_worker net src \<Longrightarrow> ct_phase (sn_center net) = Looping \<Longrightarrow>
    takes (sn_chans net) Global_Score src 0 [Score_Proposal s] \<Longrightarrow>
    semi_step net (semi_center_step Global_Score src 1 (Inr (semi_score_proposal s (sn_center net))) net)"
| ack: "is_worker net src \<Longrightarrow> ct_phase (sn_center net) = Looping \<Longrightarrow>
    takes (sn_chans net) World src 0 [Task_Received] \<Longrightarrow>
    semi_step net (semi_center_step World src 1 (semi_center_ack src (sn_center net)) net)"
| collect: "ct_phase (sn_center net) = Collecting r \<Longrightarrow> all_at_barrier net \<Longrightarrow>
    takes (sn_chans net) World r 0 (m # (case ms of None \<Rightarrow> [] | Some s \<Rightarrow> [Has_Result_Score s])) \<Longrightarrow>
    ms \<noteq> None \<longleftrightarrow> (\<exists>p. m = Has_Result p) \<Longrightarrow>
    semi_step net (semi_center_step World r (if ms = None then 1 else 2)
      (rbind (semi_collect r m ms (sn_center net)) quietly) net)"

inductive semi_reachable :: "nat \<Rightarrow> int list \<Rightarrow> goal \<Rightarrow> score_type \<Rightarrow> semi_net \<Rightarrow> bool"
  for n rs g t where
  start: "semi_start n rs g t seed fid = Inr net \<Longrightarrow> fid \<in> set rs \<Longrightarrow> semi_reachable n rs g t net"
| step: "semi_reachable n rs g t net \<Longrightarrow> semi_step net (Inr net') \<Longrightarrow> semi_reachable n rs g t net'"

section \<open>Channels after a step\<close>

lemma consume_apply:
  "consume p ins ch c s d = (if d = p
     then foldl (\<lambda>l (c', src, ms). if c' = c \<and> src = s then drop (length ms) l else l) (ch c s d) ins
     else ch c s d)"
proof (induction ins arbitrary: ch)
  case (Cons x ins)
  then show ?case by (cases x) (auto simp: consume_def discard_apply)
qed (simp add: consume_def)

section \<open>Refinement of the termination detection\<close>

definition semi_abs :: "semi_net \<Rightarrow> ds \<Rightarrow> bool" where
  "semi_abs net a \<longleftrightarrow> ds_world a = int (sn_size net) \<and>
     (\<forall>p. ds_dets a p = (if p = 0 then ct_term (sn_center net) else sw_term (sn_workers net p))) \<and>
     (\<forall>p. ds_active a p \<longleftrightarrow> p \<noteq> 0 \<and> fn_busy (fn_pc (sw_funnel (sn_workers net p)))) \<and>
     (\<forall>p q. count (ds_tasks a) (p, q) = how_many is_task (sn_chans net World p q)) \<and>
     (\<forall>p q. count (ds_acks a) (p, q) = how_many is_ack (sn_chans net World p q))"

text \<open>An event that the detector does not see.\<close>

fun silent :: "wevent \<Rightarrow> bool" where
  "silent (Recv_Task src p i) \<longleftrightarrow> False"
| "silent (Recv_Ack src) \<longleftrightarrow> False"
| "silent (Send_Task b) \<longleftrightarrow> False"
| "silent Leave \<longleftrightarrow> False"
| "silent Resume_Last \<longleftrightarrow> False"
| "silent e \<longleftrightarrow> True"

definition quiet_outs :: "out list \<Rightarrow> bool" where
  "quiet_outs outs \<longleftrightarrow> (\<forall>(c, d, m) \<in> set outs. \<not> is_task m \<and> \<not> is_ack m)"

lemma final_solution_quiet: "quiet_outs (final_solution nm)"
  by (auto simp: final_solution_def quiet_outs_def split: option.splits)

lemma fn_steps_busy [simp]:
  "fn_busy (fn_pc (fn_enter f))" "fn_busy (fn_pc (fn_pop f))" "fn_busy (fn_pc (fn_check f))"
  "fn_busy (fn_pc (fn_recheck f))" "fn_pc (fn_goto c f) = c" "fn_pc (fn_begin f) = Entering"
  by (auto simp: fn_enter_def fn_pop_def fn_check_def fn_recheck_def fn_goto_def fn_begin_def split: list.split)

lemma fn_push_pc: "fn_push b f = Inr f' \<Longrightarrow> fn_pc f' = fn_pc f"
  by (auto simp: fn_push_def split: if_splits)

lemma semi_update_score_sel:
  assumes "semi_update_score c w = (w', outs, b)"
  shows "sw_term w' = sw_term w" "quiet_outs outs" "fn_pc (sw_funnel w') = (if b then c else fn_pc (sw_funnel w))"
    "fn_queue (sw_funnel w') = fn_queue (sw_funnel w)" "\<not> b \<longrightarrow> sw_funnel w' = sw_funnel w \<and> outs = []"
  using assms by (auto simp: semi_update_score_def quiet_outs_def fn_goto_def split: prod.splits option.splits)

lemma semi_receive_next_sel:
  "semi_receive_next xs w = Inr w' \<Longrightarrow> sw_term w' = sw_term w \<and> sw_funnel w' = sw_funnel w"
  by (auto simp: semi_receive_next_def split: if_splits)

lemma semi_poll_silent:
  assumes "semi_poll ms mn w = Inr (w', outs)" and "fn_pc (sw_funnel w) = Polling"
  shows "sw_term w' = sw_term w \<and> fn_busy (fn_pc (sw_funnel w')) \<and> quiet_outs outs"
proof -
  let ?w1 = "case ms of None \<Rightarrow> w | Some s \<Rightarrow> semi_receive_score s w"
  have w1: "sw_term ?w1 = sw_term w" "sw_funnel ?w1 = sw_funnel w"
    by (simp_all add: semi_receive_score_def split: option.split)
  obtain w2 where w2: "(case mn of None \<Rightarrow> Inr ?w1 | Some xs \<Rightarrow> semi_receive_next xs ?w1) = Inr w2"
    using assms(1) by (auto simp: semi_poll_def Let_def)
  have t2: "sw_term w2 = sw_term w" "sw_funnel w2 = sw_funnel w"
    using w2 w1 semi_receive_next_sel by (auto split: option.splits)
  obtain w3 o3 b where u: "semi_update_score Proposing w2 = (w3, o3, b)" by (metis prod_cases3)
  from u assms(1) w2 have "w' = (if b then w3 else semi_polled w3)" "outs = o3"
    by (auto simp: semi_poll_def Let_def)
  then show ?thesis
    using semi_update_score_sel [OF u] t2 assms(2) by (auto simp: semi_polled_def)
qed

lemma semi_apply_silent:
  assumes "semi_apply rs p e w = Inr (w', outs)" and "silent e" and "semi_enabled e w"
  shows "sw_term w' = sw_term w" "fn_busy (fn_pc (sw_funnel w')) = fn_busy (fn_pc (sw_funnel w))"
    "quiet_outs outs"
proof -
  have "sw_term w' = sw_term w \<and> fn_busy (fn_pc (sw_funnel w')) = fn_busy (fn_pc (sw_funnel w)) \<and> quiet_outs outs"
  proof (cases e)
    case (Poll ms mn)
    then show ?thesis using assms semi_poll_silent [of ms mn w w' outs] by auto
  next
    case (Recv_Next xs)
    then show ?thesis using assms semi_receive_next_sel by (auto simp: quietly_def quiet_outs_def)
  next
    case (Drain_Next xs)
    then show ?thesis using assms semi_receive_next_sel by (auto simp: quietly_def quiet_outs_def)
  next
    case (Recv_Termination a b)
    then show ?thesis using assms
      by (auto simp: quietly_def quiet_outs_def semi_process_termination_def split: if_splits)
  next
    case (Push q i)
    then show ?thesis using assms
      by (auto simp: quietly_def quiet_outs_def semi_force_push_def split: if_splits dest: fn_push_pc)
  next
    case Drained
    then show ?thesis using assms
      by (auto simp: quietly_def quiet_outs_def semi_drained_def split: if_splits)
  next
    case (Exit idle req)
    then show ?thesis using assms final_solution_quiet by (auto simp: semi_exit_def)
  qed (use assms in \<open>auto simp: quietly_def quiet_outs_def semi_receive_score_def semi_enter_def
      semi_polled_def semi_pop_def semi_check_def semi_recheck_def\<close>)
  then show "sw_term w' = sw_term w" "fn_busy (fn_pc (sw_funnel w')) = fn_busy (fn_pc (sw_funnel w))"
    "quiet_outs outs" by simp_all
qed

lemma quiet_sent:
  "quiet_outs outs \<Longrightarrow> how_many is_task (sent_to c d outs) = 0 \<and> how_many is_ack (sent_to c d outs) = 0"
  by (induction outs) (auto simp: quiet_outs_def)

lemma semi_absD:
  assumes "semi_abs net a"
  shows "ds_world a = int (sn_size net)"
    "ds_dets a 0 = ct_term (sn_center net)" "p \<noteq> 0 \<Longrightarrow> ds_dets a p = sw_term (sn_workers net p)"
    "\<not> ds_active a 0" "p \<noteq> 0 \<Longrightarrow> ds_active a p \<longleftrightarrow> fn_busy (fn_pc (sw_funnel (sn_workers net p)))"
    "count (ds_tasks a) (p, q) = how_many is_task (sn_chans net World p q)"
    "count (ds_acks a) (p, q) = how_many is_ack (sn_chans net World p q)"
  using assms by (simp_all add: semi_abs_def)

text \<open>The messages of the world communicator an event takes, and what is left.\<close>

lemma silent_inputs:
  assumes "silent e" and "ready p (semi_inputs e) ch" and "P = is_task \<or> P = is_ack"
  shows "how_many P (consume p (semi_inputs e) ch World s d) = how_many P (ch World s d)"
proof (cases e)
  case (Recv_Termination a b)
  then obtain r where "ch World 0 p = Termination a b # r"
    using assms(2) by (auto simp: ready_def takes_split)
  then show ?thesis using Recv_Termination assms(3) by (auto simp: consume_apply)
next
  case (Poll ms mn)
  then show ?thesis by (auto simp: consume_apply split: option.split)
qed (use assms(1) in \<open>auto simp: consume_apply\<close>)

lemma worker_silent_abs:
  assumes ab: "semi_abs net a" and p: "is_worker net p" and q: "quiet_outs outs"
    and t: "sw_term w = sw_term (sn_workers net p)"
      "fn_busy (fn_pc (sw_funnel w)) = fn_busy (fn_pc (sw_funnel (sn_workers net p)))"
    and c: "\<And>s d. how_many is_task (ch World s d) = how_many is_task (sn_chans net World s d)"
      "\<And>s d. how_many is_ack (ch World s d) = how_many is_ack (sn_chans net World s d)"
  shows "semi_abs (net\<lparr>sn_workers := (sn_workers net)(p := w), sn_chans := post ch p outs\<rparr>) a"
  using ab p t c quiet_sent [OF q] by (auto simp: semi_abs_def post_apply is_worker_def)

lemma multiset_pair_eqI: "(\<And>p q. count M (p, q) = count N (p, q)) \<Longrightarrow> M = N"
  by (rule multiset_eqI) auto

lemma ack_count:
  "count (ack_out q r) (s, d) = (if s = q then how_many is_ack (sent_to World d (ack_to r)) else 0)"
  "how_many is_task (sent_to World d (ack_to r)) = 0"
  by (auto simp: ack_out_def ack_to_def split: option.split)

lemma how_many_drop2: "l = m # m' # r \<Longrightarrow> how_many P (drop 2 l) = how_many P l - (if P m then 1 else 0) - (if P m' then 1 else 0)"
  by simp

text \<open>Receiving a task, taking an acknowledgement, sending a task and finishing are the four moves.\<close>

lemma worker_receive_abs:
  assumes ab: "semi_abs net a" and p: "is_worker net p"
    and t: "takes (sn_chans net) World src p [Task k, Runnable_Id i]"
    and r: "on_task_received (sw_term (sn_workers net p)) src = (d, r)"
    and w: "sw_term w = d" "fn_busy (fn_pc (sw_funnel w))"
  shows "ds_step a (ds_receive a src p)"
    "semi_abs (net\<lparr>sn_workers := (sn_workers net)(p := w), sn_chans :=
       post (discard (sn_chans net) World src p 2) p (ack_to r @ [(World, 0, Running_State)])\<rparr>)
       (ds_receive a src p)"
proof -
  note A = semi_absD [OF ab]
  have p0: "p \<noteq> 0" using p by (auto simp: is_worker_def)
  from t obtain l where l: "sn_chans net World src p = Task k # Runnable_Id i # l"
    by (auto simp: takes_split)
  have "0 < count (ds_tasks a) (src, p)" using A(6) [of src p] l by simp
  then have "(src, p) \<in># ds_tasks a" by (simp only: count_greater_zero_iff)
  then show "ds_step a (ds_receive a src p)" by (rule ds_step.receive)
  have rc: "ds_receive a src p = a\<lparr>ds_dets := (ds_dets a)(p := d), ds_active := (ds_active a)(p := True),
      ds_tasks := ds_tasks a - {#(src, p)#}, ds_acks := ds_acks a + ack_out p r\<rparr>"
    using A(3) [OF p0] r by (simp add: ds_receive_def)
  show "semi_abs (net\<lparr>sn_workers := (sn_workers net)(p := w), sn_chans :=
       post (discard (sn_chans net) World src p 2) p (ack_to r @ [(World, 0, Running_State)])\<rparr>)
       (ds_receive a src p)"
    unfolding semi_abs_def rc
  proof (intro conjI allI, goal_cases)
    case (3 x)
    show ?case using A(4) A(5) [of x] w p0 by auto
  next
    case (4 x y)
    show ?case using A(6) [of x y] l by (auto simp: post_apply discard_apply ack_count)
  next
    case (5 x y)
    show ?case using A(7) [of x y] l by (auto simp: post_apply discard_apply ack_count)
  qed (use A p0 w in auto)
qed

lemma worker_ack_abs:
  assumes ab: "semi_abs net a" and p: "is_worker net p"
    and t: "takes (sn_chans net) World src p [Task_Received]"
    and idle: "\<not> fn_busy (fn_pc (sw_funnel (sn_workers net p)))"
    and r: "on_passive (fst (on_ack_received (sw_term (sn_workers net p)))) = (d, r)"
    and w: "sw_term w = d" "\<not> fn_busy (fn_pc (sw_funnel w))"
  shows "ds_step a (ds_ack a src p)"
    "semi_abs (net\<lparr>sn_workers := (sn_workers net)(p := w), sn_chans :=
       post (discard (sn_chans net) World src p 1) p (ack_to r)\<rparr>) (ds_ack a src p)"
proof -
  note A = semi_absD [OF ab]
  have p0: "p \<noteq> 0" using p by (auto simp: is_worker_def)
  from t obtain l where l: "sn_chans net World src p = Task_Received # l" by (auto simp: takes_split)
  have "0 < count (ds_acks a) (src, p)" using A(7) [of src p] l by simp
  then have "(src, p) \<in># ds_acks a" by (simp only: count_greater_zero_iff)
  then show "ds_step a (ds_ack a src p)" by (rule ds_step.ack) (use A(5) [OF p0] idle in simp)
  have rc: "ds_ack a src p = a\<lparr>ds_dets := (ds_dets a)(p := d), ds_acks := ds_acks a - {#(src, p)#} + ack_out p r\<rparr>"
    using A(3) [OF p0] r by (simp add: ds_ack_def ds_take_ack_def ds_passive_def)
  show "semi_abs (net\<lparr>sn_workers := (sn_workers net)(p := w), sn_chans :=
       post (discard (sn_chans net) World src p 1) p (ack_to r)\<rparr>) (ds_ack a src p)"
    unfolding semi_abs_def rc
  proof (intro conjI allI, goal_cases)
    case (3 x)
    show ?case using A(4) A(5) [of x] idle w p0 by auto
  next
    case (4 x y)
    show ?case using A(6) [of x y] l by (auto simp: post_apply discard_apply ack_count)
  next
    case (5 x y)
    show ?case using A(7) [of x y] l by (auto simp: post_apply discard_apply ack_count)
  qed (use A p0 w in auto)
qed

lemma worker_send_abs:
  assumes ab: "semi_abs net a" and p: "is_worker net p" and q: "is_worker net q"
    and busy: "fn_busy (fn_pc (sw_funnel (sn_workers net p)))"
    and w: "sw_term w = on_task_sent (sw_term (sn_workers net p))" "fn_busy (fn_pc (sw_funnel w))"
  shows "ds_step a (ds_send a p q)"
    "semi_abs (net\<lparr>sn_workers := (sn_workers net)(p := w), sn_chans :=
       post (sn_chans net) p [(World, q, Task k), (World, q, Runnable_Id i)]\<rparr>) (ds_send a p q)"
proof -
  note A = semi_absD [OF ab]
  have p0: "p \<noteq> 0" using p by (auto simp: is_worker_def)
  show "ds_step a (ds_send a p q)"
    by (rule ds_step.send) (use A(1) A(5) [OF p0] busy p q in \<open>simp_all add: in_world_def is_worker_def\<close>)
  have rc: "ds_send a p q = a\<lparr>ds_dets := (ds_dets a)(p := sw_term w), ds_tasks := add_mset (p, q) (ds_tasks a)\<rparr>"
    using A(3) [OF p0] w by (simp add: ds_send_def)
  show "semi_abs (net\<lparr>sn_workers := (sn_workers net)(p := w), sn_chans :=
       post (sn_chans net) p [(World, q, Task k), (World, q, Runnable_Id i)]\<rparr>) (ds_send a p q)"
    unfolding semi_abs_def rc
  proof (intro conjI allI, goal_cases)
    case (3 x)
    show ?case using A(4) A(5) [of x] busy w p0 by auto
  next
    case (4 x y)
    show ?case using A(6) [of x y] by (auto simp: post_apply)
  next
    case (5 x y)
    show ?case using A(7) [of x y] by (auto simp: post_apply)
  qed (use A p0 in auto)
qed

lemma worker_finish_abs:
  assumes ab: "semi_abs net a" and p: "is_worker net p"
    and busy: "fn_busy (fn_pc (sw_funnel (sn_workers net p)))"
    and w: "sw_term w = fst (on_passive (sw_term (sn_workers net p)))" "\<not> fn_busy (fn_pc (sw_funnel w))"
  shows "ds_step a (ds_finish a p)"
    "semi_abs (net\<lparr>sn_workers := (sn_workers net)(p := w), sn_chans := post (sn_chans net) p
       ((World, 0, Available_State) # ack_to (snd (on_passive (sw_term (sn_workers net p)))))\<rparr>) (ds_finish a p)"
proof -
  note A = semi_absD [OF ab]
  have p0: "p \<noteq> 0" using p by (auto simp: is_worker_def)
  show "ds_step a (ds_finish a p)"
    by (rule ds_step.finish) (use A(1) A(5) [OF p0] busy p in \<open>simp_all add: in_world_def is_worker_def\<close>)
  obtain d r where r: "on_passive (sw_term (sn_workers net p)) = (d, r)" by (metis prod.exhaust)
  have rc: "ds_finish a p = a\<lparr>ds_active := (ds_active a)(p := False), ds_dets := (ds_dets a)(p := d),
      ds_acks := ds_acks a + ack_out p r\<rparr>"
    using A(3) [OF p0] r by (simp add: ds_finish_def ds_passive_def)
  show "semi_abs (net\<lparr>sn_workers := (sn_workers net)(p := w), sn_chans := post (sn_chans net) p
       ((World, 0, Available_State) # ack_to (snd (on_passive (sw_term (sn_workers net p)))))\<rparr>) (ds_finish a p)"
    unfolding semi_abs_def rc
  proof (intro conjI allI, goal_cases)
    case (3 x)
    show ?case using A(4) A(5) [of x] w p0 by auto
  next
    case (4 x y)
    show ?case using A(6) [of x y] r by (auto simp: post_apply ack_count)
  next
    case (5 x y)
    show ?case using A(7) [of x y] r by (auto simp: post_apply ack_count)
  qed (use A p0 w r in auto)
qed

lemma semi_finish_step_abs:
  assumes ab: "semi_abs net a" and p: "is_worker net p"
    and ok: "worker_ok rs n p w1" and t: "sw_term w1 = sw_term (sn_workers net p)"
    and pc: "fn_pc (sw_funnel w1) = Leaving \<or> fn_pc (sw_funnel w1) = Proposing_Last"
    and busy: "fn_busy (fn_pc (sw_funnel (sn_workers net p)))"
    and f: "semi_finish w1 = Inr (w', outs)"
  shows "\<exists>a'. ds_step a a' \<and>
    semi_abs (net\<lparr>sn_workers := (sn_workers net)(p := w'), sn_chans := post (sn_chans net) p outs\<rparr>) a'"
proof -
  from semi_finish_ok [OF ok pc] f have o: "outs = (World, 0, Available_State) # ack_to (snd (on_passive (sw_term w1)))"
    "sw_term w' = fst (on_passive (sw_term w1))" "\<not> fn_busy (fn_pc (sw_funnel w'))" by auto
  show ?thesis
    using worker_finish_abs [OF ab p busy, of w'] o t by (intro exI [of _ "ds_finish a p"]) simp
qed

lemma worker_step_abs:
  assumes ab: "semi_abs net a" and p: "is_worker net p" and ok: "worker_ok rs (sn_size net) p (sn_workers net p)"
    and en: "semi_enabled e (sn_workers net p)" and rd: "ready p (semi_inputs e) (sn_chans net)"
    and ap: "semi_apply rs p e (sn_workers net p) = Inr (w', outs)"
  shows "\<exists>a'. (a' = a \<or> ds_step a a') \<and>
    semi_abs (net\<lparr>sn_workers := (sn_workers net)(p := w'),
                  sn_chans := post (consume p (semi_inputs e) (sn_chans net)) p outs\<rparr>) a'"
proof (cases "silent e")
  case True
  note s = semi_apply_silent [OF ap True en]
  have "semi_abs (net\<lparr>sn_workers := (sn_workers net)(p := w'),
                  sn_chans := post (consume p (semi_inputs e) (sn_chans net)) p outs\<rparr>) a"
    by (rule worker_silent_abs [OF ab p s(3,1,2)]) (use silent_inputs [OF True rd] in simp_all)
  then show ?thesis by blast
next
  case False
  let ?w = "sn_workers net p"
  show ?thesis
  proof (cases e)
    case (Recv_Task src k i)
    obtain d r where r: "on_task_received (sw_term ?w) src = (d, r)" by (metis prod.exhaust)
    have t: "takes (sn_chans net) World src p [Task k, Runnable_Id i]" using rd Recv_Task by (simp add: ready_def)
    have w: "sw_term w' = d" "fn_busy (fn_pc (sw_funnel w'))" "outs = ack_to r @ [(World, 0, Running_State)]"
      using ap Recv_Task r by (auto simp: semi_process_message_def Let_def split: if_splits)
    have c: "consume p (semi_inputs e) (sn_chans net) = discard (sn_chans net) World src p 2"
      by (simp add: consume_def Recv_Task numeral_2_eq_2)
    show ?thesis using worker_receive_abs [OF ab p t r w(1,2)] w(3) c by auto
  next
    case (Recv_Ack src)
    obtain d r where r: "on_passive (fst (on_ack_received (sw_term ?w))) = (d, r)" by (metis prod.exhaust)
    have t: "takes (sn_chans net) World src p [Task_Received]" using rd Recv_Ack by (simp add: ready_def)
    have pc: "\<not> fn_busy (fn_pc (sw_funnel ?w))" using en Recv_Ack by simp
    obtain d1 b where b: "on_ack_received (sw_term ?w) = (d1, b)" by (metis prod.exhaust)
    have w: "sw_term w' = d" "sw_funnel w' = sw_funnel ?w" "outs = ack_to r"
      using ap Recv_Ack r b by (cases b; auto simp: semi_task_received_ack_def semi_release_parent_def)+
    have c: "consume p (semi_inputs e) (sn_chans net) = discard (sn_chans net) World src p 1"
      by (simp add: consume_def Recv_Ack)
    show ?thesis using worker_ack_abs [OF ab p t pc r w(1)] w(2,3) pc c by auto
  next
    case (Send_Task b)
    then have pc: "fn_pc (sw_funnel ?w) = Sending b" using en by simp
    from semi_send_result [OF ok pc] ap Send_Task have w: "sw_term w' = on_task_sent (sw_term ?w)"
      "fn_busy (fn_pc (sw_funnel w'))" "outs = [(World, sw_destination ?w, Task (bundle_packet b)),
       (World, sw_destination ?w, Runnable_Id (bundle_runnable_id b))]" by auto
    have "fn_transmitting (sw_funnel ?w)" using worker_okD(2) [OF ok] pc by (simp add: funnel_ok_def)
    then have q: "is_worker net (sw_destination ?w)" using worker_okD(6) [OF ok] by (auto simp: peer_def is_worker_def)
    have c: "consume p (semi_inputs e) (sn_chans net) = sn_chans net" by (simp add: consume_def Send_Task)
    show ?thesis using worker_send_abs [OF ab p q _ w(1,2)] pc w(3) c by auto
  next
    case Leave
    then have pc: "fn_pc (sw_funnel ?w) = Leaving" using en by simp
    have c: "consume p (semi_inputs e) (sn_chans net) = sn_chans net" by (simp add: consume_def Leave)
    show ?thesis
    proof (cases rule: semi_leave_cases [OF ok pc])
      case (1 w1 s)
      then have "semi_abs (net\<lparr>sn_workers := (sn_workers net)(p := w'),
          sn_chans := post (sn_chans net) p outs\<rparr>) a"
        using ap Leave pc by (intro worker_silent_abs [OF ab p]) (auto simp: quiet_outs_def)
      then show ?thesis using c by auto
    next
      case (2 w1)
      then show ?thesis
        using semi_finish_step_abs [OF ab p 2(2,3), of w' outs] ap Leave pc c by auto
    qed
  next
    case Resume_Last
    then have pc: "fn_pc (sw_funnel ?w) = Proposing_Last" using en by simp
    have c: "consume p (semi_inputs e) (sn_chans net) = sn_chans net" by (simp add: consume_def Resume_Last)
    show ?thesis
      using semi_finish_step_abs [OF ab p ok refl, of w' outs] ap Resume_Last pc c by auto
  qed (use False in simp_all)
qed

lemma center_quiet_abs:
  assumes ab: "semi_abs net a" and t: "ct_term ct = ct_term (sn_center net)" and q: "quiet_outs outs"
    and c: "\<And>s d. how_many is_task (ch World s d) = how_many is_task (sn_chans net World s d)"
      "\<And>s d. how_many is_ack (ch World s d) = how_many is_ack (sn_chans net World s d)"
  shows "semi_abs (net\<lparr>sn_center := ct, sn_chans := post ch 0 outs\<rparr>) a"
  using ab t c quiet_sent [OF q] by (auto simp: semi_abs_def post_apply)

lemma discard_quiet:
  assumes "ch c src d = ms @ l" and "how_many P ms = 0"
  shows "how_many P (discard ch c src d (length ms) x s y) = how_many P (ch x s y)"
  using assms by (auto simp: discard_apply)

lemma center_ack_abs:
  assumes ab: "semi_abs net a" and inv: "ds_inv a" and t: "takes (sn_chans net) World src 0 [Task_Received]"
    and ap: "semi_center_ack src (sn_center net) = Inr (ct, outs)"
  shows "ds_step a (ds_ack a src 0)"
    "semi_abs (net\<lparr>sn_center := ct, sn_chans := post (discard (sn_chans net) World src 0 1) 0 outs\<rparr>) (ds_ack a src 0)"
proof -
  note A = semi_absD [OF ab]
  from t obtain l where l: "sn_chans net World src 0 = Task_Received # l" by (auto simp: takes_split)
  have "0 < count (ds_acks a) (src, 0)" using A(7) [of src 0] l by simp
  then have m: "(src, 0) \<in># ds_acks a" by (simp only: count_greater_zero_iff)
  then show "ds_step a (ds_ack a src 0)" by (rule ds_step.ack) simp
  have "td_parent (ct_term (sn_center net)) = NO_PARENT"
    using ds_inv_butD(3) [OF inv] A(2) by (simp add: roots_ok_def)
  then have d0: "td_parent (fst (on_ack_received (ct_term (sn_center net)))) = NO_PARENT"
    by (simp add: on_ack_received_def)
  have ct: "ct_term ct = fst (on_ack_received (ct_term (sn_center net)))" "quiet_outs outs"
    using ap by (auto simp: semi_center_ack_def Let_def semi_notify_termination_def to_workers_def quiet_outs_def
        split: prod.splits if_splits)
  have rc: "ds_ack a src 0 = a\<lparr>ds_dets := (ds_dets a)(0 := ct_term ct), ds_acks := ds_acks a - {#(src, 0)#}\<rparr>"
    using A(2) d0 ct(1) on_passive_held [of "fst (on_ack_received (ct_term (sn_center net)))"]
    by (simp add: ds_ack_def ds_take_ack_def ds_passive_def)
  show "semi_abs (net\<lparr>sn_center := ct, sn_chans := post (discard (sn_chans net) World src 0 1) 0 outs\<rparr>) (ds_ack a src 0)"
    unfolding semi_abs_def rc
  proof (intro conjI allI, goal_cases)
    case (3 x)
    show ?case using A(4) A(5) [of x] by auto
  next
    case (4 x y)
    show ?case using A(6) [of x y] l quiet_sent [OF ct(2)] by (auto simp: post_apply discard_apply)
  next
    case (5 x y)
    show ?case using A(7) [of x y] l quiet_sent [OF ct(2)] by (auto simp: post_apply discard_apply)
  qed (use A in auto)
qed

section \<open>What the channels hold\<close>

text \<open>
  \<open>reports_from b l\<close>: \<open>l\<close> is what a worker may send to the center on the world communicator; \<open>b\<close> says
  that a result's score comes next. \<open>orders_from rs T b l\<close>: what a rank may send to a worker; \<open>b\<close> says
  that a task's function id comes next, and \<open>T\<close> holds the counts of a termination message, where one
  may be.
\<close>

primrec reports_from :: "bool \<Rightarrow> msg list \<Rightarrow> bool" where
  "reports_from b [] \<longleftrightarrow> \<not> b"
| "reports_from b (m # l) \<longleftrightarrow>
     (case m of
        Running_State \<Rightarrow> \<not> b \<and> reports_from False l
      | Available_State \<Rightarrow> \<not> b \<and> reports_from False l
      | Task_Received \<Rightarrow> \<not> b \<and> reports_from False l
      | No_Result \<Rightarrow> \<not> b \<and> reports_from False l
      | Has_Result p \<Rightarrow> \<not> b \<and> reports_from True l
      | Has_Result_Score s \<Rightarrow> b \<and> reports_from False l
      | _ \<Rightarrow> False)"

primrec orders_from :: "int list \<Rightarrow> (int \<times> int) option \<Rightarrow> bool \<Rightarrow> msg list \<Rightarrow> bool" where
  "orders_from rs T b [] \<longleftrightarrow> \<not> b"
| "orders_from rs T b (m # l) \<longleftrightarrow>
     (case m of
        Task p \<Rightarrow> \<not> b \<and> orders_from rs T True l
      | Runnable_Id i \<Rightarrow> b \<and> i \<in> set rs \<and> orders_from rs T False l
      | Task_Received \<Rightarrow> \<not> b \<and> orders_from rs T False l
      | Termination x y \<Rightarrow> \<not> b \<and> T = Some (x, y) \<and> orders_from rs T False l
      | _ \<Rightarrow> False)"

lemma reports_append: "reports_from b l \<Longrightarrow> reports_from False r \<Longrightarrow> reports_from b (l @ r)"
  by (induction l arbitrary: b) (auto split: msg.splits)

lemma orders_append: "orders_from rs T b l \<Longrightarrow> orders_from rs T False r \<Longrightarrow> orders_from rs T b (l @ r)"
  by (induction l arbitrary: b) (auto split: msg.splits)

lemma orders_mono: "orders_from rs None b l \<Longrightarrow> orders_from rs T b l"
  by (induction l arbitrary: b) (auto split: msg.splits)

lemma ack_to_reports: "reports_from False (sent_to World d (ack_to r))"
  "orders_from rs T False (sent_to World d (ack_to r))"
  by (auto simp: ack_to_def split: option.split)

lemma ack_to_other [simp]: "c \<noteq> World \<Longrightarrow> sent_to c d (ack_to r) = []"
  by (simp add: ack_to_def split: option.split)

fun is_proposal :: "msg \<Rightarrow> bool" where
  "is_proposal (Score_Proposal s) \<longleftrightarrow> True"
| "is_proposal m \<longleftrightarrow> False"

text \<open>What a worker may send in one step.\<close>

definition worker_outs_ok :: "int list \<Rightarrow> out list \<Rightarrow> bool" where
  "worker_outs_ok rs outs \<longleftrightarrow> reports_from False (sent_to World 0 outs) \<and>
     (\<forall>q. q \<noteq> 0 \<longrightarrow> orders_from rs None False (sent_to World q outs)) \<and>
     (\<forall>q. sent_to Next_Process_Comm q outs = []) \<and> (\<forall>q. q \<noteq> 0 \<longrightarrow> sent_to Global_Score q outs = []) \<and>
     list_all is_proposal (sent_to Global_Score 0 outs)"

lemma worker_outs_nil [simp]: "worker_outs_ok rs []"
  by (simp add: worker_outs_ok_def)

lemma worker_outs_score [simp]: "worker_outs_ok rs [(Global_Score, 0, Score_Proposal s)]"
  by (simp add: worker_outs_ok_def)

lemma final_solution_outs: "worker_outs_ok rs (final_solution nm)"
  by (auto simp: worker_outs_ok_def final_solution_def split: option.split)

lemma finish_outs: "worker_outs_ok rs ((World, 0, Available_State) # ack_to r)"
  by (auto simp: worker_outs_ok_def ack_to_reports)

lemma receive_outs: "worker_outs_ok rs (ack_to r @ [(World, 0, Running_State)])"
  by (auto simp: worker_outs_ok_def ack_to_reports reports_append)

lemma ack_outs: "worker_outs_ok rs (ack_to r)"
  by (auto simp: worker_outs_ok_def ack_to_reports)

lemma send_outs:
  "i \<in> set rs \<Longrightarrow> d \<noteq> 0 \<Longrightarrow> worker_outs_ok rs [(World, d, Task p), (World, d, Runnable_Id i)]"
  by (auto simp: worker_outs_ok_def)

lemma semi_update_score_outs:
  "semi_update_score c w = (w', outs, b) \<Longrightarrow> worker_outs_ok rs outs \<and>
   sw_updates_received w' = sw_updates_received w \<and> sw_next_received w' = sw_next_received w"
  by (auto simp: semi_update_score_def split: prod.splits option.splits)

fun score_inputs :: "wevent \<Rightarrow> nat" where
  "score_inputs (Recv_Score s) = 1"
| "score_inputs (Drain_Score s) = 1"
| "score_inputs (Poll ms mn) = (if ms = None then 0 else 1)"
| "score_inputs e = 0"

fun next_inputs :: "wevent \<Rightarrow> nat" where
  "next_inputs (Recv_Next xs) = 1"
| "next_inputs (Drain_Next xs) = 1"
| "next_inputs (Poll ms mn) = (if mn = None then 0 else 1)"
| "next_inputs e = 0"

lemma semi_receive_next_count:
  "semi_receive_next xs w = Inr w' \<Longrightarrow> sw_next_received w' = sw_next_received w + 1 \<and>
   sw_updates_received w' = sw_updates_received w"
  by (auto simp: semi_receive_next_def split: if_splits)

lemma semi_poll_outs:
  assumes "semi_poll ms mn w = Inr (w', outs)"
  shows "worker_outs_ok rs outs \<and>
    sw_updates_received w' = sw_updates_received w + int (score_inputs (Poll ms mn)) \<and>
    sw_next_received w' = sw_next_received w + int (next_inputs (Poll ms mn))"
proof -
  let ?w1 = "case ms of None \<Rightarrow> w | Some s \<Rightarrow> semi_receive_score s w"
  have w1: "sw_updates_received ?w1 = sw_updates_received w + int (score_inputs (Poll ms mn))"
    "sw_next_received ?w1 = sw_next_received w"
    by (simp_all add: semi_receive_score_def split: option.split)
  obtain w2 where w2: "(case mn of None \<Rightarrow> Inr ?w1 | Some xs \<Rightarrow> semi_receive_next xs ?w1) = Inr w2"
    using assms by (auto simp: semi_poll_def Let_def)
  then have t2: "sw_updates_received w2 = sw_updates_received ?w1"
    "sw_next_received w2 = sw_next_received ?w1 + int (next_inputs (Poll ms mn))"
    by (auto split: option.splits dest: semi_receive_next_count)
  obtain w3 o3 b where u: "semi_update_score Proposing w2 = (w3, o3, b)" by (metis prod_cases3)
  from u assms w2 have "w' = (if b then w3 else semi_polled w3)" "outs = o3"
    by (auto simp: semi_poll_def Let_def)
  then show ?thesis
    using semi_update_score_outs [OF u, of rs] t2 w1 by (auto simp: semi_polled_def)
qed

lemma semi_finish_outs:
  "semi_finish w = Inr (w', outs) \<Longrightarrow> worker_outs_ok rs outs \<and>
   sw_updates_received w' = sw_updates_received w \<and> sw_next_received w' = sw_next_received w"
  by (auto simp: semi_finish_def semi_release_parent_def finish_outs split: prod.splits)

lemma semi_apply_outs:
  assumes ap: "semi_apply rs p e w = Inr (w', outs)" and ok: "worker_ok rs n p w" and en: "semi_enabled e w"
  shows "worker_outs_ok rs outs \<and>
    sw_updates_received w' = sw_updates_received w + int (score_inputs e) \<and>
    sw_next_received w' = sw_next_received w + int (next_inputs e)"
proof (cases e)
  case (Recv_Task src k i)
  then show ?thesis using ap
    by (auto simp: semi_process_message_def Let_def receive_outs split: prod.splits if_splits)
next
  case (Recv_Ack src)
  then show ?thesis using semi_recv_ack_result [of rs p src w w' outs] ap by (simp add: ack_outs)
next
  case (Recv_Next xs)
  then show ?thesis using ap by (auto simp: quietly_def dest: semi_receive_next_count)
next
  case (Drain_Next xs)
  then show ?thesis using ap by (auto simp: quietly_def dest: semi_receive_next_count)
next
  case (Recv_Termination a b)
  then show ?thesis using ap by (auto simp: quietly_def semi_process_termination_def split: if_splits)
next
  case (Push q i)
  then show ?thesis using ap by (auto simp: quietly_def semi_force_push_def split: if_splits)
next
  case (Send_Task b)
  then have pc: "fn_pc (sw_funnel w) = Sending b" using en by simp
  have "fn_transmitting (sw_funnel w)" using worker_okD(2) [OF ok] pc by (simp add: funnel_ok_def)
  then have "sw_destination w \<noteq> 0" using worker_okD(6) [OF ok] by (auto simp: peer_def)
  moreover have "bundle_runnable_id b \<in> set rs" using worker_okD(8) [OF ok pc] by (simp add: bundle_ok_def)
  ultimately have "worker_outs_ok rs [(World, sw_destination w, Task (bundle_packet b)),
      (World, sw_destination w, Runnable_Id (bundle_runnable_id b))]" by (rule send_outs [rotated])
  then show ?thesis using ap Send_Task
    by (auto simp: semi_send_def semi_send_task_def Let_def split: if_splits)
next
  case (Poll ms mn)
  then show ?thesis using ap semi_poll_outs [of ms mn w w' outs rs] by simp
next
  case Leave
  then have pc: "fn_pc (sw_funnel w) = Leaving" using en by simp
  show ?thesis
    using Leave ap semi_finish_outs [of _ w' outs rs] by (cases rule: semi_leave_cases [OF ok pc]) auto
next
  case Resume_Last
  then show ?thesis using ap semi_finish_outs [of w w' outs rs] by simp
next
  case Drained
  then show ?thesis using ap en by (auto simp: quietly_def semi_drained_def split: if_splits)
next
  case (Exit idle req)
  then show ?thesis using ap final_solution_outs by (auto simp: semi_exit_def)
qed (use ap in \<open>auto simp: quietly_def semi_receive_score_def semi_enter_def semi_polled_def semi_pop_def
      semi_check_def semi_recheck_def\<close>)

section \<open>The invariant of a run\<close>

definition termination_of :: "semi_center \<Rightarrow> rank \<Rightarrow> (int \<times> int) option" where
  "termination_of ct q =
     (if ct_phase ct = Looping then None else Some (ct_updates_sent ct, ct_next_sent ct ! nat q))"

definition worker_chans_ok :: "int list \<Rightarrow> nat \<Rightarrow> semi_center \<Rightarrow> semi_worker \<Rightarrow> chans \<Rightarrow> rank \<Rightarrow> bool" where
  "worker_chans_ok rs n ct w ch p \<longleftrightarrow>
     (\<forall>s. s \<noteq> 0 \<longrightarrow> orders_from rs None False (ch World s p)) \<and>
     orders_from rs (termination_of ct p) False (ch World 0 p) \<and>
     (\<forall>m \<in> set (ch Next_Process_Comm 0 p). \<exists>xs. m = Next_Process xs \<and> next_ok n p xs) \<and>
     (\<forall>m \<in> set (ch Global_Score 0 p). \<exists>s. m = Score_Update s) \<and>
     sw_updates_received w + int (length (ch Global_Score 0 p)) = ct_updates_sent ct \<and>
     sw_next_received w + int (length (ch Next_Process_Comm 0 p)) = ct_next_sent ct ! nat p"

definition center_chans_ok :: "chans \<Rightarrow> bool" where
  "center_chans_ok ch \<longleftrightarrow>
     (\<forall>s. s \<noteq> 0 \<longrightarrow> reports_from False (ch World s 0) \<and> list_all is_proposal (ch Global_Score s 0))"

fun fn_stopped :: "fn_pc \<Rightarrow> bool" where
  "fn_stopped (Draining a b) \<longleftrightarrow> True"
| "fn_stopped At_Barrier \<longleftrightarrow> True"
| "fn_stopped Exited \<longleftrightarrow> True"
| "fn_stopped c \<longleftrightarrow> False"

definition phase_ok :: "semi_net \<Rightarrow> bool" where
  "phase_ok net \<longleftrightarrow>
     (case ct_phase (sn_center net) of
        Looping \<Rightarrow> td_deficit (ct_term (sn_center net)) \<noteq> 0 \<and>
          (\<forall>p. is_worker net p \<longrightarrow> \<not> fn_stopped (fn_pc (sw_funnel (sn_workers net p))))
      | Collecting r \<Rightarrow> td_deficit (ct_term (sn_center net)) = 0 \<and> is_worker net r
      | Finished \<Rightarrow> td_deficit (ct_term (sn_center net)) = 0) \<and>
     (\<forall>p a b. is_worker net p \<and> fn_pc (sw_funnel (sn_workers net p)) = Draining a b \<longrightarrow>
        Some (a, b) = termination_of (sn_center net) p)"

definition semi_inv :: "semi_net \<Rightarrow> bool" where
  "semi_inv net \<longleftrightarrow> center_ok (sn_size net) (sn_center net) \<and>
     (\<forall>p. is_worker net p \<longrightarrow> worker_ok (sn_runnables net) (sn_size net) p (sn_workers net p) \<and>
        worker_chans_ok (sn_runnables net) (sn_size net) (sn_center net) (sn_workers net p) (sn_chans net) p) \<and>
     center_chans_ok (sn_chans net) \<and> phase_ok net \<and>
     (\<exists>a. ds_reachable (int (sn_size net)) a \<and> semi_abs net a)"

lemma semi_invD:
  assumes "semi_inv net"
  shows "center_ok (sn_size net) (sn_center net)"
    "is_worker net p \<Longrightarrow> worker_ok (sn_runnables net) (sn_size net) p (sn_workers net p)"
    "is_worker net p \<Longrightarrow> worker_chans_ok (sn_runnables net) (sn_size net) (sn_center net)
       (sn_workers net p) (sn_chans net) p"
    "center_chans_ok (sn_chans net)" "phase_ok net"
    "\<exists>a. ds_reachable (int (sn_size net)) a \<and> semi_abs net a \<and> ds_inv a"
proof -
  show "\<exists>a. ds_reachable (int (sn_size net)) a \<and> semi_abs net a \<and> ds_inv a"
    using assms ds_reachable_inv [of "int (sn_size net)"] by (fastforce simp: semi_inv_def center_ok_but_def)
qed (use assms in \<open>simp_all add: semi_inv_def\<close>)

text \<open>When the center has stopped looping, nothing is busy, in transit or engaged any more.\<close>

lemma stopped_quiet:
  assumes inv: "semi_inv net" and ph: "ct_phase (sn_center net) \<noteq> Looping"
  shows "how_many is_task (sn_chans net World s d) = 0" "how_many is_ack (sn_chans net World s d) = 0"
    "is_worker net p \<Longrightarrow> is_quiescent (sw_term (sn_workers net p))"
    "is_worker net p \<Longrightarrow> \<not> fn_busy (fn_pc (sw_funnel (sn_workers net p)))"
    "td_deficit (ct_term (sn_center net)) = 0"
proof -
  show d: "td_deficit (ct_term (sn_center net)) = 0"
    using semi_invD(5) [OF inv] ph by (auto simp: phase_ok_def split: phase.splits)
  from semi_invD(6) [OF inv] obtain a where a: "semi_abs net a" "ds_inv a" by blast
  note A = semi_absD [OF a(1)]
  have d0: "td_deficit (ds_dets a 0) = 0" using d A(2) by simp
  note T = ds_terminated [OF a(2) d0]
  show "how_many is_task (sn_chans net World s d) = 0" "how_many is_ack (sn_chans net World s d) = 0" for s d
    using A(6) [of s d] A(7) [of s d] T(1,2) by simp_all
  show "is_quiescent (sw_term (sn_workers net p))" if "is_worker net p" for p
    using T(3) [of p] A(1) A(3) [of p] that by (auto simp: is_worker_def in_world_def)
  show "\<not> fn_busy (fn_pc (sw_funnel (sn_workers net p)))" if "is_worker net p" for p
    using T(4) [of p] A(5) [of p] that by (auto simp: is_worker_def)
qed

text \<open>The messages a worker takes are such that its handler cannot fail.\<close>

lemma worker_chansD:
  assumes "worker_chans_ok rs n ct w ch p"
  shows "s \<noteq> 0 \<Longrightarrow> orders_from rs None False (ch World s p)"
    "orders_from rs (termination_of ct p) False (ch World 0 p)"
    "m \<in> set (ch Next_Process_Comm 0 p) \<Longrightarrow> \<exists>xs. m = Next_Process xs \<and> next_ok n p xs"
    "m \<in> set (ch Global_Score 0 p) \<Longrightarrow> \<exists>s. m = Score_Update s"
    "sw_updates_received w + int (length (ch Global_Score 0 p)) = ct_updates_sent ct"
    "sw_next_received w + int (length (ch Next_Process_Comm 0 p)) = ct_next_sent ct ! nat p"
  using assms by (simp_all add: worker_chans_ok_def)

lemma worker_orders:
  assumes "worker_chans_ok rs n ct w ch p"
  shows "orders_from rs (termination_of ct p) False (ch World s p)"
  using worker_chansD(1,2) [OF assms] orders_mono by (cases "s = 0") auto

lemma next_input_ok:
  assumes "worker_chans_ok rs n ct w ch p" and "takes ch Next_Process_Comm 0 p [Next_Process xs]"
  shows "next_ok n p xs"
  using worker_chansD(3) [OF assms(1), of "Next_Process xs"] takesD [OF assms(2)]
  by (metis append_Cons list.set_intros(1) msg.inject(8))

lemma worker_input_ok:
  assumes inv: "semi_inv net" and p: "is_worker net p" and us: "user_ok (sn_runnables net) (sn_kind net) e"
    and en: "semi_enabled e (sn_workers net p)" and rd: "ready p (semi_inputs e) (sn_chans net)"
  shows "input_ok (sn_runnables net) (sn_size net) p (sn_workers net p) e"
proof -
  note c = semi_invD(3) [OF inv p]
  show ?thesis
  proof (cases e)
    case (Recv_Task src k i)
    then obtain l where "sn_chans net World src p = Task k # Runnable_Id i # l"
      using rd by (auto simp: ready_def takes_split)
    then show ?thesis using worker_orders [OF c, of src] Recv_Task by simp
  next
    case (Recv_Ack src)
    then obtain l where l: "sn_chans net World src p = Task_Received # l"
      using rd by (auto simp: ready_def takes_split)
    from semi_invD(6) [OF inv] obtain a where a: "semi_abs net a" "ds_inv a" by blast
    have "0 < count (ds_acks a) (src, p)" using semi_absD(7) [OF a(1), of src p] l by simp
    then have "(src, p) \<in># ds_acks a" by (simp only: count_greater_zero_iff)
    from ds_ack_expected(1) [OF a(2) this] show ?thesis
      using semi_absD(3) [OF a(1), of p] p Recv_Ack by (auto simp: is_worker_def)
  next
    case (Recv_Next xs)
    then show ?thesis using next_input_ok [OF c] rd by (simp add: ready_def)
  next
    case (Drain_Next xs)
    then show ?thesis using next_input_ok [OF c] rd by (simp add: ready_def)
  next
    case (Poll ms mn)
    then show ?thesis using next_input_ok [OF c] rd by (cases mn) (simp_all add: ready_def split: option.splits)
  next
    case (Recv_Termination a b)
    then obtain l where "sn_chans net World 0 p = Termination a b # l"
      using rd by (auto simp: ready_def takes_split)
    then have "ct_phase (sn_center net) \<noteq> Looping"
      using worker_orders [OF c, of 0] by (auto simp: termination_of_def split: if_splits)
    then show ?thesis using stopped_quiet(3) [OF inv _ p] Recv_Termination by simp
  next
    case Drained
    then show ?thesis
      using semi_invD(5) [OF inv] p worker_chansD(5,6) [OF c]
      by (auto simp: phase_ok_def termination_of_def split: if_splits)
  next
    case (Push q i)
    then show ?thesis using us by simp
  qed simp_all
qed

lemma worker_step_result:
  assumes inv: "semi_inv net" and p: "is_worker net p" and us: "user_ok (sn_runnables net) (sn_kind net) e"
    and en: "semi_enabled e (sn_workers net p)" and rd: "ready p (semi_inputs e) (sn_chans net)"
  shows "\<exists>w' outs. semi_apply (sn_runnables net) p e (sn_workers net p) = Inr (w', outs) \<and>
    worker_ok (sn_runnables net) (sn_size net) p w'"
  by (rule semi_apply_ok [OF semi_invD(2) [OF inv p] en worker_input_ok [OF assms]])

lemma center_ack_result:
  assumes inv: "semi_inv net" and t: "takes (sn_chans net) World src 0 [Task_Received]"
  shows "0 < td_deficit (ct_term (sn_center net))"
    "\<exists>ct outs. semi_center_ack src (sn_center net) = Inr (ct, outs)"
proof -
  from t obtain l where l: "sn_chans net World src 0 = Task_Received # l" by (auto simp: takes_split)
  from semi_invD(6) [OF inv] obtain a where a: "semi_abs net a" "ds_inv a" by blast
  have "0 < count (ds_acks a) (src, 0)" using semi_absD(7) [OF a(1), of src 0] l by simp
  then have "(src, 0) \<in># ds_acks a" by (simp only: count_greater_zero_iff)
  from ds_ack_expected(1) [OF a(2) this] show "0 < td_deficit (ct_term (sn_center net))"
    using semi_absD(2) [OF a(1)] by simp
  then show "\<exists>ct outs. semi_center_ack src (sn_center net) = Inr (ct, outs)"
    by (simp add: semi_center_ack_def on_ack_received_def Let_def)
qed

lemma collect_result:
  assumes inv: "semi_inv net" and ph: "ct_phase (sn_center net) = Collecting r"
    and t: "takes (sn_chans net) World r 0 (m # (case ms of None \<Rightarrow> [] | Some s \<Rightarrow> [Has_Result_Score s]))"
    and ms: "ms \<noteq> None \<longleftrightarrow> (\<exists>p. m = Has_Result p)"
  shows "\<exists>ct. semi_collect r m ms (sn_center net) = Inr ct \<and> is_worker net r \<and>
    (m = Running_State \<or> m = Available_State \<or> m = No_Result \<or> (\<exists>p. m = Has_Result p))"
proof -
  have r: "is_worker net r" using semi_invD(5) [OF inv] ph by (simp add: phase_ok_def)
  from t obtain l where l: "sn_chans net World r 0 = m # l" by (auto simp: takes_split)
  have "reports_from False (sn_chans net World r 0)"
    using semi_invD(4) [OF inv] r unfolding center_chans_ok_def is_worker_def by (metis not_one_le_zero)
  then have "reports_from False (m # l)" unfolding l .
  moreover have "\<not> is_ack m" using stopped_quiet(2) [OF inv, of r 0] ph l by (auto split: if_splits)
  ultimately have m: "m = Running_State \<or> m = Available_State \<or> m = No_Result \<or> (\<exists>p. m = Has_Result p)"
    by (cases m) simp_all
  have len: "length (ct_best (sn_center net)) = sn_size net"
    using semi_invD(1) [OF inv] by (simp add: center_ok_but_def)
  have "\<exists>ct. semi_collect r m ms (sn_center net) = Inr ct"
    using m ms r len by (cases ms) (auto simp: semi_collect_def is_worker_def)
  then show ?thesis using r m by blast
qed

lemma semi_inv_no_fault:
  assumes inv: "semi_inv net" and st: "semi_step net r"
  shows "is_ok r"
  using st
proof cases
  case (worker p e)
  from worker_step_result [OF inv worker(2-5)] show ?thesis
    by (auto simp: worker(1) semi_worker_step_def)
next
  case (running src)
  from process_running_ok [OF semi_invD(1) [OF inv], of src] running(2) show ?thesis
    by (auto simp: running(1) semi_center_step_def is_worker_def)
next
  case (available src offset)
  from process_available_ok [OF semi_invD(1) [OF inv], of src offset] available(2) show ?thesis
    by (auto simp: available(1) semi_center_step_def is_worker_def)
next
  case (proposal src s)
  then show ?thesis by (cases "semi_score_proposal s (sn_center net)") (simp add: semi_center_step_def)
next
  case (ack src)
  from center_ack_result(2) [OF inv ack(4)] show ?thesis
    by (auto simp: ack(1) semi_center_step_def)
next
  case (collect r m ms)
  from collect_result [OF inv collect(2,4,5)] show ?thesis
    by (auto simp: collect(1) semi_center_step_def quietly_def)
qed

section \<open>Where a step leads\<close>

lemma fn_stopped_idle: "fn_stopped c \<Longrightarrow> \<not> fn_busy c"
  by (cases c) simp_all

lemma semi_apply_pc:
  assumes ap: "semi_apply rs p e w = Inr (w', outs)" and ok: "worker_ok rs n p w" and en: "semi_enabled e w"
  shows "fn_stopped (fn_pc (sw_funnel w')) \<Longrightarrow> fn_stopped (fn_pc (sw_funnel w)) \<or> (\<exists>a b. e = Recv_Termination a b)"
    "fn_pc (sw_funnel w') = Draining a b \<Longrightarrow> fn_pc (sw_funnel w) = Draining a b \<or> e = Recv_Termination a b"
proof -
  have "fn_pc (sw_funnel w') = Listening \<or> fn_busy (fn_pc (sw_funnel w')) \<or>
    fn_stopped (fn_pc (sw_funnel w')) \<and> fn_pc (sw_funnel w') = fn_pc (sw_funnel w) \<or>
    (\<exists>a b. e = Recv_Termination a b \<and> fn_pc (sw_funnel w') = Draining a b) \<or>
    fn_stopped (fn_pc (sw_funnel w)) \<and> (fn_pc (sw_funnel w') = At_Barrier \<or> fn_pc (sw_funnel w') = Exited)"
  proof (cases "silent e")
    case True
    show ?thesis
    proof (cases e)
      case (Recv_Next xs)
      then show ?thesis using ap en semi_receive_next_sel by (auto simp: quietly_def)
    next
      case (Drain_Next xs)
      then show ?thesis using ap en semi_receive_next_sel by (auto simp: quietly_def)
    next
      case (Recv_Termination a b)
      then show ?thesis using ap by (auto simp: quietly_def semi_process_termination_def split: if_splits)
    next
      case (Push q i)
      then have "fn_pc (sw_funnel w') = fn_pc (sw_funnel w)"
        using ap by (auto simp: quietly_def semi_force_push_def split: if_splits dest: fn_push_pc)
      then show ?thesis by (cases "fn_pc (sw_funnel w)") auto
    next
      case (Poll ms mn)
      then show ?thesis using semi_poll_silent [of ms mn w w' outs] ap en by auto
    next
      case (Offer q s)
      then show ?thesis using ap by (cases "fn_pc (sw_funnel w)") (auto simp: quietly_def)
    next
      case Pool_Done
      then show ?thesis using ap by (cases "fn_pc (sw_funnel w)") (auto simp: quietly_def)
    next
      case Drained
      then show ?thesis using ap en by (auto simp: quietly_def semi_drained_def split: if_splits)
    next
      case (Drain_Score s)
      then show ?thesis using ap en by (auto simp: quietly_def semi_receive_score_def)
    qed (use True ap en in \<open>auto simp: quietly_def semi_receive_score_def semi_enter_def semi_polled_def
        semi_pop_def semi_check_def semi_recheck_def semi_exit_def\<close>)
  next
    case False
    show ?thesis
    proof (cases e)
      case (Recv_Task src k i)
      then show ?thesis using ap by (auto simp: semi_process_message_def Let_def split: prod.splits if_splits)
    next
      case (Recv_Ack src)
      then show ?thesis using semi_recv_ack_result [of rs p src w w' outs] ap en by simp
    next
      case (Send_Task b)
      then show ?thesis using semi_send_result [OF ok, of b] ap en by auto
    next
      case Leave
      then have pc: "fn_pc (sw_funnel w) = Leaving" using en by simp
      show ?thesis using Leave ap semi_finish_ok [of rs n p]
        by (cases rule: semi_leave_cases [OF ok pc]) fastforce+
    next
      case Resume_Last
      then show ?thesis using semi_finish_ok [OF ok] ap en by auto
    qed (use False in simp_all)
  qed
  then show "fn_stopped (fn_pc (sw_funnel w')) \<Longrightarrow> fn_stopped (fn_pc (sw_funnel w)) \<or> (\<exists>a b. e = Recv_Termination a b)"
    "fn_pc (sw_funnel w') = Draining a b \<Longrightarrow> fn_pc (sw_funnel w) = Draining a b \<or> e = Recv_Termination a b"
    using fn_stopped_idle by auto
qed

end
