(* ===== verification/Semi_Run.thy ===== *)
theory Semi_Run
  imports Semi_Network
begin

text \<open>
  Every run of the semi-centralized scheduler: the invariant of \<open>Semi_Network\<close> holds at the start and
  is kept by every step, so it holds in every reachable state. What follows for the run as a whole is
  stated at the end.
\<close>

lemma is_worker_upd [simp]:
  "is_worker (sn_workers_update f net) p = is_worker net p"
  "is_worker (sn_center_update g net) p = is_worker net p"
  "is_worker (sn_chans_update h net) p = is_worker net p"
  by (simp_all add: is_worker_def)

section \<open>A step of a worker\<close>

lemma consumed:
  assumes rd: "ready p (semi_inputs e) ch"
  shows "orders_from rs T False (ch World s p) \<Longrightarrow>
      orders_from rs T False (consume p (semi_inputs e) ch World s p)"
    "set (consume p (semi_inputs e) ch c s d) \<subseteq> set (ch c s d)"
    "length (consume p (semi_inputs e) ch Next_Process_Comm 0 p) + next_inputs e =
       length (ch Next_Process_Comm 0 p)"
    "length (consume p (semi_inputs e) ch Global_Score 0 p) + score_inputs e = length (ch Global_Score 0 p)"
    "d \<noteq> p \<Longrightarrow> consume p (semi_inputs e) ch c s d = ch c s d"
proof -
  show "orders_from rs T False (ch World s p) \<Longrightarrow>
      orders_from rs T False (consume p (semi_inputs e) ch World s p)"
    using rd by (cases e) (auto simp: consume_apply ready_def takes_split split: option.splits)
  have set_foldl: "set (foldl (\<lambda>l (c', src, ms). if c' = c \<and> src = s then drop (length ms) l else l) l ins) \<subseteq> set l"
    for l :: "msg list" and ins :: "(comm \<times> rank \<times> msg list) list"
  proof (induction ins arbitrary: l)
    case (Cons x ins)
    obtain c' src ms where x: "x = (c', src, ms)" by (metis prod_cases3)
    have "set (if c' = c \<and> src = s then drop (length ms) l else l) \<subseteq> set l" by (simp add: set_drop_subset)
    then show ?case unfolding x using Cons.IH [of "if c' = c \<and> src = s then drop (length ms) l else l"] by simp
  qed simp
  show "set (consume p (semi_inputs e) ch c s d) \<subseteq> set (ch c s d)"
    unfolding consume_apply using set_foldl by simp
  show "length (consume p (semi_inputs e) ch Next_Process_Comm 0 p) + next_inputs e =
       length (ch Next_Process_Comm 0 p)"
    using rd by (cases e) (auto simp: consume_apply ready_def takes_split split: option.splits)
  show "length (consume p (semi_inputs e) ch Global_Score 0 p) + score_inputs e = length (ch Global_Score 0 p)"
    using rd by (cases e) (auto simp: consume_apply ready_def takes_split split: option.splits)
  show "d \<noteq> p \<Longrightarrow> consume p (semi_inputs e) ch c s d = ch c s d"
    by (simp add: consume_apply)
qed

lemma recv_termination_stopped:
  assumes inv: "semi_inv net" and p: "is_worker net p"
    and rd: "ready p (semi_inputs (Recv_Termination a b)) (sn_chans net)"
  shows "ct_phase (sn_center net) \<noteq> Looping" "Some (a, b) = termination_of (sn_center net) p"
proof -
  from rd obtain l where l: "sn_chans net World 0 p = Termination a b # l"
    by (auto simp: ready_def takes_split)
  show "Some (a, b) = termination_of (sn_center net) p"
    using worker_orders [OF semi_invD(3) [OF inv p], of 0] l by simp
  then show "ct_phase (sn_center net) \<noteq> Looping" by (auto simp: termination_of_def)
qed

lemma worker_chans_kept:
  assumes ok: "worker_chans_ok rs n ct w ch q" and rd: "ready p (semi_inputs e) ch"
    and o: "worker_outs_ok rs outs" and p: "1 \<le> p" and q: "1 \<le> q"
    and w: "sw_updates_received w' = sw_updates_received w + (if q = p then int (score_inputs e) else 0)"
      "sw_next_received w' = sw_next_received w + (if q = p then int (next_inputs e) else 0)"
  shows "worker_chans_ok rs n ct w' (post (consume p (semi_inputs e) ch) p outs) q"
proof -
  note C = worker_chansD [OF ok] and D = consumed [OF rd]
  have r: "orders_from rs T False (ch World s q) \<Longrightarrow> orders_from rs T False (consume p (semi_inputs e) ch World s q)"
    for s T by (cases "q = p") (simp_all add: D(1,5))
  have lens: "sw_updates_received w' + int (length (consume p (semi_inputs e) ch Global_Score 0 q)) = ct_updates_sent ct"
    "sw_next_received w' + int (length (consume p (semi_inputs e) ch Next_Process_Comm 0 q)) = ct_next_sent ct ! nat q"
    using w C(5,6) D(3,4) D(5) [of q] by (cases "q = p"; linarith?; simp)+
  have o': "orders_from rs None False (sent_to World q outs)" using o q by (auto simp: worker_outs_ok_def)
  show ?thesis
    unfolding worker_chans_ok_def
  proof (intro conjI allI impI ballI)
    fix s :: rank assume "s \<noteq> 0"
    then show "orders_from rs None False (post (consume p (semi_inputs e) ch) p outs World s q)"
      using C(1) r o' by (auto simp: post_apply orders_append)
  next
    show "orders_from rs (termination_of ct q) False (post (consume p (semi_inputs e) ch) p outs World 0 q)"
      using C(2) r p by (auto simp: post_apply)
  next
    fix m assume "m \<in> set (post (consume p (semi_inputs e) ch) p outs Next_Process_Comm 0 q)"
    then have "m \<in> set (ch Next_Process_Comm 0 q)"
      using p D(2) [of Next_Process_Comm 0 q] by (auto simp: post_apply)
    then show "\<exists>xs. m = Next_Process xs \<and> next_ok n q xs" by (rule C(3))
  next
    fix m assume "m \<in> set (post (consume p (semi_inputs e) ch) p outs Global_Score 0 q)"
    then have "m \<in> set (ch Global_Score 0 q)"
      using p D(2) [of Global_Score 0 q] by (auto simp: post_apply)
    then show "\<exists>s. m = Score_Update s" by (rule C(4))
  qed (use lens p in \<open>simp_all add: post_apply\<close>)
qed

lemma worker_step_inv:
  assumes inv: "semi_inv net" and p: "is_worker net p" and us: "user_ok (sn_runnables net) (sn_kind net) e"
    and en: "semi_enabled e (sn_workers net p)" and rd: "ready p (semi_inputs e) (sn_chans net)"
    and st: "semi_worker_step p e net = Inr net'"
  shows "semi_inv net'"
proof -
  let ?w = "sn_workers net p"
  from worker_step_result [OF inv p us en rd] obtain w' outs where
    ap: "semi_apply (sn_runnables net) p e ?w = Inr (w', outs)"
    and ok': "worker_ok (sn_runnables net) (sn_size net) p w'" by blast
  note ok = semi_invD(2) [OF inv p]
  let ?ch = "post (consume p (semi_inputs e) (sn_chans net)) p outs"
  have net': "net' = net\<lparr>sn_workers := (sn_workers net)(p := w'), sn_chans := ?ch\<rparr>"
    using st ap by (simp add: semi_worker_step_def)
  note outs = semi_apply_outs [OF ap ok en]
  note pc = semi_apply_pc [OF ap ok en]
  have chans: "worker_chans_ok (sn_runnables net) (sn_size net) (sn_center net) (sn_workers net' q) ?ch q"
    if "is_worker net q" for q
    by (rule worker_chans_kept [OF semi_invD(3) [OF inv that] rd])
      (use outs p that in \<open>auto simp: net' is_worker_def\<close>)
  have center: "center_chans_ok ?ch"
    using semi_invD(4) [OF inv] outs p consumed(5) [OF rd, of 0]
    by (auto simp: center_chans_ok_def post_apply is_worker_def worker_outs_ok_def reports_append)
  have "Some (a, b) = termination_of (sn_center net) q"
    if "is_worker net q" "fn_pc (sw_funnel (sn_workers net' q)) = Draining a b" for q a b
    using semi_invD(5) [OF inv] that pc(2) [of a b] recv_termination_stopped(2) [OF inv p, of a b] rd
    by (cases "q = p") (auto simp: net' phase_ok_def)
  moreover have "\<not> fn_stopped (fn_pc (sw_funnel (sn_workers net' q)))"
    if "is_worker net q" "ct_phase (sn_center net) = Looping" for q
    using semi_invD(5) [OF inv] that pc(1) recv_termination_stopped(1) [OF inv p] rd
    by (cases "q = p") (auto simp: net' phase_ok_def)
  ultimately have ph: "phase_ok net'"
    using semi_invD(5) [OF inv] by (auto simp: phase_ok_def net' split: phase.splits)
  from semi_invD(6) [OF inv] obtain a where a: "ds_reachable (int (sn_size net)) a" "semi_abs net a" by blast
  from worker_step_abs [OF a(2) p ok en rd ap] a(1) have "\<exists>a. ds_reachable (int (sn_size net)) a \<and> semi_abs net' a"
    unfolding net' by (metis ds_reachable.step)
  then show ?thesis
    using semi_invD(1,2) [OF inv] ok' chans center ph
    by (auto simp: semi_inv_def net' is_worker_def)
qed

section \<open>A step of the center\<close>

text \<open>What the center may send: it moves from \<open>c\<close> to \<open>c'\<close>.\<close>

definition center_outs_ok :: "int list \<Rightarrow> nat \<Rightarrow> semi_center \<Rightarrow> semi_center \<Rightarrow> out list \<Rightarrow> bool" where
  "center_outs_ok rs n c c' outs \<longleftrightarrow>
     (\<forall>q. 1 \<le> q \<and> q < int n \<longrightarrow>
        (termination_of c q = None \<or> termination_of c q = termination_of c' q) \<and>
        orders_from rs (termination_of c' q) False (sent_to World q outs) \<and>
        (\<forall>m \<in> set (sent_to Next_Process_Comm q outs). \<exists>xs. m = Next_Process xs \<and> next_ok n q xs) \<and>
        (\<forall>m \<in> set (sent_to Global_Score q outs). \<exists>s. m = Score_Update s) \<and>
        ct_updates_sent c' = ct_updates_sent c + int (length (sent_to Global_Score q outs)) \<and>
        ct_next_sent c' ! nat q = ct_next_sent c ! nat q + int (length (sent_to Next_Process_Comm q outs)))"

lemma orders_terminated:
  "orders_from rs T b l \<Longrightarrow> T = None \<or> T = T' \<Longrightarrow> orders_from rs T' b l"
  using orders_mono by auto

lemma center_chans_kept:
  assumes ok: "worker_chans_ok rs n c w ch q" and o: "center_outs_ok rs n c c' outs"
    and q: "1 \<le> q" "q < int n"
  shows "worker_chans_ok rs n c' w (post (discard ch k src 0 j) 0 outs) q"
proof -
  note C = worker_chansD [OF ok]
  have q0: "q \<noteq> 0" using q by simp
  note O = o [unfolded center_outs_ok_def, rule_format, OF conjI [OF q]]
  have same: "discard ch k src 0 j c'' s q = ch c'' s q" for c'' s using q0 by (simp add: discard_apply)
  have ord: "orders_from rs (termination_of c' q) False (ch World 0 q)"
    by (rule orders_terminated [OF C(2)]) (use O in blast)
  show ?thesis
    unfolding worker_chans_ok_def
  proof (intro conjI allI impI ballI)
    show "orders_from rs (termination_of c' q) False (post (discard ch k src 0 j) 0 outs World 0 q)"
      using O ord by (simp add: post_apply same orders_append)
  next
    fix m assume "m \<in> set (post (discard ch k src 0 j) 0 outs Next_Process_Comm 0 q)"
    then have "m \<in> set (ch Next_Process_Comm 0 q) \<or> m \<in> set (sent_to Next_Process_Comm q outs)"
      by (simp add: post_apply same)
    then show "\<exists>xs. m = Next_Process xs \<and> next_ok n q xs" using C(3) O by blast
  next
    fix m assume "m \<in> set (post (discard ch k src 0 j) 0 outs Global_Score 0 q)"
    then have "m \<in> set (ch Global_Score 0 q) \<or> m \<in> set (sent_to Global_Score q outs)"
      by (simp add: post_apply same)
    then show "\<exists>s. m = Score_Update s" using C(4) O by blast
  qed (use C(1,5,6) O in \<open>simp_all add: post_apply same\<close>)
qed

lemma center_step_inv:
  assumes inv: "semi_inv net" and ok: "center_ok (sn_size net) ct"
    and o: "center_outs_ok (sn_runnables net) (sn_size net) (sn_center net) ct outs"
    and left: "src \<noteq> 0" "reports_from False (discard (sn_chans net) c src 0 k World src 0)"
    and net': "net' = net\<lparr>sn_center := ct, sn_chans := post (discard (sn_chans net) c src 0 k) 0 outs\<rparr>"
    and ph: "phase_ok net'"
    and ab: "\<And>a. semi_abs net a \<Longrightarrow> ds_inv a \<Longrightarrow> \<exists>a'. (a' = a \<or> ds_step a a') \<and> semi_abs net' a'"
  shows "semi_inv net'"
proof -
  have cc: "center_chans_ok (sn_chans net')"
    unfolding center_chans_ok_def
  proof (intro allI impI conjI)
    fix s :: rank assume s: "s \<noteq> 0"
    have c: "reports_from False (sn_chans net World s 0)" "list_all is_proposal (sn_chans net Global_Score s 0)"
      using semi_invD(4) [OF inv] s by (simp_all add: center_chans_ok_def)
    show "reports_from False (sn_chans net' World s 0)"
      using c(1) left s by (cases "s = src") (simp_all add: net' post_apply, simp add: discard_apply)
    show "list_all is_proposal (sn_chans net' Global_Score s 0)"
      using c(2) s by (auto simp: net' post_apply discard_apply list_all_iff dest: in_set_dropD)
  qed
  have wc: "worker_chans_ok (sn_runnables net) (sn_size net) ct (sn_workers net q) (sn_chans net') q"
    if "is_worker net q" for q
    using center_chans_kept [OF semi_invD(3) [OF inv that] o] that by (simp add: net' is_worker_def)
  from semi_invD(6) [OF inv] obtain a where a: "ds_reachable (int (sn_size net)) a" "semi_abs net a" "ds_inv a"
    by blast
  have "\<exists>a. ds_reachable (int (sn_size net)) a \<and> semi_abs net' a"
    using ab [OF a(2,3)] a(1) by (metis ds_reachable.step)
  then show ?thesis
    using semi_invD(2) [OF inv] ok cc wc ph by (auto simp: semi_inv_def net' is_worker_def)
qed

lemma lends_outs:
  assumes l: "lends n c c' outs" and n: "ct_phase c = Looping" "ct_phase c' = Looping"
    "ct_updates_sent c' = ct_updates_sent c"
  shows "center_outs_ok rs n c c' outs" "quiet_outs outs"
proof -
  have k: "k = Next_Process_Comm \<and> (\<exists>xs. m = Next_Process xs \<and> lendable n d xs)"
    if "(k, d, m) \<in> set outs" for k d m using l that by (fastforce simp: lends_def)
  have none: "sent_to j q outs = []" if "j \<noteq> Next_Process_Comm" for j q
    using k that by (fastforce simp: sent_to_def filter_empty_conv)
  have msgs: "\<exists>xs. m = Next_Process xs \<and> next_ok n q xs" if m: "m \<in> set (sent_to Next_Process_Comm q outs)" for m q
  proof -
    from m have "(Next_Process_Comm, q, m) \<in> set outs" by (auto simp: sent_to_def)
    from k [OF this] show ?thesis by (auto simp: lendable_def next_ok_def peer_def)
  qed
  show "center_outs_ok rs n c c' outs"
    unfolding center_outs_ok_def
    using l n none msgs by (auto simp: termination_of_def lends_def)
  show "quiet_outs outs" unfolding quiet_outs_def using k by fastforce
qed

lemma looping_phase:
  assumes "phase_ok net" and "same_core (sn_center net) ct" and "ct_phase (sn_center net) = Looping"
  shows "phase_ok (net\<lparr>sn_center := ct, sn_chans := ch\<rparr>)"
  using assms by (auto simp: phase_ok_def same_core_def termination_of_def split: phase.splits)

text \<open>A message that the detector does not see leaves the channel to the center.\<close>

lemma center_quiet_step:
  assumes inv: "semi_inv net" and ok: "center_ok (sn_size net) ct"
    and o: "center_outs_ok (sn_runnables net) (sn_size net) (sn_center net) ct outs" "quiet_outs outs"
    and t: "ct_term ct = ct_term (sn_center net)"
    and ch: "sn_chans net c src 0 = ms @ l" "k = length ms" "how_many is_task ms = 0" "how_many is_ack ms = 0"
    and left: "src \<noteq> 0" "c = World \<longrightarrow> reports_from False l"
    and ph: "phase_ok (net\<lparr>sn_center := ct, sn_chans := post (discard (sn_chans net) c src 0 k) 0 outs\<rparr>)"
    and st: "semi_center_step c src k (Inr (ct, outs)) net = Inr net'"
  shows "semi_inv net'"
proof (rule center_step_inv [OF inv ok o(1) left(1) _ _ _])
  show net': "net' = net\<lparr>sn_center := ct, sn_chans := post (discard (sn_chans net) c src 0 k) 0 outs\<rparr>"
    using st by (simp add: semi_center_step_def)
  show "phase_ok net'" using ph net' by simp
  show "reports_from False (discard (sn_chans net) c src 0 k World src 0)"
    using semi_invD(4) [OF inv] left ch by (cases "c = World") (auto simp: discard_apply center_chans_ok_def)
  fix a assume a: "semi_abs net a" "ds_inv a"
  have "semi_abs net' a"
    unfolding net' ch(2)
    by (rule center_quiet_abs [OF a(1) t o(2)])
      (use ch(3,4) in \<open>simp_all add: discard_quiet [where ch = "sn_chans net" and c = c and src = src and d = 0, OF ch(1)]\<close>)
  then show "\<exists>a'. (a' = a \<or> ds_step a a') \<and> semi_abs net' a'" by blast
qed

lemma sent_to_workers:
  "sent_to k q (to_workers xs (\<lambda>r. (k', r, f r))) =
     (if k = k' \<and> 1 \<le> q \<and> q < int (length xs) then [f q] else [])"
proof -
  have "sent_to k q (map (\<lambda>r. (k', r, f r)) (map int rs)) =
      (if k = k' then map (f \<circ> int) (filter (\<lambda>r. int r = q) rs) else [])" for rs
    by (induction rs) auto
  moreover have "filter (\<lambda>r. int r = q) [1..<length xs] = (if 1 \<le> q \<and> q < int (length xs) then [nat q] else [])"
  proof (cases "1 \<le> q \<and> q < int (length xs)")
    case True
    then have "filter (\<lambda>r. int r = q) [1..<length xs] = filter (\<lambda>r. r = nat q) [1..<length xs]"
      by (intro filter_cong) auto
    moreover have "filter (\<lambda>r. r = x) ys = [x]" if "distinct ys" "x \<in> set ys" for x :: nat and ys
      using that by (induction ys) (auto simp: filter_empty_conv)
    ultimately show ?thesis using True by (simp add: nat_less_iff le_nat_iff)
  next
    case False
    then show ?thesis by (auto simp: filter_empty_conv)
  qed
  ultimately show ?thesis unfolding to_workers_def ranks_from_1_def by auto
qed

lemma quiet_outs_nil [simp]: "quiet_outs []"
  by (simp add: quiet_outs_def)

lemma proposal_outs:
  assumes "center_ok n c" and "ct_phase c = Looping" and "semi_score_proposal s c = (c', outs)"
  shows "center_ok n c'" "center_outs_ok rs n c c' outs" "quiet_outs outs" "ct_term c' = ct_term c"
    "ct_phase c' = Looping"
proof -
  have q: "quiet_outs (to_workers xs (\<lambda>r. (Global_Score, r, Score_Update s)))" for xs
    by (auto simp: quiet_outs_def to_workers_def)
  show "center_ok n c'" "quiet_outs outs" "ct_term c' = ct_term c" "ct_phase c' = Looping"
    using assms q by (auto simp: semi_score_proposal_def Let_def center_ok_but_def split: if_splits)
  show "center_outs_ok rs n c c' outs"
    using assms by (auto simp: semi_score_proposal_def Let_def center_outs_ok_def termination_of_def sent_to_workers
        center_ok_but_def split: if_splits)
qed

lemma ack_step_inv:
  assumes inv: "semi_inv net" and src: "is_worker net src" and ph: "ct_phase (sn_center net) = Looping"
    and t: "takes (sn_chans net) World src 0 [Task_Received]"
    and st: "semi_center_step World src 1 (semi_center_ack src (sn_center net)) net = Inr net'"
  shows "semi_inv net'"
proof -
  let ?c = "sn_center net"
  from center_ack_result(2) [OF inv t] obtain ct outs where ap: "semi_center_ack src ?c = Inr (ct, outs)" by blast
  obtain d b where d: "on_ack_received (ct_term ?c) = (d, b)" by (metis prod.exhaust)
  have cases: "if td_deficit d = 0 then ct = ?c\<lparr>ct_term := d, ct_phase := Collecting 1\<rparr> \<and>
        outs = semi_notify_termination (?c\<lparr>ct_term := d\<rparr>)
      else ct = ?c\<lparr>ct_term := d\<rparr> \<and> outs = []"
    using ap d by (auto simp: semi_center_ack_def Let_def split: if_splits)
  have net': "net' = net\<lparr>sn_center := ct, sn_chans := post (discard (sn_chans net) World src 0 1) 0 outs\<rparr>"
    using st ap by (simp add: semi_center_step_def)
  note ok = semi_invD(1) [OF inv]
  have n: "2 \<le> sn_size net" using ok by (simp add: center_ok_but_def)
  show ?thesis
  proof (rule center_step_inv [OF inv _ _ _ _ net'])
    show "center_ok (sn_size net) ct" using ok cases by (auto simp: center_ok_but_def split: if_splits)
    show "center_outs_ok (sn_runnables net) (sn_size net) ?c ct outs"
      using cases ph ok
      by (auto simp: center_outs_ok_def termination_of_def semi_notify_termination_def sent_to_workers
          center_ok_but_def split: if_splits)
    show "src \<noteq> 0" using src by (simp add: is_worker_def)
    from t obtain l where l: "sn_chans net World src 0 = Task_Received # l" by (auto simp: takes_split)
    have "reports_from False (sn_chans net World src 0)"
      using semi_invD(4) [OF inv] \<open>src \<noteq> 0\<close> unfolding center_chans_ok_def by blast
    then show "reports_from False (discard (sn_chans net) World src 0 1 World src 0)"
      using l by (simp add: discard_apply)
    show "phase_ok net'"
      using semi_invD(5) [OF inv] ph cases n
      by (auto simp: net' phase_ok_def termination_of_def is_worker_def split: if_splits)
    fix a assume "semi_abs net a" "ds_inv a"
    from center_ack_abs [OF this t ap] show "\<exists>a'. (a' = a \<or> ds_step a a') \<and> semi_abs net' a'"
      unfolding net' by blast
  qed
qed

lemma next_rank_sel [simp]:
  "ct_term (next_rank r c) = ct_term c" "ct_updates_sent (next_rank r c) = ct_updates_sent c"
  "ct_next_sent (next_rank r c) = ct_next_sent c" "center_ok_but X n (next_rank r c) = center_ok_but X n c"
  "ct_phase (next_rank r c) = (if r + 1 < int (length (ct_state c)) then Collecting (r + 1) else Finished)"
  by (simp_all add: next_rank_def center_ok_but_def)

lemma best_sel [simp]:
  "length b = length (ct_best c) \<Longrightarrow> center_ok_but X n (c\<lparr>ct_best := b\<rparr>) = center_ok_but X n c"
  by (simp add: center_ok_but_def)

lemma semi_collect_cases:
  assumes "semi_collect r m ms c = Inr c'"
  shows "(m = Running_State \<or> m = Available_State) \<and> c' = ct_count_message (ct_count_request c) \<or>
    m = No_Result \<and> c' = next_rank r c \<or>
    (\<exists>p s b. m = Has_Result p \<and> ms = Some s \<and> vec_set (ct_best c) r \<lparr>result_score = s, result_packet = p\<rparr> = Inr b \<and>
      c' = next_rank r (c\<lparr>ct_best := b\<rparr>))"
proof (cases m)
  case (Has_Result p)
  then show ?thesis using assms
    by (cases ms; cases "vec_set (ct_best c) r \<lparr>result_score = the ms, result_packet = p\<rparr>")
      (simp_all add: semi_collect_def)
qed (use assms in \<open>simp_all add: semi_collect_def\<close>)

lemma collect_step_inv:
  assumes inv: "semi_inv net" and ph: "ct_phase (sn_center net) = Collecting r"
    and t: "takes (sn_chans net) World r 0 (m # (case ms of None \<Rightarrow> [] | Some s \<Rightarrow> [Has_Result_Score s]))"
    and ms: "ms \<noteq> None \<longleftrightarrow> (\<exists>p. m = Has_Result p)"
    and st: "semi_center_step World r (if ms = None then 1 else 2)
      (rbind (semi_collect r m ms (sn_center net)) quietly) net = Inr net'"
  shows "semi_inv net'"
proof -
  let ?c = "sn_center net"
  let ?ms = "m # (case ms of None \<Rightarrow> [] | Some s \<Rightarrow> [Has_Result_Score s])"
  from collect_result [OF inv ph t ms] obtain ct where ap: "semi_collect r m ms ?c = Inr ct"
    and r: "is_worker net r" and m: "m = Running_State \<or> m = Available_State \<or> m = No_Result \<or> (\<exists>p. m = Has_Result p)"
    by blast
  note ok = semi_invD(1) [OF inv]
  have len: "length (ct_best ?c) = sn_size net" "length (ct_state ?c) = sn_size net"
    using ok by (simp_all add: center_ok_but_def)
  have same: "ct_term ct = ct_term ?c \<and> ct_updates_sent ct = ct_updates_sent ?c \<and> ct_next_sent ct = ct_next_sent ?c \<and>
      center_ok (sn_size net) ct \<and> (ct_phase ct = Collecting r \<or>
        ct_phase ct = (if r + 1 < int (sn_size net) then Collecting (r + 1) else Finished))"
    using semi_collect_cases [OF ap]
  proof (elim disjE exE conjE)
    fix p s b
    assume b: "vec_set (ct_best ?c) r \<lparr>result_score = s, result_packet = p\<rparr> = Inr b"
      and ct: "ct = next_rank r (?c\<lparr>ct_best := b\<rparr>)"
    have "length b = length (ct_best ?c)" using b by (auto simp: vec_set_def split: if_splits)
    then show ?thesis unfolding ct using ok len(2) by simp
  qed (use ok len(2) ph in simp_all)
  then have ph': "ct_phase ct = Collecting r \<or> r + 1 < int (sn_size net) \<and> ct_phase ct = Collecting (r + 1) \<or>
      ct_phase ct = Finished" by (auto split: if_splits)
  then have tof: "termination_of ct = termination_of ?c"
    using same ph by (auto simp: termination_of_def)
  from t obtain l where l: "sn_chans net World r 0 = ?ms @ l" by (auto simp: takes_split)
  have r0: "r \<noteq> 0" using r by (simp add: is_worker_def)
  have "reports_from False (sn_chans net World r 0)"
    using semi_invD(4) [OF inv] r0 unfolding center_chans_ok_def by blast
  then have rep: "reports_from False l" using l m ms by (cases ms) auto
  show ?thesis
  proof (rule center_quiet_step [OF inv _ _ _ _ l _ _ _ r0 _ _])
    show "center_ok (sn_size net) ct" "ct_term ct = ct_term ?c" using same by simp_all
    show "center_outs_ok (sn_runnables net) (sn_size net) ?c ct []"
      using same tof by (simp add: center_outs_ok_def)
    show "(if ms = None then 1 else 2) = length ?ms" by (cases ms) simp_all
    show "how_many is_task ?ms = 0" "how_many is_ack ?ms = 0" using m by (cases ms; auto)+
    show "phase_ok (net\<lparr>sn_center := ct, sn_chans := post (discard (sn_chans net) World r 0
        (if ms = None then 1 else 2)) 0 []\<rparr>)"
      using semi_invD(5) [OF inv] ph ph' same tof r
      by (auto simp: phase_ok_def is_worker_def)
    show "semi_center_step World r (if ms = None then 1 else 2) (Inr (ct, [])) net = Inr net'"
      using st ap by (simp add: quietly_def)
  qed (use rep in simp_all)
qed

lemma semi_step_inv:
  assumes inv: "semi_inv net" and st: "semi_step net (Inr net')"
  shows "semi_inv net'"
  using st
proof cases
  case (worker p e)
  then show ?thesis using worker_step_inv [OF inv] by metis
next
  case (running src)
  then have src: "1 \<le> src" "src < int (sn_size net)" by (simp_all add: is_worker_def)
  from process_running_ok [OF semi_invD(1) [OF inv] src] obtain ct outs where
    r: "semi_process_running src (sn_center net) = Inr (ct, outs)" "center_ok (sn_size net) ct"
      "same_core (sn_center net) ct" "lends (sn_size net) (sn_center net) ct outs" by blast
  from running(4) obtain l where l: "sn_chans net World src 0 = [Running_State] @ l" by (auto simp: takes_split)
  have "reports_from False (sn_chans net World src 0)"
    using semi_invD(4) [OF inv] src unfolding center_chans_ok_def by (metis not_one_le_zero)
  then have "reports_from False l" using l by simp
  then show ?thesis
    using center_quiet_step [OF inv r(2) lends_outs [OF r(4) running(3)] _ l _ _ _ _ _
        looping_phase [OF semi_invD(5) [OF inv] r(3) running(3)]] r src running(1,3)
    by (simp add: same_core_def)
next
  case (available src offset)
  then have src: "1 \<le> src" "src < int (sn_size net)" by (simp_all add: is_worker_def)
  from process_available_ok [OF semi_invD(1) [OF inv] src] obtain ct outs where
    r: "semi_process_available offset src (sn_center net) = Inr (ct, outs)" "center_ok (sn_size net) ct"
      "same_core (sn_center net) ct" "lends (sn_size net) (sn_center net) ct outs" by blast
  from available(4) obtain l where l: "sn_chans net World src 0 = [Available_State] @ l" by (auto simp: takes_split)
  have "reports_from False (sn_chans net World src 0)"
    using semi_invD(4) [OF inv] src unfolding center_chans_ok_def by (metis not_one_le_zero)
  then have "reports_from False l" using l by simp
  then show ?thesis
    using center_quiet_step [OF inv r(2) lends_outs [OF r(4) available(3)] _ l _ _ _ _ _
        looping_phase [OF semi_invD(5) [OF inv] r(3) available(3)]] r src available(1,3)
    by (simp add: same_core_def)
next
  case (proposal src s)
  obtain ct outs where r: "semi_score_proposal s (sn_center net) = (ct, outs)" by (metis prod.exhaust)
  note o = proposal_outs [OF semi_invD(1) [OF inv] proposal(3) r]
  from proposal(4) obtain l where l: "sn_chans net Global_Score src 0 = [Score_Proposal s] @ l"
    by (auto simp: takes_split)
  have ph: "phase_ok (net\<lparr>sn_center := ct, sn_chans := ch\<rparr>)" for ch
    using semi_invD(5) [OF inv] o(4,5) proposal(3) by (auto simp: phase_ok_def termination_of_def)
  show ?thesis
    using center_quiet_step [OF inv o(1,2,3,4) l _ _ _ _ _ ph] r proposal(1,2) by (simp add: is_worker_def)
next
  case (ack src)
  then show ?thesis using ack_step_inv [OF inv] by metis
next
  case (collect r m ms)
  then show ?thesis using collect_step_inv [OF inv] by metis
qed

section \<open>The start\<close>

lemma semi_worker_init_ok:
  "0 < n \<Longrightarrow> worker_ok rs n p (semi_worker_init (int n) p g s nm)"
  using new_funnel_ok by (simp add: worker_ok_def semi_worker_init_def new_funnel_def peer_def)

lemma start_abs:
  assumes "ct_term c = on_task_sent (new_detector True)" and "quiet_outs outs" and n: "2 \<le> n"
    and "ws = (\<lambda>p. semi_worker_init (int n) p g s nm)"
    and "net = \<lparr>sn_size = n, sn_runnables = rs, sn_kind = t, sn_center = c, sn_workers = ws,
      sn_chans = post no_messages 0 (outs @ [(World, 1, Task seed), (World, 1, Runnable_Id fid)])\<rparr>"
  shows "\<exists>a. ds_reachable (int n) a \<and> semi_abs net a"
proof -
  let ?i = "ds_init (int n)"
  let ?a = "ds_finish (ds_send ?i 0 1) 0"
  have "ds_reachable (int n) ?i" by (rule ds_reachable.start)
  then have "ds_reachable (int n) (ds_send ?i 0 1)"
    by (rule ds_reachable.step, intro ds_step.send) (use n in \<open>simp_all add: ds_init_def in_world_def\<close>)
  then have r: "ds_reachable (int n) ?a"
    by (rule ds_reachable.step, intro ds_step.finish)
      (use n in \<open>simp_all add: ds_init_def ds_send_def in_world_def\<close>)
  have d: "on_passive (on_task_sent (new_detector True)) = (on_task_sent (new_detector True), None)"
    by code_simp
  have "semi_abs net ?a"
    using assms quiet_sent [OF assms(2)]
    by (auto simp: semi_abs_def ds_finish_def ds_passive_def ds_send_def ds_init_def d post_apply
        semi_worker_init_def new_funnel_def)
  with r show ?thesis by blast
qed

lemma semi_start_inv:
  assumes st: "semi_start n rs g t seed fid = Inr net" and fid: "fid \<in> set rs" and n: "2 \<le> n" "n \<le> 2 ^ 30"
  shows "semi_inv net" "sn_size net = n" "sn_runnables net = rs" "sn_workers net p = semi_worker_init (int n) p g
    (ct_score (sn_center net)) \<lparr>nm_goal = g, nm_score = ct_score (sn_center net), nm_result = Stored_Any None\<rparr>"
    "ct_goal (sn_center net) = g" "get_default_score g t = Inr (ct_score (sn_center net))"
proof -
  from st obtain s where s: "get_default_score g t = Inr s" by (auto simp: semi_start_def)
  from semi_start_ok [OF n, of seed fid g s] obtain c outs where
    c: "semi_center_start seed fid (semi_center_init n g s) =
      Inr (c, outs @ [(World, 1, Task seed), (World, 1, Runnable_Id fid)])" "center_ok n c"
      "lends n (semi_center_init n g s) c outs" "ct_term c = on_task_sent (new_detector True)"
      "ct_goal c = g" "ct_score c = s" "ct_updates_sent c = 0" "ct_phase c = Looping" by blast
  let ?nm = "\<lparr>nm_goal = g, nm_score = s, nm_result = Stored_Any None\<rparr> :: unit node_manager"
  let ?o = "outs @ [(World, 1, Task seed), (World, 1, Runnable_Id fid)]"
  have net: "net = \<lparr>sn_size = n, sn_runnables = rs, sn_kind = t, sn_center = c,
      sn_workers = (\<lambda>p. semi_worker_init (int n) p g s ?nm), sn_chans = post no_messages 0 ?o\<rparr>"
    using st s c(1) by (simp add: semi_start_def)
  then show "sn_size net = n" "sn_runnables net = rs" "sn_workers net p = semi_worker_init (int n) p g
      (ct_score (sn_center net)) \<lparr>nm_goal = g, nm_score = ct_score (sn_center net), nm_result = Stored_Any None\<rparr>"
    "ct_goal (sn_center net) = g" "get_default_score g t = Inr (ct_score (sn_center net))"
    using s c by simp_all
  have i: "ct_phase (semi_center_init n g s) = Looping" "ct_updates_sent (semi_center_init n g s) = 0"
    "1 \<le> q \<Longrightarrow> q < int n \<Longrightarrow> ct_next_sent (semi_center_init n g s) ! nat q = 0" for q
    by (simp_all add: semi_center_init_def)
  note o = lends_outs [OF c(3) i(1) c(8), unfolded i(2), OF c(7)]
  have wc: "worker_chans_ok rs n c (semi_worker_init (int n) q g s ?nm) (post no_messages 0 ?o) q"
    if q: "1 \<le> q" "q < int n" for q
  proof -
    note O = o(1) [unfolded center_outs_ok_def, rule_format, OF conjI [OF q]]
    have T: "termination_of c q = None" using c(8) by (simp add: termination_of_def)
    have "orders_from rs None False (sent_to World q outs @ [Task seed, Runnable_Id fid])"
      using O T fid by (intro orders_append) auto
    then show ?thesis
      using O T q i(2) i(3) [OF q] c(7)
      by (auto simp: worker_chans_ok_def post_apply semi_worker_init_def)
  qed
  have ph: "phase_ok net"
    using c(4,8) by (auto simp: net phase_ok_def semi_worker_init_def new_funnel_def on_task_sent_def new_detector_def)
  have "center_chans_ok (sn_chans net)" by (simp add: net center_chans_ok_def post_apply)
  moreover have "\<exists>a. ds_reachable (int (sn_size net)) a \<and> semi_abs net a"
    using start_abs [OF c(4) o(2) n(1) refl net] by (simp add: net)
  ultimately show "semi_inv net"
    using c(2) semi_worker_init_ok [of n] n wc ph by (auto simp: semi_inv_def net is_worker_def)
qed

lemma semi_worker_step_sel:
  "semi_worker_step p e net = Inr net' \<Longrightarrow>
   sn_size net' = sn_size net \<and> sn_runnables net' = sn_runnables net \<and> sn_kind net' = sn_kind net"
  by (cases "semi_apply (sn_runnables net) p e (sn_workers net p)") (auto simp: semi_worker_step_def)

lemma semi_center_step_sel:
  "semi_center_step c src k r net = Inr net' \<Longrightarrow>
   sn_size net' = sn_size net \<and> sn_runnables net' = sn_runnables net \<and> sn_kind net' = sn_kind net \<and>
   sn_workers net' = sn_workers net"
  by (cases r) (auto simp: semi_center_step_def)

lemma semi_step_sel:
  assumes "semi_step net (Inr net')"
  shows "sn_size net' = sn_size net \<and> sn_runnables net' = sn_runnables net \<and> sn_kind net' = sn_kind net"
  using assms by cases (metis semi_worker_step_sel semi_center_step_sel)+

lemma semi_reachable_inv:
  assumes "semi_reachable n rs g t net" and n: "2 \<le> n" "n \<le> 2 ^ 30"
  shows "semi_inv net \<and> sn_size net = n \<and> sn_runnables net = rs"
  using assms(1)
proof induction
  case (start seed fid net)
  then show ?case using semi_start_inv [OF _ _ n] by blast
next
  case (step net net')
  then show ?case using semi_step_inv semi_step_sel by metis
qed

section \<open>The step relation, executed\<close>

text \<open>A move names a step; \<open>semi_do\<close> performs it where it is enabled.\<close>

datatype semi_move =
    Move rank wevent | Center_Running rank | Center_Available nat rank | Center_Proposal rank
  | Center_Ack rank | Center_Collect

fun semi_do :: "semi_move \<Rightarrow> semi_net \<Rightarrow> semi_net res option" where
  "semi_do (Move p e) net =
     (if is_worker net p \<and> user_ok (sn_runnables net) (sn_kind net) e \<and> semi_enabled e (sn_workers net p) \<and>
         ready p (semi_inputs e) (sn_chans net) \<and> semi_waits p e net
      then Some (semi_worker_step p e net) else None)"
| "semi_do (Center_Running src) net =
     (if is_worker net src \<and> ct_phase (sn_center net) = Looping \<and>
         takes (sn_chans net) World src 0 [Running_State]
      then Some (semi_center_step World src 1 (semi_process_running src (sn_center net)) net) else None)"
| "semi_do (Center_Available offset src) net =
     (if is_worker net src \<and> ct_phase (sn_center net) = Looping \<and>
         takes (sn_chans net) World src 0 [Available_State] \<and> offset \<le> sn_size net
      then Some (semi_center_step World src 1 (semi_process_available offset src (sn_center net)) net)
      else None)"
| "semi_do (Center_Proposal src) net =
     (if is_worker net src \<and> ct_phase (sn_center net) = Looping
      then (case sn_chans net Global_Score src 0 of
              Score_Proposal s # l \<Rightarrow>
                Some (semi_center_step Global_Score src 1 (Inr (semi_score_proposal s (sn_center net))) net)
            | _ \<Rightarrow> None)
      else None)"
| "semi_do (Center_Ack src) net =
     (if is_worker net src \<and> ct_phase (sn_center net) = Looping \<and>
         takes (sn_chans net) World src 0 [Task_Received]
      then Some (semi_center_step World src 1 (semi_center_ack src (sn_center net)) net) else None)"
| "semi_do Center_Collect net =
     (case ct_phase (sn_center net) of
        Collecting r \<Rightarrow>
          if \<not> all_at_barrier net then None
          else (case sn_chans net World r 0 of
                  Has_Result p # Has_Result_Score s # l \<Rightarrow>
                    Some (semi_center_step World r 2 (rbind (semi_collect r (Has_Result p) (Some s) (sn_center net)) quietly) net)
                | Has_Result p # l \<Rightarrow> None
                | m # l \<Rightarrow> Some (semi_center_step World r 1 (rbind (semi_collect r m None (sn_center net)) quietly) net)
                | [] \<Rightarrow> None)
      | _ \<Rightarrow> None)"

lemma semi_do_step: "semi_do m net = Some r \<Longrightarrow> semi_step net r"
proof (cases m)
  case (Center_Proposal src)
  assume "semi_do m net = Some r"
  then show ?thesis using Center_Proposal semi_step.proposal [of net src]
    by (auto simp: takes_split split: if_splits list.splits msg.splits)
next
  case Center_Collect
  assume m: "semi_do m net = Some r"
  then obtain k where ph: "ct_phase (sn_center net) = Collecting k" "all_at_barrier net"
    using Center_Collect by (auto split: phase.splits if_splits)
  obtain x l where x: "sn_chans net World k 0 = x # l"
    using m ph Center_Collect by (auto split: list.splits)
  show ?thesis
  proof (cases "\<exists>p. x = Has_Result p")
    case True
    then obtain p where p: "x = Has_Result p" by blast
    obtain s l' where s: "l = Has_Result_Score s # l'" "r = semi_center_step World k 2
        (rbind (semi_collect k (Has_Result p) (Some s) (sn_center net)) quietly) net"
      using m ph x p Center_Collect by (auto split: list.splits msg.splits)
    then show ?thesis
      using semi_step.collect [OF ph, of "Has_Result p" "Some s"] x p by (simp add: takes_split)
  next
    case False
    then have "r = semi_center_step World k 1 (rbind (semi_collect k x None (sn_center net)) quietly) net"
      using m ph x Center_Collect by (auto split: list.splits msg.splits)
    then show ?thesis
      using semi_step.collect [OF ph, of x None] x False by (simp add: takes_split)
  qed
qed (auto simp del: One_nat_def split: if_splits intro: semi_step.intros)

fun semi_run :: "semi_move list \<Rightarrow> semi_net \<Rightarrow> semi_net option" where
  "semi_run [] net = Some net"
| "semi_run (m # ms) net = (case semi_do m net of Some (Inr net') \<Rightarrow> semi_run ms net' | _ \<Rightarrow> None)"

lemma semi_run_reachable:
  "semi_run ms net = Some net' \<Longrightarrow> semi_reachable n rs g t net \<Longrightarrow> semi_reachable n rs g t net'"
proof (induction ms arbitrary: net)
  case (Cons m ms)
  obtain net1 where n1: "semi_do m net = Some (Inr net1)" "semi_run ms net1 = Some net'"
    using Cons.prems(1) by (auto split: option.splits sum.splits)
  show ?case
    by (rule Cons.IH [OF n1(2) semi_reachable.step [OF Cons.prems(2) semi_do_step [OF n1(1)]]])
qed simp

definition semi_play :: "nat \<Rightarrow> int list \<Rightarrow> goal \<Rightarrow> score_type \<Rightarrow> task_packet \<Rightarrow> int \<Rightarrow> semi_move list \<Rightarrow> semi_net option" where
  "semi_play n rs g t seed fid ms =
     (case semi_start n rs g t seed fid of Inl f \<Rightarrow> None | Inr net \<Rightarrow> semi_run ms net)"

lemma semi_play_reachable:
  "semi_play n rs g t seed fid ms = Some net \<Longrightarrow> fid \<in> set rs \<Longrightarrow> semi_reachable n rs g t net"
  by (auto simp: semi_play_def split: sum.splits intro: semi_run_reachable semi_reachable.start)

definition one_task :: "semi_move list" where
  "one_task = [Move 1 (Recv_Task 0 (Task_Packet [1]) 7), Center_Running 1, Move 1 Pool_Done, Move 1 Enter,
     Move 1 (Poll None None), Move 1 Pop, Move 1 Check, Move 1 Recheck, Move 1 Leave,
     Center_Available 0 1, Center_Ack 1]"

lemma one_task_played:
  "\<exists>net. semi_play 2 [7] MAXIMISE I32 (Task_Packet [1]) 7 one_task = Some net \<and>
     ct_phase (sn_center net) = Collecting 1"
proof -
  have "map_option (\<lambda>n. ct_phase (sn_center n)) (semi_play 2 [7] MAXIMISE I32 (Task_Packet [1]) 7 one_task) =
      Some (Collecting 1)" by code_simp
  then show ?thesis by (auto simp: map_option_case split: option.splits)
qed

section \<open>Properties of every run\<close>

text \<open>C1: No step of any run of the semi-centralized scheduler fails: for two to \<open>2^30\<close> ranks, user tasks
  that push packets of a legal size for registered functions, and any order of events, no handler of
  any rank throws, dereferences a null pointer or leaves a vector. In particular no acknowledgement is
  unexpected, no channel is pushed to twice, no worker sends to itself, and every termination message
  arrives at a worker without work in progress.\<close>

theorem semi_never_faults:
  assumes "semi_reachable n rs g t net" and "2 \<le> n" and "n \<le> 2 ^ 30" and "semi_step net r"
  shows "is_ok r"
  using semi_reachable_inv [OF assms(1-3)] semi_inv_no_fault [OF _ assms(4)] by blast

lemma semi_never_faults_witness:
  "\<exists>net. semi_play 2 [7] MAXIMISE I32 (Task_Packet [1]) 7 [] = Some net \<and>
     is_ok (semi_worker_step 1 (Recv_Task 0 (Task_Packet [1]) 7) net)"
proof -
  have "map_option (\<lambda>n. is_worker n 1 \<and> semi_enabled (Recv_Task 0 (Task_Packet [1]) 7) (sn_workers n 1) \<and>
      ready 1 (semi_inputs (Recv_Task 0 (Task_Packet [1]) 7)) (sn_chans n))
      (semi_play 2 [7] MAXIMISE I32 (Task_Packet [1]) 7 []) = Some True" by code_simp
  then obtain net where p: "semi_play 2 [7] MAXIMISE I32 (Task_Packet [1]) 7 [] = Some net"
    and e: "is_worker net 1" "semi_enabled (Recv_Task 0 (Task_Packet [1]) 7) (sn_workers net 1)"
      "ready 1 (semi_inputs (Recv_Task 0 (Task_Packet [1]) 7)) (sn_chans net)"
    by (auto simp: map_option_case split: option.splits)
  have "semi_step net (semi_worker_step 1 (Recv_Task 0 (Task_Packet [1]) 7) net)"
    by (rule semi_step.worker) (use e in simp_all)
  from semi_never_faults [OF semi_play_reachable [OF p] _ _ this] show ?thesis using p by simp
qed

text \<open>C2: When the center has left its loop, the computation is over everywhere: no task and no
  acknowledgement is in transit between any two ranks, every worker is outside \<open>process_message\<close> with an
  empty queue and no transmission in progress, and every termination detector is quiescent.\<close>

theorem semi_termination_safe:
  assumes "semi_reachable n rs g t net" and "2 \<le> n" and "n \<le> 2 ^ 30"
    and "ct_phase (sn_center net) \<noteq> Looping"
  shows "(\<forall>s d. \<forall>m \<in> set (sn_chans net World s d). \<not> is_task m \<and> \<not> is_ack m) \<and>
    (\<forall>p. is_worker net p \<longrightarrow> \<not> fn_busy (fn_pc (sw_funnel (sn_workers net p))) \<and>
       fn_queue (sw_funnel (sn_workers net p)) = [] \<and> \<not> fn_transmitting (sw_funnel (sn_workers net p)) \<and>
       is_quiescent (sw_term (sn_workers net p)))"
proof -
  have inv: "semi_inv net" using semi_reachable_inv [OF assms(1-3)] by blast
  note Q = stopped_quiet [OF inv assms(4)]
  have "fn_queue (sw_funnel (sn_workers net p)) = [] \<and> \<not> fn_transmitting (sw_funnel (sn_workers net p))"
    if p: "is_worker net p" for p
  proof -
    have "fn_after (fn_pc (sw_funnel (sn_workers net p)))"
      using Q(4) [OF p] by (cases "fn_pc (sw_funnel (sn_workers net p))") simp_all
    then show ?thesis using funnel_ok_quiet [OF worker_okD(2) [OF semi_invD(2) [OF inv p]]] by simp
  qed
  then show ?thesis using Q(1-4) by (auto simp: how_many_zero)
qed

lemma semi_termination_safe_witness:
  "\<exists>net. semi_play 2 [7] MAXIMISE I32 (Task_Packet [1]) 7 one_task = Some net \<and>
     ct_phase (sn_center net) = Collecting 1 \<and> is_worker net 1 \<and> is_quiescent (sw_term (sn_workers net 1))"
proof -
  from one_task_played obtain net where
    p: "semi_play 2 [7] MAXIMISE I32 (Task_Packet [1]) 7 one_task = Some net" "ct_phase (sn_center net) = Collecting 1"
    by blast
  have r: "semi_reachable 2 [7] MAXIMISE I32 net" by (rule semi_play_reachable [OF p(1)]) simp
  have "is_worker net 1" using semi_reachable_inv [OF r] by (simp add: is_worker_def)
  then show ?thesis using semi_termination_safe [OF r] p by simp
qed

text \<open>C3: And the center does not stay in its loop by mistake: as long as it does, some worker is busy,
  or a task or an acknowledgement is still in transit.\<close>

theorem semi_termination_detected:
  assumes "semi_reachable n rs g t net" and "2 \<le> n" and "n \<le> 2 ^ 30" and "ct_phase (sn_center net) = Looping"
  shows "(\<exists>p. p \<noteq> 0 \<and> fn_busy (fn_pc (sw_funnel (sn_workers net p)))) \<or>
    (\<exists>s d. \<exists>m \<in> set (sn_chans net World s d). is_task m \<or> is_ack m)"
proof (rule ccontr)
  assume quiet: "\<not> ?thesis"
  have inv: "semi_inv net" using semi_reachable_inv [OF assms(1-3)] by blast
  from semi_invD(6) [OF inv] obtain a where a: "semi_abs net a" "ds_inv a" by blast
  note A = semi_absD [OF a(1)]
  have "\<not> ds_active a q" for q using A(4) A(5) [of q] quiet by (cases "q = 0") auto
  moreover have "how_many is_task (sn_chans net World s d) = 0 \<and> how_many is_ack (sn_chans net World s d) = 0" for s d
    using quiet by (auto simp: how_many_zero)
  then have "ds_tasks a = {#}" "ds_acks a = {#}" using A(6,7) by (auto intro!: multiset_pair_eqI)
  ultimately have "td_deficit (ct_term (sn_center net)) = 0"
    using ds_quiet_detected [OF a(2)] A(2) by simp
  then show False using semi_invD(5) [OF inv] assms(4) by (simp add: phase_ok_def)
qed

lemma semi_termination_detected_witness:
  "\<exists>net. semi_play 2 [7] MAXIMISE I32 (Task_Packet [1]) 7 [] = Some net \<and>
     ((\<exists>p. p \<noteq> 0 \<and> fn_busy (fn_pc (sw_funnel (sn_workers net p)))) \<or>
      (\<exists>s d. \<exists>m \<in> set (sn_chans net World s d). is_task m \<or> is_ack m))"
proof -
  have "map_option (\<lambda>n. ct_phase (sn_center n)) (semi_play 2 [7] MAXIMISE I32 (Task_Packet [1]) 7 []) = Some Looping"
    by code_simp
  then obtain net where p: "semi_play 2 [7] MAXIMISE I32 (Task_Packet [1]) 7 [] = Some net"
    "ct_phase (sn_center net) = Looping"
    by (auto simp: map_option_case split: option.splits)
  have r: "semi_reachable 2 [7] MAXIMISE I32 net" by (rule semi_play_reachable [OF p(1)]) simp
  from semi_termination_detected [OF r _ _ p(2)] p(1) show ?thesis by auto
qed

end
