(* ===== verification/Semi_Scores.thy ===== *)
theory Semi_Scores
  imports Semi_Run
begin

text \<open>
  Which score and which result a run of the semi-centralized scheduler ends with. Scores travel to the
  center as proposals and come back as updates; a worker's local score is ahead of what the center
  knows only while the worker is busy or its proposal is on the way.
\<close>

section \<open>The scores of one worker\<close>

definition proper :: "score_type \<Rightarrow> score \<Rightarrow> bool" where
  "proper t s \<longleftrightarrow> \<not> is_nan s \<and> m_kind s = t"

definition kept :: "semi_worker \<Rightarrow> bool" where
  "kept w \<longleftrightarrow> (case nm_result (sw_nm w) of Stored_Packet p \<Rightarrow> \<not> packet_empty p | Stored_Any v \<Rightarrow> False)"

abbreviation local_score :: "semi_worker \<Rightarrow> score" where
  "local_score w \<equiv> nm_score (sw_nm w)"

text \<open>
  \<open>down\<close> are the updates on their way to the worker, \<open>up\<close> its proposals on their way to the center,
  whose score is \<open>c\<close>.
\<close>

definition updates_ok :: "goal \<Rightarrow> score_type \<Rightarrow> score \<Rightarrow> score \<Rightarrow> msg list \<Rightarrow> bool" where
  "updates_ok g t c s down \<longleftrightarrow> proper t c \<and> proper t s \<and>
     (\<exists>ss. down = map Score_Update ss \<and> (\<forall>x \<in> set ss. proper t x) \<and>
           sorted_wrt (\<lambda>a b. \<not> better g a b) (s # ss @ [c]))"

definition proposals_ok :: "goal \<Rightarrow> score_type \<Rightarrow> score \<Rightarrow> semi_worker \<Rightarrow> msg list \<Rightarrow> bool" where
  "proposals_ok g t c w up \<longleftrightarrow>
     (\<forall>m \<in> set up. \<exists>s. m = Score_Proposal s \<and> proper t s \<and> \<not> better g s (local_score w) \<and> kept w) \<and>
     (case fn_pc (sw_funnel w) of
        Proposing \<Rightarrow> True
      | Proposing_Last \<Rightarrow> (if up = [] then \<not> better g (local_score w) c
                          else (\<forall>m \<in> set up. m = Score_Proposal (local_score w)))
      | _ \<Rightarrow> up = []) \<and>
     (\<not> fn_busy (fn_pc (sw_funnel w)) \<longrightarrow> \<not> better g (local_score w) c)"

definition scores_ok :: "goal \<Rightarrow> score_type \<Rightarrow> score \<Rightarrow> semi_worker \<Rightarrow> msg list \<Rightarrow> msg list \<Rightarrow> bool" where
  "scores_ok g t c w down up \<longleftrightarrow> sw_goal w = g \<and> nm_goal (sw_nm w) = g \<and> proper t (local_score w) \<and>
     updates_ok g t c (sw_score w) down \<and> (kept w \<or> \<not> better g (local_score w) (sw_score w)) \<and>
     proposals_ok g t c w up"

lemma better_asym: "better g a b \<Longrightarrow> \<not> better g b a"
  using better_irrefl better_trans by blast

lemma proper_weak: "proper t b \<Longrightarrow> \<not> better g a b \<Longrightarrow> \<not> better g b c \<Longrightarrow> \<not> better g a c"
  unfolding proper_def by (meson better_weak)

lemma updates_okD:
  "updates_ok g t c s down \<Longrightarrow> proper t c \<and> proper t s \<and> \<not> better g s c"
  by (auto simp: updates_ok_def)

lemma updates_take:
  "updates_ok g t c s (Score_Update x # down) \<Longrightarrow> updates_ok g t c x down \<and> \<not> better g s x"
  by (auto simp: updates_ok_def)

lemma updates_add:
  assumes "updates_ok g t c s down" and "proper t x" and "better g x c"
  shows "updates_ok g t x s (down @ [Score_Update x])"
proof -
  from assms(1) obtain ss where ss: "down = map Score_Update ss" "\<forall>y \<in> set ss. proper t y" "proper t s"
    "sorted_wrt (\<lambda>a b. \<not> better g a b) (s # ss @ [c])" by (auto simp: updates_ok_def)
  have "\<not> better g y x" if "y \<in> set (s # ss)" for y
    using ss(4) that assms(3) better_trans [of g y x c] by (auto simp: sorted_wrt_append)
  then have "sorted_wrt (\<lambda>a b. \<not> better g a b) (s # (ss @ [x]) @ [x])"
    using ss(4) better_irrefl by (auto simp: sorted_wrt_append)
  then show ?thesis using ss assms(2) by (auto simp: updates_ok_def intro!: exI [of _ "ss @ [x]"])
qed

text \<open>Adopting the global score or proposing the local one.\<close>

lemma update_score_cases:
  assumes "update_score g c nm = (nm', prop')" and "nm_goal nm = g"
  obtains (adopt) "better g c (nm_score nm)" "prop' = None" "nm_score nm' = c" "nm_goal nm' = g"
      "nm_result nm' = Stored_Packet packet_EMPTY"
    | (propose) "better g (nm_score nm) c" "prop' = Some (nm_score nm)" "nm' = nm"
    | (same) "\<not> better g c (nm_score nm)" "\<not> better g (nm_score nm) c" "prop' = None" "nm' = nm"
proof -
  have l: "should_update_local g c (nm_score nm) = better g c (nm_score nm)"
    "should_update_global g c (nm_score nm) = better g (nm_score nm) c"
    by (simp_all add: should_update_local_def should_update_global_def better_def)
  have u: "fst (try_update_score_and_invalidate_result c nm) =
      (if better g c (nm_score nm) then nm\<lparr>nm_score := c, nm_result := Stored_Packet packet_EMPTY\<rparr> else nm)"
    using assms(2) by (simp add: try_update_score_and_invalidate_result_def should_update_result_better)
  note eq = assms(1) [unfolded update_score_def Let_def l u]
  consider "better g c (nm_score nm)" | "\<not> better g c (nm_score nm)" "better g (nm_score nm) c"
    | "\<not> better g c (nm_score nm)" "\<not> better g (nm_score nm) c" by blast
  then show thesis
  proof cases
    case 1
    then show thesis using eq assms(2) by (intro adopt) auto
  next
    case 2
    then show thesis using eq by (intro propose) auto
  next
    case 3
    then show thesis using eq by (intro same) auto
  qed
qed

text \<open>A worker whose score is no worse than \<open>c\<close> keeps its result when it adopts nothing better than \<open>c\<close>.\<close>

definition holds_best :: "goal \<Rightarrow> score \<Rightarrow> semi_worker \<Rightarrow> bool" where
  "holds_best g c w \<longleftrightarrow> \<not> better g c (local_score w) \<and> kept w"

lemma scores_ok_cong:
  assumes "scores_ok g t c w down up" and "sw_goal w' = sw_goal w" and "sw_nm w' = sw_nm w"
    and "sw_score w' = sw_score w" and "proposals_ok g t c w' up'"
  shows "scores_ok g t c w' down up'"
  using assms by (simp add: scores_ok_def kept_def)

lemma proposals_cong:
  "sw_nm w' = sw_nm w \<Longrightarrow> fn_pc (sw_funnel w') = fn_pc (sw_funnel w) \<Longrightarrow>
   proposals_ok g t c w' up = proposals_ok g t c w up"
  by (cases "fn_pc (sw_funnel w)") (simp_all add: proposals_ok_def kept_def)

lemma plain_proposals:
  "proposals_ok g t c w up \<Longrightarrow> fn_pc (sw_funnel w) \<noteq> Proposing \<Longrightarrow> fn_pc (sw_funnel w) \<noteq> Proposing_Last \<Longrightarrow> up = []"
  by (auto simp: proposals_ok_def split: fn_pc.splits)

lemma no_proposals:
  "fn_pc (sw_funnel w) \<noteq> Proposing_Last \<Longrightarrow> \<not> fn_busy (fn_pc (sw_funnel w)) \<longrightarrow> \<not> better g (local_score w) c \<Longrightarrow>
   proposals_ok g t c w []"
  by (auto simp: proposals_ok_def split: fn_pc.splits)

lemma scores_okD:
  assumes "scores_ok g t c w down up"
  shows "sw_goal w = g" "nm_goal (sw_nm w) = g" "proper t (local_score w)" "updates_ok g t c (sw_score w) down"
    "kept w \<or> \<not> better g (local_score w) (sw_score w)" "proposals_ok g t c w up"
    "\<not> fn_busy (fn_pc (sw_funnel w)) \<Longrightarrow> \<not> better g (local_score w) c"
  using assms by (simp_all add: scores_ok_def proposals_ok_def)

lemma receive_score_ok:
  assumes ok: "scores_ok g t c w (Score_Update x # down) up" and w': "w' = semi_receive_score x w"
  shows "scores_ok g t c w' down up"
proof -
  note S = scores_okD [OF ok]
  note U = updates_take [OF S(4)]
  have "kept w \<or> \<not> better g (local_score w) x"
    using S(5) U proper_weak [of t "sw_score w"] updates_okD [OF S(4)] by blast
  moreover have "proposals_ok g t c w' up"
    using S(6) proposals_cong [of w' w] by (simp add: w' semi_receive_score_def)
  ultimately show ?thesis using S U by (simp add: w' scores_ok_def semi_receive_score_def kept_def)
qed

text \<open>
  \<open>update_score\<close> keeps the invariant in a worker whose proposals have all arrived; when nothing is
  proposed, the local score is not better than the center's.
\<close>

lemma update_score_step:
  assumes ok: "scores_ok g t c w down []" and u: "semi_update_score wt w = (w', outs, b)"
    and wt: "wt = Proposing \<or> wt = Proposing_Last" and pc: "fn_pc (sw_funnel w) = Polling \<or> fn_pc (sw_funnel w) = Leaving"
  shows "scores_ok g t c w' down (sent_to Global_Score 0 outs)"
    "\<not> b \<Longrightarrow> outs = [] \<and> sw_funnel w' = sw_funnel w \<and> \<not> better g (local_score w') c"
    "holds_best g c w \<Longrightarrow> holds_best g c w'"
proof -
  note S = scores_okD [OF ok]
  note C = updates_okD [OF S(4)]
  obtain nm pr where n: "update_score g (sw_score w) (sw_nm w) = (nm, pr)" by (metis prod.exhaust)
  have "scores_ok g t c w' down (sent_to Global_Score 0 outs) \<and>
    (\<not> b \<longrightarrow> outs = [] \<and> sw_funnel w' = sw_funnel w \<and> \<not> better g (local_score w') c) \<and>
    (holds_best g c w \<longrightarrow> holds_best g c w')"
    using n S(2)
  proof (cases rule: update_score_cases)
    case adopt
    then have w': "w' = w\<lparr>sw_nm := nm\<rparr>" "outs = []" "\<not> b" using u n S(1) by (auto simp: semi_update_score_def)
    have "\<not> holds_best g c w"
      using adopt(1) C proper_weak [of t c g "sw_score w" "local_score w"] by (auto simp: holds_best_def)
    then show ?thesis using adopt S C pc better_irrefl
      by (auto simp: w' scores_ok_def intro!: no_proposals)
  next
    case propose
    then have w': "w' = w\<lparr>sw_funnel := fn_goto wt (sw_funnel w)\<rparr>" "outs = [(Global_Score, 0, Score_Proposal (local_score w))]" "b"
      using u n S(1) by (auto simp: semi_update_score_def)
    have k: "kept w" using S(5) propose(1) by blast
    have "proposals_ok g t c w' [Score_Proposal (local_score w)]"
      using wt k S(3) better_irrefl by (auto simp: w' proposals_ok_def kept_def fn_goto_def)
    then show ?thesis using S k by (simp add: w' scores_ok_def holds_best_def kept_def)
  next
    case same
    then have w': "w' = w" "outs = []" "\<not> b" using u n S(1) by (auto simp: semi_update_score_def)
    have "\<not> better g (local_score w) c" using proper_weak [of t "sw_score w"] same C by blast
    then show ?thesis using ok by (simp add: w')
  qed
  then show "scores_ok g t c w' down (sent_to Global_Score 0 outs)"
    "\<not> b \<Longrightarrow> outs = [] \<and> sw_funnel w' = sw_funnel w \<and> \<not> better g (local_score w') c"
    "holds_best g c w \<Longrightarrow> holds_best g c w'" by blast+
qed

lemma scores_ok_goto:
  assumes ok: "scores_ok g t c w down []" and w': "sw_goal w' = sw_goal w" "sw_nm w' = sw_nm w" "sw_score w' = sw_score w"
    and pc: "fn_pc (sw_funnel w') \<noteq> Proposing_Last"
      "fn_busy (fn_pc (sw_funnel w')) \<or> \<not> fn_busy (fn_pc (sw_funnel w)) \<or> \<not> better g (local_score w) c"
  shows "scores_ok g t c w' down []"
  by (rule scores_ok_cong [OF ok w' no_proposals]) (use pc w' scores_okD(7) [OF ok] in auto)

lemma poll_scores:
  assumes ok: "scores_ok g t c w (map Score_Update (case ms of None \<Rightarrow> [] | Some x \<Rightarrow> [x]) @ down) []"
    and ap: "semi_poll ms mn w = Inr (w', outs)" and pc: "fn_pc (sw_funnel w) = Polling"
  shows "scores_ok g t c w' down (sent_to Global_Score 0 outs) \<and> (holds_best g c w \<longrightarrow> holds_best g c w')"
proof -
  define w1 where "w1 = (case ms of None \<Rightarrow> w | Some s \<Rightarrow> semi_receive_score s w)"
  have ok1: "scores_ok g t c w1 down []"
    using ok receive_score_ok [of g t c w _ down "[]"] by (cases ms) (simp_all add: w1_def)
  have h1: "holds_best g c w \<longrightarrow> holds_best g c w1" and f1: "sw_funnel w1 = sw_funnel w"
    by (simp_all add: w1_def holds_best_def kept_def semi_receive_score_def split: option.split)
  obtain w2 where w2: "(case mn of None \<Rightarrow> Inr w1 | Some xs \<Rightarrow> semi_receive_next xs w1) = Inr w2"
    using ap by (auto simp: semi_poll_def Let_def simp flip: w1_def)
  then have "sw_nm w2 = sw_nm w1 \<and> sw_goal w2 = sw_goal w1 \<and> sw_score w2 = sw_score w1 \<and> sw_funnel w2 = sw_funnel w1"
    by (auto simp: semi_receive_next_def split: option.splits if_splits)
  then have ok2: "scores_ok g t c w2 down []" and h2: "holds_best g c w \<longrightarrow> holds_best g c w2"
    and pc2: "fn_pc (sw_funnel w2) = Polling"
    using scores_ok_goto [OF ok1, of w2] h1 f1 pc by (simp_all add: holds_best_def kept_def)
  obtain w3 o3 b where u: "semi_update_score Proposing w2 = (w3, o3, b)" by (metis prod_cases3)
  note step = update_score_step [OF ok2 u _ disjI1 [OF pc2]]
  have w': "w' = (if b then w3 else semi_polled w3)" "outs = o3"
    using ap w2 u by (auto simp: semi_poll_def Let_def simp flip: w1_def)
  show ?thesis
  proof (cases b)
    case True
    then show ?thesis using step h2 w' by simp
  next
    case False
    then have "scores_ok g t c w3 down []" "outs = []" using step(1,2) w' by simp_all
    moreover have "sw_goal (semi_polled w3) = sw_goal w3" "sw_nm (semi_polled w3) = sw_nm w3"
      "sw_score (semi_polled w3) = sw_score w3" "fn_pc (sw_funnel (semi_polled w3)) = Popping"
      by (simp_all add: semi_polled_def)
    ultimately have "scores_ok g t c (semi_polled w3) down []"
      by (auto intro: scores_ok_goto [of g t c w3 down])
    moreover have "holds_best g c w \<longrightarrow> holds_best g c (semi_polled w3)"
      using step(3) h2 by (simp add: holds_best_def kept_def semi_polled_def)
    ultimately show ?thesis using w' False \<open>outs = []\<close> by simp
  qed
qed

lemma finish_sel:
  assumes "semi_finish w = Inr (w', outs)"
  shows "sw_nm w' = sw_nm w" "sw_goal w' = sw_goal w" "sw_score w' = sw_score w"
    "sent_to Global_Score 0 outs = []" "fn_pc (sw_funnel w') = Listening"
  using assms by (auto simp: semi_finish_def semi_release_parent_def fn_finish_def split: prod.splits if_splits)

lemma finish_scores:
  assumes ok: "scores_ok g t c w down []" and f: "semi_finish w = Inr (w', outs)" and nb: "\<not> better g (local_score w) c"
  shows "scores_ok g t c w' down (sent_to Global_Score 0 outs) \<and> (holds_best g c w \<longrightarrow> holds_best g c w')"
  using scores_ok_goto [OF ok, of w'] finish_sel [OF f] nb by (simp add: holds_best_def kept_def)

lemma leave_scores:
  assumes ok: "scores_ok g t c w down []" and ap: "semi_leave w = Inr (w', outs)" and pc: "fn_pc (sw_funnel w) = Leaving"
  shows "scores_ok g t c w' down (sent_to Global_Score 0 outs) \<and> (holds_best g c w \<longrightarrow> holds_best g c w')"
proof -
  obtain w1 o1 b where u: "semi_update_score Proposing_Last w = (w1, o1, b)" by (metis prod_cases3)
  note step = update_score_step [OF ok u _ disjI2 [OF pc]]
  show ?thesis
  proof (cases b)
    case True
    then show ?thesis using step ap u by (simp add: semi_leave_def)
  next
    case False
    then have f: "semi_finish w1 = Inr (w', outs)" using ap u by (simp add: semi_leave_def)
    show ?thesis using finish_scores [OF _ f] step False by simp
  qed
qed

section \<open>A step of a worker\<close>

fun scores_taken :: "wevent \<Rightarrow> score list" where
  "scores_taken (Recv_Score s) = [s]"
| "scores_taken (Drain_Score s) = [s]"
| "scores_taken (Poll ms mn) = (case ms of None \<Rightarrow> [] | Some s \<Rightarrow> [s])"
| "scores_taken e = []"

lemma offer_scores:
  assumes ok: "scores_ok g t c w down up" and pool: "fn_pool (sw_funnel w)" and f: "funnel_ok (sw_funnel w)"
    and s: "\<not> packet_empty q" "proper t s"
    and w': "w' = w\<lparr>sw_nm := fst (try_update_result q s (sw_nm w))\<rparr>"
  shows "scores_ok g t c w' down up \<and> (holds_best g c w \<longrightarrow> holds_best g c w')"
proof (cases "better g s (local_score w)")
  case False
  then have "w' = w" using scores_okD(2) [OF ok]
    by (simp add: w' try_update_result_def should_update_result_better)
  then show ?thesis using ok by simp
next
  case True
  note S = scores_okD [OF ok]
  let ?pc = "fn_pc (sw_funnel w)"
  have w'': "w' = w\<lparr>sw_nm := (sw_nm w)\<lparr>nm_result := Stored_Packet q, nm_score := s\<rparr>\<rparr>"
    using True S(2) by (simp add: w' try_update_result_def should_update_result_better)
  have k: "kept w'" using s by (simp add: w'' kept_def)
  have pc: "\<not> fn_after ?pc" using f pool by (auto simp: funnel_ok_def)
  then have pc': "?pc \<noteq> Proposing_Last" "fn_busy ?pc" by (cases ?pc; simp)+
  have not_better: "\<not> better g x s" if "\<not> better g x (local_score w)" for x
    using that True better_trans by blast
  have "proposals_ok g t c w' up"
    using S(6) pc' k not_better by (cases ?pc) (auto simp: proposals_ok_def w'')
  moreover have "holds_best g c w \<longrightarrow> holds_best g c w'"
    using not_better k by (simp add: holds_best_def w'')
  ultimately show ?thesis using S s k by (simp add: scores_ok_def w'')
qed

lemma plain_step:
  assumes "silent e" and "semi_apply rs p e w = Inr (w', outs)" and "semi_enabled e w"
    and "scores_taken e = []" and "\<And>q s. e \<noteq> Offer q s" and "\<And>ms mn. e \<noteq> Poll ms mn"
  shows "sw_goal w' = sw_goal w" "sw_nm w' = sw_nm w" "sw_score w' = sw_score w"
    "sent_to Global_Score 0 outs = []"
    "fn_pc (sw_funnel w') = fn_pc (sw_funnel w) \<or>
       fn_pc (sw_funnel w') \<noteq> Proposing \<and> fn_pc (sw_funnel w') \<noteq> Proposing_Last"
    "(\<exists>q i. e = Push q i) \<or> e = Pool_Done \<or> e = Resume \<or>
       fn_pc (sw_funnel w) \<noteq> Proposing \<and> fn_pc (sw_funnel w) \<noteq> Proposing_Last"
    "(\<exists>q i. e = Push q i) \<or> e = Pool_Done \<Longrightarrow> fn_pc (sw_funnel w') = fn_pc (sw_funnel w)"
proof -
  have *: "sw_goal w' = sw_goal w \<and> sw_nm w' = sw_nm w \<and> sw_score w' = sw_score w \<and>
    sent_to Global_Score 0 outs = [] \<and>
    (fn_pc (sw_funnel w') = fn_pc (sw_funnel w) \<or>
       fn_pc (sw_funnel w') \<noteq> Proposing \<and> fn_pc (sw_funnel w') \<noteq> Proposing_Last) \<and>
    ((\<exists>q i. e = Push q i) \<or> e = Pool_Done \<or> e = Resume \<or>
       fn_pc (sw_funnel w) \<noteq> Proposing \<and> fn_pc (sw_funnel w) \<noteq> Proposing_Last) \<and>
    ((\<exists>q i. e = Push q i) \<or> e = Pool_Done \<longrightarrow> fn_pc (sw_funnel w') = fn_pc (sw_funnel w))"
  proof (cases e)
    case (Push q i)
    then show ?thesis using assms
      by (auto simp: quietly_def semi_force_push_def fn_push_def split: if_splits)
  next
    case (Recv_Next xs)
    then show ?thesis using assms by (auto simp: quietly_def semi_receive_next_def split: if_splits)
  next
    case (Drain_Next xs)
    then show ?thesis using assms by (auto simp: quietly_def semi_receive_next_def split: if_splits)
  next
    case (Recv_Termination a b)
    then show ?thesis using assms by (auto simp: quietly_def semi_process_termination_def split: if_splits)
  next
    case Drained
    then show ?thesis using assms by (auto simp: quietly_def semi_drained_def split: if_splits)
  next
    case (Exit idle req)
    have "sent_to Global_Score 0 (final_solution nm) = []" for nm :: "unit node_manager"
      by (simp add: final_solution_def split: option.split)
    then show ?thesis using assms Exit by (auto simp: semi_exit_def)
  next
    case Enter
    then show ?thesis using assms by (auto simp: quietly_def semi_enter_def fn_enter_def split: list.splits)
  next
    case Pop
    then show ?thesis using assms by (auto simp: quietly_def semi_pop_def fn_pop_def split: list.splits)
  next
    case Check
    then show ?thesis using assms by (auto simp: quietly_def semi_check_def fn_check_def split: if_splits)
  next
    case Recheck
    then show ?thesis using assms by (auto simp: quietly_def semi_recheck_def fn_recheck_def split: list.splits)
  qed (use assms in \<open>auto simp: quietly_def semi_polled_def\<close>)
  show "sw_goal w' = sw_goal w" "sw_nm w' = sw_nm w" "sw_score w' = sw_score w"
    "sent_to Global_Score 0 outs = []"
    "fn_pc (sw_funnel w') = fn_pc (sw_funnel w) \<or>
       fn_pc (sw_funnel w') \<noteq> Proposing \<and> fn_pc (sw_funnel w') \<noteq> Proposing_Last"
    "(\<exists>q i. e = Push q i) \<or> e = Pool_Done \<or> e = Resume \<or>
       fn_pc (sw_funnel w) \<noteq> Proposing \<and> fn_pc (sw_funnel w) \<noteq> Proposing_Last"
    "(\<exists>q i. e = Push q i) \<or> e = Pool_Done \<Longrightarrow> fn_pc (sw_funnel w') = fn_pc (sw_funnel w)"
    using * by simp_all
qed

lemma worker_scores:
  assumes ok: "scores_ok g t c w (map Score_Update (scores_taken e) @ down) up"
    and wok: "worker_ok rs n p w" and us: "user_ok rs t e" and en: "semi_enabled e w"
    and ap: "semi_apply rs p e w = Inr (w', outs)"
    and wait: "e = Resume \<or> e = Resume_Last \<Longrightarrow> up = []"
  shows "scores_ok g t c w' down (up @ sent_to Global_Score 0 outs) \<and> (holds_best g c w \<longrightarrow> holds_best g c w')"
proof -
  note none_up = plain_proposals [OF scores_okD(6) [OF ok]]
  consider (offer) q s where "e = Offer q s" | (poll) ms mn where "e = Poll ms mn"
    | (recv) s where "e = Recv_Score s \<or> e = Drain_Score s"
    | (active) "\<not> silent e" | (plain) "silent e" "scores_taken e = []" "\<And>q s. e \<noteq> Offer q s" "\<And>ms mn. e \<noteq> Poll ms mn"
    by (cases e) auto
  then show ?thesis
  proof cases
    case (offer q s)
    then show ?thesis
      using offer_scores [OF _ _ worker_okD(2) [OF wok], of g t c down up q s w'] ok us en ap
      by (auto simp: quietly_def proper_def)
  next
    case (poll ms mn)
    then have "fn_pc (sw_funnel w) = Polling" "up = []" using en none_up by simp_all
    then show ?thesis using poll_scores [of g t c w ms down mn w' outs] ok ap poll by simp
  next
    case (recv s)
    then have "w' = semi_receive_score s w" "outs = []" using ap by (auto simp: quietly_def)
    moreover have "scores_ok g t c w (Score_Update s # down) up" using ok recv by auto
    ultimately show ?thesis using receive_score_ok [of g t c w s down up w']
      by (simp add: holds_best_def kept_def semi_receive_score_def)
  next
    case plain
    note P = plain_step [OF plain(1) ap en plain(2,3,4)]
    have ok': "scores_ok g t c w down up" using ok plain(2) by simp
    have busy: "fn_busy (fn_pc (sw_funnel w')) = fn_busy (fn_pc (sw_funnel w))"
      by (rule semi_apply_silent(2) [OF ap plain(1) en])
    have h: "holds_best g c w \<longrightarrow> holds_best g c w'" using P(2) by (simp add: holds_best_def kept_def)
    have "scores_ok g t c w' down up"
    proof (cases "(\<exists>q i. e = Push q i) \<or> e = Pool_Done")
      case True
      then have "proposals_ok g t c w' up" using P(2,7) proposals_cong scores_okD(6) [OF ok] by blast
      then show ?thesis by (rule scores_ok_cong [OF ok' P(1-3)])
    next
      case False
      then have "up = []" using P(6) none_up wait False by blast
      moreover have "fn_pc (sw_funnel w') \<noteq> Proposing_Last"
      proof (cases "e = Resume")
        case True
        then show ?thesis using ap by (auto simp: quietly_def semi_polled_def)
      qed (use P(5,6) False in auto)
      ultimately show ?thesis using scores_ok_goto [of g t c w down w'] ok' P busy by blast
    qed
    then show ?thesis using P(4) h by simp
  next
    case active
    then have ok': "scores_ok g t c w down up" using ok by (cases e) simp_all
    show ?thesis
    proof (cases e)
      case (Recv_Task src k i)
      then have "up = []" using none_up en by simp
      moreover have "scores_ok g t c w' down []"
        by (rule scores_ok_goto [of g t c w])
          (use ap Recv_Task ok' \<open>up = []\<close> in \<open>auto simp: semi_process_message_def Let_def fn_begin_def split: prod.splits if_splits\<close>)
      moreover have "sent_to Global_Score 0 outs = []" "sw_nm w' = sw_nm w"
        using ap Recv_Task by (auto simp: semi_process_message_def Let_def split: prod.splits if_splits)
      ultimately show ?thesis by (simp add: holds_best_def kept_def)
    next
      case (Recv_Ack src)
      then have "up = []" using none_up en by simp
      then show ?thesis using semi_recv_ack_result [of rs p src w w' outs] ap Recv_Ack
          scores_ok_goto [of g t c w down w'] ok' en by (simp add: holds_best_def kept_def)
    next
      case (Send_Task b)
      then have "up = []" "fn_busy (fn_pc (sw_funnel w))" using none_up en by simp_all
      moreover from this Send_Task ap have "sw_goal w' = sw_goal w" "sw_nm w' = sw_nm w" "sw_score w' = sw_score w"
        "fn_pc (sw_funnel w') = Polling" "sent_to Global_Score 0 outs = []"
        by (auto simp: semi_send_def semi_send_task_def fn_sent_def Let_def split: if_splits list.splits)
      ultimately show ?thesis
        using scores_ok_goto [of g t c w down w'] ok' by (simp add: holds_best_def kept_def)
    next
      case Leave
      then have "up = []" "fn_pc (sw_funnel w) = Leaving" using none_up en by simp_all
      then show ?thesis using leave_scores [of g t c w down w' outs] ok' ap Leave by simp
    next
      case Resume_Last
      then have "up = []" "fn_pc (sw_funnel w) = Proposing_Last" using wait en by simp_all
      moreover from this have "\<not> better g (local_score w) c"
        using scores_okD(6) [OF ok'] by (simp add: proposals_ok_def)
      ultimately show ?thesis using finish_scores [of g t c w down w' outs] ok' ap Resume_Last by simp
    qed (use active in simp_all)
  qed
qed

section \<open>The solutions on their way to the center\<close>

fun is_result :: "msg \<Rightarrow> bool" where
  "is_result (Has_Result p) \<longleftrightarrow> True"
| "is_result (Has_Result_Score s) \<longleftrightarrow> True"
| "is_result No_Result \<longleftrightarrow> True"
| "is_result m \<longleftrightarrow> False"

abbreviation results :: "msg list \<Rightarrow> msg list" where
  "results \<equiv> filter is_result"

text \<open>What the center notes for a worker that reported, and the messages that say so.\<close>

definition report :: "'r node_manager \<Rightarrow> gresult" where
  "report nm = (case get_result_bytes nm of
     None \<Rightarrow> result_EMPTY | Some r \<Rightarrow> if packet_empty (result_packet r) then result_EMPTY else r)"

definition report_msgs :: "'r node_manager \<Rightarrow> msg list" where
  "report_msgs nm = sent_to World 0 (final_solution nm)"

fun collected :: "phase \<Rightarrow> rank \<Rightarrow> bool" where
  "collected Looping p \<longleftrightarrow> False"
| "collected (Collecting r) p \<longleftrightarrow> p < r"
| "collected Finished p \<longleftrightarrow> True"

definition results_ok :: "phase \<Rightarrow> gresult \<Rightarrow> semi_worker \<Rightarrow> rank \<Rightarrow> msg list \<Rightarrow> bool" where
  "results_ok ph best w p l \<longleftrightarrow>
     (if collected ph p then fn_pc (sw_funnel w) = Exited \<and> results l = [] \<and> best = report (sw_nm w)
      else best = result_EMPTY \<and> results l = (if fn_pc (sw_funnel w) = Exited then report_msgs (sw_nm w) else []))"

lemma report_msgs_cases:
  "report_msgs nm = [No_Result] \<and> report nm = result_EMPTY \<or>
   report_msgs nm = [Has_Result (result_packet (report nm)), Has_Result_Score (result_score (report nm))]"
  by (auto simp: report_msgs_def report_def final_solution_def split: option.splits)

lemma results_report [simp]: "results (report_msgs nm) = report_msgs nm"
  using report_msgs_cases [of nm] by (elim disjE conjE) simp_all

lemma results_ack_to [simp]: "results (sent_to World 0 (ack_to r)) = []"
  by (simp add: ack_to_def split: option.split)

lemma exited_stuck: "worker_ok rs n p w \<Longrightarrow> semi_enabled e w \<Longrightarrow> fn_pc (sw_funnel w) \<noteq> Exited"
  by (cases e) (auto dest!: worker_okD(2) simp: funnel_ok_def)

lemma semi_finish_results:
  "semi_finish w = Inr (w', outs) \<Longrightarrow> results (sent_to World 0 outs) = []"
  by (auto simp: semi_finish_def semi_release_parent_def split: prod.splits)

lemma no_result_yet:
  assumes ap: "semi_apply rs p e w = Inr (w', outs)" and ok: "worker_ok rs n p w" and en: "semi_enabled e w"
    and e: "\<And>a b. e \<noteq> Exit a b"
  shows "results (sent_to World 0 outs) = [] \<and> fn_pc (sw_funnel w') \<noteq> Exited"
proof -
  note nx = exited_stuck [OF ok en]
  show ?thesis
  proof (cases e)
    case (Recv_Task src k i)
    then show ?thesis using ap
      by (auto simp: semi_process_message_def Let_def fn_begin_def split: prod.splits if_splits)
  next
    case (Recv_Ack src)
    then show ?thesis using semi_recv_ack_result [of rs p src w w' outs] ap nx by simp
  next
    case (Send_Task b)
    then have pc: "fn_pc (sw_funnel w) = Sending b" using en by simp
    have "fn_transmitting (sw_funnel w)" using worker_okD(2) [OF ok] pc by (simp add: funnel_ok_def)
    then have "sw_destination w \<noteq> 0" using worker_okD(6) [OF ok] by (auto simp: peer_def)
    then show ?thesis using ap Send_Task
      by (auto simp: semi_send_def semi_send_task_def fn_sent_def Let_def split: if_splits list.splits)
  next
    case (Poll ms mn)
    have u: "sent_to World 0 o3 = []" if "semi_update_score Proposing w2 = (w3, o3, b)" for w2 w3 o3 b
      using that by (auto simp: semi_update_score_def split: prod.splits option.splits)
    have "\<exists>w2 w3 b. semi_update_score Proposing w2 = (w3, outs, b)"
    proof -
      from ap Poll obtain w2 where "(let (w3, o3, waits) = semi_update_score Proposing w2
          in Inr (if waits then w3 else semi_polled w3, o3) :: (semi_worker \<times> out list) res) = Inr (w', outs)"
        by (auto simp: semi_poll_def Let_def)
      moreover obtain w3 o3 b where "semi_update_score Proposing w2 = (w3, o3, b)" by (metis prod_cases3)
      ultimately show ?thesis by auto
    qed
    have "fn_busy (fn_pc (sw_funnel w'))" using semi_poll_silent [of ms mn w w' outs] ap Poll en by simp
    then show ?thesis using u \<open>\<exists>w2 w3 b. semi_update_score Proposing w2 = (w3, outs, b)\<close> by auto
  next
    case Leave
    then have pc: "fn_pc (sw_funnel w) = Leaving" using en by simp
    show ?thesis
      using Leave ap semi_finish_results [of _ w' outs] finish_sel(5) [of _ w' outs]
      by (cases rule: semi_leave_cases [OF ok pc]) auto
  next
    case Resume_Last
    then show ?thesis using ap semi_finish_results [of w w' outs] finish_sel(5) [of w w' outs] by simp
  next
    case (Push q i)
    then show ?thesis using ap nx
      by (auto simp: quietly_def semi_force_push_def fn_push_def split: if_splits)
  next
    case (Recv_Next xs)
    then show ?thesis using ap nx by (auto simp: quietly_def semi_receive_next_def split: if_splits)
  next
    case (Drain_Next xs)
    then show ?thesis using ap nx by (auto simp: quietly_def semi_receive_next_def split: if_splits)
  next
    case (Recv_Termination a b)
    then show ?thesis using ap by (auto simp: quietly_def semi_process_termination_def split: if_splits)
  next
    case Drained
    then show ?thesis using ap en by (auto simp: quietly_def semi_drained_def split: if_splits)
  next
    case Enter
    then show ?thesis using ap by (auto simp: quietly_def semi_enter_def fn_enter_def split: list.splits)
  next
    case Pop
    then show ?thesis using ap by (auto simp: quietly_def semi_pop_def fn_pop_def split: list.splits)
  next
    case Check
    then show ?thesis using ap by (auto simp: quietly_def semi_check_def fn_check_def split: if_splits)
  next
    case Recheck
    then show ?thesis using ap by (auto simp: quietly_def semi_recheck_def fn_recheck_def split: list.splits)
  qed (use ap nx e in \<open>auto simp: quietly_def semi_receive_score_def semi_polled_def\<close>)
qed

lemma worker_results:
  assumes ok: "results_ok ph best w p l" and ap: "semi_apply rs p e w = Inr (w', outs)"
    and wok: "worker_ok rs n p w" and en: "semi_enabled e w"
  shows "results_ok ph best w' p (l @ sent_to World 0 outs)"
proof -
  note nx = exited_stuck [OF wok en]
  have nc: "\<not> collected ph p" "best = result_EMPTY" "results l = []"
    using ok nx by (auto simp: results_ok_def split: if_splits)
  show ?thesis
  proof (cases "\<exists>a b. e = Exit a b")
    case True
    then have "sw_nm w' = sw_nm w" "fn_pc (sw_funnel w') = Exited" "outs = final_solution (sw_nm w)"
      using ap by (auto simp: semi_exit_def)
    then show ?thesis using nc by (simp add: results_ok_def flip: report_msgs_def)
  next
    case False
    then show ?thesis using nc no_result_yet [OF ap wok en] by (simp add: results_ok_def)
  qed
qed

end
