(* ===== verification/Semi_Outcome.thy ===== *)
theory Semi_Outcome
  imports Semi_Scores
begin

text \<open>
  The outcome of a run of the semi-centralized scheduler: the invariant on scores and results of the
  whole network, and what \<open>fetch_solution\<close> gives at the end.
\<close>

definition best_known :: "goal \<Rightarrow> score \<Rightarrow> semi_net \<Rightarrow> bool" where
  "best_known g d net \<longleftrightarrow> ct_score (sn_center net) = d \<or>
     (\<exists>p. is_worker net p \<and> holds_best g (ct_score (sn_center net)) (sn_workers net p))"

definition score_inv :: "goal \<Rightarrow> score_type \<Rightarrow> score \<Rightarrow> semi_net \<Rightarrow> bool" where
  "score_inv g t d net \<longleftrightarrow> semi_inv net \<and> sn_kind net = t \<and> ct_goal (sn_center net) = g \<and>
     best_known g d net \<and>
     (\<forall>p. is_worker net p \<longrightarrow>
        scores_ok g t (ct_score (sn_center net)) (sn_workers net p) (sn_chans net Global_Score 0 p)
          (sn_chans net Global_Score p 0) \<and>
        results_ok (ct_phase (sn_center net)) (ct_best (sn_center net) ! nat p) (sn_workers net p) p
          (sn_chans net World p 0))"

lemma score_invD:
  assumes "score_inv g t d net"
  shows "semi_inv net" "sn_kind net = t" "ct_goal (sn_center net) = g" "best_known g d net"
    "is_worker net p \<Longrightarrow> scores_ok g t (ct_score (sn_center net)) (sn_workers net p)
       (sn_chans net Global_Score 0 p) (sn_chans net Global_Score p 0)"
    "is_worker net p \<Longrightarrow> results_ok (ct_phase (sn_center net)) (ct_best (sn_center net) ! nat p)
       (sn_workers net p) p (sn_chans net World p 0)"
  using assms by (simp_all add: score_inv_def)

lemma consumed_scores:
  assumes "ready p (semi_inputs e) ch"
  shows "ch Global_Score 0 p = map Score_Update (scores_taken e) @ consume p (semi_inputs e) ch Global_Score 0 p"
  using assms by (cases e) (auto simp: consume_apply ready_def takes_split split: option.splits)

lemma worker_step_score_inv:
  assumes inv: "score_inv g t d net" and p: "is_worker net p"
    and us: "user_ok (sn_runnables net) (sn_kind net) e" and en: "semi_enabled e (sn_workers net p)"
    and rd: "ready p (semi_inputs e) (sn_chans net)" and wt: "semi_waits p e net"
    and st: "semi_worker_step p e net = Inr net'"
  shows "score_inv g t d net'"
proof -
  note I = score_invD [OF inv]
  let ?c = "ct_score (sn_center net)" and ?h = "consume p (semi_inputs e) (sn_chans net)"
  from st obtain w' outs where ap: "semi_apply (sn_runnables net) p e (sn_workers net p) = Inr (w', outs)"
    and net': "net' = net\<lparr>sn_workers := (sn_workers net)(p := w'), sn_chans := post ?h p outs\<rparr>"
    by (cases "semi_apply (sn_runnables net) p e (sn_workers net p)") (auto simp: semi_worker_step_def)
  have p0: "p \<noteq> 0" using p by (auto simp: is_worker_def)
  have inv': "semi_inv net'" by (rule worker_step_inv [OF I(1) p us en rd st])
  note wok = semi_invD(2) [OF I(1) p]
  have "scores_ok g t ?c w' (?h Global_Score 0 p) (sn_chans net Global_Score p 0 @ sent_to Global_Score 0 outs) \<and>
      (holds_best g ?c (sn_workers net p) \<longrightarrow> holds_best g ?c w')"
    by (rule worker_scores [OF _ wok us [unfolded I(2)] en ap])
      (use I(5) [OF p] consumed_scores [OF rd] wt in auto)
  moreover have at0: "?h k s 0 = sn_chans net k s 0" for k s by (rule consumed(5) [OF rd]) (use p0 in simp)
  ultimately have sc: "scores_ok g t ?c w' (sn_chans net' Global_Score 0 p) (sn_chans net' Global_Score p 0)"
    and h: "holds_best g ?c (sn_workers net p) \<longrightarrow> holds_best g ?c w'"
    using p0 by (simp_all add: net' post_apply)
  have rs: "results_ok (ct_phase (sn_center net)) (ct_best (sn_center net) ! nat p) w' p (sn_chans net' World p 0)"
    using worker_results [OF I(6) [OF p] ap wok en] at0 by (simp add: net' post_apply)
  have other: "sn_chans net' k 0 q = sn_chans net k 0 q \<and> sn_chans net' k q 0 = sn_chans net k q 0"
    if "q \<noteq> p" for k q
    using that p0 at0 consumed(5) [OF rd, of q] by (simp add: net' post_apply)
  have "best_known g d net'"
    using I(4) h unfolding best_known_def net' by (auto intro: exI [of _ p])
  moreover have "scores_ok g t ?c (sn_workers net' q) (sn_chans net' Global_Score 0 q) (sn_chans net' Global_Score q 0) \<and>
      results_ok (ct_phase (sn_center net)) (ct_best (sn_center net) ! nat q) (sn_workers net' q) q (sn_chans net' World q 0)"
    if "is_worker net q" for q
    using sc rs I(5,6) [OF that] other [of q] by (cases "q = p") (simp_all add: net')
  ultimately show ?thesis using inv' I(2,3) by (simp add: score_inv_def net')
qed

text \<open>A step of the center that touches neither scores nor results.\<close>

lemma center_step_score_inv:
  assumes inv: "score_inv g t d net" and inv': "semi_inv net'" and src: "is_worker net src"
    and net': "net' = net\<lparr>sn_center := ct, sn_chans := post (discard (sn_chans net) World src 0 k) 0 outs\<rparr>"
    and same: "ct_goal ct = ct_goal (sn_center net)" "ct_score ct = ct_score (sn_center net)"
    and res: "\<And>p. is_worker net p \<Longrightarrow>
       results_ok (ct_phase ct) (ct_best ct ! nat p) (sn_workers net p) p (sn_chans net' World p 0)"
    and o: "\<And>p. is_worker net p \<Longrightarrow> sent_to Global_Score p outs = []"
  shows "score_inv g t d net'"
proof -
  note I = score_invD [OF inv]
  have "sn_chans net' Global_Score 0 q = sn_chans net Global_Score 0 q"
    "sn_chans net' Global_Score q 0 = sn_chans net Global_Score q 0" if "is_worker net q" for q
    using o [OF that] that by (auto simp: net' post_apply discard_apply is_worker_def)
  moreover have "best_known g d net'" using I(4) same by (simp add: best_known_def net')
  ultimately show ?thesis using I inv' same res by (simp add: score_inv_def net')
qed

lemma results_discard:
  assumes "ch World src 0 = ms @ l" and "results ms = []"
  shows "results (discard ch World src 0 (length ms) World p 0) = results (ch World p 0)"
  using assms by (simp add: discard_apply)

lemma results_kept:
  "results_ok ph best w p l \<Longrightarrow> results l' = results l \<Longrightarrow> collected ph' p = collected ph p \<Longrightarrow> results_ok ph' best w p l'"
  by (simp add: results_ok_def)

text \<open>What the handlers of the center leave alone.\<close>

lemma semi_lend_best: "semi_lend to lent c = Inr (c', outs) \<Longrightarrow> ct_best c' = ct_best c"
  by (auto simp: semi_lend_def)

lemma semi_release_best: "semi_release_node src c = Inr c' \<Longrightarrow> ct_best c' = ct_best c"
  by (auto simp: semi_release_node_def split: if_splits)

lemma process_running_best: "semi_process_running src c = Inr (c', outs) \<Longrightarrow> ct_best c' = ct_best c"
  by (auto simp: semi_process_running_def Let_def split: if_splits dest!: semi_lend_best semi_release_best)

lemma process_available_best: "semi_process_available k src c = Inr (c', outs) \<Longrightarrow> ct_best c' = ct_best c"
  by (auto simp: semi_process_available_def split: option.splits dest!: semi_lend_best semi_release_best)

lemma center_ack_best:
  "semi_center_ack src c = Inr (c', outs) \<Longrightarrow> ct_best c' = ct_best c \<and> ct_goal c' = ct_goal c \<and>
   ct_score c' = ct_score c \<and> (ct_phase c' = ct_phase c \<or> ct_phase c' = Collecting 1) \<and>
   (\<forall>p. sent_to Global_Score p outs = [])"
  by (auto simp: semi_center_ack_def Let_def semi_notify_termination_def sent_to_workers split: prod.splits if_splits)

lemma lends_global: "lends n c c' outs \<Longrightarrow> sent_to Global_Score p outs = []"
  by (fastforce simp: lends_def sent_to_def filter_empty_conv)

lemma lend_step_score_inv:
  assumes inv: "score_inv g t d net" and inv': "semi_inv net'" and src: "is_worker net src"
    and t: "takes (sn_chans net) World src 0 [m]" "\<not> is_result m"
    and st: "semi_center_step World src 1 (Inr (ct, outs)) net = Inr net'"
    and l: "same_core (sn_center net) ct" "lends n (sn_center net) ct outs" "ct_best ct = ct_best (sn_center net)"
  shows "score_inv g t d net'"
proof (rule center_step_score_inv [OF inv inv' src])
  show net': "net' = net\<lparr>sn_center := ct, sn_chans := post (discard (sn_chans net) World src 0 1) 0 outs\<rparr>"
    using st by (simp add: semi_center_step_def)
  show "ct_goal ct = ct_goal (sn_center net)" "ct_score ct = ct_score (sn_center net)"
    using l(1) by (simp_all add: same_core_def)
  show "sent_to Global_Score p outs = []" for p by (rule lends_global [OF l(2)])
  fix p assume p: "is_worker net p"
  from t obtain r where "sn_chans net World src 0 = [m] @ r" by (auto simp: takes_split)
  from results_discard [where ch = "sn_chans net" and src = src and p = p, OF this] t(2) p
  have "results (sn_chans net' World p 0) = results (sn_chans net World p 0)"
    by (auto simp: net' post_apply is_worker_def)
  then show "results_ok (ct_phase ct) (ct_best ct ! nat p) (sn_workers net p) p (sn_chans net' World p 0)"
    using results_kept [OF score_invD(6) [OF inv p]] l(1,3) by (simp add: same_core_def)
qed

lemma ack_step_score_inv:
  assumes inv: "score_inv g t d net" and inv': "semi_inv net'" and src: "is_worker net src"
    and ph: "ct_phase (sn_center net) = Looping" and t: "takes (sn_chans net) World src 0 [Task_Received]"
    and st: "semi_center_step World src 1 (semi_center_ack src (sn_center net)) net = Inr net'"
  shows "score_inv g t d net'"
proof -
  from center_ack_result(2) [OF score_invD(1) [OF inv] t] obtain ct outs where
    ap: "semi_center_ack src (sn_center net) = Inr (ct, outs)" by blast
  note B = center_ack_best [OF ap]
  show ?thesis
  proof (rule center_step_score_inv [OF inv inv' src])
    show net': "net' = net\<lparr>sn_center := ct, sn_chans := post (discard (sn_chans net) World src 0 1) 0 outs\<rparr>"
      using st ap by (simp add: semi_center_step_def)
    fix p assume p: "is_worker net p"
    from t obtain r where "sn_chans net World src 0 = [Task_Received] @ r" by (auto simp: takes_split)
    from results_discard [where ch = "sn_chans net" and src = src and p = p, OF this] p
    have "results (sn_chans net' World p 0) = results (sn_chans net World p 0)"
      by (auto simp: net' post_apply is_worker_def)
    moreover have "collected (ct_phase ct) p = collected (ct_phase (sn_center net)) p"
      using B ph p by (auto simp: is_worker_def)
    ultimately show "results_ok (ct_phase ct) (ct_best ct ! nat p) (sn_workers net p) p (sn_chans net' World p 0)"
      using results_kept [OF score_invD(6) [OF inv p]] B by simp
  qed (use B in simp_all)
qed

lemma proposal_worker:
  assumes ok: "scores_ok g t c w down up" and b: "better g s c" and s: "proper t s"
  shows "scores_ok g t s w (down @ [Score_Update s]) up"
proof -
  note S = scores_okD [OF ok]
  have nb: "\<not> better g x c \<Longrightarrow> \<not> better g x s" for x using b better_trans by blast
  have "proposals_ok g t s w up" using S(6) nb
    by (cases "fn_pc (sw_funnel w)") (auto simp: proposals_ok_def)
  then show ?thesis using S updates_add [OF S(4) s b] by (simp add: scores_ok_def)
qed

lemma proposal_taken:
  assumes ok: "scores_ok g t c w down (Score_Proposal s # up)" and nb: "\<not> better g s c"
  shows "scores_ok g t c w down up" "proper t s" "kept w" "\<not> better g s (local_score w)"
proof -
  note S = scores_okD [OF ok]
  have "proposals_ok g t c w up"
    using S(6) nb by (cases "fn_pc (sw_funnel w)") (auto simp: proposals_ok_def)
  then show "scores_ok g t c w down up" using S by (simp add: scores_ok_def)
  show "proper t s" "kept w" "\<not> better g s (local_score w)"
    using S(6) by (auto simp: proposals_ok_def)
qed

lemma proposal_step_score_inv:
  assumes inv: "score_inv g t d net" and inv': "semi_inv net'" and src: "is_worker net src"
    and tk: "takes (sn_chans net) Global_Score src 0 [Score_Proposal s]"
    and st: "semi_center_step Global_Score src 1 (Inr (semi_score_proposal s (sn_center net))) net = Inr net'"
  shows "score_inv g t d net'"
proof -
  note I = score_invD [OF inv]
  let ?c = "ct_score (sn_center net)" and ?ch = "sn_chans net"
  obtain ct outs where r: "semi_score_proposal s (sn_center net) = (ct, outs)" by (metis prod.exhaust)
  have net': "net' = net\<lparr>sn_center := ct, sn_chans := post (discard ?ch Global_Score src 0 1) 0 outs\<rparr>"
    using st r by (simp add: semi_center_step_def)
  from tk obtain l where l: "?ch Global_Score src 0 = Score_Proposal s # l" by (auto simp: takes_split)
  have src0: "src \<noteq> 0" using src by (auto simp: is_worker_def)
  have len: "length (ct_state (sn_center net)) = sn_size net"
    using semi_invD(1) [OF I(1)] by (simp add: center_ok_but_def)
  have same: "ct_goal ct = g" "ct_phase ct = ct_phase (sn_center net)" "ct_best ct = ct_best (sn_center net)"
    using r I(3) by (auto simp: semi_score_proposal_def Let_def split: if_splits)
  have up: "sn_chans net' Global_Score q 0 = (if q = src then l else ?ch Global_Score q 0)" if "is_worker net q" for q
    using that l by (auto simp: net' post_apply discard_apply is_worker_def)
  have w0: "sn_chans net' World q 0 = ?ch World q 0" if "is_worker net q" for q
    using that by (auto simp: net' post_apply discard_apply is_worker_def)
  have down: "sn_chans net' Global_Score 0 q = ?ch Global_Score 0 q @ sent_to Global_Score q outs"
    if "is_worker net q" for q
    using that src0 by (auto simp: net' post_apply discard_apply is_worker_def)
  have "(\<forall>q. is_worker net q \<longrightarrow> scores_ok g t (ct_score ct) (sn_workers net q)
      (sn_chans net' Global_Score 0 q) (sn_chans net' Global_Score q 0)) \<and> best_known g d net'"
  proof (cases "better g s ?c")
    case False
    then have ct: "ct_score ct = ?c" "outs = []"
      using r I(3) by (auto simp: semi_score_proposal_def Let_def should_broadcast_global_def better_def)
    have "scores_ok g t ?c (sn_workers net q) (sn_chans net' Global_Score 0 q) (sn_chans net' Global_Score q 0)"
      if q: "is_worker net q" for q
      using I(5) [OF q] proposal_taken(1) [OF _ False] up [OF q] down [OF q] l ct(2) by (cases "q = src") auto
    then show ?thesis using ct(1) I(4) by (simp add: best_known_def net')
  next
    case True
    then have ct: "ct_score ct = s" "outs = to_workers (ct_state (sn_center net)) (\<lambda>r. (Global_Score, r, Score_Update s))"
      using r I(3) by (auto simp: semi_score_proposal_def Let_def should_broadcast_global_def better_def)
    have S: "scores_ok g t ?c (sn_workers net src) (?ch Global_Score 0 src) (Score_Proposal s # l)"
      using I(5) [OF src] l by simp
    then have s: "proper t s" "kept (sn_workers net src)" "\<not> better g s (local_score (sn_workers net src))"
      by (auto simp: scores_ok_def proposals_ok_def)
    have "scores_ok g t s (sn_workers net q) (sn_chans net' Global_Score 0 q) (sn_chans net' Global_Score q 0)"
      if q: "is_worker net q" for q
    proof -
      have d: "sn_chans net' Global_Score 0 q = ?ch Global_Score 0 q @ [Score_Update s]"
        using down [OF q] q by (simp add: ct(2) sent_to_workers len is_worker_def)
      have "scores_ok g t s (sn_workers net q) (sn_chans net' Global_Score 0 q) (?ch Global_Score q 0)"
        unfolding d by (rule proposal_worker [OF I(5) [OF q] True s(1)])
      then show ?thesis
        using proposal_taken(1) [OF _ better_irrefl] up [OF q] l by (cases "q = src") auto
    qed
    moreover have "best_known g d net'" using s src by (auto simp: best_known_def net' ct(1) holds_best_def)
    ultimately show ?thesis using ct(1) by simp
  qed
  then show ?thesis
    using I inv' same w0 by (simp add: score_inv_def net')
qed

lemma collect_step_score_inv:
  assumes inv: "score_inv g t d net" and inv': "semi_inv net'" and ph: "ct_phase (sn_center net) = Collecting r"
    and tk: "takes (sn_chans net) World r 0 (m # (case ms of None \<Rightarrow> [] | Some s \<Rightarrow> [Has_Result_Score s]))"
    and ms: "ms \<noteq> None \<longleftrightarrow> (\<exists>p. m = Has_Result p)"
    and st: "semi_center_step World r (if ms = None then 1 else 2)
      (rbind (semi_collect r m ms (sn_center net)) quietly) net = Inr net'"
  shows "score_inv g t d net'"
proof -
  note I = score_invD [OF inv]
  let ?c = "sn_center net"
  from collect_result [OF I(1) ph tk ms] obtain ct where ap: "semi_collect r m ms ?c = Inr ct"
    and r: "is_worker net r" by blast
  let ?ms = "m # (case ms of None \<Rightarrow> [] | Some s \<Rightarrow> [Has_Result_Score s])"
  have len: "(if ms = None then 1 else 2) = length ?ms" by (cases ms) simp_all
  have net': "net' = net\<lparr>sn_center := ct, sn_chans := post (discard (sn_chans net) World r 0 (length ?ms)) 0 []\<rparr>"
    using st ap len by (simp add: semi_center_step_def quietly_def)
  from tk obtain l where l: "sn_chans net World r 0 = ?ms @ l" by (auto simp: takes_split)
  have n: "length (ct_state ?c) = sn_size net" "length (ct_best ?c) = sn_size net"
    using semi_invD(1) [OF I(1)] by (simp_all add: center_ok_but_def)
  have rs: "sn_chans net' World p 0 = (if p = r then l else sn_chans net World p 0)" if "is_worker net p" for p
    using that l by (auto simp: net' post_apply discard_apply is_worker_def)
  have R: "ct_best ?c ! nat r = result_EMPTY" "results (?ms @ l) =
      (if fn_pc (sw_funnel (sn_workers net r)) = Exited then report_msgs (sw_nm (sn_workers net r)) else [])"
    using I(6) [OF r] ph l by (simp_all add: results_ok_def)
  note RC = report_msgs_cases [of "sw_nm (sn_workers net r)"]
  consider (result) q s b where "m = Has_Result q" "ms = Some s"
      "vec_set (ct_best ?c) r \<lparr>result_score = s, result_packet = q\<rparr> = Inr b" "ct = next_rank r (?c\<lparr>ct_best := b\<rparr>)"
    | (none) "m = No_Result" "ct = next_rank r ?c"
    | (state) "m = Running_State \<or> m = Available_State" "ct = ct_count_message (ct_count_request ?c)"
    using semi_collect_cases [OF ap] by blast
  note which = this
  have "ct_goal ct = ct_goal ?c \<and> ct_score ct = ct_score ?c \<and> (\<forall>p. is_worker net p \<longrightarrow>
      results_ok (ct_phase ct) (ct_best ct ! nat p) (sn_workers net p) p (sn_chans net' World p 0))"
    using which
  proof cases
    case (result q s b)
    note h = result(1-3) and ct = result(4)
    have b: "b = (ct_best ?c)[nat r := \<lparr>result_score = s, result_packet = q\<rparr>]"
      using h(3) by (auto simp: vec_set_def split: if_splits)
    have x: "fn_pc (sw_funnel (sn_workers net r)) = Exited" "results l = []"
      "report (sw_nm (sn_workers net r)) = \<lparr>result_score = s, result_packet = q\<rparr>"
      using R(2) RC h by (auto split: if_splits)
    have "results_ok (ct_phase ct) (ct_best ct ! nat p) (sn_workers net p) p (sn_chans net' World p 0)"
      if p: "is_worker net p" for p
    proof (cases "p = r")
      case True
      then show ?thesis using x rs [OF p] r n by (simp add: results_ok_def ct b next_rank_def is_worker_def nat_less_iff)
    next
      case False
      then have "ct_best ct ! nat p = ct_best ?c ! nat p" "collected (ct_phase ct) p = collected (ct_phase ?c) p"
        using p r n ph by (auto simp: ct b next_rank_def is_worker_def)
      then show ?thesis using I(6) [OF p] rs [OF p] False by (simp add: results_ok_def)
    qed
    then show ?thesis by (simp add: ct next_rank_def)
  next
    case none
    note m = none(1) and ct = none(2)
    then have "ms = None" using ms by auto
    then have x: "fn_pc (sw_funnel (sn_workers net r)) = Exited" "results l = []"
      "report (sw_nm (sn_workers net r)) = result_EMPTY"
      using R(2) RC m by (auto split: if_splits)
    have "results_ok (ct_phase ct) (ct_best ct ! nat p) (sn_workers net p) p (sn_chans net' World p 0)"
      if p: "is_worker net p" for p
    proof (cases "p = r")
      case True
      then show ?thesis using x rs [OF p] r n R(1) by (simp add: results_ok_def ct next_rank_def is_worker_def)
    next
      case False
      then have "ct_best ct = ct_best ?c" "collected (ct_phase ct) p = collected (ct_phase ?c) p"
        using p r n ph by (auto simp: ct next_rank_def is_worker_def)
      then show ?thesis using I(6) [OF p] rs [OF p] False by (simp add: results_ok_def)
    qed
    then show ?thesis by (simp add: ct next_rank_def)
  next
    case state
    note m = state(1) and ct = state(2)
    then have "ms = None" using ms by auto
    then have "results l = results (?ms @ l)" using m by auto
    then have "results (sn_chans net' World p 0) = results (sn_chans net World p 0)" if "is_worker net p" for p
      using rs [OF that] l by simp
    note same = results_kept [OF I(6) this refl]
    show ?thesis using same by (simp add: ct)
  qed
  then show ?thesis
    by (intro center_step_score_inv [OF inv inv' r net']) simp_all
qed

lemma semi_step_score_inv:
  assumes inv: "score_inv g t d net" and st: "semi_step net (Inr net')"
  shows "score_inv g t d net'"
proof -
  note I = score_invD(1) [OF inv]
  have inv': "semi_inv net'" by (rule semi_step_inv [OF I st])
  from st show ?thesis
  proof cases
    case (worker p e)
    show ?thesis by (rule worker_step_score_inv [OF inv worker(2-6)]) (use worker(1) in simp)
  next
    case (running src)
    then have src: "1 \<le> src" "src < int (sn_size net)" by (simp_all add: is_worker_def)
    from process_running_ok [OF semi_invD(1) [OF I] src] obtain ct outs where
      r: "semi_process_running src (sn_center net) = Inr (ct, outs)"
        "same_core (sn_center net) ct" "lends (sn_size net) (sn_center net) ct outs" by blast
    show ?thesis
      by (rule lend_step_score_inv [OF inv inv' running(2,4) _ _ r(2,3) process_running_best [OF r(1)]])
        (use running(1) r(1) in simp_all)
  next
    case (available src offset)
    then have src: "1 \<le> src" "src < int (sn_size net)" by (simp_all add: is_worker_def)
    from process_available_ok [OF semi_invD(1) [OF I] src, of offset] obtain ct outs where
      r: "semi_process_available offset src (sn_center net) = Inr (ct, outs)"
        "same_core (sn_center net) ct" "lends (sn_size net) (sn_center net) ct outs" by blast
    show ?thesis
      by (rule lend_step_score_inv [OF inv inv' available(2,4) _ _ r(2,3) process_available_best [OF r(1)]])
        (use available(1) r(1) in simp_all)
  next
    case (proposal src s)
    show ?thesis by (rule proposal_step_score_inv [OF inv inv' proposal(2,4)]) (use proposal(1) in simp)
  next
    case (ack src)
    show ?thesis by (rule ack_step_score_inv [OF inv inv' ack(2,3,4)]) (use ack(1) in simp)
  next
    case (collect r m ms)
    show ?thesis by (rule collect_step_score_inv [OF inv inv' collect(2,4,5)]) (use collect(1) in simp)
  qed
qed

lemma fval_order_Unordered: "fval_order x y = Unordered \<longleftrightarrow> x = NaN \<or> y = NaN"
  by (cases "(x, y)" rule: fval_order.cases) (auto simp: int_order_def)

lemma not_better_eq:
  assumes "proper t a" and "proper t b" and "\<not> better g a b" and "\<not> better g b a"
  shows "score_eq a b"
proof -
  have "score_order a b \<noteq> Less" "score_order a b \<noteq> Greater" "score_order a b \<noteq> Unordered"
    using assms
    by (cases g; auto simp: better_value proper_def is_nan_def score_order_value fval_order_Less fval_order_Greater
        is_number_def f_below_def fval_order_Unordered)+
  then show ?thesis using assms(1,2)
    by (cases "score_order a b") (simp_all add: score_eq_order proper_def)
qed

lemma default_proper: "get_default_score g t = Inr d \<Longrightarrow> proper t d"
  by (cases t; cases g)
    (auto simp: proper_def is_nan_def ieee_def x87_def Let_def simp del: make_score.simps)

lemma semi_start_score_inv:
  assumes st: "semi_start n rs g t seed fid = Inr net" and fid: "fid \<in> set rs" and n: "2 \<le> n" "n \<le> 2 ^ 30"
  shows "\<exists>d. get_default_score g t = Inr d \<and> score_inv g t d net"
proof -
  note S = semi_start_inv [OF st fid n]
  define d where "d = ct_score (sn_center net)"
  note S = S [folded d_def]
  from semi_start_ok [OF n, of seed fid g d] obtain c outs where
    c: "semi_center_start seed fid (semi_center_init n g d) =
      Inr (c, outs @ [(World, 1, Task seed), (World, 1, Runnable_Id fid)])"
      "lends n (semi_center_init n g d) c outs" "ct_phase c = Looping" "ct_best c = replicate n result_EMPTY"
    by blast
  have net: "sn_center net = c" "sn_kind net = t"
    "sn_chans net = post no_messages 0 (outs @ [(World, 1, Task seed), (World, 1, Runnable_Id fid)])"
    using st S(6) c(1) by (auto simp: semi_start_def)
  have cs: "ct_score c = d" using d_def net(1) by simp
  have d: "proper t d" by (rule default_proper [OF S(6)])
  have w: "scores_ok g t d (sn_workers net p) (sn_chans net Global_Score 0 p) (sn_chans net Global_Score p 0) \<and>
      results_ok (ct_phase c) (ct_best c ! nat p) (sn_workers net p) p (sn_chans net World p 0)"
    if p: "is_worker net p" for p
  proof -
    have ch: "sn_chans net Global_Score 0 p = []" "sn_chans net Global_Score p 0 = []" "sn_chans net World p 0 = []"
      using p lends_global [OF c(2), of p] by (simp_all add: net(3) post_apply is_worker_def)
    have b: "ct_best c ! nat p = result_EMPTY" using p S(2) c(4) by (simp add: is_worker_def nat_less_iff)
    show ?thesis
      unfolding ch b S(4) c(3)
      using d better_irrefl
      by (simp add: scores_ok_def updates_ok_def proposals_ok_def results_ok_def semi_worker_init_def new_funnel_def)
  qed
  have "score_inv g t d net"
    using S(1,5) w net(1,2) cs by (simp add: score_inv_def best_known_def)
  then show ?thesis using S(6) by blast
qed

lemma semi_reachable_score_inv:
  assumes "semi_reachable n rs g t net" and n: "2 \<le> n" "n \<le> 2 ^ 30"
  shows "\<exists>d. get_default_score g t = Inr d \<and> score_inv g t d net"
  using assms(1)
proof induction
  case (start seed fid net)
  then show ?case using semi_start_score_inv [OF _ _ n] by blast
next
  case (step net net')
  then show ?case using semi_step_score_inv by blast
qed

section \<open>Properties of the outcome\<close>

text \<open>C7: No score is lost: when the center has left its loop, no worker knows a score better than the
  global one, whatever the order in which proposals and updates crossed each other.\<close>

theorem semi_no_score_lost:
  assumes "semi_reachable n rs g t net" and "2 \<le> n" and "n \<le> 2 ^ 30"
    and "ct_phase (sn_center net) \<noteq> Looping" and "is_worker net p"
  shows "\<not> better g (nm_score (sw_nm (sn_workers net p))) (ct_score (sn_center net))"
proof -
  from semi_reachable_score_inv [OF assms(1-3)] obtain d where I: "score_inv g t d net" by blast
  have "\<not> fn_busy (fn_pc (sw_funnel (sn_workers net p)))"
    by (rule stopped_quiet(4) [OF score_invD(1) [OF I] assms(4,5)])
  then show ?thesis by (rule scores_okD(7) [OF score_invD(5) [OF I assms(5)]])
qed

definition one_result :: "semi_move list" where
  "one_result = [Move 1 (Recv_Task 0 (Task_Packet [1]) 7), Center_Running 1,
     Move 1 (Offer (Task_Packet [9]) (make_score (NI32 5))), Move 1 Pool_Done, Move 1 Enter,
     Move 1 (Poll None None), Center_Proposal 1, Move 1 Resume, Move 1 Pop, Move 1 Check, Move 1 Recheck,
     Move 1 Leave, Center_Proposal 1, Move 1 Resume_Last, Center_Available 0 1, Center_Ack 1,
     Move 1 (Recv_Termination 1 0), Move 1 (Drain_Score (make_score (NI32 5))), Move 1 Drained,
     Move 1 (Exit 0 0), Center_Collect]"

lemma one_result_played:
  "\<exists>net. semi_play 2 [7] MAXIMISE I32 (Task_Packet [1]) 7 one_result = Some net \<and>
     ct_phase (sn_center net) = Finished \<and> ct_score (sn_center net) = make_score (NI32 5) \<and>
     fetch_solution (sn_center net) = Task_Packet [9]"
proof -
  have "map_option (\<lambda>n. (ct_phase (sn_center n), ct_score (sn_center n), fetch_solution (sn_center n)))
      (semi_play 2 [7] MAXIMISE I32 (Task_Packet [1]) 7 one_result) =
      Some (Finished, make_score (NI32 5), Task_Packet [9])" by code_simp
  then show ?thesis by (auto simp: map_option_case split: option.splits)
qed

lemma semi_no_score_lost_witness:
  "\<exists>net. semi_play 2 [7] MAXIMISE I32 (Task_Packet [1]) 7 one_result = Some net \<and>
     \<not> better MAXIMISE (nm_score (sw_nm (sn_workers net 1))) (make_score (NI32 5))"
proof -
  from one_result_played obtain net where
    p: "semi_play 2 [7] MAXIMISE I32 (Task_Packet [1]) 7 one_result = Some net"
      "ct_phase (sn_center net) = Finished" "ct_score (sn_center net) = make_score (NI32 5)" by blast
  have r: "semi_reachable 2 [7] MAXIMISE I32 net" by (rule semi_play_reachable [OF p(1)]) simp
  have "is_worker net 1" using semi_reachable_inv [OF r] by (simp add: is_worker_def)
  from semi_no_score_lost [OF r _ _ _ this] p show ?thesis by simp
qed

text \<open>C8: And the result is not lost either: when the solutions are collected and the search improved on
  its default score, \<open>fetch_solution\<close> is the result of a worker whose score equals the global one, and
  that score is one no worker improves on. The exception is a global score of \<open>-1\<close>, the score of the
  empty result.\<close>

theorem semi_solution_fetched:
  assumes "semi_reachable n rs g t net" and "2 \<le> n" and "n \<le> 2 ^ 30"
    and "ct_phase (sn_center net) = Finished" and "get_default_score g t \<noteq> Inr (ct_score (sn_center net))"
    and "\<not> score_eq (make_score (NI32 (-1))) (ct_score (sn_center net))"
  shows "\<exists>p. is_worker net p \<and>
    nm_result (sw_nm (sn_workers net p)) = Stored_Packet (fetch_solution (sn_center net)) \<and>
    \<not> packet_empty (fetch_solution (sn_center net)) \<and>
    score_eq (nm_score (sw_nm (sn_workers net p))) (ct_score (sn_center net))"
proof -
  from semi_reachable_score_inv [OF assms(1-3)] obtain d where
    d: "get_default_score g t = Inr d" and I: "score_inv g t d net" by blast
  let ?c = "sn_center net"
  note D = score_invD [OF I]
  have len: "length (ct_state ?c) = sn_size net"
    using semi_invD(1) [OF D(1)] by (simp add: center_ok_but_def)
  have best: "ct_best ?c ! nat p = report (sw_nm (sn_workers net p))" if "is_worker net p" for p
    using D(6) [OF that] assms(4) by (simp add: results_ok_def)
  have "ct_score ?c \<noteq> d" using assms(5) d by auto
  then obtain p where p: "is_worker net p" "holds_best g (ct_score ?c) (sn_workers net p)"
    using D(4) by (auto simp: best_known_def)
  let ?s = "nm_score (sw_nm (sn_workers net p))"
  have nb: "\<not> better g ?s (ct_score ?c)"
    by (rule scores_okD(7) [OF D(5) [OF p(1)]]) (use stopped_quiet(4) [OF D(1) _ p(1)] assms(4) in simp)
  have pr: "proper t ?s" "proper t (ct_score ?c)"
    using scores_okD(3,4) [OF D(5) [OF p(1)]] updates_okD by blast+
  have eq: "score_eq ?s (ct_score ?c)"
    using nb p(2) pr by (auto simp: holds_best_def intro: not_better_eq)
  have rep: "result_score (report (sw_nm (sn_workers net p))) = ?s"
    using p(2) by (simp add: holds_best_def kept_def report_def get_result_bytes_def split: stored.splits)
  have "List.find (\<lambda>r. score_eq (result_score (ct_best ?c ! nat r)) (ct_score ?c)) (ranks_from_1 (ct_state ?c)) \<noteq> None"
    unfolding find_None_iff using eq rep best [OF p(1)] p(1) len
    by (auto simp: ranks_from_1_mem is_worker_def)
  then obtain r where r: "List.find (\<lambda>r. score_eq (result_score (ct_best ?c ! nat r)) (ct_score ?c))
      (ranks_from_1 (ct_state ?c)) = Some r" by blast
  then have rw: "is_worker net r" and re: "score_eq (result_score (ct_best ?c ! nat r)) (ct_score ?c)"
    using find_SomeD [OF r] len by (auto simp: ranks_from_1_mem is_worker_def)
  have f: "fetch_solution ?c = result_packet (report (sw_nm (sn_workers net r)))"
    using r best [OF rw] by (simp add: fetch_solution_def)
  have "report (sw_nm (sn_workers net r)) \<noteq> result_EMPTY"
    using re best [OF rw] assms(6) by (auto simp: result_EMPTY_def)
  then have "nm_result (sw_nm (sn_workers net r)) = Stored_Packet (result_packet (report (sw_nm (sn_workers net r)))) \<and>
      \<not> packet_empty (result_packet (report (sw_nm (sn_workers net r)))) \<and>
      result_score (report (sw_nm (sn_workers net r))) = nm_score (sw_nm (sn_workers net r))"
    by (auto simp: report_def get_result_bytes_def split: stored.splits if_splits)
  then show ?thesis using rw re best [OF rw] f by auto
qed

lemma semi_solution_fetched_witness:
  "\<exists>net. semi_play 2 [7] MAXIMISE I32 (Task_Packet [1]) 7 one_result = Some net \<and>
     fetch_solution (sn_center net) = Task_Packet [9] \<and>
     (\<exists>p. is_worker net p \<and> nm_result (sw_nm (sn_workers net p)) = Stored_Packet (Task_Packet [9]))"
proof -
  from one_result_played obtain net where
    p: "semi_play 2 [7] MAXIMISE I32 (Task_Packet [1]) 7 one_result = Some net"
      "ct_phase (sn_center net) = Finished" "ct_score (sn_center net) = make_score (NI32 5)"
      "fetch_solution (sn_center net) = Task_Packet [9]" by blast
  have r: "semi_reachable 2 [7] MAXIMISE I32 net" by (rule semi_play_reachable [OF p(1)]) simp
  have d: "get_default_score MAXIMISE I32 \<noteq> Inr (ct_score (sn_center net))"
    "\<not> score_eq (make_score (NI32 (-1))) (ct_score (sn_center net))"
    unfolding p(3) by (simp_all add: score_eq_def del: make_score.simps)
  from semi_solution_fetched [OF r _ _ p(2) d] p show ?thesis by auto
qed

section \<open>A score of minus one\<close>

text \<open>
  A run of three ranks in which worker 1 only passes a task on and worker 2, which runs it, finds the
  packet \<open>[9]\<close> with the score \<open>v\<close>.
\<close>

definition score_32 :: "32 word \<Rightarrow> score" where
  "score_32 v = make_score (NI32 v)"

definition passed_on :: "32 word \<Rightarrow> semi_move list" where
  "passed_on v = [Move 1 (Recv_Next [2]), Move 1 (Recv_Task 0 (Task_Packet [1]) 7), Move 1 Enter,
     Move 1 (Poll None None), Move 1 (Push (Task_Packet [2]) 7), Move 1 Pop,
     Move 1 (Send_Task \<lparr>bundle_packet = Task_Packet [2], bundle_runnable_id = 7\<rparr>), Move 1 (Poll None None),
     Move 1 Pool_Done, Move 1 Pop, Move 1 Check, Move 1 Recheck, Move 1 Leave,
     Move 2 (Recv_Task 1 (Task_Packet [2]) 7), Move 2 (Offer (Task_Packet [9]) (score_32 v)), Move 2 Pool_Done,
     Move 2 Enter, Move 2 (Poll None None), Center_Proposal 2, Move 2 Resume, Move 2 Pop, Move 2 Check,
     Move 2 Recheck, Move 2 Leave, Center_Proposal 2, Move 2 Resume_Last,
     Center_Running 1, Center_Available 0 1, Center_Running 2, Center_Available 0 2, Move 1 (Recv_Ack 2), Center_Ack 1,
     Move 1 (Recv_Termination 1 1), Move 1 (Drain_Score (score_32 v)), Move 1 Drained,
     Move 2 (Recv_Termination 1 1), Move 2 (Drain_Score (score_32 v)), Move 2 (Drain_Next [1]), Move 2 Drained,
     Move 1 (Exit 0 0), Move 2 (Exit 0 0), Center_Collect, Center_Collect]"

definition passed_on_net :: "32 word \<Rightarrow> semi_net option" where
  "passed_on_net v = semi_play 3 [7] MAXIMISE I32 (Task_Packet [1]) 7 (passed_on v)"

text \<open>C38: A solution whose score is \<open>-1\<close> can be lost: there is a complete run of three ranks in which
  worker 2 finds a packet with the score \<open>-1\<close>, which improves on the default score, becomes the global
  score and arrives at the center with its packet, and yet \<open>fetch_solution\<close> returns the empty packet:
  it compares scores only, and the slot of worker 1, which reported nothing, holds the empty result,
  whose score is \<open>-1\<close> too. The same run with the score \<open>-2\<close> returns the packet.\<close>

theorem solution_minus_one_lost:
  "\<exists>lost kept. passed_on_net (-1) = Some lost \<and> passed_on_net (-2) = Some kept \<and>
     semi_reachable 3 [7] MAXIMISE I32 lost \<and> ct_phase (sn_center lost) = Finished \<and>
     ct_score (sn_center lost) = score_32 (-1) \<and>
     ct_best (sn_center lost) ! 2 = \<lparr>result_score = score_32 (-1), result_packet = Task_Packet [9]\<rparr> \<and>
     better MAXIMISE (score_32 (-1)) (score_32 0x80000000) \<and>
     get_default_score MAXIMISE I32 = Inr (score_32 0x80000000) \<and>
     fetch_solution (sn_center lost) = packet_EMPTY \<and>
     ct_phase (sn_center kept) = Finished \<and> fetch_solution (sn_center kept) = Task_Packet [9]"
proof -
  have "map_option (\<lambda>n. (ct_phase (sn_center n), ct_score (sn_center n), ct_best (sn_center n) ! 2,
      fetch_solution (sn_center n))) (passed_on_net (-1)) =
    Some (Finished, score_32 (-1), \<lparr>result_score = score_32 (-1), result_packet = Task_Packet [9]\<rparr>, packet_EMPTY)"
    by code_simp
  then obtain lost where l: "passed_on_net (-1) = Some lost" "ct_phase (sn_center lost) = Finished"
    "ct_score (sn_center lost) = score_32 (-1)"
    "ct_best (sn_center lost) ! 2 = \<lparr>result_score = score_32 (-1), result_packet = Task_Packet [9]\<rparr>"
    "fetch_solution (sn_center lost) = packet_EMPTY"
    by (auto simp: map_option_case split: option.splits)
  have "map_option (\<lambda>n. (ct_phase (sn_center n), fetch_solution (sn_center n))) (passed_on_net (-2)) =
    Some (Finished, Task_Packet [9])" by code_simp
  then obtain kept where k: "passed_on_net (-2) = Some kept" "ct_phase (sn_center kept) = Finished"
    "fetch_solution (sn_center kept) = Task_Packet [9]"
    by (auto simp: map_option_case split: option.splits)
  have "semi_reachable 3 [7] MAXIMISE I32 lost"
    using semi_play_reachable [OF l(1) [unfolded passed_on_net_def]] by simp
  moreover have "better MAXIMISE (score_32 (-1)) (score_32 0x80000000)" by code_simp
  moreover have "get_default_score MAXIMISE I32 = Inr (score_32 0x80000000)"
    by (simp add: score_32_def del: make_score.simps)
  ultimately show ?thesis using l k by (intro exI [of _ lost] exI [of _ kept] conjI)
qed

end
