(* ===== verification/Detector_View.thy ===== *)
theory Detector_View
  imports Semi_Network
begin

text \<open>
  A run seen through its termination detectors: \<open>ds_shows n D act ch\<close> says that the detectors \<open>D\<close>, the
  ranks at work \<open>act\<close> and the task messages and acknowledgements on the channels \<open>ch\<close> are those of some
  reachable state of \<open>Dijkstra_Scholten\<close>. The lemmas are the moves of that system, on channels.
\<close>

definition ds_seen :: "int \<Rightarrow> (rank \<Rightarrow> detector) \<Rightarrow> (rank \<Rightarrow> bool) \<Rightarrow> chans \<Rightarrow> ds \<Rightarrow> bool" where
  "ds_seen n D act ch a \<longleftrightarrow> ds_world a = n \<and> ds_dets a = D \<and> ds_active a = act \<and>
     (\<forall>p q. count (ds_tasks a) (p, q) = how_many is_task (ch World p q)) \<and>
     (\<forall>p q. count (ds_acks a) (p, q) = how_many is_ack (ch World p q))"

definition ds_shows :: "int \<Rightarrow> (rank \<Rightarrow> detector) \<Rightarrow> (rank \<Rightarrow> bool) \<Rightarrow> chans \<Rightarrow> bool" where
  "ds_shows n D act ch \<longleftrightarrow> (\<exists>a. ds_reachable n a \<and> ds_seen n D act ch a)"

lemma ds_seenD:
  assumes "ds_seen n D act ch a"
  shows "ds_world a = n" "ds_dets a = D" "ds_active a = act"
    "count (ds_tasks a) (p, q) = how_many is_task (ch World p q)"
    "count (ds_acks a) (p, q) = how_many is_ack (ch World p q)"
  using assms by (simp_all add: ds_seen_def)

lemma ds_showsI: "ds_reachable n a \<Longrightarrow> ds_step a b \<Longrightarrow> ds_seen n D act ch b \<Longrightarrow> ds_shows n D act ch"
  unfolding ds_shows_def using ds_reachable.step by blast

lemma ds_seenI:
  assumes "ds_world b = n" "ds_dets b = D" "ds_active b = act"
    "\<And>p q. count (ds_tasks b) (p, q) = how_many is_task (ch World p q)"
    "\<And>p q. count (ds_acks b) (p, q) = how_many is_ack (ch World p q)"
  shows "ds_seen n D act ch b"
  using assms by (simp add: ds_seen_def)

lemma seen_task:
  assumes "ds_seen n D act ch a" and "ch World p q = m # l" and "is_task m"
  shows "(p, q) \<in># ds_tasks a"
proof -
  have "0 < count (ds_tasks a) (p, q)" using ds_seenD(4) [OF assms(1), of p q] assms(2,3) by simp
  then show ?thesis by (simp only: count_greater_zero_iff)
qed

lemma seen_ack:
  assumes "ds_seen n D act ch a" and "ch World p q = Task_Received # l"
  shows "(p, q) \<in># ds_acks a"
proof -
  have "0 < count (ds_acks a) (p, q)" using ds_seenD(5) [OF assms(1), of p q] assms(2) by simp
  then show ?thesis by (simp only: count_greater_zero_iff)
qed

section \<open>The moves\<close>

lemma shows_cong:
  assumes "ds_shows n D act ch"
    and "\<And>p q. how_many is_task (ch' World p q) = how_many is_task (ch World p q)"
    and "\<And>p q. how_many is_ack (ch' World p q) = how_many is_ack (ch World p q)"
  shows "ds_shows n D act ch'"
  using assms unfolding ds_shows_def ds_seen_def by simp

lemma shows_quiet:
  "ds_shows n D act ch \<Longrightarrow> quiet_outs outs \<Longrightarrow> ds_shows n D act (post ch p outs)"
  by (erule shows_cong) (simp_all add: post_apply quiet_sent)

lemma shows_discard:
  assumes "ds_shows n D act ch" and "ch c s d = ms @ l" and "k = length ms"
    and "c = World \<Longrightarrow> how_many is_task ms = 0 \<and> how_many is_ack ms = 0"
  shows "ds_shows n D act (discard ch c s d k)"
proof (rule shows_cong [OF assms(1)])
  fix p q
  show "how_many is_task (discard ch c s d k World p q) = how_many is_task (ch World p q)"
    "how_many is_ack (discard ch c s d k World p q) = how_many is_ack (ch World p q)"
    using assms(2-4) by (auto simp: discard_apply)
qed

lemma shows_send:
  assumes v: "ds_shows n D act ch" and act: "act p" and p: "in_world n p" and q: "in_world n q" and k: "is_task k"
  shows "ds_shows n (D(p := on_task_sent (D p))) act (post ch p [(World, q, k), (World, q, Runnable_Id i)])"
proof -
  from v obtain a where r1: "ds_reachable n a" and a: "ds_seen n D act ch a" by (auto simp: ds_shows_def)
  note A = ds_seenD [OF a]
  have st: "ds_step a (ds_send a p q)" by (rule ds_step.send) (use A act p q in simp_all)
  have na: "\<not> is_ack k" using k by (cases k) simp_all
  show ?thesis
    by (rule ds_showsI [OF r1 st], rule ds_seenI) (use A k na in \<open>simp_all add: ds_send_def post_apply\<close>)
qed

lemma shows_receive:
  assumes v: "ds_shows n D act ch" and ch: "ch World s p = k # Runnable_Id i # l" and k: "is_task k"
    and r: "on_task_received (D p) s = (d, r)" and o: "quiet_outs outs"
  shows "ds_shows n (D(p := d)) (act(p := True)) (post (discard ch World s p 2) p (ack_to r @ outs))"
proof -
  from v obtain a where r1: "ds_reachable n a" and a: "ds_seen n D act ch a" by (auto simp: ds_shows_def)
  note A = ds_seenD [OF a]
  have st: "ds_step a (ds_receive a s p)"
    by (rule ds_step.receive [OF seen_task [OF a ch k]])
  have rc: "ds_receive a s p = a\<lparr>ds_dets := D(p := d), ds_active := act(p := True),
      ds_tasks := ds_tasks a - {#(s, p)#}, ds_acks := ds_acks a + ack_out p r\<rparr>"
    using A(1-3) r by (simp add: ds_receive_def)
  have na: "\<not> is_ack k" using k by (cases k) simp_all
  show ?thesis
  proof (rule ds_showsI [OF r1 st], rule ds_seenI)
    fix x y
    show "count (ds_tasks (ds_receive a s p)) (x, y) =
        how_many is_task (post (discard ch World s p 2) p (ack_to r @ outs) World x y)"
      using A(4) [of x y] ch k quiet_sent [OF o]
      by (auto simp: rc post_apply discard_apply ack_count)
    show "count (ds_acks (ds_receive a s p)) (x, y) =
        how_many is_ack (post (discard ch World s p 2) p (ack_to r @ outs) World x y)"
      using A(5) [of x y] ch na quiet_sent [OF o]
      by (auto simp: rc post_apply discard_apply ack_count)
  qed (use A(1-3) in \<open>simp_all add: rc\<close>)
qed

lemma shows_finish:
  assumes v: "ds_shows n D act ch" and act: "act p" and p: "in_world n p"
    and r: "on_passive (D p) = (d, r)" and o: "quiet_outs outs"
  shows "ds_shows n (D(p := d)) (act(p := False)) (post ch p (outs @ ack_to r))"
proof -
  from v obtain a where r1: "ds_reachable n a" and a: "ds_seen n D act ch a" by (auto simp: ds_shows_def)
  note A = ds_seenD [OF a]
  have st: "ds_step a (ds_finish a p)" by (rule ds_step.finish) (use A act p in simp_all)
  have rc: "ds_finish a p = a\<lparr>ds_active := act(p := False), ds_dets := D(p := d), ds_acks := ds_acks a + ack_out p r\<rparr>"
    using A(1-3) r by (simp add: ds_finish_def ds_passive_def)
  show ?thesis
    by (rule ds_showsI [OF r1 st], rule ds_seenI) (use A quiet_sent [OF o] in \<open>simp_all add: rc post_apply ack_count\<close>)
qed

lemma shows_ack:
  assumes v: "ds_shows n D act ch" and ch: "ch World s p = Task_Received # l" and idle: "\<not> act p \<or> p = 0"
    and r: "on_passive (fst (on_ack_received (D p))) = (d, r)"
  shows "ds_shows n (D(p := d)) act (post (discard ch World s p 1) p (ack_to r))"
proof -
  from v obtain a where r1: "ds_reachable n a" and a: "ds_seen n D act ch a" by (auto simp: ds_shows_def)
  note A = ds_seenD [OF a]
  have st: "ds_step a (ds_ack a s p)"
    by (rule ds_step.ack [OF seen_ack [OF a ch]]) (use idle A(3) in simp)
  have rc: "ds_ack a s p = a\<lparr>ds_dets := D(p := d), ds_acks := ds_acks a - {#(s, p)#} + ack_out p r\<rparr>"
    using A(1-3) r by (simp add: ds_ack_def ds_take_ack_def ds_passive_def)
  show ?thesis
  proof (rule ds_showsI [OF r1 st], rule ds_seenI)
    fix x y
    show "count (ds_tasks (ds_ack a s p)) (x, y) = how_many is_task (post (discard ch World s p 1) p (ack_to r) World x y)"
      using A(4) [of x y] ch by (auto simp: rc post_apply discard_apply ack_count)
    show "count (ds_acks (ds_ack a s p)) (x, y) = how_many is_ack (post (discard ch World s p 1) p (ack_to r) World x y)"
      using A(5) [of x y] ch by (auto simp: rc post_apply discard_apply ack_count)
  qed (use A(1-3) in \<open>simp_all add: rc\<close>)
qed

section \<open>What the detectors say\<close>

lemma shows_inv: "ds_shows n D act ch \<Longrightarrow> 0 < n \<Longrightarrow> \<exists>a. ds_inv a \<and> ds_seen n D act ch a"
  unfolding ds_shows_def using ds_reachable_inv by blast

lemma shows_ack_expected:
  assumes "ds_shows n D act ch" and "0 < n" and "ch World s p = Task_Received # l"
  shows "0 < td_deficit (D p)"
proof -
  from shows_inv [OF assms(1,2)] obtain a where a: "ds_inv a" "ds_seen n D act ch a" by blast
  have "(s, p) \<in># ds_acks a" by (rule seen_ack [OF a(2) assms(3)])
  from ds_ack_expected(1) [OF a(1) this] show ?thesis using ds_seenD(2) [OF a(2)] by simp
qed

lemma shows_root:
  assumes "ds_shows n D act ch" and "0 < n"
  shows "td_parent (D 0) = NO_PARENT" "td_is_root (D 0)"
proof -
  from shows_inv [OF assms] obtain a where a: "ds_inv a" "ds_seen n D act ch a" by blast
  show "td_parent (D 0) = NO_PARENT" "td_is_root (D 0)"
    using ds_inv_butD(3) [OF a(1)] ds_seenD(2) [OF a(2)] by (simp_all add: roots_ok_def)
qed

lemma shows_terminated:
  assumes "ds_shows n D act ch" and "0 < n" and "td_deficit (D 0) = 0"
  shows "how_many is_task (ch World p q) = 0" "how_many is_ack (ch World p q) = 0"
    "in_world n r \<Longrightarrow> is_quiescent (D r)" "r \<noteq> 0 \<Longrightarrow> \<not> act r"
proof -
  from shows_inv [OF assms(1,2)] obtain a where a: "ds_inv a" "ds_seen n D act ch a" by blast
  note A = ds_seenD [OF a(2)]
  have "td_deficit (ds_dets a 0) = 0" using A(2) assms(3) by simp
  note T = ds_terminated [OF a(1) this]
  show "how_many is_task (ch World p q) = 0" "how_many is_ack (ch World p q) = 0"
    using T(1,2) A(4,5) [of p q] by simp_all
  show "in_world n r \<Longrightarrow> is_quiescent (D r)" "r \<noteq> 0 \<Longrightarrow> \<not> act r"
    using T(3,4) [of r] A(1-3) by simp_all
qed

lemma shows_detected:
  assumes "ds_shows n D act ch" and "0 < n" and "\<And>q. \<not> act q"
    and "\<And>p q. how_many is_task (ch World p q) = 0 \<and> how_many is_ack (ch World p q) = 0"
  shows "td_deficit (D 0) = 0"
proof -
  from shows_inv [OF assms(1,2)] obtain a where a: "ds_inv a" "ds_seen n D act ch a" by blast
  note A = ds_seenD [OF a(2)]
  have "ds_tasks a = {#}" "ds_acks a = {#}" using A(4,5) assms(4) by (auto intro!: multiset_pair_eqI)
  then show ?thesis using ds_quiet_detected [OF a(1)] A(2,3) assms(3) by simp
qed

end
