(* ===== verification/Central_Worker.thy ===== *)
theory Central_Worker
  imports Task_Funneling Topology Mpi_Stats
begin

text \<open>
  The worker side of the centralized scheduler
  (\<open>private/impl/schedulers/mpi_centralized_scheduler.hpp\<close>,
  \<open>src/schedulers/mpi/mpi_centralized_scheduler.cpp\<close>): a worker sends its spare tasks to the center,
  unless the center has said that it is full. The handlers have the form of those in \<open>Semi_Worker\<close>.
\<close>

record central_worker =
  cw_term :: detector
  cw_goal :: goal
  cw_score :: score
  cw_center_full :: bool
  cw_updates_received :: int
  cw_notices_received :: int
  cw_received_tasks :: int
  cw_sent_tasks :: int
  cw_total_requests :: "64 word"
  cw_stats :: mpi_stats
  cw_funnel :: funnel
  cw_nm :: "unit node_manager"

definition central_worker_init :: "rank \<Rightarrow> goal \<Rightarrow> score \<Rightarrow> unit node_manager \<Rightarrow> central_worker" where
  "central_worker_init me g s nm =
     \<lparr>cw_term = new_detector (me = 0), cw_goal = g, cw_score = s, cw_center_full = False,
      cw_updates_received = 0, cw_notices_received = 0, cw_received_tasks = 0, cw_sent_tasks = 0,
      cw_total_requests = 0, cw_stats = new_stats (word_of_int me), cw_funnel = new_funnel, cw_nm = nm\<rparr>"

definition central_channel_open :: "central_worker \<Rightarrow> bool" where
  "central_channel_open w \<longleftrightarrow> fn_open (cw_funnel w) \<and> \<not> cw_center_full w"

definition central_force_push :: "rank \<Rightarrow> task_packet \<Rightarrow> int \<Rightarrow> central_worker \<Rightarrow> central_worker res" where
  "central_force_push me p fid w =
     (if packet_empty p
      then Inl (Thrown (''rank '' @ show_int me @ '', attempted to send empty buffer ''))
      else rbind (fn_push \<lparr>bundle_packet = p, bundle_runnable_id = fid\<rparr> (cw_funnel w)) (\<lambda>f.
             Inr (w\<lparr>cw_funnel := f\<rparr>)))"

definition central_release_parent :: "central_worker \<Rightarrow> central_worker \<times> out list" where
  "central_release_parent w =
     (let (d, r) = on_passive (cw_term w) in (w\<lparr>cw_term := d\<rparr>, ack_to r))"

definition central_task_received_ack :: "rank \<Rightarrow> rank \<Rightarrow> central_worker \<Rightarrow> central_worker res" where
  "central_task_received_ack me src w =
     (let (d, expected) = on_ack_received (cw_term w)
      in if \<not> expected
         then Inl (Thrown (''rank '' @ show_int me @
                     '' received an unexpected task acknowledgement from rank '' @ show_int src))
         else Inr (w\<lparr>cw_term := d\<rparr>))"

definition central_receive_score :: "score \<Rightarrow> central_worker \<Rightarrow> central_worker" where
  "central_receive_score s w = w\<lparr>cw_score := s, cw_updates_received := cw_updates_received w + 1\<rparr>"

text \<open>\<open>consume_center_is_full_tag\<close> and \<open>consume_center_is_free_tag\<close>, for the notice \<open>full\<close>.\<close>

definition central_receive_notice :: "bool \<Rightarrow> central_worker \<Rightarrow> central_worker" where
  "central_receive_notice full w =
     w\<lparr>cw_notices_received := cw_notices_received w + 1, cw_center_full := full\<rparr>"

definition central_process_message ::
    "int list \<Rightarrow> rank \<Rightarrow> task_packet \<Rightarrow> int \<Rightarrow> central_worker \<Rightarrow> (central_worker \<times> out list) res" where
  "central_process_message runnables src p fid w =
     (let (d, ack) = on_task_received (cw_term w) src;
          w1 = w\<lparr>cw_term := d, cw_received_tasks := cw_received_tasks w + 1,
                 cw_total_requests := cw_total_requests w + 1,
                 cw_stats := (cw_stats w)
                   \<lparr>st_received_task_count := st_received_task_count (cw_stats w) + 1,
                    st_total_requested_tasks := st_total_requested_tasks (cw_stats w) + 1\<rparr>\<rparr>
      in if fid \<notin> set runnables then Inl Undefined
         else Inr (w1\<lparr>cw_funnel := fn_begin (cw_funnel w1)\<rparr>,
                   ack_to ack @ [(World, 0, Running_State)]))"

text \<open>
  \<open>static_cast<int>(size())\<close>, the count of bytes \<open>MPI_Send\<close> is given. A size that is not an \<open>int\<close> is
  narrowed to another number, and MPI would send something else or abort: a fault.
\<close>

definition byte_count :: "task_packet \<Rightarrow> int res" where
  "byte_count p = (if int (packet_size p) \<le> INT_MAX then Inr (int (packet_size p)) else Inl Undefined)"

definition send_task_to_center :: "task_bundle \<Rightarrow> central_worker \<Rightarrow> (central_worker \<times> out list) res" where
  "send_task_to_center b w =
     rbind (byte_count (bundle_packet b)) (\<lambda>_.
       Inr (w\<lparr>cw_term := on_task_sent (cw_term w)\<rparr>,
         [(World, 0, Task_For_Center (bundle_packet b)), (World, 0, Runnable_Id (bundle_runnable_id b))]))"

section \<open>The points of task_funneling\<close>

definition central_send :: "task_bundle \<Rightarrow> central_worker \<Rightarrow> (central_worker \<times> out list) res" where
  "central_send b w =
     (let w1 = w\<lparr>cw_sent_tasks := cw_sent_tasks w + 1, cw_total_requests := cw_total_requests w + 1,
                 cw_stats := (cw_stats w)
                   \<lparr>st_sent_task_count := st_sent_task_count (cw_stats w) + 1,
                    st_total_requested_tasks := st_total_requested_tasks (cw_stats w) + 1\<rparr>\<rparr>
      in rbind (send_task_to_center b w1) (\<lambda>(w2, outs).
         rbind (fn_sent (cw_funnel w2)) (\<lambda>f. Inr (w2\<lparr>cw_funnel := f\<rparr>, outs))))"

definition central_update_score :: "central_worker \<Rightarrow> central_worker \<times> out list \<times> bool" where
  "central_update_score w =
     (let (nm, pr) = update_score (cw_goal w) (cw_score w) (cw_nm w)
      in case pr of
           None \<Rightarrow> (w\<lparr>cw_nm := nm\<rparr>, [], False)
         | Some s \<Rightarrow> (w\<lparr>cw_nm := nm, cw_funnel := fn_goto Proposing (cw_funnel w)\<rparr>,
                      [(Global_Score, 0, Score_Proposal s)], True))"

definition central_goto :: "fn_pc \<Rightarrow> central_worker \<Rightarrow> central_worker" where
  "central_goto c w = w\<lparr>cw_funnel := fn_goto c (cw_funnel w)\<rparr>"

definition central_poll :: "score option \<Rightarrow> bool option \<Rightarrow> central_worker \<Rightarrow> central_worker \<times> out list" where
  "central_poll ms mf w =
     (let w1 = (case ms of None \<Rightarrow> w | Some s \<Rightarrow> central_receive_score s w);
          w2 = (case mf of None \<Rightarrow> w1 | Some f \<Rightarrow> central_receive_notice f w1);
          (w3, outs, waits) = central_update_score w2
      in (if waits then w3 else central_goto Popping w3, outs))"

text \<open>
  The end of \<open>task_funneling\<close> and of \<open>process_message\<close>. Unlike the semi-centralized scheduler, there is
  no last \<open>update_score\<close>.
\<close>

definition central_leave :: "central_worker \<Rightarrow> (central_worker \<times> out list) res" where
  "central_leave w =
     rbind (fn_finish (cw_funnel w)) (\<lambda>f.
       let (w1, outs) = central_release_parent (w\<lparr>cw_funnel := f\<rparr>)
       in Inr (w1, (World, 0, Available_State) # outs))"

section \<open>Termination\<close>

definition central_process_termination :: "rank \<Rightarrow> int \<Rightarrow> int \<Rightarrow> central_worker \<Rightarrow> central_worker res" where
  "central_process_termination me scores notices w =
     (if \<not> is_quiescent (cw_term w) \<or> fn_queue (cw_funnel w) \<noteq> [] \<or> fn_transmitting (cw_funnel w)
      then Inl (Thrown (''rank '' @ show_int me @ '' received termination with work in progress: deficit '' @
             show_int (td_deficit (cw_term w)) @ '', parent '' @ show_int (td_parent (cw_term w))))
      else Inr (central_goto (Draining scores notices) w))"

definition central_drained :: "rank \<Rightarrow> int \<Rightarrow> int \<Rightarrow> central_worker \<Rightarrow> central_worker res" where
  "central_drained me scores notices w =
     (if cw_updates_received w \<noteq> scores \<or> cw_notices_received w \<noteq> notices
      then Inl (Thrown (''rank '' @ show_int me @ '' received more center messages than the center sent: score updates '' @
             show_int (cw_updates_received w) @ ''/'' @ show_int scores @ '', fullness notices '' @
             show_int (cw_notices_received w) @ ''/'' @ show_int notices))
      else Inr (central_goto At_Barrier w))"

text \<open>The cast of the size of the result that is sent, in \<open>send_final_solution_to_center\<close>.\<close>

definition result_count :: "unit node_manager \<Rightarrow> int res" where
  "result_count nm = (case get_result_bytes nm of None \<Rightarrow> Inr 0 | Some r \<Rightarrow> byte_count (result_packet r))"

definition central_exit ::
    "64 word \<Rightarrow> 64 word \<Rightarrow> central_worker \<Rightarrow> (central_worker \<times> out list) res" where
  "central_exit idle requests w =
     rbind (result_count (cw_nm w)) (\<lambda>_.
       Inr (central_goto Exited (w\<lparr>cw_stats := (cw_stats w)
         \<lparr>st_idle_time := idle, st_total_thread_requests := requests\<rparr>\<rparr>), final_solution (cw_nm w)))"

section \<open>One step of a worker\<close>

datatype cevent =
    C_Task rank task_packet int | C_Ack rank | C_Score score | C_Notice bool
  | C_Termination int int | C_Push task_packet int | C_Offer task_packet score | C_Pool_Done
  | C_Enter | C_Send task_bundle | C_Poll "score option" "bool option" | C_Resume | C_Pop | C_Check | C_Recheck
  | C_Leave | C_Drain_Score score | C_Drain_Notice bool | C_Drained | C_Exit "64 word" "64 word"

fun central_enabled :: "cevent \<Rightarrow> central_worker \<Rightarrow> bool" where
  "central_enabled (C_Task src p i) w \<longleftrightarrow> fn_pc (cw_funnel w) = Listening"
| "central_enabled (C_Ack src) w \<longleftrightarrow> fn_pc (cw_funnel w) = Listening"
| "central_enabled (C_Score s) w \<longleftrightarrow> fn_pc (cw_funnel w) = Listening"
| "central_enabled (C_Notice f) w \<longleftrightarrow> fn_pc (cw_funnel w) = Listening"
| "central_enabled (C_Termination a b) w \<longleftrightarrow> fn_pc (cw_funnel w) = Listening"
| "central_enabled (C_Push p i) w \<longleftrightarrow> fn_pool (cw_funnel w) \<and> central_channel_open w"
| "central_enabled (C_Offer p s) w \<longleftrightarrow> fn_pool (cw_funnel w)"
| "central_enabled C_Pool_Done w \<longleftrightarrow> fn_pool (cw_funnel w)"
| "central_enabled C_Enter w \<longleftrightarrow> fn_pc (cw_funnel w) = Entering"
| "central_enabled (C_Send b) w \<longleftrightarrow> fn_pc (cw_funnel w) = Sending b"
| "central_enabled (C_Poll ms mf) w \<longleftrightarrow> fn_pc (cw_funnel w) = Polling"
| "central_enabled C_Resume w \<longleftrightarrow> fn_pc (cw_funnel w) = Proposing"
| "central_enabled C_Pop w \<longleftrightarrow> fn_pc (cw_funnel w) = Popping"
| "central_enabled C_Check w \<longleftrightarrow> fn_pc (cw_funnel w) = Checking"
| "central_enabled C_Recheck w \<longleftrightarrow> fn_pc (cw_funnel w) = Rechecking"
| "central_enabled C_Leave w \<longleftrightarrow> fn_pc (cw_funnel w) = Leaving"
| "central_enabled (C_Drain_Score s) w \<longleftrightarrow>
     at_draining (\<lambda>a b. cw_updates_received w < a) (fn_pc (cw_funnel w))"
| "central_enabled (C_Drain_Notice f) w \<longleftrightarrow>
     at_draining (\<lambda>a b. \<not> cw_updates_received w < a \<and> cw_notices_received w < b) (fn_pc (cw_funnel w))"
| "central_enabled C_Drained w \<longleftrightarrow>
     at_draining (\<lambda>a b. \<not> cw_updates_received w < a \<and> \<not> cw_notices_received w < b) (fn_pc (cw_funnel w))"
| "central_enabled (C_Exit idle req) w \<longleftrightarrow> fn_pc (cw_funnel w) = At_Barrier"

definition on_funnel :: "(funnel \<Rightarrow> funnel) \<Rightarrow> central_worker \<Rightarrow> central_worker" where
  "on_funnel f w = w\<lparr>cw_funnel := f (cw_funnel w)\<rparr>"

fun central_apply :: "int list \<Rightarrow> rank \<Rightarrow> cevent \<Rightarrow> central_worker \<Rightarrow> (central_worker \<times> out list) res" where
  "central_apply rs me (C_Task src p i) w = central_process_message rs src p i w"
| "central_apply rs me (C_Ack src) w =
     rbind (central_task_received_ack me src w) (\<lambda>w1. Inr (central_release_parent w1))"
| "central_apply rs me (C_Score s) w = quietly (central_receive_score s w)"
| "central_apply rs me (C_Notice f) w = quietly (central_receive_notice f w)"
| "central_apply rs me (C_Termination a b) w = rbind (central_process_termination me a b w) quietly"
| "central_apply rs me (C_Push p i) w = rbind (central_force_push me p i w) quietly"
| "central_apply rs me (C_Offer p s) w = quietly (w\<lparr>cw_nm := fst (try_update_result p s (cw_nm w))\<rparr>)"
| "central_apply rs me C_Pool_Done w = quietly (on_funnel (\<lambda>f. f\<lparr>fn_pool := False\<rparr>) w)"
| "central_apply rs me C_Enter w = quietly (on_funnel fn_enter w)"
| "central_apply rs me (C_Send b) w = central_send b w"
| "central_apply rs me (C_Poll ms mf) w = Inr (central_poll ms mf w)"
| "central_apply rs me C_Resume w = quietly (central_goto Popping w)"
| "central_apply rs me C_Pop w = quietly (on_funnel fn_pop w)"
| "central_apply rs me C_Check w = quietly (on_funnel fn_check w)"
| "central_apply rs me C_Recheck w = quietly (on_funnel fn_recheck w)"
| "central_apply rs me C_Leave w = central_leave w"
| "central_apply rs me (C_Drain_Score s) w = quietly (central_receive_score s w)"
| "central_apply rs me (C_Drain_Notice f) w = quietly (central_receive_notice f w)"
| "central_apply rs me C_Drained w =
     (case fn_pc (cw_funnel w) of
        Draining a b \<Rightarrow> rbind (central_drained me a b w) quietly | _ \<Rightarrow> Inr (w, []))"
| "central_apply rs me (C_Exit idle req) w = central_exit idle req w"

section \<open>The invariant of a worker\<close>

definition task_fits :: "int list \<Rightarrow> task_bundle \<Rightarrow> bool" where
  "task_fits rs b \<longleftrightarrow> int (bundle_size b) \<le> INT_MAX \<and> bundle_runnable_id b \<in> set rs"

definition result_fits :: "unit node_manager \<Rightarrow> bool" where
  "result_fits nm \<longleftrightarrow> (\<forall>p. nm_result nm = Stored_Packet p \<longrightarrow> int (packet_size p) \<le> INT_MAX)"

definition central_worker_ok :: "int list \<Rightarrow> central_worker \<Rightarrow> bool" where
  "central_worker_ok rs w \<longleftrightarrow> funnel_ok (cw_funnel w) \<and> fn_pc (cw_funnel w) \<noteq> Proposing_Last \<and>
     (\<forall>b \<in> set (fn_queue (cw_funnel w)). task_fits rs b) \<and>
     (\<forall>b. fn_pc (cw_funnel w) = Sending b \<longrightarrow> task_fits rs b) \<and> result_fits (cw_nm w)"

lemma result_fits_count: "result_fits nm \<Longrightarrow> \<exists>k. result_count nm = Inr k"
  by (auto simp: result_fits_def result_count_def get_result_bytes_def byte_count_def split: stored.split)

lemma result_fits_kept:
  "result_fits nm \<Longrightarrow> int (packet_size p) \<le> INT_MAX \<Longrightarrow> result_fits (fst (try_update_result p s nm))"
  "result_fits nm \<Longrightarrow> result_fits (fst (try_update_score_and_invalidate_result s nm))"
  by (auto simp: result_fits_def try_update_result_def try_update_score_and_invalidate_result_def packet_EMPTY_def
      packet_size_def INT_MAX_def)

lemma result_fits_score: "result_fits nm \<Longrightarrow> result_fits (fst (update_score g s nm))"
  by (auto simp: update_score_def Let_def result_fits_kept)

fun cinput_ok :: "int list \<Rightarrow> central_worker \<Rightarrow> cevent \<Rightarrow> bool" where
  "cinput_ok rs w (C_Task src q i) \<longleftrightarrow> i \<in> set rs"
| "cinput_ok rs w (C_Ack src) \<longleftrightarrow> td_deficit (cw_term w) \<noteq> 0"
| "cinput_ok rs w (C_Termination a b) \<longleftrightarrow> is_quiescent (cw_term w)"
| "cinput_ok rs w C_Drained \<longleftrightarrow> (\<forall>a b. fn_pc (cw_funnel w) = Draining a b \<longrightarrow>
     cw_updates_received w \<le> a \<and> cw_notices_received w \<le> b)"
| "cinput_ok rs w (C_Push q i) \<longleftrightarrow> \<not> packet_empty q \<and> int (packet_size q) \<le> INT_MAX \<and> i \<in> set rs"
| "cinput_ok rs w (C_Offer q s) \<longleftrightarrow> int (packet_size q) \<le> INT_MAX"
| "cinput_ok rs w e \<longleftrightarrow> True"

lemma central_worker_okD:
  assumes "central_worker_ok rs w"
  shows "funnel_ok (cw_funnel w)" "fn_pc (cw_funnel w) \<noteq> Proposing_Last"
    "b \<in> set (fn_queue (cw_funnel w)) \<Longrightarrow> task_fits rs b"
    "fn_pc (cw_funnel w) = Sending b \<Longrightarrow> task_fits rs b" "result_fits (cw_nm w)"
  using assms by (auto simp: central_worker_ok_def)

lemma central_ok_funnel:
  assumes "central_worker_ok rs w" and "funnel_ok f" and "fn_pc f \<noteq> Proposing_Last"
    and "set (fn_queue f) \<subseteq> set (fn_queue (cw_funnel w))"
    and "\<And>b. fn_pc f = Sending b \<Longrightarrow> b \<in> set (fn_queue (cw_funnel w)) \<or> fn_pc (cw_funnel w) = Sending b"
    and "cw_funnel w' = f" and "result_fits (cw_nm w')"
  shows "central_worker_ok rs w'"
  using assms by (auto simp: central_worker_ok_def)

lemma central_ok_cong:
  "central_worker_ok rs w \<Longrightarrow> cw_funnel w' = cw_funnel w \<Longrightarrow> result_fits (cw_nm w') \<Longrightarrow> central_worker_ok rs w'"
  by (simp add: central_worker_ok_def)

lemma central_ok_goto:
  assumes "central_worker_ok rs w" and "\<not> fn_sending (fn_pc (cw_funnel w))" and "\<not> fn_sending c"
    and "fn_after c = fn_after (fn_pc (cw_funnel w))" and "c \<noteq> Rechecking" and "c \<noteq> Proposing_Last"
    and "cw_funnel w' = fn_goto c (cw_funnel w)" and "result_fits (cw_nm w')"
  shows "central_worker_ok rs w'"
  by (rule central_ok_funnel [OF assms(1) fn_goto_ok])
    (use assms central_worker_okD(1) [OF assms(1)] in \<open>auto simp: fn_goto_def\<close>)

lemma central_init_ok: "result_fits nm \<Longrightarrow> central_worker_ok rs (central_worker_init me g s nm)"
  using new_funnel_ok by (simp add: central_worker_ok_def central_worker_init_def new_funnel_def)

lemma central_step_ok:
  assumes ok: "central_worker_ok rs w"
  shows "fn_pc (cw_funnel w) = Entering \<Longrightarrow> central_worker_ok rs (on_funnel fn_enter w)"
    "fn_pc (cw_funnel w) = Popping \<Longrightarrow> central_worker_ok rs (on_funnel fn_pop w)"
    "fn_pc (cw_funnel w) = Checking \<Longrightarrow> central_worker_ok rs (on_funnel fn_check w)"
    "fn_pc (cw_funnel w) = Rechecking \<Longrightarrow> central_worker_ok rs (on_funnel fn_recheck w)"
    "central_worker_ok rs (on_funnel (\<lambda>f. f\<lparr>fn_pool := False\<rparr>) w)"
    "fn_pc (cw_funnel w) = Proposing \<Longrightarrow> central_worker_ok rs (central_goto Popping w)"
proof -
  note F = central_worker_okD(1) [OF ok] and R = central_worker_okD(5) [OF ok]
  show "fn_pc (cw_funnel w) = Entering \<Longrightarrow> central_worker_ok rs (on_funnel fn_enter w)"
    by (rule central_ok_funnel [OF ok fn_enter_ok [OF F]]) (use R in \<open>auto simp: on_funnel_def fn_enter_def split: list.splits\<close>)
  show "fn_pc (cw_funnel w) = Popping \<Longrightarrow> central_worker_ok rs (on_funnel fn_pop w)"
    by (rule central_ok_funnel [OF ok fn_pop_ok [OF F]]) (use R in \<open>auto simp: on_funnel_def fn_pop_def split: list.splits\<close>)
  show "fn_pc (cw_funnel w) = Checking \<Longrightarrow> central_worker_ok rs (on_funnel fn_check w)"
    by (rule central_ok_funnel [OF ok fn_check_ok [OF F]]) (use R in \<open>auto simp: on_funnel_def fn_check_def split: if_splits\<close>)
  show "fn_pc (cw_funnel w) = Rechecking \<Longrightarrow> central_worker_ok rs (on_funnel fn_recheck w)"
    by (rule central_ok_funnel [OF ok fn_recheck_ok [OF F]]) (use R in \<open>auto simp: on_funnel_def fn_recheck_def split: list.splits\<close>)
  show "central_worker_ok rs (on_funnel (\<lambda>f. f\<lparr>fn_pool := False\<rparr>) w)"
    by (rule central_ok_funnel [OF ok fn_pool_done_ok [OF F]])
      (use central_worker_okD(2) [OF ok] R in \<open>auto simp: on_funnel_def\<close>)
  show "fn_pc (cw_funnel w) = Proposing \<Longrightarrow> central_worker_ok rs (central_goto Popping w)"
    by (rule central_ok_goto [OF ok]) (use R in \<open>simp_all add: central_goto_def\<close>)
qed

lemma central_poll_ok:
  assumes ok: "central_worker_ok rs w" and pc: "fn_pc (cw_funnel w) = Polling"
  shows "central_worker_ok rs (fst (central_poll ms mf w))"
proof -
  define w2 where "w2 = (case mf of None \<Rightarrow> (case ms of None \<Rightarrow> w | Some s \<Rightarrow> central_receive_score s w)
    | Some f \<Rightarrow> central_receive_notice f (case ms of None \<Rightarrow> w | Some s \<Rightarrow> central_receive_score s w))"
  have f2: "cw_funnel w2 = cw_funnel w" "cw_nm w2 = cw_nm w"
    by (simp_all add: w2_def central_receive_notice_def central_receive_score_def split: option.split)
  obtain nm pr where u: "update_score (cw_goal w2) (cw_score w2) (cw_nm w2) = (nm, pr)" by (metis prod.exhaust)
  have "cw_funnel (fst (central_poll ms mf w)) = fn_goto (if pr = None then Popping else Proposing) (cw_funnel w)"
    using u f2 by (cases pr) (simp_all add: central_poll_def central_update_score_def central_goto_def Let_def
        flip: w2_def)
  moreover have "cw_nm (fst (central_poll ms mf w)) = nm"
    using u by (cases pr) (simp_all add: central_poll_def central_update_score_def central_goto_def Let_def
        flip: w2_def)
  moreover have "result_fits nm"
    using result_fits_score [of "cw_nm w2" "cw_goal w2" "cw_score w2"] central_worker_okD(5) [OF ok] u f2(2) by simp
  ultimately show ?thesis by (intro central_ok_goto [OF ok]) (use pc in auto)
qed

lemma central_push_ok:
  assumes ok: "central_worker_ok rs w" and en: "fn_pool (cw_funnel w)" "fn_open (cw_funnel w)"
    and q: "\<not> packet_empty q" "int (packet_size q) \<le> INT_MAX" "i \<in> set rs"
  shows "\<exists>w'. central_force_push me q i w = Inr w' \<and> central_worker_ok rs w' \<and>
    fn_pc (cw_funnel w') = fn_pc (cw_funnel w)"
proof -
  let ?b = "\<lparr>bundle_packet = q, bundle_runnable_id = i\<rparr>"
  from fn_push_ok [OF central_worker_okD(1) [OF ok] en(2,1)] obtain f where
    f: "fn_push ?b (cw_funnel w) = Inr f" "funnel_ok f" by blast
  have ff: "fn_pc f = fn_pc (cw_funnel w)" "fn_queue f = [?b]"
    using f(1) by (auto simp: fn_push_def split: if_splits)
  show ?thesis using f ff q ok by (auto simp: central_force_push_def central_worker_ok_def task_fits_def bundle_size_def)
qed

lemma central_send_ok:
  assumes ok: "central_worker_ok rs w" and pc: "fn_pc (cw_funnel w) = Sending b"
  shows "\<exists>w'. central_send b w = Inr (w', [(World, 0, Task_For_Center (bundle_packet b)),
      (World, 0, Runnable_Id (bundle_runnable_id b))]) \<and> central_worker_ok rs w' \<and>
    cw_term w' = on_task_sent (cw_term w) \<and> fn_pc (cw_funnel w') = Polling"
proof -
  from fn_sent_ok [OF central_worker_okD(1) [OF ok] pc] obtain f where
    f: "fn_sent (cw_funnel w) = Inr f" "funnel_ok f" by blast
  have ff: "fn_pc f = Polling" "fn_queue f = []" using f(1) by (auto simp: fn_sent_def split: list.splits)
  have "byte_count (bundle_packet b) = Inr (int (bundle_size b))"
    using central_worker_okD(4) [OF ok pc] by (simp add: task_fits_def byte_count_def bundle_size_def)
  then show ?thesis using f ff central_worker_okD(5) [OF ok]
    by (auto simp: central_send_def send_task_to_center_def Let_def central_worker_ok_def)
qed

lemma central_leave_ok:
  assumes ok: "central_worker_ok rs w" and pc: "fn_pc (cw_funnel w) = Leaving"
  shows "\<exists>w'. central_leave w = Inr (w', (World, 0, Available_State) # ack_to (snd (on_passive (cw_term w)))) \<and>
    central_worker_ok rs w' \<and> cw_term w' = fst (on_passive (cw_term w)) \<and> fn_pc (cw_funnel w') = Listening"
proof -
  from fn_finish_ok [OF central_worker_okD(1) [OF ok] disjI1 [OF pc]] obtain f where
    f: "fn_finish (cw_funnel w) = Inr f" "funnel_ok f" by blast
  have ff: "f = (cw_funnel w)\<lparr>fn_pc := Listening\<rparr>" using f(1) by (auto simp: fn_finish_def split: if_splits)
  obtain d r where d: "on_passive (cw_term w) = (d, r)" by (metis prod.exhaust)
  have "central_worker_ok rs (w\<lparr>cw_funnel := f, cw_term := d\<rparr>)"
    using ok f(2) by (simp add: central_worker_ok_def ff)
  then show ?thesis using f(1) d ff
    by (simp add: central_leave_def central_release_parent_def)
qed

lemma central_apply_ok:
  assumes ok: "central_worker_ok rs w" and en: "central_enabled e w" and inp: "cinput_ok rs w e"
  shows "\<exists>w' outs. central_apply rs p e w = Inr (w', outs) \<and> central_worker_ok rs w'"
proof (cases e)
  case (C_Task src q i)
  obtain d r where d: "on_task_received (cw_term w) src = (d, r)" by (metis prod.exhaust)
  have "central_worker_ok rs (w\<lparr>cw_funnel := fn_begin (cw_funnel w)\<rparr>)"
    using en C_Task ok fn_begin_ok [OF central_worker_okD(1) [OF ok]]
    by (auto simp: central_worker_ok_def fn_begin_def)
  then show ?thesis using C_Task inp d
    by (simp add: central_process_message_def central_worker_ok_def)
next
  case (C_Ack src)
  obtain d b where d: "on_ack_received (cw_term w) = (d, b)" by (metis prod.exhaust)
  have "b" using inp C_Ack d by (auto simp: on_ack_received_def split: if_splits)
  obtain d' r where "on_passive d = (d', r)" by (metis prod.exhaust)
  then show ?thesis using C_Ack d \<open>b\<close> ok
    by (simp add: central_task_received_ack_def central_release_parent_def central_worker_ok_def)
next
  case (C_Termination a b)
  have f: "fn_queue (cw_funnel w) = [] \<and> \<not> fn_transmitting (cw_funnel w)"
    using funnel_ok_quiet [OF central_worker_okD(1) [OF ok]] en C_Termination by simp
  have "central_worker_ok rs (central_goto (Draining a b) w)"
    by (rule central_ok_goto [OF ok]) (use en C_Termination central_worker_okD(5) [OF ok] in \<open>simp_all add: central_goto_def\<close>)
  then show ?thesis using f C_Termination inp
    by (simp add: central_process_termination_def quietly_def)
next
  case (C_Push q i)
  then show ?thesis using central_push_ok [OF ok, of q i p] en inp
    by (auto simp: central_channel_open_def quietly_def)
next
  case (C_Send b)
  then show ?thesis using central_send_ok [OF ok, of b] en by auto
next
  case (C_Poll ms mf)
  then show ?thesis using central_poll_ok [OF ok, of ms mf] en
    by (cases "central_poll ms mf w") simp
next
  case C_Leave
  then show ?thesis using central_leave_ok [OF ok] en by auto
next
  case C_Drained
  then obtain a b where pc: "fn_pc (cw_funnel w) = Draining a b" "\<not> cw_updates_received w < a"
    "\<not> cw_notices_received w < b" using en by auto
  have "central_worker_ok rs (central_goto At_Barrier w)"
    by (rule central_ok_goto [OF ok]) (use pc central_worker_okD(5) [OF ok] in \<open>simp_all add: central_goto_def\<close>)
  then show ?thesis using C_Drained pc inp by (simp add: central_drained_def quietly_def)
next
  case (C_Exit idle req)
  have "central_worker_ok rs (central_goto Exited (w\<lparr>cw_stats := st\<rparr>))" for st
    by (rule central_ok_goto [OF ok]) (use en C_Exit central_worker_okD(5) [OF ok] in \<open>simp_all add: central_goto_def\<close>)
  then show ?thesis using C_Exit result_fits_count [OF central_worker_okD(5) [OF ok]] by (auto simp: central_exit_def)
next
  case (C_Offer q s)
  have "central_worker_ok rs (w\<lparr>cw_nm := fst (try_update_result q s (cw_nm w))\<rparr>)"
    by (rule central_ok_cong [OF ok]) (use inp C_Offer central_worker_okD(5) [OF ok] in \<open>simp_all add: result_fits_kept\<close>)
  then show ?thesis using C_Offer by (simp add: quietly_def)
qed (use ok en central_step_ok [OF ok] central_worker_okD(5) [OF ok] in
    \<open>auto simp: quietly_def central_receive_score_def central_receive_notice_def intro: central_ok_cong\<close>)

end
