(* ===== verification/Central_Center.thy ===== *)
theory Central_Center
  imports Semi_Center Task_Priority Central_Worker
begin

text \<open>
  The center of the centralized scheduler
  (\<open>private/impl/schedulers/mpi_centralized_scheduler.hpp\<close>): it keeps the tasks the workers send it in
  a priority queue, hands them to available workers, tells the workers when it is full and when it is
  free again, relays better scores, detects termination and collects the solutions.

  The memory in use (in megabytes) and the clock are inputs; times are rational numbers of seconds.
  The products with \<open>m_world_size\<close> are products of \<open>int\<close>s, and undefined when they overflow
  (\<open>center_limit\<close>). The bounds \<open>0.9 * MAX_MEMORY_MB\<close> and \<open>0.8 * CENTER_NBSTORED_TASKS_PER_PROCESS * size\<close> are the integers
  the \<open>double\<close> products round to.
\<close>

definition MAX_MEMORY_MB :: nat where "MAX_MEMORY_MB = 1024 * 10"
definition CENTER_NBSTORED_TASKS_PER_PROCESS :: int where "CENTER_NBSTORED_TASKS_PER_PROCESS = 1000"

record central_center =
  cc_term :: detector
  cc_goal :: goal
  cc_score :: score
  cc_state :: "int list"
  cc_running :: int
  cc_available :: int
  cc_queue :: "task_bundle list"
  cc_max_queue :: nat
  cc_last_full :: bool
  cc_full_sent :: rat
  cc_updates_sent :: int
  cc_notices_sent :: int
  cc_best :: "gresult list"
  cc_received_tasks :: int
  cc_sent_tasks :: int
  cc_total_requests :: "64 word"
  cc_stats :: mpi_stats
  cc_phase :: phase

definition central_center_init :: "nat \<Rightarrow> goal \<Rightarrow> score \<Rightarrow> central_center" where
  "central_center_init n g s =
     \<lparr>cc_term = new_detector True, cc_goal = g, cc_score = s, cc_state = replicate n AVAILABLE_STATE,
      cc_running = 0, cc_available = int n - 1, cc_queue = [], cc_max_queue = 0, cc_last_full = False,
      cc_full_sent = 0, cc_updates_sent = 0, cc_notices_sent = 0, cc_best = replicate n result_EMPTY,
      cc_received_tasks = 0, cc_sent_tasks = 0, cc_total_requests = 0, cc_stats = new_stats 0,
      cc_phase = Looping\<rparr>"

definition cc_count_request :: "central_center \<Rightarrow> central_center" where
  "cc_count_request c = c\<lparr>cc_total_requests := cc_total_requests c + 1,
     cc_stats := (cc_stats c)\<lparr>st_total_requested_tasks := st_total_requested_tasks (cc_stats c) + 1\<rparr>\<rparr>"

definition cc_count_message :: "central_center \<Rightarrow> central_center" where
  "cc_count_message c = c\<lparr>cc_stats := (cc_stats c)
     \<lparr>st_coordinator_messages_handled := st_coordinator_messages_handled (cc_stats c) + 1\<rparr>\<rparr>"

definition cc_count_sent :: "central_center \<Rightarrow> central_center" where
  "cc_count_sent c = c\<lparr>cc_sent_tasks := cc_sent_tasks c + 1,
     cc_stats := (cc_stats c)\<lparr>st_sent_task_count := st_sent_task_count (cc_stats c) + 1\<rparr>\<rparr>"

text \<open>
  \<open>clear_buffer\<close>: one task is sent, and all that \<open>dispatch_to_available\<close> hands out. The size of a queued
  task is cast to \<open>int\<close>; it came in a message whose length is an \<open>int\<close>, so the cast keeps it, which
  \<open>Central_Properties\<close> shows of every task that is ever in the queue.
\<close>

definition central_send_bundle :: "rank \<times> task_bundle \<Rightarrow> central_center \<times> out list \<Rightarrow> central_center \<times> out list" where
  "central_send_bundle = (\<lambda>(r, b) (c, outs).
     (cc_count_message (cc_count_request (cc_count_sent (c\<lparr>cc_term := on_task_sent (cc_term c)\<rparr>))),
      outs @ [(World, r, Task (bundle_packet b)), (World, r, Runnable_Id (bundle_runnable_id b))]))"

definition clear_buffer :: "central_center \<Rightarrow> central_center \<times> out list" where
  "clear_buffer c =
     (let (out, q, st) = dispatch_to_available (cc_queue c) (cc_state c) AVAILABLE_STATE ASSIGNED_STATE;
          (c1, outs) = fold central_send_bundle out (c\<lparr>cc_queue := q, cc_state := st\<rparr>, [])
      in (c1\<lparr>cc_available := cc_available c1 - int (length out)\<rparr>, outs))"

definition central_process_running :: "rank \<Rightarrow> central_center \<Rightarrow> central_center res" where
  "central_process_running src c =
     rbind (vec_set (cc_state c) src RUNNING_STATE) (\<lambda>st.
       Inr (cc_count_message (cc_count_request (c\<lparr>cc_state := st, cc_running := cc_running c + 1\<rparr>))))"

definition central_process_available :: "rank \<Rightarrow> central_center \<Rightarrow> central_center res" where
  "central_process_available src c =
     rbind (vec_set (cc_state c) src AVAILABLE_STATE) (\<lambda>st.
       Inr (cc_count_message (cc_count_request (c\<lparr>cc_state := st, cc_available := cc_available c + 1,
         cc_running := cc_running c - 1\<rparr>))))"

definition central_score_proposal :: "score \<Rightarrow> central_center \<Rightarrow> central_center \<times> out list" where
  "central_score_proposal s c0 =
     (let c = cc_count_message c0
      in if \<not> should_broadcast_global (cc_goal c) (cc_score c) s then (c, [])
         else (cc_count_request (cc_count_message
                 (c\<lparr>cc_score := s, cc_updates_sent := cc_updates_sent c + 1\<rparr>)),
               to_workers (cc_state c) (\<lambda>r. (Global_Score, r, Score_Update s))))"

definition center_limit :: "int \<Rightarrow> central_center \<Rightarrow> int res" where
  "center_limit k c = int_checked (k * int (length (cc_state c)))"

definition process_task_for_center ::
    "rat \<Rightarrow> rank \<Rightarrow> task_packet \<Rightarrow> int \<Rightarrow> central_center \<Rightarrow> (central_center \<times> out list) res" where
  "process_task_for_center now src p fid c =
     (let q = pq_push \<lparr>bundle_packet = p, bundle_runnable_id = fid\<rparr> (cc_queue c);
          (d, ack) = on_task_received (cc_term c) src;
          c1 = c\<lparr>cc_queue := q, cc_term := d,
                 cc_max_queue := if cc_max_queue c < length q then length q else cc_max_queue c,
                 cc_received_tasks := cc_received_tasks c + 1,
                 cc_stats := (cc_stats c)\<lparr>st_received_task_count := st_received_task_count (cc_stats c) + 1\<rparr>\<rparr>;
          c2 = cc_count_message (cc_count_request c1)
      in rbind (center_limit (2 * CENTER_NBSTORED_TASKS_PER_PROCESS) c) (\<lambda>limit.
           let recontact = limit < int (length q) \<and> 1 < now - cc_full_sent c
           in Inr (c2\<lparr>cc_last_full := if recontact then False else cc_last_full c\<rparr>, ack_to ack)))"

text \<open>The second operand of \<open>||\<close> and of \<open>&&\<close> is evaluated only when the first one does not decide.\<close>

definition notify_center_full :: "rat \<Rightarrow> nat \<Rightarrow> central_center \<Rightarrow> (central_center \<times> out list) res" where
  "notify_center_full now mem c =
     rbind (if MAX_MEMORY_MB < mem then Inr True
            else rbind (center_limit CENTER_NBSTORED_TASKS_PER_PROCESS c) (\<lambda>limit.
                   Inr (limit < int (length (cc_queue c))))) (\<lambda>full.
       if full
       then Inr (c\<lparr>cc_notices_sent := cc_notices_sent c + 1, cc_last_full := True, cc_full_sent := now\<rparr>,
                 to_workers (cc_state c) (\<lambda>r. (Center_Fullness, r, Center_Is_Full)))
       else Inr (c, []))"

definition notify_center_free :: "nat \<Rightarrow> central_center \<Rightarrow> (central_center \<times> out list) res" where
  "notify_center_free mem c =
     rbind (if \<not> 10 * mem \<le> 9 * MAX_MEMORY_MB then Inr False
            else rbind (center_limit CENTER_NBSTORED_TASKS_PER_PROCESS c) (\<lambda>limit.
                   Inr (10 * int (length (cc_queue c)) < 8 * limit))) (\<lambda>free.
       if free
       then Inr (c\<lparr>cc_notices_sent := cc_notices_sent c + 1, cc_last_full := False\<rparr>,
                 to_workers (cc_state c) (\<lambda>r. (Center_Fullness, r, Center_Is_Free)))
       else Inr (c, []))"

definition monitor_and_notify_center_status ::
    "rat \<Rightarrow> nat \<Rightarrow> central_center \<Rightarrow> (central_center \<times> out list) res" where
  "monitor_and_notify_center_status now mem c =
     (if cc_last_full c then notify_center_free mem c else notify_center_full now mem c)"

definition central_ack :: "rank \<Rightarrow> central_center \<Rightarrow> central_center res" where
  "central_ack src c =
     (let (d, expected) = on_ack_received (cc_term c)
      in if \<not> expected
         then Inl (Thrown (''rank 0 received an unexpected task acknowledgement from rank '' @ show_int src))
         else Inr (c\<lparr>cc_term := d\<rparr>))"

definition central_notify_termination :: "central_center \<Rightarrow> out list" where
  "central_notify_termination c = to_workers (cc_state c)
     (\<lambda>r. (World, r, Termination (cc_updates_sent c) (cc_notices_sent c)))"

text \<open>
  The end of a turn of the loop of \<open>run\<close>: leave it, or hand out tasks and watch the queue; and what a
  probe that finds nothing does (\<open>probe_communicators_at_center\<close>).
\<close>

definition serve :: "rat \<Rightarrow> nat \<Rightarrow> central_center \<Rightarrow> (central_center \<times> out list) res" where
  "serve now mem c =
     (let (c1, outs1) = clear_buffer c
      in rbind (monitor_and_notify_center_status now mem c1) (\<lambda>(c2, outs2). Inr (c2, outs1 @ outs2)))"

definition end_of_turn :: "rat \<Rightarrow> nat \<Rightarrow> central_center \<times> out list \<Rightarrow> (central_center \<times> out list) res" where
  "end_of_turn now mem = (\<lambda>(c, outs).
     if td_deficit (cc_term c) = 0 \<and> cc_queue c = []
     then Inr (c\<lparr>cc_phase := Collecting 1\<rparr>, outs @ central_notify_termination c)
     else rbind (serve now mem c) (\<lambda>(c1, outs1). Inr (c1, outs @ outs1)))"

section \<open>Starting and collecting\<close>

definition central_send_seed :: "task_packet \<Rightarrow> int \<Rightarrow> central_center \<Rightarrow> (central_center \<times> out list) res" where
  "central_send_seed p fid c =
     rbind (vec_set (cc_state c) 1 RUNNING_STATE) (\<lambda>st.
     rbind (byte_count p) (\<lambda>_.
       let c1 = c\<lparr>cc_available := cc_available c - 1, cc_state := st, cc_term := on_task_sent (cc_term c)\<rparr>
       in Inr (cc_count_message (cc_count_request (cc_count_sent c1)),
               [(World, 1, Task p), (World, 1, Runnable_Id fid)])))"

fun central_tag_number :: "msg \<Rightarrow> string" where
  "central_tag_number (Termination a b) = ''4''"
| "central_tag_number (Task p) = ''10''"
| "central_tag_number (Task_For_Center p) = ''11''"
| "central_tag_number (Runnable_Id i) = ''14''"
| "central_tag_number Task_Received = ''15''"
| "central_tag_number m = ''''"

definition central_next_rank :: "int \<Rightarrow> central_center \<Rightarrow> central_center" where
  "central_next_rank r c =
     c\<lparr>cc_phase := if r + 1 < int (length (cc_state c)) then Collecting (r + 1) else Finished\<rparr>"

definition central_collect :: "int \<Rightarrow> msg \<Rightarrow> score option \<Rightarrow> central_center \<Rightarrow> central_center res" where
  "central_collect r m ms c =
     (case m of
        Running_State \<Rightarrow> Inr (cc_count_message (cc_count_request c))
      | Available_State \<Rightarrow> Inr (cc_count_message (cc_count_request c))
      | Has_Result p \<Rightarrow>
          (case ms of
             None \<Rightarrow> Inl Diverged
           | Some s \<Rightarrow> rbind (vec_set (cc_best c) r \<lparr>result_score = s, result_packet = p\<rparr>) (\<lambda>b.
               Inr (central_next_rank r (c\<lparr>cc_best := b\<rparr>))))
      | No_Result \<Rightarrow> Inr (central_next_rank r c)
      | _ \<Rightarrow> Inl (Thrown (''rank 0 received unknown tag '' @ central_tag_number m @ '' from rank '' @
                        show_int r @ '' in receive_solution()'')))"

definition central_fetch_solution :: "central_center \<Rightarrow> task_packet" where
  "central_fetch_solution c =
     (case List.find (\<lambda>r. score_eq (result_score (cc_best c ! nat r)) (cc_score c)) (ranks_from_1 (cc_state c)) of
        None \<Rightarrow> packet_EMPTY | Some r \<Rightarrow> result_packet (cc_best c ! nat r))"

section \<open>What one call changes\<close>

text \<open>The fields the counters leave alone.\<close>

definition cc_core :: "central_center \<Rightarrow> central_center" where
  "cc_core c = c\<lparr>cc_total_requests := 0, cc_stats := new_stats 0, cc_sent_tasks := 0\<rparr>"

lemma cc_core_eq: "cc_core c = cc_core c' \<Longrightarrow>
    cc_term c = cc_term c' \<and> cc_goal c = cc_goal c' \<and> cc_score c = cc_score c' \<and> cc_state c = cc_state c' \<and>
    cc_running c = cc_running c' \<and> cc_available c = cc_available c' \<and> cc_queue c = cc_queue c' \<and>
    cc_last_full c = cc_last_full c' \<and> cc_updates_sent c = cc_updates_sent c' \<and>
    cc_notices_sent c = cc_notices_sent c' \<and> cc_best c = cc_best c' \<and> cc_phase c = cc_phase c'"
  by (cases c; cases c') (simp add: cc_core_def)

lemma cc_core_counts [simp]:
  "cc_core (cc_count_request c) = cc_core c" "cc_core (cc_count_message c) = cc_core c"
  "cc_core (cc_count_sent c) = cc_core c"
  by (simp_all add: cc_core_def cc_count_request_def cc_count_message_def cc_count_sent_def)

lemma cc_counts_sel [simp]:
  "cc_term (cc_count_request c) = cc_term c" "cc_term (cc_count_message c) = cc_term c" "cc_term (cc_count_sent c) = cc_term c"
  "cc_goal (cc_count_request c) = cc_goal c" "cc_goal (cc_count_message c) = cc_goal c" "cc_goal (cc_count_sent c) = cc_goal c"
  "cc_score (cc_count_request c) = cc_score c" "cc_score (cc_count_message c) = cc_score c" "cc_score (cc_count_sent c) = cc_score c"
  "cc_state (cc_count_request c) = cc_state c" "cc_state (cc_count_message c) = cc_state c" "cc_state (cc_count_sent c) = cc_state c"
  "cc_running (cc_count_request c) = cc_running c" "cc_running (cc_count_message c) = cc_running c" "cc_running (cc_count_sent c) = cc_running c"
  "cc_available (cc_count_request c) = cc_available c" "cc_available (cc_count_message c) = cc_available c" "cc_available (cc_count_sent c) = cc_available c"
  "cc_queue (cc_count_request c) = cc_queue c" "cc_queue (cc_count_message c) = cc_queue c" "cc_queue (cc_count_sent c) = cc_queue c"
  "cc_last_full (cc_count_request c) = cc_last_full c" "cc_last_full (cc_count_message c) = cc_last_full c" "cc_last_full (cc_count_sent c) = cc_last_full c"
  "cc_updates_sent (cc_count_request c) = cc_updates_sent c" "cc_updates_sent (cc_count_message c) = cc_updates_sent c" "cc_updates_sent (cc_count_sent c) = cc_updates_sent c"
  "cc_notices_sent (cc_count_request c) = cc_notices_sent c" "cc_notices_sent (cc_count_message c) = cc_notices_sent c" "cc_notices_sent (cc_count_sent c) = cc_notices_sent c"
  "cc_best (cc_count_request c) = cc_best c" "cc_best (cc_count_message c) = cc_best c" "cc_best (cc_count_sent c) = cc_best c"
  "cc_phase (cc_count_request c) = cc_phase c" "cc_phase (cc_count_message c) = cc_phase c" "cc_phase (cc_count_sent c) = cc_phase c"
  by (simp_all add: cc_count_request_def cc_count_message_def cc_count_sent_def)

end
