(* ===== verification/Central_Network.thy ===== *)
theory Central_Network
  imports Central_Worker Central_Center Semi_Network
begin

text \<open>
  All ranks of a centralized run together, in the form of \<open>Semi_Network\<close>: a step is one event of one
  worker, one message handled by the center with the rest of that turn of its loop, or a probe of the
  center that finds nothing, which may happen at any time: a message may still be under way. The clock and the memory in use are chosen by the environment.
\<close>

record central_net =
  cn_size :: nat
  cn_runnables :: "int list"
  cn_kind :: score_type
  cn_center :: central_center
  cn_workers :: "rank \<Rightarrow> central_worker"
  cn_chans :: chans

definition central_start ::
    "nat \<Rightarrow> int list \<Rightarrow> goal \<Rightarrow> score_type \<Rightarrow> task_packet \<Rightarrow> int \<Rightarrow> central_net res" where
  "central_start n rs g t seed fid =
     rbind (get_default_score g t) (\<lambda>s.
     rbind (central_send_seed seed fid (central_center_init n g s)) (\<lambda>(c, outs).
       Inr \<lparr>cn_size = n, cn_runnables = rs, cn_kind = t, cn_center = c,
            cn_workers = (\<lambda>p. central_worker_init p g s
              \<lparr>nm_goal = g, nm_score = s, nm_result = Stored_Any None\<rparr>),
            cn_chans = post no_messages 0 outs\<rparr>))"

definition notice :: "bool \<Rightarrow> msg" where
  "notice full = (if full then Center_Is_Full else Center_Is_Free)"

fun central_inputs :: "cevent \<Rightarrow> (comm \<times> rank \<times> msg list) list" where
  "central_inputs (C_Task src p i) = [(World, src, [Task p, Runnable_Id i])]"
| "central_inputs (C_Ack src) = [(World, src, [Task_Received])]"
| "central_inputs (C_Score s) = [(Global_Score, 0, [Score_Update s])]"
| "central_inputs (C_Drain_Score s) = [(Global_Score, 0, [Score_Update s])]"
| "central_inputs (C_Notice f) = [(Center_Fullness, 0, [notice f])]"
| "central_inputs (C_Drain_Notice f) = [(Center_Fullness, 0, [notice f])]"
| "central_inputs (C_Termination a b) = [(World, 0, [Termination a b])]"
| "central_inputs (C_Poll ms mf) =
     (case ms of None \<Rightarrow> [] | Some s \<Rightarrow> [(Global_Score, 0, [Score_Update s])]) @
     (case mf of None \<Rightarrow> [] | Some f \<Rightarrow> [(Center_Fullness, 0, [notice f])])"
| "central_inputs _ = []"

definition central_at_barrier :: "central_net \<Rightarrow> bool" where
  "central_at_barrier net \<longleftrightarrow> cc_phase (cn_center net) \<noteq> Looping \<and>
     list_all (\<lambda>p. fn_pc (cw_funnel (cn_workers net (int p))) \<in> {At_Barrier, Exited}) [1..<cn_size net]"

fun central_waits :: "rank \<Rightarrow> cevent \<Rightarrow> central_net \<Rightarrow> bool" where
  "central_waits p C_Resume net \<longleftrightarrow> cn_chans net Global_Score p 0 = []"
| "central_waits p (C_Exit idle req) net \<longleftrightarrow> central_at_barrier net"
| "central_waits p e net \<longleftrightarrow> True"

fun cuser_ok :: "int list \<Rightarrow> score_type \<Rightarrow> cevent \<Rightarrow> bool" where
  "cuser_ok rs t (C_Push p i) \<longleftrightarrow> \<not> packet_empty p \<and> int (packet_size p) \<le> INT_MAX \<and> i \<in> set rs"
| "cuser_ok rs t (C_Offer p s) \<longleftrightarrow>
     \<not> packet_empty p \<and> int (packet_size p) \<le> INT_MAX \<and> \<not> is_nan s \<and> m_kind s = t"
| "cuser_ok rs t e \<longleftrightarrow> True"

definition central_is_worker :: "central_net \<Rightarrow> rank \<Rightarrow> bool" where
  "central_is_worker net p \<longleftrightarrow> 1 \<le> p \<and> p < int (cn_size net)"

definition central_worker_step :: "rank \<Rightarrow> cevent \<Rightarrow> central_net \<Rightarrow> central_net res" where
  "central_worker_step p e net =
     rbind (central_apply (cn_runnables net) p e (cn_workers net p)) (\<lambda>(w, outs).
       Inr (net\<lparr>cn_workers := (cn_workers net)(p := w),
                cn_chans := post (consume p (central_inputs e) (cn_chans net)) p outs\<rparr>))"

definition central_center_step ::
    "comm \<Rightarrow> rank \<Rightarrow> nat \<Rightarrow> (central_center \<times> out list) res \<Rightarrow> central_net \<Rightarrow> central_net res" where
  "central_center_step c src k r net =
     rbind r (\<lambda>(ct, outs).
       Inr (net\<lparr>cn_center := ct, cn_chans := post (discard (cn_chans net) c src 0 k) 0 outs\<rparr>))"

text \<open>A handler of the center and the rest of the turn.\<close>

definition turn :: "rat \<Rightarrow> nat \<Rightarrow> (central_center \<times> out list) res \<Rightarrow> (central_center \<times> out list) res" where
  "turn now mem r = rbind r (end_of_turn now mem)"

inductive central_step :: "central_net \<Rightarrow> central_net res \<Rightarrow> bool" where
  worker: "central_is_worker net p \<Longrightarrow> cuser_ok (cn_runnables net) (cn_kind net) e \<Longrightarrow>
    central_enabled e (cn_workers net p) \<Longrightarrow> ready p (central_inputs e) (cn_chans net) \<Longrightarrow>
    central_waits p e net \<Longrightarrow> central_step net (central_worker_step p e net)"
| running: "central_is_worker net src \<Longrightarrow> cc_phase (cn_center net) = Looping \<Longrightarrow>
    takes (cn_chans net) World src 0 [Running_State] \<Longrightarrow>
    central_step net (central_center_step World src 1
      (turn now mem (rbind (central_process_running src (cn_center net)) quietly)) net)"
| available: "central_is_worker net src \<Longrightarrow> cc_phase (cn_center net) = Looping \<Longrightarrow>
    takes (cn_chans net) World src 0 [Available_State] \<Longrightarrow>
    central_step net (central_center_step World src 1
      (turn now mem (rbind (central_process_available src (cn_center net)) quietly)) net)"
| proposal: "central_is_worker net src \<Longrightarrow> cc_phase (cn_center net) = Looping \<Longrightarrow>
    takes (cn_chans net) Global_Score src 0 [Score_Proposal s] \<Longrightarrow>
    central_step net (central_center_step Global_Score src 1
      (turn now mem (Inr (central_score_proposal s (cn_center net)))) net)"
| task: "central_is_worker net src \<Longrightarrow> cc_phase (cn_center net) = Looping \<Longrightarrow>
    takes (cn_chans net) World src 0 [Task_For_Center p, Runnable_Id i] \<Longrightarrow>
    central_step net (central_center_step World src 2
      (turn now mem (process_task_for_center now src p i (cn_center net))) net)"
| ack: "central_is_worker net src \<Longrightarrow> cc_phase (cn_center net) = Looping \<Longrightarrow>
    takes (cn_chans net) World src 0 [Task_Received] \<Longrightarrow>
    central_step net (central_center_step World src 1
      (turn now mem (rbind (central_ack src (cn_center net)) quietly)) net)"
| idle: "cc_phase (cn_center net) = Looping \<Longrightarrow>
    central_step net (central_center_step World 0 0 (serve now mem (cn_center net)) net)"
| collect: "cc_phase (cn_center net) = Collecting r \<Longrightarrow> central_at_barrier net \<Longrightarrow>
    takes (cn_chans net) World r 0 (m # (case ms of None \<Rightarrow> [] | Some s \<Rightarrow> [Has_Result_Score s])) \<Longrightarrow>
    ms \<noteq> None \<longleftrightarrow> (\<exists>p. m = Has_Result p) \<Longrightarrow>
    central_step net (central_center_step World r (if ms = None then 1 else 2)
      (rbind (central_collect r m ms (cn_center net)) quietly) net)"

inductive central_reachable :: "nat \<Rightarrow> int list \<Rightarrow> goal \<Rightarrow> score_type \<Rightarrow> central_net \<Rightarrow> bool"
  for n rs g t where
  start: "central_start n rs g t seed fid = Inr net \<Longrightarrow> fid \<in> set rs \<Longrightarrow> central_reachable n rs g t net"
| step: "central_reachable n rs g t net \<Longrightarrow> central_step net (Inr net') \<Longrightarrow> central_reachable n rs g t net'"

section \<open>The step relation, executed\<close>

datatype central_move =
    C_Move rank cevent | CC_Running rank | CC_Available rank | CC_Proposal rank | CC_Task rank
  | CC_Ack rank | CC_Idle | CC_Collect

definition from_worker :: "rank \<Rightarrow> central_net \<Rightarrow> bool" where
  "from_worker src net \<longleftrightarrow> central_is_worker net src \<and> cc_phase (cn_center net) = Looping"

text \<open>One move at the time \<open>0\<close>, with no memory to speak of in use.\<close>

fun central_do :: "central_move \<Rightarrow> central_net \<Rightarrow> central_net res option" where
  "central_do (C_Move p e) net =
     (if central_is_worker net p \<and> cuser_ok (cn_runnables net) (cn_kind net) e \<and>
         central_enabled e (cn_workers net p) \<and> ready p (central_inputs e) (cn_chans net) \<and>
         central_waits p e net
      then Some (central_worker_step p e net) else None)"
| "central_do (CC_Running src) net =
     (if from_worker src net \<and> takes (cn_chans net) World src 0 [Running_State]
      then Some (central_center_step World src 1
        (turn 0 0 (rbind (central_process_running src (cn_center net)) quietly)) net) else None)"
| "central_do (CC_Available src) net =
     (if from_worker src net \<and> takes (cn_chans net) World src 0 [Available_State]
      then Some (central_center_step World src 1
        (turn 0 0 (rbind (central_process_available src (cn_center net)) quietly)) net) else None)"
| "central_do (CC_Proposal src) net =
     (if from_worker src net
      then (case cn_chans net Global_Score src 0 of
              Score_Proposal s # l \<Rightarrow> Some (central_center_step Global_Score src 1
                (turn 0 0 (Inr (central_score_proposal s (cn_center net)))) net)
            | _ \<Rightarrow> None)
      else None)"
| "central_do (CC_Task src) net =
     (if from_worker src net
      then (case cn_chans net World src 0 of
              Task_For_Center p # Runnable_Id i # l \<Rightarrow> Some (central_center_step World src 2
                (turn 0 0 (process_task_for_center 0 src p i (cn_center net))) net)
            | _ \<Rightarrow> None)
      else None)"
| "central_do (CC_Ack src) net =
     (if from_worker src net \<and> takes (cn_chans net) World src 0 [Task_Received]
      then Some (central_center_step World src 1
        (turn 0 0 (rbind (central_ack src (cn_center net)) quietly)) net) else None)"
| "central_do CC_Idle net =
     (if cc_phase (cn_center net) = Looping
      then Some (central_center_step World 0 0 (serve 0 0 (cn_center net)) net) else None)"
| "central_do CC_Collect net =
     (case cc_phase (cn_center net) of
        Collecting r \<Rightarrow>
          if \<not> central_at_barrier net then None
          else (case cn_chans net World r 0 of
                  Has_Result p # Has_Result_Score s # l \<Rightarrow>
                    Some (central_center_step World r 2
                      (rbind (central_collect r (Has_Result p) (Some s) (cn_center net)) quietly) net)
                | Has_Result p # l \<Rightarrow> None
                | m # l \<Rightarrow> Some (central_center_step World r 1
                      (rbind (central_collect r m None (cn_center net)) quietly) net)
                | [] \<Rightarrow> None)
      | _ \<Rightarrow> None)"

lemma central_do_step: "central_do m net = Some r \<Longrightarrow> central_step net r"
proof (cases m)
  case (CC_Proposal src)
  assume "central_do m net = Some r"
  then show ?thesis using CC_Proposal central_step.proposal [of net src _ 0 0]
    by (auto simp: takes_split from_worker_def split: if_splits list.splits msg.splits)
next
  case (CC_Task src)
  assume "central_do m net = Some r"
  then show ?thesis using CC_Task central_step.task [of net src _ _ 0 0]
    by (auto simp: takes_split from_worker_def split: if_splits list.splits msg.splits)
next
  case CC_Collect
  assume m: "central_do m net = Some r"
  then obtain k where ph: "cc_phase (cn_center net) = Collecting k" "central_at_barrier net"
    using CC_Collect by (auto split: phase.splits if_splits)
  obtain x l where x: "cn_chans net World k 0 = x # l"
    using m ph CC_Collect by (auto split: list.splits)
  show ?thesis
  proof (cases "\<exists>p. x = Has_Result p")
    case True
    then obtain p where p: "x = Has_Result p" by blast
    obtain s l' where s: "l = Has_Result_Score s # l'" "r = central_center_step World k 2
        (rbind (central_collect k (Has_Result p) (Some s) (cn_center net)) quietly) net"
      using m ph x p CC_Collect by (auto split: list.splits msg.splits)
    then show ?thesis
      using central_step.collect [OF ph, of "Has_Result p" "Some s"] x p by (simp add: takes_split)
  next
    case False
    then have "r = central_center_step World k 1 (rbind (central_collect k x None (cn_center net)) quietly) net"
      using m ph x CC_Collect by (auto split: list.splits msg.splits)
    then show ?thesis
      using central_step.collect [OF ph, of x None] x False by (simp add: takes_split)
  qed
qed (auto simp del: One_nat_def simp: from_worker_def split: if_splits intro: central_step.intros)

fun central_run :: "central_move list \<Rightarrow> central_net \<Rightarrow> central_net option" where
  "central_run [] net = Some net"
| "central_run (m # ms) net = (case central_do m net of Some (Inr net') \<Rightarrow> central_run ms net' | _ \<Rightarrow> None)"

lemma central_run_reachable:
  "central_run ms net = Some net' \<Longrightarrow> central_reachable n rs g t net \<Longrightarrow> central_reachable n rs g t net'"
proof (induction ms arbitrary: net)
  case (Cons m ms)
  obtain net1 where n1: "central_do m net = Some (Inr net1)" "central_run ms net1 = Some net'"
    using Cons.prems(1) by (auto split: option.splits sum.splits)
  show ?case
    by (rule Cons.IH [OF n1(2) central_reachable.step [OF Cons.prems(2) central_do_step [OF n1(1)]]])
qed simp

definition central_play ::
    "nat \<Rightarrow> int list \<Rightarrow> goal \<Rightarrow> score_type \<Rightarrow> task_packet \<Rightarrow> int \<Rightarrow> central_move list \<Rightarrow> central_net option" where
  "central_play n rs g t seed fid ms =
     (case central_start n rs g t seed fid of Inl f \<Rightarrow> None | Inr net \<Rightarrow> central_run ms net)"

lemma central_play_reachable:
  "central_play n rs g t seed fid ms = Some net \<Longrightarrow> fid \<in> set rs \<Longrightarrow> central_reachable n rs g t net"
  by (auto simp: central_play_def split: sum.splits intro: central_run_reachable central_reachable.start)

end
