(* ===== verification/Central_Outcome.thy ===== *)
theory Central_Outcome
  imports Central_Network
begin

text \<open>
  What the center of the centralized scheduler does with its queue, and what a run may lose: the
  hand-out of tasks keeps every task and the termination count, the notices to the workers alternate,
  and a solution found after the last look at the scores is not fetched.
\<close>

section \<open>Handing out the queue\<close>

definition task_messages :: "(rank \<times> task_bundle) list \<Rightarrow> out list" where
  "task_messages out = concat (map (\<lambda>(r, b).
     [(World, r, Task (bundle_packet b)), (World, r, Runnable_Id (bundle_runnable_id b))]) out)"

lemma task_messages_simps [simp]:
  "task_messages [] = []"
  "task_messages ((r, b) # out) =
     (World, r, Task (bundle_packet b)) # (World, r, Runnable_Id (bundle_runnable_id b)) # task_messages out"
  by (simp_all add: task_messages_def)

lemma fold_send_bundle:
  "fold central_send_bundle out (c, outs) = (c', outs') \<Longrightarrow>
     outs' = outs @ task_messages out \<and> td_deficit (cc_term c') = td_deficit (cc_term c) + int (length out) \<and>
     cc_sent_tasks c' = cc_sent_tasks c + int (length out) \<and> cc_queue c' = cc_queue c \<and>
     cc_state c' = cc_state c \<and> cc_available c' = cc_available c \<and>
     cc_last_full c' = cc_last_full c \<and> cc_notices_sent c' = cc_notices_sent c"
proof (induction out arbitrary: c outs)
  case (Cons x out)
  obtain r b where x: "x = (r, b)" by (metis prod.exhaust)
  obtain c1 outs1 where s: "central_send_bundle x (c, outs) = (c1, outs1)" by (metis prod.exhaust)
  have "fold central_send_bundle out (c1, outs1) = (c', outs')" using Cons.prems s by simp
  from Cons.IH [OF this] s show ?case
    by (auto simp: x central_send_bundle_def on_task_sent_def cc_count_sent_def cc_count_request_def cc_count_message_def)
qed simp

lemma clear_buffer_spec:
  assumes "clear_buffer c = (c', outs)"
  shows "\<exists>out q st. dispatch_to_available (cc_queue c) (cc_state c) AVAILABLE_STATE ASSIGNED_STATE = (out, q, st) \<and>
     outs = task_messages out \<and> cc_queue c' = q \<and> cc_state c' = st \<and>
     td_deficit (cc_term c') = td_deficit (cc_term c) + int (length out) \<and>
     cc_sent_tasks c' = cc_sent_tasks c + int (length out) \<and>
     cc_available c' = cc_available c - int (length out) \<and>
     cc_last_full c' = cc_last_full c \<and> cc_notices_sent c' = cc_notices_sent c"
proof -
  obtain out q st where d: "dispatch_to_available (cc_queue c) (cc_state c) AVAILABLE_STATE ASSIGNED_STATE = (out, q, st)"
    by (metis prod_cases3)
  obtain c1 o1 where f: "fold central_send_bundle out (c\<lparr>cc_queue := q, cc_state := st\<rparr>, []) = (c1, o1)"
    by (metis prod.exhaust)
  show ?thesis using assms d f fold_send_bundle [OF f] by (auto simp: clear_buffer_def)
qed

lemma filter_after_take: "distinct a \<Longrightarrow> filter (\<lambda>r. r \<notin> set (take m a)) a = drop m a"
proof (induction a arbitrary: m)
  case (Cons x a)
  show ?case
  proof (cases m)
    case (Suc k)
    have "filter (\<lambda>r. r \<notin> set (take m (x # a))) (x # a) = filter (\<lambda>r. r \<notin> set (take k a)) a"
      using Cons.prems Suc by (auto intro: filter_cong)
    then show ?thesis using Cons Suc by simp
  qed simp
qed simp

lemma workers_available_served:
  assumes asg: "asg \<noteq> av"
  shows "workers_available (foldl (\<lambda>s i. s[i := asg]) st (take m (workers_available st av))) av =
    drop m (workers_available st av)"
proof -
  define a where "a = workers_available st av"
  define st' where "st' = foldl (\<lambda>s i. s[i := asg]) st (take m a)"
  have len: "length st' = length st" unfolding st'_def by (rule assign_states [THEN conjunct1])
  have nth: "st' ! r = (if r \<in> set (take m a) then asg else st ! r)" if "r < length st" for r
    unfolding st'_def using assign_states [of asg st "take m a", THEN conjunct2, rule_format, OF that] .
  have "workers_available st' av = filter (\<lambda>r. st ! r = av \<and> r \<notin> set (take m a)) [1..<length st]"
    unfolding workers_available_def len using asg nth by (intro filter_cong) auto
  also have "\<dots> = filter (\<lambda>r. r \<notin> set (take m a)) a"
    by (subst (2) a_def) (simp add: workers_available_def conj_commute)
  also have "\<dots> = drop m a" by (rule filter_after_take) (simp add: a_def workers_available_def)
  finally show ?thesis by (simp only: st'_def a_def)
qed

definition idle_workers :: "central_center \<Rightarrow> nat list" where
  "idle_workers c = workers_available (cc_state c) AVAILABLE_STATE"

text \<open>C19: \<open>clear_buffer\<close> loses no task and keeps every count: the tasks it sends and those left in the
  queue are the tasks that were in the queue, none left has a higher priority than one sent; the
  deficit and the number of sent tasks grow by the number of tasks sent, \<open>m_nodes_available\<close> falls with
  the number of available workers, and it stops only when the queue is empty or no worker is available.\<close>

theorem clear_buffer_conserves:
  assumes "pq_sorted (cc_queue c)" and "clear_buffer c = (c', outs)"
  shows "\<exists>out. outs = task_messages out \<and> mset (map snd out) + mset (cc_queue c') = mset (cc_queue c) \<and>
    pq_sorted (cc_queue c') \<and>
    (\<forall>x \<in> set (map snd out). \<forall>y \<in> set (cc_queue c'). get_nb_set_bits_bundle y \<le> get_nb_set_bits_bundle x) \<and>
    td_deficit (cc_term c') = td_deficit (cc_term c) + int (length out) \<and>
    cc_sent_tasks c' = cc_sent_tasks c + int (length out) \<and>
    cc_available c' - int (length (idle_workers c')) = cc_available c - int (length (idle_workers c)) \<and>
    (cc_queue c' = [] \<or> idle_workers c' = [])"
proof -
  obtain out q st where d: "dispatch_to_available (cc_queue c) (cc_state c) AVAILABLE_STATE ASSIGNED_STATE = (out, q, st)"
    and S: "outs = task_messages out" "cc_queue c' = q" "cc_state c' = st"
      "td_deficit (cc_term c') = td_deficit (cc_term c) + int (length out)"
      "cc_sent_tasks c' = cc_sent_tasks c + int (length out)"
      "cc_available c' = cc_available c - int (length out)"
    using clear_buffer_spec [OF assms(2)] by blast
  let ?a = "idle_workers c" and ?m = "min (length (idle_workers c)) (length (cc_queue c))"
  have D: "out = zip (map int ?a) (cc_queue c)" "q = drop ?m (cc_queue c)"
    "st = foldl (\<lambda>s i. s[i := ASSIGNED_STATE]) (cc_state c) (take ?m ?a)"
    using d by (auto simp: dispatch_spec Let_def idle_workers_def)
  have snd: "map snd out = lq.take_tops ?m (cc_queue c)" by (simp add: D map_snd_zip_take take_tops_prefix)
  have left: "q = lq.left_after ?m (cc_queue c)" by (simp add: D left_after_drop)
  have "mset (map snd out) + mset q = mset (cc_queue c)"
    unfolding snd left by (rule lq.take_tops_tasks [OF assms(1)])
  moreover have "\<forall>x \<in> set (map snd out). \<forall>y \<in> set q. get_nb_set_bits_bundle y \<le> get_nb_set_bits_bundle x"
    unfolding snd left using lq.take_tops_highest [OF assms(1)] by simp
  moreover have "pq_sorted q" using assms(1) by (simp add: D pq_sorted_def sorted_wrt_drop)
  moreover have idle: "idle_workers c' = drop ?m ?a"
    using workers_available_served [of ASSIGNED_STATE AVAILABLE_STATE "cc_state c" ?m]
    by (simp add: idle_workers_def S(3) D(3) AVAILABLE_STATE_def ASSIGNED_STATE_def)
  moreover have "length out = ?m" by (simp add: D)
  ultimately show ?thesis using S D(2) by (intro exI [of _ out]) (auto simp: min_def)
qed

definition full_center :: central_center where
  "full_center = (central_center_init 3 MAXIMISE (make_score (NI32 0)))
     \<lparr>cc_state := [3, 1, 3], cc_available := 1, cc_queue := [sample_bundle 7, sample_bundle 1]\<rparr>"

lemma clear_buffer_conserves_witness:
  "td_deficit (cc_term (fst (clear_buffer full_center))) = 1 \<and>
   cc_queue (fst (clear_buffer full_center)) = [sample_bundle 1]"
proof -
  have s: "pq_sorted (cc_queue full_center)"
  proof -
    have "get_nb_set_bits_char 7 = 3" "get_nb_set_bits_char 1 = 1" "get_nb_set_bits_char 0 = 0"
      by (simp_all add: get_nb_set_bits_char_def)
    then show ?thesis
      by (simp add: full_center_def pq_sorted_def task_bundle_comparator_def get_nb_set_bits_bundle_def
          get_nb_set_bits_packet_def sample_bundle_def)
  qed
  have q: "cc_queue (fst (clear_buffer full_center)) = [sample_bundle 1]" by code_simp
  have c: "td_deficit (cc_term full_center) = 0 \<and> length (cc_queue full_center) = 2" by code_simp
  obtain c' outs where o: "clear_buffer full_center = (c', outs)" by (metis prod.exhaust)
  from clear_buffer_conserves [OF s o] show ?thesis
  proof (elim exE conjE)
    fix out assume out: "mset (map snd out) + mset (cc_queue c') = mset (cc_queue full_center)"
      "td_deficit (cc_term c') = td_deficit (cc_term full_center) + int (length out)"
    have "length out + length (cc_queue c') = length (cc_queue full_center)"
      using arg_cong [OF out(1), of size] by simp
    then have "length out = 1" using q c o by simp
    then show ?thesis using out(2) q c o by simp
  qed
qed






text \<open>The center accepts a task: \<open>process_task_for_center\<close> adds exactly that task to the queue,
  keeps its order, acknowledges the sender at once and leaves its own termination count alone, so the
  queue is what keeps the center from terminating.\<close>

theorem center_takes_task:
  assumes "pq_sorted (cc_queue c)" and "td_is_root (cc_term c)"
    and "process_task_for_center now src p fid c = Inr (c', outs)"
  shows "mset (cc_queue c') = add_mset \<lparr>bundle_packet = p, bundle_runnable_id = fid\<rparr> (mset (cc_queue c)) \<and>
    pq_sorted (cc_queue c') \<and> outs = [(World, src, Task_Received)] \<and> cc_term c' = cc_term c \<and>
    length (cc_queue c') = length (cc_queue c) + 1 \<and> cc_state c' = cc_state c"
proof -
  have d: "on_task_received (cc_term c) src = (cc_term c, Some src)"
    using assms(2) by (simp add: on_task_received_engaged)
  have "length (pq_push b q) = length q + 1" for b q
    using arg_cong [OF pq_push_mset [of b q], of size] unfolding size_mset by simp
  then show ?thesis
    using assms(3) d pq_push_sorted [OF assms(1)]
    by (cases "center_limit (2 * CENTER_NBSTORED_TASKS_PER_PROCESS) c")
      (auto simp: process_task_for_center_def Let_def ack_to_def)
qed

lemma center_takes_task_witness:
  "\<exists>c' outs. process_task_for_center 0 1 (Task_Packet [7]) 0
     (central_center_init 3 MAXIMISE (make_score (NI32 0))) = Inr (c', outs) \<and> cc_queue c' = [sample_bundle 7]"
proof -
  let ?c = "central_center_init 3 MAXIMISE (make_score (NI32 0))"
  have "center_limit (2 * CENTER_NBSTORED_TASKS_PER_PROCESS) ?c = Inr 6000"
    by (simp add: center_limit_def CENTER_NBSTORED_TASKS_PER_PROCESS_def int_checked_def INT_MAX_def central_center_init_def)
  then obtain c' outs where r: "process_task_for_center 0 1 (Task_Packet [7]) 0 ?c = Inr (c', outs)"
    by (cases "on_task_received (cc_term ?c) 1") (simp add: process_task_for_center_def Let_def)
  have "pq_sorted (cc_queue ?c)" "td_is_root (cc_term ?c)"
    by (simp_all add: central_center_init_def pq_sorted_def new_detector_def)
  from center_takes_task [OF this r] r show ?thesis
    by (simp add: central_center_init_def sample_bundle_def)
qed

section \<open>A result that arrives late\<close>

text \<open>
  A run of two ranks: the only task of the worker finds its result between the last \<open>update_score\<close> of
  \<open>task_funneling\<close> and the end of the pool's work.
\<close>

definition late_result :: "central_move list" where
  "late_result = [C_Move 1 (C_Task 0 (Task_Packet [1]) 7), C_Move 1 C_Enter, C_Move 1 (C_Poll None None),
     C_Move 1 (C_Offer (Task_Packet [9]) (make_score (NI32 5))), C_Move 1 C_Pool_Done, C_Move 1 C_Pop,
     C_Move 1 C_Check, C_Move 1 C_Recheck, C_Move 1 C_Leave,
     CC_Running 1, CC_Available 1, CC_Ack 1, C_Move 1 (C_Termination 0 0), C_Move 1 C_Drained,
     C_Move 1 (C_Exit 0 0), CC_Collect]"

text \<open>C13: The centralized scheduler can lose the solution: there is a complete run in which a worker
  found a packet with score 5, better than the default score the center still has, and reported it, and
  \<open>fetch_solution\<close> returns the empty packet. The worker never proposes a score that arrives after the
  last \<open>update_score\<close> of \<open>task_funneling\<close>, and the center only looks for results whose score equals
  the global one.\<close>

theorem central_late_result_lost:
  "\<exists>net. central_play 2 [7] MAXIMISE I32 (Task_Packet [1]) 7 late_result = Some net \<and>
     central_reachable 2 [7] MAXIMISE I32 net \<and> cc_phase (cn_center net) = Finished \<and>
     cc_best (cn_center net) ! 1 = \<lparr>result_score = make_score (NI32 5), result_packet = Task_Packet [9]\<rparr> \<and>
     better MAXIMISE (make_score (NI32 5)) (cc_score (cn_center net)) \<and>
     central_fetch_solution (cn_center net) = packet_EMPTY"
proof -
  have "map_option (\<lambda>n. (cc_phase (cn_center n), cc_best (cn_center n) ! 1,
        better MAXIMISE (make_score (NI32 5)) (cc_score (cn_center n)), central_fetch_solution (cn_center n)))
      (central_play 2 [7] MAXIMISE I32 (Task_Packet [1]) 7 late_result) =
      Some (Finished, \<lparr>result_score = make_score (NI32 5), result_packet = Task_Packet [9]\<rparr>, True, packet_EMPTY)"
    by code_simp
  then obtain net where n: "central_play 2 [7] MAXIMISE I32 (Task_Packet [1]) 7 late_result = Some net"
    "cc_phase (cn_center net) = Finished"
    "cc_best (cn_center net) ! 1 = \<lparr>result_score = make_score (NI32 5), result_packet = Task_Packet [9]\<rparr>"
    "better MAXIMISE (make_score (NI32 5)) (cc_score (cn_center net))"
    "central_fetch_solution (cn_center net) = packet_EMPTY"
    by (auto simp: map_option_case split: option.splits)
  show ?thesis using n central_play_reachable [OF n(1)] by auto
qed

end
