(* ===== verification/Central_Inv.thy ===== *)
theory Central_Inv
  imports Detector_View Central_Outcome
begin

text \<open>
  The invariant of a run of the centralized scheduler: what the channels may hold, what the state of
  every rank is, and that the detectors are those of a run of \<open>Dijkstra_Scholten\<close>, in which the center
  counts as active while its queue holds a task. \<open>Central_Run\<close> shows that every step keeps it.
\<close>

definition central_dets :: "central_net \<Rightarrow> rank \<Rightarrow> detector" where
  "central_dets net p = (if p = 0 then cc_term (cn_center net) else cw_term (cn_workers net p))"

definition central_busy :: "central_net \<Rightarrow> rank \<Rightarrow> bool" where
  "central_busy net p =
     (if p = 0 then cc_queue (cn_center net) \<noteq> [] else fn_busy (fn_pc (cw_funnel (cn_workers net p))))"

definition central_shows :: "central_net \<Rightarrow> bool" where
  "central_shows net \<longleftrightarrow> ds_shows (int (cn_size net)) (central_dets net) (central_busy net) (cn_chans net)"

text \<open>
  What a worker may send to the center on the world communicator; a task is followed by its function's
  id and a result by its score. What a rank may send to a worker is \<open>orders_from\<close>.
\<close>

datatype due = Anything | Id_Due | Score_Due

primrec central_reports :: "int list \<Rightarrow> due \<Rightarrow> msg list \<Rightarrow> bool" where
  "central_reports rs b [] \<longleftrightarrow> b = Anything"
| "central_reports rs b (m # l) \<longleftrightarrow>
     (case m of
        Running_State \<Rightarrow> b = Anything \<and> central_reports rs Anything l
      | Available_State \<Rightarrow> b = Anything \<and> central_reports rs Anything l
      | Task_Received \<Rightarrow> b = Anything \<and> central_reports rs Anything l
      | No_Result \<Rightarrow> b = Anything \<and> central_reports rs Anything l
      | Task_For_Center p \<Rightarrow> b = Anything \<and> int (packet_size p) \<le> INT_MAX \<and> central_reports rs Id_Due l
      | Runnable_Id i \<Rightarrow> b = Id_Due \<and> i \<in> set rs \<and> central_reports rs Anything l
      | Has_Result p \<Rightarrow> b = Anything \<and> central_reports rs Score_Due l
      | Has_Result_Score s \<Rightarrow> b = Score_Due \<and> central_reports rs Anything l
      | _ \<Rightarrow> False)"

lemma central_reports_append:
  "central_reports rs b l \<Longrightarrow> central_reports rs Anything r \<Longrightarrow> central_reports rs b (l @ r)"
  by (induction l arbitrary: b) (auto split: msg.splits)

definition central_outs_ok :: "int list \<Rightarrow> out list \<Rightarrow> bool" where
  "central_outs_ok rs outs \<longleftrightarrow> central_reports rs Anything (sent_to World 0 outs) \<and>
     (\<forall>q. q \<noteq> 0 \<longrightarrow> orders_from rs None False (sent_to World q outs)) \<and>
     (\<forall>q. sent_to Center_Fullness q outs = []) \<and> (\<forall>q. q \<noteq> 0 \<longrightarrow> sent_to Global_Score q outs = []) \<and>
     list_all is_proposal (sent_to Global_Score 0 outs)"

lemma ack_to_central: "central_reports rs Anything (sent_to World d (ack_to r))"
  by (auto simp: ack_to_def split: option.split)

lemma central_outs_simps [simp]:
  "central_outs_ok rs []" "central_outs_ok rs [(Global_Score, 0, Score_Proposal s)]" "central_outs_ok rs (ack_to r)"
  "central_outs_ok rs (final_solution nm)" "central_outs_ok rs ((World, 0, Available_State) # ack_to r)"
  "central_outs_ok rs (ack_to r @ [(World, 0, Running_State)])"
  "task_fits rs b \<Longrightarrow> central_outs_ok rs [(World, 0, Task_For_Center (bundle_packet b)), (World, 0, Runnable_Id (bundle_runnable_id b))]"
  by (auto simp: central_outs_ok_def task_fits_def bundle_size_def ack_to_central ack_to_reports central_reports_append final_solution_def
      split: option.split)

section \<open>The invariant\<close>

definition notified :: "central_center \<Rightarrow> (int \<times> int) option" where
  "notified c = (if cc_phase c = Looping then None else Some (cc_updates_sent c, cc_notices_sent c))"

definition central_chans_ok :: "int list \<Rightarrow> central_center \<Rightarrow> central_worker \<Rightarrow> chans \<Rightarrow> rank \<Rightarrow> bool" where
  "central_chans_ok rs c w ch p \<longleftrightarrow>
     (\<forall>s. s \<noteq> 0 \<longrightarrow> orders_from rs None False (ch World s p)) \<and> orders_from rs (notified c) False (ch World 0 p) \<and>
     (\<forall>m \<in> set (ch Center_Fullness 0 p). \<exists>f. m = notice f) \<and>
     (\<forall>m \<in> set (ch Global_Score 0 p). \<exists>s. m = Score_Update s) \<and>
     cw_updates_received w + int (length (ch Global_Score 0 p)) = cc_updates_sent c \<and>
     cw_notices_received w + int (length (ch Center_Fullness 0 p)) = cc_notices_sent c"

definition reports_ok :: "int list \<Rightarrow> chans \<Rightarrow> bool" where
  "reports_ok rs ch \<longleftrightarrow> (\<forall>s. s \<noteq> 0 \<longrightarrow> central_reports rs Anything (ch World s 0) \<and> list_all is_proposal (ch Global_Score s 0))"

definition central_center_ok :: "int list \<Rightarrow> nat \<Rightarrow> central_center \<Rightarrow> bool" where
  "central_center_ok rs n c \<longleftrightarrow> 2 \<le> n \<and> length (cc_state c) = n \<and> length (cc_best c) = n \<and>
     (\<forall>b \<in> set (cc_queue c). task_fits rs b)"

definition central_phase_ok :: "central_net \<Rightarrow> bool" where
  "central_phase_ok net \<longleftrightarrow>
     (case cc_phase (cn_center net) of
        Looping \<Rightarrow> (\<forall>p. central_is_worker net p \<longrightarrow> \<not> fn_stopped (fn_pc (cw_funnel (cn_workers net p))))
      | Collecting r \<Rightarrow> td_deficit (cc_term (cn_center net)) = 0 \<and> cc_queue (cn_center net) = [] \<and> central_is_worker net r
      | Finished \<Rightarrow> td_deficit (cc_term (cn_center net)) = 0 \<and> cc_queue (cn_center net) = []) \<and>
     (\<forall>p a b. central_is_worker net p \<and> fn_pc (cw_funnel (cn_workers net p)) = Draining a b \<longrightarrow>
        Some (a, b) = notified (cn_center net))"

text \<open>
  \<open>central_mid\<close> holds inside a turn of the center, between its handler and the end of the turn;
  between turns the center also has a reason to go on looping.
\<close>

definition central_mid :: "central_net \<Rightarrow> bool" where
  "central_mid net \<longleftrightarrow> central_center_ok (cn_runnables net) (cn_size net) (cn_center net) \<and>
     (\<forall>p. central_is_worker net p \<longrightarrow> central_worker_ok (cn_runnables net) (cn_workers net p) \<and>
        central_chans_ok (cn_runnables net) (cn_center net) (cn_workers net p) (cn_chans net) p) \<and>
     reports_ok (cn_runnables net) (cn_chans net) \<and> central_phase_ok net \<and> central_shows net"

definition central_awake :: "central_center \<Rightarrow> bool" where
  "central_awake c \<longleftrightarrow> (cc_phase c = Looping \<longrightarrow> td_deficit (cc_term c) \<noteq> 0 \<or> cc_queue c \<noteq> [])"

definition central_inv :: "central_net \<Rightarrow> bool" where
  "central_inv net \<longleftrightarrow> central_mid net \<and> central_awake (cn_center net)"

lemma central_midD:
  assumes "central_mid net"
  shows "central_center_ok (cn_runnables net) (cn_size net) (cn_center net)"
    "central_is_worker net p \<Longrightarrow> central_worker_ok (cn_runnables net) (cn_workers net p)"
    "central_is_worker net p \<Longrightarrow> central_chans_ok (cn_runnables net) (cn_center net) (cn_workers net p) (cn_chans net) p"
    "reports_ok (cn_runnables net) (cn_chans net)" "central_phase_ok net" "central_shows net"
    "0 < int (cn_size net)"
  using assms by (auto simp: central_mid_def central_center_ok_def)

lemma central_chansD:
  assumes "central_chans_ok rs c w ch p"
  shows "s \<noteq> 0 \<Longrightarrow> orders_from rs None False (ch World s p)" "orders_from rs (notified c) False (ch World 0 p)"
    "orders_from rs (notified c) False (ch World s p)"
    "m \<in> set (ch Center_Fullness 0 p) \<Longrightarrow> \<exists>f. m = notice f"
    "m \<in> set (ch Global_Score 0 p) \<Longrightarrow> \<exists>s. m = Score_Update s"
    "cw_updates_received w + int (length (ch Global_Score 0 p)) = cc_updates_sent c"
    "cw_notices_received w + int (length (ch Center_Fullness 0 p)) = cc_notices_sent c"
  using assms orders_mono [of rs False "ch World s p"] by (cases "s = 0"; simp add: central_chans_ok_def)+

lemma central_is_worker_upd [simp]:
  "central_is_worker (cn_workers_update f net) p = central_is_worker net p"
  "central_is_worker (cn_center_update g net) p = central_is_worker net p"
  "central_is_worker (cn_chans_update h net) p = central_is_worker net p"
  by (simp_all add: central_is_worker_def)

lemma central_stopped_quiet:
  assumes inv: "central_mid net" and ph: "cc_phase (cn_center net) \<noteq> Looping"
  shows "how_many is_task (cn_chans net World s d) = 0" "how_many is_ack (cn_chans net World s d) = 0"
    "central_is_worker net p \<Longrightarrow> is_quiescent (cw_term (cn_workers net p))"
    "central_is_worker net p \<Longrightarrow> \<not> fn_busy (fn_pc (cw_funnel (cn_workers net p)))"
    "td_deficit (cc_term (cn_center net)) = 0" "cc_queue (cn_center net) = []"
proof -
  show d: "td_deficit (cc_term (cn_center net)) = 0" "cc_queue (cn_center net) = []"
    using central_midD(5) [OF inv] ph by (auto simp: central_phase_ok_def split: phase.splits)
  have d0: "td_deficit (central_dets net 0) = 0" using d by (simp add: central_dets_def)
  note T = shows_terminated [OF central_midD(6) [OF inv, unfolded central_shows_def] central_midD(7) [OF inv] d0]
  show "how_many is_task (cn_chans net World s d) = 0" "how_many is_ack (cn_chans net World s d) = 0"
    using T(1,2) by simp_all
  assume p: "central_is_worker net p"
  then have "p \<noteq> 0" "in_world (int (cn_size net)) p" by (auto simp: central_is_worker_def in_world_def)
  then show "is_quiescent (cw_term (cn_workers net p))" "\<not> fn_busy (fn_pc (cw_funnel (cn_workers net p)))"
    using T(3) [of p] T(4) [of p] by (simp_all add: central_dets_def central_busy_def)
qed

section \<open>The events of a worker\<close>

fun cscore_inputs :: "cevent \<Rightarrow> nat" where
  "cscore_inputs (C_Score s) = 1"
| "cscore_inputs (C_Drain_Score s) = 1"
| "cscore_inputs (C_Poll ms mf) = (if ms = None then 0 else 1)"
| "cscore_inputs e = 0"

fun cnotice_inputs :: "cevent \<Rightarrow> nat" where
  "cnotice_inputs (C_Notice f) = 1"
| "cnotice_inputs (C_Drain_Notice f) = 1"
| "cnotice_inputs (C_Poll ms mf) = (if mf = None then 0 else 1)"
| "cnotice_inputs e = 0"

lemma central_input_ok:
  assumes inv: "central_mid net" and p: "central_is_worker net p" and us: "cuser_ok (cn_runnables net) (cn_kind net) e"
    and en: "central_enabled e (cn_workers net p)" and rd: "ready p (central_inputs e) (cn_chans net)"
  shows "cinput_ok (cn_runnables net) (cn_workers net p) e"
proof -
  note C = central_chansD [OF central_midD(3) [OF inv p]]
  show ?thesis
  proof (cases e)
    case (C_Task src k i)
    then obtain l where "cn_chans net World src p = Task k # Runnable_Id i # l"
      using rd by (auto simp: ready_def takes_split)
    then show ?thesis using C(3) [of src] C_Task by simp
  next
    case (C_Ack src)
    then obtain l where l: "cn_chans net World src p = Task_Received # l" using rd by (auto simp: ready_def takes_split)
    have "p \<noteq> 0" using p by (simp add: central_is_worker_def)
    then show ?thesis
      using shows_ack_expected [OF central_midD(6) [OF inv, unfolded central_shows_def] central_midD(7) [OF inv] l] C_Ack
      by (simp add: central_dets_def)
  next
    case (C_Termination a b)
    then obtain l where "cn_chans net World 0 p = Termination a b # l" using rd by (auto simp: ready_def takes_split)
    then have "cc_phase (cn_center net) \<noteq> Looping" using C(2) by (auto simp: notified_def split: if_splits)
    then show ?thesis using central_stopped_quiet(3) [OF inv _ p] C_Termination by simp
  next
    case C_Drained
    have D: "Some (a, b) = notified (cn_center net)" if "fn_pc (cw_funnel (cn_workers net p)) = Draining a b" for a b
      using central_midD(5) [OF inv] p that by (simp add: central_phase_ok_def)
    show ?thesis using C_Drained D C(6,7) by (auto simp: notified_def split: if_splits)
  next
    case (C_Push q i)
    then show ?thesis using us by simp
  next
    case (C_Offer q s)
    then show ?thesis using us by simp
  qed simp_all
qed

lemma central_worker_result:
  assumes "central_mid net" and p: "central_is_worker net p" and "cuser_ok (cn_runnables net) (cn_kind net) e"
    and en: "central_enabled e (cn_workers net p)" and "ready p (central_inputs e) (cn_chans net)"
  shows "\<exists>w' outs. central_apply (cn_runnables net) p e (cn_workers net p) = Inr (w', outs) \<and>
    central_worker_ok (cn_runnables net) w'"
  by (rule central_apply_ok [OF central_midD(2) [OF assms(1) p] en central_input_ok [OF assms]])

end
