(* ===== verification/Central_Steps.thy ===== *)
theory Central_Steps
  imports Central_Inv
begin

text \<open>
  A step of a worker of the centralized scheduler keeps the invariant of \<open>Central_Inv\<close>.
\<close>

section \<open>What an event changes\<close>

text \<open>The events the detector does not see.\<close>

fun central_silent :: "cevent \<Rightarrow> bool" where
  "central_silent (C_Task src p i) \<longleftrightarrow> False"
| "central_silent (C_Ack src) \<longleftrightarrow> False"
| "central_silent (C_Send b) \<longleftrightarrow> False"
| "central_silent C_Leave \<longleftrightarrow> False"
| "central_silent e \<longleftrightarrow> True"

lemma central_update_score_sel:
  assumes "central_update_score w = (w', outs, b)"
  shows "cw_term w' = cw_term w" "quiet_outs outs" "central_outs_ok rs outs"
    "cw_updates_received w' = cw_updates_received w" "cw_notices_received w' = cw_notices_received w"
    "fn_pc (cw_funnel w') = (if b then Proposing else fn_pc (cw_funnel w))"
  using assms by (auto simp: central_update_score_def quiet_outs_def split: prod.splits option.splits)

lemma central_poll_sel:
  assumes "central_poll ms mf w = (w', outs)"
  shows "cw_term w' = cw_term w" "quiet_outs outs" "central_outs_ok rs outs" "fn_busy (fn_pc (cw_funnel w'))"
    "cw_updates_received w' = cw_updates_received w + int (cscore_inputs (C_Poll ms mf))"
    "cw_notices_received w' = cw_notices_received w + int (cnotice_inputs (C_Poll ms mf))"
proof -
  define w2 where "w2 = (case mf of None \<Rightarrow> (case ms of None \<Rightarrow> w | Some s \<Rightarrow> central_receive_score s w)
    | Some f \<Rightarrow> central_receive_notice f (case ms of None \<Rightarrow> w | Some s \<Rightarrow> central_receive_score s w))"
  have f2: "cw_term w2 = cw_term w" "cw_updates_received w2 = cw_updates_received w + int (cscore_inputs (C_Poll ms mf))"
    "cw_notices_received w2 = cw_notices_received w + int (cnotice_inputs (C_Poll ms mf))"
    by (simp_all add: w2_def central_receive_notice_def central_receive_score_def split: option.split)
  obtain w3 b where u: "central_update_score w2 = (w3, outs, b)" and w': "w' = (if b then w3 else central_goto Popping w3)"
    using assms by (auto simp: central_poll_def Let_def w2_def split: prod.splits)
  note U = central_update_score_sel [OF u]
  show "cw_term w' = cw_term w" "quiet_outs outs" "central_outs_ok rs outs" "fn_busy (fn_pc (cw_funnel w'))"
    "cw_updates_received w' = cw_updates_received w + int (cscore_inputs (C_Poll ms mf))"
    "cw_notices_received w' = cw_notices_received w + int (cnotice_inputs (C_Poll ms mf))"
    using U f2 by (simp_all add: w' central_goto_def)
qed

text \<open>The results of the events the detector sees.\<close>

lemma central_task_result:
  assumes "central_process_message rs src k i w = Inr (w', outs)" and "on_task_received (cw_term w) src = (d, r)"
  shows "cw_term w' = d" "outs = ack_to r @ [(World, 0, Running_State)]" "fn_pc (cw_funnel w') = Entering"
    "cw_updates_received w' = cw_updates_received w" "cw_notices_received w' = cw_notices_received w"
  using assms by (auto simp: central_process_message_def Let_def split: if_splits)

lemma central_ack_result:
  assumes "central_apply rs p (C_Ack src) w = Inr (w', outs)"
    and "on_passive (fst (on_ack_received (cw_term w))) = (d, r)"
  shows "cw_term w' = d" "outs = ack_to r" "cw_funnel w' = cw_funnel w"
    "cw_updates_received w' = cw_updates_received w" "cw_notices_received w' = cw_notices_received w"
proof -
  obtain d1 b where b: "on_ack_received (cw_term w) = (d1, b)" by (metis prod.exhaust)
  show "cw_term w' = d" "outs = ack_to r" "cw_funnel w' = cw_funnel w"
    "cw_updates_received w' = cw_updates_received w" "cw_notices_received w' = cw_notices_received w"
    using assms b by (cases b; auto simp: central_task_received_ack_def central_release_parent_def)+
qed

lemma central_send_result:
  assumes "central_send b w = Inr (w', outs)"
  shows "cw_term w' = on_task_sent (cw_term w)" "fn_pc (cw_funnel w') = Polling"
    "outs = [(World, 0, Task_For_Center (bundle_packet b)), (World, 0, Runnable_Id (bundle_runnable_id b))]"
    "cw_updates_received w' = cw_updates_received w" "cw_notices_received w' = cw_notices_received w"
  using assms by (cases "byte_count (bundle_packet b)";
    auto simp: central_send_def send_task_to_center_def Let_def fn_sent_def split: list.splits)+

lemma central_leave_result:
  assumes "central_leave w = Inr (w', outs)" and "on_passive (cw_term w) = (d, r)"
  shows "cw_term w' = d" "outs = (World, 0, Available_State) # ack_to r" "fn_pc (cw_funnel w') = Listening"
    "cw_updates_received w' = cw_updates_received w" "cw_notices_received w' = cw_notices_received w"
  using assms by (auto simp: central_leave_def central_release_parent_def fn_finish_def split: if_splits)

lemma central_silent_result:
  assumes ap: "central_apply rs p e w = Inr (w', outs)" and s: "central_silent e" and en: "central_enabled e w"
  shows "cw_term w' = cw_term w \<and> fn_busy (fn_pc (cw_funnel w')) = fn_busy (fn_pc (cw_funnel w)) \<and>
    quiet_outs outs \<and> central_outs_ok rs outs"
proof (cases e)
  case (C_Termination a b)
  then show ?thesis using ap en
    by (auto simp: quiet_outs_def quietly_def central_process_termination_def central_goto_def split: if_splits)
next
  case (C_Push q i)
  then show ?thesis using ap
    by (auto simp: quiet_outs_def quietly_def central_force_push_def split: if_splits dest: fn_push_pc)
next
  case (C_Poll ms mf)
  then show ?thesis using ap en central_poll_sel [of ms mf w w' outs] by auto
next
  case C_Drained
  then show ?thesis using ap en by (auto simp: quiet_outs_def quietly_def central_drained_def central_goto_def split: if_splits)
next
  case (C_Exit idle req)
  then show ?thesis using ap en final_solution_quiet
    by (cases "result_count (cw_nm w)") (auto simp: central_exit_def central_goto_def)
qed (use assms in \<open>auto simp: quiet_outs_def quietly_def central_receive_score_def central_receive_notice_def on_funnel_def
    central_goto_def\<close>)

lemma central_outs_result:
  assumes ap: "central_apply rs p e w = Inr (w', outs)" and ok: "central_worker_ok rs w" and en: "central_enabled e w"
  shows "central_outs_ok rs outs"
proof (cases "central_silent e")
  case True
  then show ?thesis using central_silent_result [OF ap _ en] by blast
next
  case False
  then consider (t) src k i where "e = C_Task src k i" | (a) src where "e = C_Ack src"
    | (s) b where "e = C_Send b" | (l) "e = C_Leave" by (cases e) simp_all
  then show ?thesis
  proof cases
    case t
    obtain d r where "on_task_received (cw_term w) src = (d, r)" by (metis prod.exhaust)
    from central_task_result(2) [OF _ this, of rs k i w' outs] ap t show ?thesis by simp
  next
    case a
    obtain d r where r: "on_passive (fst (on_ack_received (cw_term w))) = (d, r)" by (metis prod.exhaust)
    show ?thesis using central_ack_result(2) [OF ap [unfolded a] r] by simp
  next
    case s
    have "task_fits rs b" using central_worker_okD(4) [OF ok] en s by simp
    then show ?thesis using central_send_result(3) [of b w w' outs] ap s by simp
  next
    case l
    obtain d r where "on_passive (cw_term w) = (d, r)" by (metis prod.exhaust)
    from central_leave_result(2) [OF _ this] ap l show ?thesis by simp
  qed
qed

lemma central_counts_result:
  assumes ap: "central_apply rs p e w = Inr (w', outs)"
  shows "cw_updates_received w' = cw_updates_received w + int (cscore_inputs e) \<and>
    cw_notices_received w' = cw_notices_received w + int (cnotice_inputs e)"
proof (cases e)
  case (C_Task src k i)
  obtain d r where "on_task_received (cw_term w) src = (d, r)" by (metis prod.exhaust)
  from central_task_result(4,5) [OF _ this] ap C_Task show ?thesis by simp
next
  case (C_Ack src)
  obtain d r where r: "on_passive (fst (on_ack_received (cw_term w))) = (d, r)" by (metis prod.exhaust)
  show ?thesis using central_ack_result(4,5) [OF ap [unfolded C_Ack] r] C_Ack by simp
next
  case (C_Send b)
  then show ?thesis using ap central_send_result(4,5) [of b w w' outs] by simp
next
  case C_Leave
  obtain d r where "on_passive (cw_term w) = (d, r)" by (metis prod.exhaust)
  from central_leave_result(4,5) [OF _ this] ap C_Leave show ?thesis by simp
next
  case (C_Termination a b)
  then show ?thesis using ap
    by (auto simp: quietly_def central_process_termination_def central_goto_def split: if_splits)
next
  case (C_Push q i)
  then show ?thesis using ap
    by (cases "packet_empty q"; cases "fn_push \<lparr>bundle_packet = q, bundle_runnable_id = i\<rparr> (cw_funnel w)")
      (auto simp: quietly_def central_force_push_def)
next
  case (C_Poll ms mf)
  then show ?thesis using ap central_poll_sel(5,6) [of ms mf w w' outs] by simp
next
  case C_Drained
  then show ?thesis using ap
    by (auto simp: quietly_def central_drained_def central_goto_def split: if_splits fn_pc.splits)
next
  case (C_Exit idle req)
  then show ?thesis using ap by (cases "result_count (cw_nm w)") (auto simp: central_exit_def central_goto_def)
qed (use ap in \<open>auto simp: quietly_def central_receive_score_def central_receive_notice_def on_funnel_def
    central_goto_def\<close>)

lemma central_apply_pc:
  assumes ap: "central_apply rs p e w = Inr (w', outs)" and en: "central_enabled e w"
  shows "fn_stopped (fn_pc (cw_funnel w')) \<Longrightarrow> fn_stopped (fn_pc (cw_funnel w)) \<or> (\<exists>a b. e = C_Termination a b)"
    "fn_pc (cw_funnel w') = Draining a b \<Longrightarrow> fn_pc (cw_funnel w) = Draining a b \<or> e = C_Termination a b"
proof -
  have "fn_pc (cw_funnel w') = Listening \<or> fn_busy (fn_pc (cw_funnel w')) \<or>
    fn_stopped (fn_pc (cw_funnel w')) \<and> fn_pc (cw_funnel w') = fn_pc (cw_funnel w) \<or>
    (\<exists>a b. e = C_Termination a b \<and> fn_pc (cw_funnel w') = Draining a b) \<or>
    fn_stopped (fn_pc (cw_funnel w)) \<and> (fn_pc (cw_funnel w') = At_Barrier \<or> fn_pc (cw_funnel w') = Exited)"
  proof (cases e)
    case (C_Task src k i)
    obtain d r where "on_task_received (cw_term w) src = (d, r)" by (metis prod.exhaust)
    from central_task_result(3) [OF _ this] ap C_Task show ?thesis by simp
  next
    case (C_Ack src)
    obtain d r where r: "on_passive (fst (on_ack_received (cw_term w))) = (d, r)" by (metis prod.exhaust)
    show ?thesis using central_ack_result(3) [OF ap [unfolded C_Ack] r] en C_Ack by simp
  next
    case (C_Send b)
    then show ?thesis using ap central_send_result(2) [of b w w' outs] by simp
  next
    case C_Leave
    obtain d r where "on_passive (cw_term w) = (d, r)" by (metis prod.exhaust)
    from central_leave_result(3) [OF _ this] ap C_Leave show ?thesis by simp
  next
    case (C_Termination a b)
    then show ?thesis using ap
      by (auto simp: quietly_def central_process_termination_def central_goto_def split: if_splits)
  next
    case (C_Push q i)
    then have "fn_pc (cw_funnel w') = fn_pc (cw_funnel w)"
      using ap by (auto simp: quietly_def central_force_push_def split: if_splits dest: fn_push_pc)
    then show ?thesis by (cases "fn_pc (cw_funnel w)") auto
  next
    case (C_Poll ms mf)
    then show ?thesis using ap central_poll_sel(4) [of ms mf w w' outs] by simp
  next
    case (C_Offer q s)
    then show ?thesis using ap by (cases "fn_pc (cw_funnel w)") (auto simp: quietly_def)
  next
    case C_Pool_Done
    then show ?thesis using ap by (cases "fn_pc (cw_funnel w)") (auto simp: quietly_def on_funnel_def)
  next
    case C_Drained
    then show ?thesis using ap en by (auto simp: quietly_def central_drained_def central_goto_def split: if_splits)
  next
    case (C_Exit idle req)
    then show ?thesis using ap en by (cases "result_count (cw_nm w)") (auto simp: central_exit_def central_goto_def)
  qed (use ap en in \<open>auto simp: quietly_def central_receive_score_def central_receive_notice_def on_funnel_def
      central_goto_def central_exit_def\<close>)
  then show "fn_stopped (fn_pc (cw_funnel w')) \<Longrightarrow> fn_stopped (fn_pc (cw_funnel w)) \<or> (\<exists>a b. e = C_Termination a b)"
    "fn_pc (cw_funnel w') = Draining a b \<Longrightarrow> fn_pc (cw_funnel w) = Draining a b \<or> e = C_Termination a b"
    using fn_stopped_idle by auto
qed

section \<open>The channels after a step\<close>

lemma central_consumed:
  assumes rd: "ready p (central_inputs e) ch"
  shows "orders_from rs T False (ch World s p) \<Longrightarrow>
      orders_from rs T False (consume p (central_inputs e) ch World s p)"
    "set (consume p (central_inputs e) ch c s d) \<subseteq> set (ch c s d)"
    "length (consume p (central_inputs e) ch Center_Fullness 0 p) + cnotice_inputs e =
       length (ch Center_Fullness 0 p)"
    "length (consume p (central_inputs e) ch Global_Score 0 p) + cscore_inputs e = length (ch Global_Score 0 p)"
    "d \<noteq> p \<Longrightarrow> consume p (central_inputs e) ch c s d = ch c s d"
proof -
  show "orders_from rs T False (ch World s p) \<Longrightarrow>
      orders_from rs T False (consume p (central_inputs e) ch World s p)"
    using rd by (cases e) (auto simp: consume_apply ready_def takes_split split: option.splits)
  have set_foldl: "set (foldl (\<lambda>l (c', src, ms). if c' = c \<and> src = s then drop (length ms) l else l) l ins) \<subseteq> set l"
    for l :: "msg list" and ins :: "(comm \<times> rank \<times> msg list) list"
  proof (induction ins arbitrary: l)
    case (Cons x ins)
    obtain c' src ms where x: "x = (c', src, ms)" by (metis prod_cases3)
    have "set (if c' = c \<and> src = s then drop (length ms) l else l) \<subseteq> set l" by (simp add: set_drop_subset)
    then show ?case unfolding x using Cons.IH [of "if c' = c \<and> src = s then drop (length ms) l else l"] by simp
  qed simp
  show "set (consume p (central_inputs e) ch c s d) \<subseteq> set (ch c s d)"
    unfolding consume_apply using set_foldl by simp
  show "length (consume p (central_inputs e) ch Center_Fullness 0 p) + cnotice_inputs e =
       length (ch Center_Fullness 0 p)"
    using rd by (cases e) (auto simp: consume_apply ready_def takes_split split: option.splits)
  show "length (consume p (central_inputs e) ch Global_Score 0 p) + cscore_inputs e = length (ch Global_Score 0 p)"
    using rd by (cases e) (auto simp: consume_apply ready_def takes_split split: option.splits)
  show "d \<noteq> p \<Longrightarrow> consume p (central_inputs e) ch c s d = ch c s d"
    by (simp add: consume_apply)
qed

lemma central_silent_inputs:
  assumes "central_silent e" and "ready p (central_inputs e) ch" and "P = is_task \<or> P = is_ack"
  shows "how_many P (consume p (central_inputs e) ch World s d) = how_many P (ch World s d)"
proof (cases e)
  case (C_Termination a b)
  then obtain r where "ch World 0 p = Termination a b # r"
    using assms(2) by (auto simp: ready_def takes_split)
  then show ?thesis using C_Termination assms(3) by (auto simp: consume_apply)
next
  case (C_Poll ms mf)
  then show ?thesis by (auto simp: consume_apply split: option.split)
qed (use assms(1) in \<open>auto simp: consume_apply\<close>)

lemma central_chans_kept:
  assumes ok: "central_chans_ok rs c w ch q" and rd: "ready p (central_inputs e) ch"
    and o: "central_outs_ok rs outs" and p: "1 \<le> p" and q: "1 \<le> q"
    and w: "cw_updates_received w' = cw_updates_received w + (if q = p then int (cscore_inputs e) else 0)"
      "cw_notices_received w' = cw_notices_received w + (if q = p then int (cnotice_inputs e) else 0)"
  shows "central_chans_ok rs c w' (post (consume p (central_inputs e) ch) p outs) q"
proof -
  note C = central_chansD [OF ok] and D = central_consumed [OF rd]
  have r: "orders_from rs T False (ch World s q) \<Longrightarrow> orders_from rs T False (consume p (central_inputs e) ch World s q)"
    for s T by (cases "q = p") (simp_all add: D(1,5))
  have lens: "cw_updates_received w' + int (length (consume p (central_inputs e) ch Global_Score 0 q)) = cc_updates_sent c"
    "cw_notices_received w' + int (length (consume p (central_inputs e) ch Center_Fullness 0 q)) = cc_notices_sent c"
    using w C(6,7) D(3,4) D(5) [of q] by (cases "q = p"; linarith?; simp)+
  have o': "orders_from rs None False (sent_to World q outs)" using o q by (auto simp: central_outs_ok_def)
  show ?thesis
    unfolding central_chans_ok_def
  proof (intro conjI allI impI ballI)
    fix s :: rank assume "s \<noteq> 0"
    then show "orders_from rs None False (post (consume p (central_inputs e) ch) p outs World s q)"
      using C(1) r o' by (auto simp: post_apply orders_append)
  next
    show "orders_from rs (notified c) False (post (consume p (central_inputs e) ch) p outs World 0 q)"
      using C(2) r p by (auto simp: post_apply)
  next
    fix m assume "m \<in> set (post (consume p (central_inputs e) ch) p outs Center_Fullness 0 q)"
    then have "m \<in> set (ch Center_Fullness 0 q)"
      using p D(2) [of Center_Fullness 0 q] by (auto simp: post_apply)
    then show "\<exists>f. m = notice f" by (rule C(4))
  next
    fix m assume "m \<in> set (post (consume p (central_inputs e) ch) p outs Global_Score 0 q)"
    then have "m \<in> set (ch Global_Score 0 q)"
      using p D(2) [of Global_Score 0 q] by (auto simp: post_apply)
    then show "\<exists>s. m = Score_Update s" by (rule C(5))
  qed (use lens p in \<open>simp_all add: post_apply\<close>)
qed

section \<open>The detectors after a step\<close>

lemma central_upd:
  assumes "p \<noteq> 0"
  shows "central_dets (net\<lparr>cn_workers := (cn_workers net)(p := w), cn_chans := ch\<rparr>) = (central_dets net)(p := cw_term w)"
    "central_busy (net\<lparr>cn_workers := (cn_workers net)(p := w), cn_chans := ch\<rparr>) =
       (central_busy net)(p := fn_busy (fn_pc (cw_funnel w)))"
  using assms by (auto simp: central_dets_def central_busy_def fun_eq_iff)

lemma central_worker_shows:
  assumes v: "central_shows net" and p: "central_is_worker net p"
    and ok: "central_worker_ok rs (cn_workers net p)" and en: "central_enabled e (cn_workers net p)"
    and rd: "ready p (central_inputs e) (cn_chans net)"
    and ap: "central_apply rs p e (cn_workers net p) = Inr (w', outs)"
  shows "central_shows (net\<lparr>cn_workers := (cn_workers net)(p := w'),
    cn_chans := post (consume p (central_inputs e) (cn_chans net)) p outs\<rparr>)"
proof -
  let ?w = "cn_workers net p" and ?n = "int (cn_size net)" and ?ch = "cn_chans net"
  have p0: "p \<noteq> 0" and pw: "in_world ?n p" using p by (auto simp: central_is_worker_def in_world_def)
  note V = v [unfolded central_shows_def]
  have D: "central_dets net p = cw_term ?w" "central_busy net p = fn_busy (fn_pc (cw_funnel ?w))"
    using p0 by (simp_all add: central_dets_def central_busy_def)
  have "ds_shows ?n ((central_dets net)(p := cw_term w')) ((central_busy net)(p := fn_busy (fn_pc (cw_funnel w'))))
    (post (consume p (central_inputs e) ?ch) p outs)"
  proof (cases "central_silent e")
    case True
    note R = central_silent_result [OF ap True en]
    have "ds_shows ?n (central_dets net) (central_busy net) (consume p (central_inputs e) ?ch)"
      by (rule shows_cong [OF V]) (use central_silent_inputs [OF True rd] in simp_all)
    then have shown: "ds_shows ?n (central_dets net) (central_busy net) (post (consume p (central_inputs e) ?ch) p outs)"
      by (rule shows_quiet) (use R in blast)
    have at: "cw_term w' = central_dets net p" "fn_busy (fn_pc (cw_funnel w')) = central_busy net p"
      using R D by (simp_all only:)
    show ?thesis unfolding at fun_upd_triv by (rule shown)
  next
    case False
    then consider (t) src k i where "e = C_Task src k i" | (a) src where "e = C_Ack src"
      | (s) b where "e = C_Send b" | (l) "e = C_Leave" by (cases e) simp_all
    then show ?thesis
    proof cases
      case t
      obtain d r where r: "on_task_received (cw_term ?w) src = (d, r)" by (metis prod.exhaust)
      obtain l where l: "?ch World src p = Task k # Runnable_Id i # l"
        using rd t by (auto simp: ready_def takes_split)
      have R: "cw_term w' = d" "outs = ack_to r @ [(World, 0, Running_State)]" "fn_pc (cw_funnel w') = Entering"
        using central_task_result [of rs src k i ?w w' outs, OF _ r] ap t by simp_all
      have c: "consume p (central_inputs e) ?ch = discard ?ch World src p 2"
        by (simp add: consume_def t numeral_2_eq_2)
      show ?thesis unfolding c R(1,2) R(3)
        using shows_receive [OF V l _ r [folded D(1)], of "[(World, 0, Running_State)]"] by (simp add: quiet_outs_def)
    next
      case a
      obtain d r where r: "on_passive (fst (on_ack_received (cw_term ?w))) = (d, r)" by (metis prod.exhaust)
      obtain l where l: "?ch World src p = Task_Received # l" using rd a by (auto simp: ready_def takes_split)
      note R = central_ack_result [OF ap [unfolded a] r]
      have c: "consume p (central_inputs e) ?ch = discard ?ch World src p 1" by (simp add: consume_def a)
      have idle: "\<not> central_busy net p" using en a D(2) by simp
      show ?thesis unfolding c R(1,2) R(3)
        using shows_ack [OF V l disjI1 [OF idle] r [folded D(1)]] by (simp flip: D(2))
    next
      case s
      then have pc: "fn_pc (cw_funnel ?w) = Sending b" using en by simp
      have R: "cw_term w' = on_task_sent (cw_term ?w)" "fn_pc (cw_funnel w') = Polling"
        "outs = [(World, 0, Task_For_Center (bundle_packet b)), (World, 0, Runnable_Id (bundle_runnable_id b))]"
        using central_send_result [of b ?w w' outs] ap s by simp_all
      have c: "consume p (central_inputs e) ?ch = ?ch" by (simp add: consume_def s)
      have busy: "central_busy net p" using pc D(2) by simp
      have root: "in_world ?n 0" using p by (simp add: in_world_def central_is_worker_def)
      have "(central_busy net)(p := True) = central_busy net" using busy by (simp add: fun_eq_iff)
      then show ?thesis unfolding c R(1,3) using R(2) shows_send [OF V busy pw root] D(1) by simp
    next
      case l
      then have pc: "fn_pc (cw_funnel ?w) = Leaving" using en by simp
      obtain d r where r: "on_passive (cw_term ?w) = (d, r)" by (metis prod.exhaust)
      have R: "cw_term w' = d" "outs = [(World, 0, Available_State)] @ ack_to r" "fn_pc (cw_funnel w') = Listening"
        using central_leave_result [of ?w w' outs, OF _ r] ap l by simp_all
      have c: "consume p (central_inputs e) ?ch = ?ch" by (simp add: consume_def l)
      have busy: "central_busy net p" using pc D(2) by simp
      show ?thesis unfolding c R(1,2)
        using R(3) shows_finish [OF V busy pw r [folded D(1)], of "[(World, 0, Available_State)]"] by (simp add: quiet_outs_def)
    qed
  qed
  then show ?thesis by (simp add: central_shows_def central_upd [OF p0])
qed

lemma central_worker_step_mid:
  assumes inv: "central_mid net" and p: "central_is_worker net p" and us: "cuser_ok (cn_runnables net) (cn_kind net) e"
    and en: "central_enabled e (cn_workers net p)" and rd: "ready p (central_inputs e) (cn_chans net)"
    and st: "central_worker_step p e net = Inr net'"
  shows "central_mid net'" "cn_center net' = cn_center net"
proof -
  let ?w = "cn_workers net p"
  from central_worker_result [OF inv p us en rd] obtain w' outs where
    ap: "central_apply (cn_runnables net) p e ?w = Inr (w', outs)"
    and ok': "central_worker_ok (cn_runnables net) w'" by blast
  note M = central_midD [OF inv]
  let ?ch = "post (consume p (central_inputs e) (cn_chans net)) p outs"
  have net': "net' = net\<lparr>cn_workers := (cn_workers net)(p := w'), cn_chans := ?ch\<rparr>"
    using st ap by (simp add: central_worker_step_def)
  then show "cn_center net' = cn_center net" by simp
  note outs = central_outs_result [OF ap M(2) [OF p] en] and counts = central_counts_result [OF ap]
  note pc = central_apply_pc [OF ap en]
  have ch: "central_chans_ok (cn_runnables net) (cn_center net) (cn_workers net' q) ?ch q" if "central_is_worker net q" for q
    by (rule central_chans_kept [OF M(3) [OF that] rd outs])
      (use counts p that in \<open>auto simp: net' central_is_worker_def\<close>)
  have rep: "reports_ok (cn_runnables net) ?ch"
    using M(4) outs p central_consumed(5) [OF rd, of 0]
    by (auto simp: reports_ok_def post_apply central_is_worker_def central_outs_ok_def central_reports_append)
  have T: "Some (a, b) = notified (cn_center net)" if "e = C_Termination a b" for a b
  proof -
    from rd that obtain l where "cn_chans net World 0 p = Termination a b # l" by (auto simp: ready_def takes_split)
    then show ?thesis using central_chansD(2) [OF M(3) [OF p]] by simp
  qed
  have "Some (a, b) = notified (cn_center net)"
    if "central_is_worker net q" "fn_pc (cw_funnel (cn_workers net' q)) = Draining a b" for q a b
    using M(5) that pc(2) [of a b] T [of a b] by (cases "q = p") (auto simp: net' central_phase_ok_def)
  moreover have "\<not> fn_stopped (fn_pc (cw_funnel (cn_workers net' q)))"
    if "central_is_worker net q" "cc_phase (cn_center net) = Looping" for q
    using M(5) that pc(1) T by (cases "q = p") (auto simp: net' central_phase_ok_def notified_def)
  ultimately have ph: "central_phase_ok net'"
    using M(5) by (auto simp: central_phase_ok_def net' split: phase.splits)
  have "central_shows net'"
    using central_worker_shows [OF M(6) p M(2) [OF p] en rd ap] by (simp add: net')
  then show "central_mid net'"
    using M(1,2) ok' ch rep ph by (auto simp: central_mid_def net')
qed

end
