(* ===== verification/Central_Turns.thy ===== *)
theory Central_Turns
  imports Central_Steps Semi_Run
begin

text \<open>
  A turn of the center of the centralized scheduler keeps the invariant of \<open>Central_Inv\<close>: each handler,
  the hand-out of tasks with the notices that follow it, and the collection of the solutions.
\<close>

section \<open>A move of the center\<close>

text \<open>What the center may send while it moves from \<open>c\<close> to \<open>c'\<close>.\<close>

definition central_sends_ok :: "int list \<Rightarrow> nat \<Rightarrow> central_center \<Rightarrow> central_center \<Rightarrow> out list \<Rightarrow> bool" where
  "central_sends_ok rs n c c' outs \<longleftrightarrow>
     (\<forall>q. 1 \<le> q \<and> q < int n \<longrightarrow>
        (notified c = None \<or> notified c = notified c') \<and>
        orders_from rs (notified c') False (sent_to World q outs) \<and>
        (\<forall>m \<in> set (sent_to Center_Fullness q outs). \<exists>f. m = notice f) \<and>
        (\<forall>m \<in> set (sent_to Global_Score q outs). \<exists>s. m = Score_Update s) \<and>
        cc_updates_sent c' = cc_updates_sent c + int (length (sent_to Global_Score q outs)) \<and>
        cc_notices_sent c' = cc_notices_sent c + int (length (sent_to Center_Fullness q outs)))"

lemma central_sends_trans:
  assumes "central_sends_ok rs n c c1 o1" and "central_sends_ok rs n c1 c2 o2"
  shows "central_sends_ok rs n c c2 (o1 @ o2)"
  unfolding central_sends_ok_def
proof (intro allI impI)
  fix q assume q: "1 \<le> q \<and> q < int n"
  note A = assms(1) [unfolded central_sends_ok_def, rule_format, OF q]
    and B = assms(2) [unfolded central_sends_ok_def, rule_format, OF q]
  have "orders_from rs (notified c2) False (sent_to World q o1)"
    by (rule orders_terminated [of _ "notified c1"]) (use A B in blast)+
  then show "(notified c = None \<or> notified c = notified c2) \<and>
      orders_from rs (notified c2) False (sent_to World q (o1 @ o2)) \<and>
      (\<forall>m \<in> set (sent_to Center_Fullness q (o1 @ o2)). \<exists>f. m = notice f) \<and>
      (\<forall>m \<in> set (sent_to Global_Score q (o1 @ o2)). \<exists>s. m = Score_Update s) \<and>
      cc_updates_sent c2 = cc_updates_sent c + int (length (sent_to Global_Score q (o1 @ o2))) \<and>
      cc_notices_sent c2 = cc_notices_sent c + int (length (sent_to Center_Fullness q (o1 @ o2)))"
    using A B by (auto intro: orders_append)
qed

lemma central_center_chans_kept:
  assumes ok: "central_chans_ok rs c w ch q" and o: "central_sends_ok rs n c c' outs"
    and same: "\<And>k s. ch' k s q = ch k s q" and q: "1 \<le> q" "q < int n"
  shows "central_chans_ok rs c' w (post ch' 0 outs) q"
proof -
  note C = central_chansD [OF ok]
  note O = o [unfolded central_sends_ok_def, rule_format, OF conjI [OF q]]
  have ord: "orders_from rs (notified c') False (ch World 0 q)"
    by (rule orders_terminated [OF C(2)]) (use O in blast)
  show ?thesis
    unfolding central_chans_ok_def
  proof (intro conjI allI impI ballI)
    show "orders_from rs (notified c') False (post ch' 0 outs World 0 q)"
      using O ord by (simp add: post_apply same orders_append)
  next
    fix m assume "m \<in> set (post ch' 0 outs Center_Fullness 0 q)"
    then have "m \<in> set (ch Center_Fullness 0 q) \<or> m \<in> set (sent_to Center_Fullness q outs)"
      by (simp add: post_apply same)
    then show "\<exists>f. m = notice f" using C(4) O by blast
  next
    fix m assume "m \<in> set (post ch' 0 outs Global_Score 0 q)"
    then have "m \<in> set (ch Global_Score 0 q) \<or> m \<in> set (sent_to Global_Score q outs)"
      by (simp add: post_apply same)
    then show "\<exists>s. m = Score_Update s" using C(5) O by blast
  qed (use C(1,6,7) O in \<open>simp_all add: post_apply same\<close>)
qed

definition center_move :: "central_center \<Rightarrow> chans \<Rightarrow> out list \<Rightarrow> central_net \<Rightarrow> central_net" where
  "center_move c ch outs net = net\<lparr>cn_center := c, cn_chans := post ch 0 outs\<rparr>"

lemma center_move_sel [simp]:
  "cn_size (center_move c ch outs net) = cn_size net" "cn_runnables (center_move c ch outs net) = cn_runnables net"
  "cn_workers (center_move c ch outs net) = cn_workers net" "cn_center (center_move c ch outs net) = c"
  "cn_chans (center_move c ch outs net) = post ch 0 outs"
  "central_is_worker (center_move c ch outs net) p = central_is_worker net p"
  "cn_kind (center_move c ch outs net) = cn_kind net"
  by (simp_all add: center_move_def)

lemma central_center_upd:
  "central_dets (center_move c ch outs net) = (central_dets net)(0 := cc_term c)"
  "central_busy (center_move c ch outs net) = (central_busy net)(0 := cc_queue c \<noteq> [])"
  by (auto simp: central_dets_def central_busy_def center_move_def fun_eq_iff)

lemma post_append: "post (post ch s o1) s o2 = post ch s (o1 @ o2)"
  by (simp add: post_def)

lemma center_move_twice:
  "center_move c2 (cn_chans (center_move c1 ch o1 net)) o2 (center_move c1 ch o1 net) = center_move c2 ch (o1 @ o2) net"
  by (simp add: center_move_def post_append)

lemma central_center_mid:
  assumes inv: "central_mid net" and ok: "central_center_ok (cn_runnables net) (cn_size net) c"
    and o: "central_sends_ok (cn_runnables net) (cn_size net) (cn_center net) c outs"
    and same: "\<And>k s q. q \<noteq> 0 \<Longrightarrow> ch k s q = cn_chans net k s q" and rep: "reports_ok (cn_runnables net) ch"
    and ph: "central_phase_ok (center_move c ch outs net)" and v: "central_shows (center_move c ch outs net)"
  shows "central_mid (center_move c ch outs net)"
proof -
  note M = central_midD [OF inv]
  have "central_chans_ok (cn_runnables net) c (cn_workers net q) (post ch 0 outs) q" if q: "central_is_worker net q" for q
    by (rule central_center_chans_kept [OF M(3) [OF q] o]) (use q same in \<open>simp_all add: central_is_worker_def\<close>)
  moreover have "reports_ok (cn_runnables net) (post ch 0 outs)"
    using rep by (simp add: reports_ok_def post_apply)
  ultimately show ?thesis using M(2) ok ph v by (simp add: central_mid_def)
qed

lemma central_looping_phase:
  assumes "central_mid net" and "cc_phase (cn_center net) = Looping" and "cc_phase c = Looping"
  shows "central_phase_ok (center_move c ch outs net)"
  using central_midD(5) [OF assms(1)] assms(2,3) by (auto simp: central_phase_ok_def)

lemma reports_discard:
  assumes inv: "central_mid net" and src: "src \<noteq> 0"
    and ch: "cn_chans net c src 0 = ms @ l" and left: "c = World \<Longrightarrow> central_reports (cn_runnables net) Anything l"
  shows "reports_ok (cn_runnables net) (discard (cn_chans net) c src 0 (length ms))"
  unfolding reports_ok_def
proof (intro allI impI conjI)
  fix s :: rank assume s: "s \<noteq> 0"
  have R: "central_reports (cn_runnables net) Anything (cn_chans net World s 0)"
    "list_all is_proposal (cn_chans net Global_Score s 0)"
    using central_midD(4) [OF inv] s by (simp_all add: reports_ok_def)
  show "central_reports (cn_runnables net) Anything (discard (cn_chans net) c src 0 (length ms) World s 0)"
    using R(1) ch left by (auto simp: discard_apply)
  show "list_all is_proposal (discard (cn_chans net) c src 0 (length ms) Global_Score s 0)"
    using R(2) ch by (auto simp: discard_apply list_all_iff)
qed

lemma world_reports:
  "central_mid net \<Longrightarrow> src \<noteq> 0 \<Longrightarrow> central_reports (cn_runnables net) Anything (cn_chans net World src 0)"
  using central_midD(4) unfolding reports_ok_def by blast

section \<open>The handlers\<close>

text \<open>A message the detector does not see, taken while the center loops.\<close>

lemma central_quiet_move:
  assumes inv: "central_mid net" and src: "src \<noteq> 0" and ph: "cc_phase (cn_center net) = Looping" "cc_phase c' = Looping"
    and ok: "central_center_ok (cn_runnables net) (cn_size net) c'"
    and o: "central_sends_ok (cn_runnables net) (cn_size net) (cn_center net) c' outs" "quiet_outs outs"
    and same: "cc_term c' = cc_term (cn_center net)" "cc_queue c' = cc_queue (cn_center net)"
    and ch: "cn_chans net k src 0 = ms @ l" and left: "k = World \<Longrightarrow> central_reports (cn_runnables net) Anything l"
    and q: "k = World \<Longrightarrow> how_many is_task ms = 0 \<and> how_many is_ack ms = 0"
  shows "central_mid (center_move c' (discard (cn_chans net) k src 0 (length ms)) outs net)"
proof (rule central_center_mid [OF inv ok o(1) _ reports_discard [OF inv src ch left] central_looping_phase [OF inv ph]])
  have at: "cc_term c' = central_dets net 0" "(cc_queue c' \<noteq> []) = central_busy net 0"
    using same by (simp_all add: central_dets_def central_busy_def)
  show "central_shows (center_move c' (discard (cn_chans net) k src 0 (length ms)) outs net)"
    unfolding central_shows_def central_center_upd at fun_upd_triv center_move_sel
    by (rule shows_quiet [OF shows_discard [OF central_midD(6) [OF inv, unfolded central_shows_def] ch refl q] o(2)])
qed (simp add: discard_apply)

lemma central_sends_nil:
  "notified c' = notified c \<Longrightarrow> cc_updates_sent c' = cc_updates_sent c \<Longrightarrow> cc_notices_sent c' = cc_notices_sent c \<Longrightarrow>
   central_sends_ok rs n c c' []"
  by (simp add: central_sends_ok_def)

lemma central_state_result:
  assumes ok: "central_center_ok rs n c" and src: "1 \<le> src" "src < int n"
  shows "\<exists>c'. central_process_running src c = Inr c' \<and> central_center_ok rs n c' \<and> cc_term c' = cc_term c \<and>
      cc_queue c' = cc_queue c \<and> cc_phase c' = cc_phase c \<and> cc_updates_sent c' = cc_updates_sent c \<and>
      cc_notices_sent c' = cc_notices_sent c"
    "\<exists>c'. central_process_available src c = Inr c' \<and> central_center_ok rs n c' \<and> cc_term c' = cc_term c \<and>
      cc_queue c' = cc_queue c \<and> cc_phase c' = cc_phase c \<and> cc_updates_sent c' = cc_updates_sent c \<and>
      cc_notices_sent c' = cc_notices_sent c"
  using ok src by (auto simp: central_process_running_def central_process_available_def central_center_ok_def)

lemma central_proposal_result:
  assumes ok: "central_center_ok rs n c" and ph: "cc_phase c = Looping" and p: "central_score_proposal s c = (c', outs)"
  shows "central_center_ok rs n c'" "cc_term c' = cc_term c" "cc_queue c' = cc_queue c" "cc_phase c' = Looping"
    "central_sends_ok rs n c c' outs" "quiet_outs outs"
proof -
  have q: "quiet_outs (to_workers xs (\<lambda>r. (Global_Score, r, Score_Update s)))" for xs
    by (auto simp: quiet_outs_def to_workers_def)
  show "central_center_ok rs n c'" "cc_term c' = cc_term c" "cc_queue c' = cc_queue c" "cc_phase c' = Looping"
    "quiet_outs outs"
    using assms q by (auto simp: central_score_proposal_def Let_def central_center_ok_def split: if_splits)
  show "central_sends_ok rs n c c' outs"
    using assms by (auto simp: central_score_proposal_def Let_def central_sends_ok_def notified_def sent_to_workers
        central_center_ok_def split: if_splits)
qed

lemma pq_push_set': "set (pq_push b q) = insert b (set q)"
  using pq_push_mset [of b q] by (metis set_mset_add_mset_insert set_mset_mset)

lemma central_task_move:
  assumes inv: "central_mid net" and src: "central_is_worker net src" and ph: "cc_phase (cn_center net) = Looping"
    and ch: "cn_chans net World src 0 = [Task_For_Center k, Runnable_Id i] @ l"
    and p: "process_task_for_center now src k i (cn_center net) = Inr (c', outs)"
  shows "central_mid (center_move c' (discard (cn_chans net) World src 0 2) outs net)" "cc_phase c' = Looping"
proof -
  let ?c = "cn_center net"
  note M = central_midD [OF inv]
  have s0: "src \<noteq> 0" using src by (simp add: central_is_worker_def)
  obtain d r where r: "on_task_received (cc_term ?c) src = (d, r)" by (metis prod.exhaust)
  have c': "cc_term c' = d" "cc_queue c' = pq_push \<lparr>bundle_packet = k, bundle_runnable_id = i\<rparr> (cc_queue ?c)"
    "cc_state c' = cc_state ?c" "cc_best c' = cc_best ?c" "cc_phase c' = Looping"
    "cc_updates_sent c' = cc_updates_sent ?c" "cc_notices_sent c' = cc_notices_sent ?c" "outs = ack_to r"
    using p r ph
    by (cases "center_limit (2 * CENTER_NBSTORED_TASKS_PER_PROCESS) ?c"; auto simp: process_task_for_center_def Let_def)+
  show "cc_phase c' = Looping" by (rule c'(5))
  have rep: "central_reports (cn_runnables net) Anything (cn_chans net World src 0)" by (rule world_reports [OF inv s0])
  then have i: "task_fits (cn_runnables net) \<lparr>bundle_packet = k, bundle_runnable_id = i\<rparr>" and left: "central_reports (cn_runnables net) Anything l"
    by (simp_all add: ch task_fits_def bundle_size_def)
  have ne: "cc_queue c' \<noteq> []" using pq_push_set' by (metis c'(2) insert_not_empty set_empty)
  have "reports_ok (cn_runnables net) (discard (cn_chans net) World src 0 2)"
    using reports_discard [OF inv s0 ch] left by (simp add: numeral_2_eq_2)
  then show "central_mid (center_move c' (discard (cn_chans net) World src 0 2) outs net)"
  proof (rule central_center_mid [OF inv _ _ _ _ central_looping_phase [OF inv ph c'(5)], rotated 3])
    show "central_center_ok (cn_runnables net) (cn_size net) c'"
      using M(1) i by (auto simp: central_center_ok_def c' pq_push_set')
    show "central_sends_ok (cn_runnables net) (cn_size net) ?c c' outs"
      by (auto simp: central_sends_ok_def c' notified_def ph ack_to_reports)
    have k: "is_task (Task_For_Center k)" by simp
    have "central_dets net 0 = cc_term ?c" by (simp add: central_dets_def)
    then have r': "on_task_received (central_dets net 0) src = (d, r)" using r by simp
    show "central_shows (center_move c' (discard (cn_chans net) World src 0 2) outs net)"
      using shows_receive [OF M(6) [unfolded central_shows_def] _ k r', of i l "[]"] ch ne
      unfolding central_shows_def central_center_upd c'(1,8) center_move_sel by (simp add: quiet_outs_def)
  qed (simp add: discard_apply)
qed

lemma central_ack_move:
  assumes inv: "central_mid net" and src: "central_is_worker net src" and ph: "cc_phase (cn_center net) = Looping"
    and ch: "cn_chans net World src 0 = [Task_Received] @ l"
  shows "\<exists>c'. central_ack src (cn_center net) = Inr c' \<and> cc_phase c' = Looping \<and>
    central_mid (center_move c' (discard (cn_chans net) World src 0 1) [] net)"
proof -
  let ?c = "cn_center net"
  note M = central_midD [OF inv]
  have s0: "src \<noteq> 0" using src by (simp add: central_is_worker_def)
  have D: "central_dets net 0 = cc_term ?c" by (simp add: central_dets_def)
  note V = M(6) [unfolded central_shows_def]
  have "0 < td_deficit (cc_term ?c)" using shows_ack_expected [OF V M(7), of src 0 l] ch D by simp
  then obtain d where d: "on_ack_received (cc_term ?c) = (d, True)" by (simp add: on_ack_received_expected)
  have par: "td_parent d = NO_PARENT"
    using shows_root(1) [OF V M(7)] D d by (auto simp: on_ack_received_def split: if_splits)
  let ?c' = "?c\<lparr>cc_term := d\<rparr>"
  have left: "central_reports (cn_runnables net) Anything l" using world_reports [OF inv s0] by (simp add: ch)
  have "reports_ok (cn_runnables net) (discard (cn_chans net) World src 0 1)"
    using reports_discard [OF inv s0 ch] left by simp
  then have "central_mid (center_move ?c' (discard (cn_chans net) World src 0 1) [] net)"
  proof (rule central_center_mid [OF inv _ _ _ _ central_looping_phase [OF inv ph], rotated 3])
    show "central_center_ok (cn_runnables net) (cn_size net) ?c'" using M(1) by (simp add: central_center_ok_def)
    show "central_sends_ok (cn_runnables net) (cn_size net) ?c ?c' []"
      by (rule central_sends_nil) (simp_all add: notified_def)
    have p: "on_passive (fst (on_ack_received (central_dets net 0))) = (d, None)"
      by (simp add: D d on_passive_held par)
    have b: "(cc_queue ?c' \<noteq> []) = central_busy net 0" by (simp add: central_busy_def)
    show "central_shows (center_move ?c' (discard (cn_chans net) World src 0 1) [] net)"
      using shows_ack [OF V _ disjI2 [OF refl] p, of src l] ch
      unfolding central_shows_def central_center_upd b fun_upd_triv center_move_sel by (simp add: ack_to_def)
  qed (simp_all add: discard_apply ph)
  then show ?thesis using d ph by (simp add: central_ack_def)
qed

end
