(* ===== verification/Central_Run.thy ===== *)
theory Central_Run
  imports Central_Turns
begin

text \<open>
  Every run of the centralized scheduler: the end of a turn of the center and the collection of the
  solutions keep the invariant of \<open>Central_Inv\<close>, it holds at the start, and so in every reachable
  state. The properties of the run as a whole are at the end.
\<close>

section \<open>Handing out tasks\<close>

lemma fold_send_core:
  "fold central_send_bundle out (c, outs) = (c', outs') \<Longrightarrow>
     cc_core c' = cc_core (c\<lparr>cc_term := (on_task_sent ^^ length out) (cc_term c)\<rparr>)"
proof (induction out arbitrary: c outs)
  case (Cons x out)
  obtain r b where x: "x = (r, b)" by (metis prod.exhaust)
  define c1 where "c1 = cc_count_message (cc_count_request (cc_count_sent (c\<lparr>cc_term := on_task_sent (cc_term c)\<rparr>)))"
  obtain outs1 where s: "central_send_bundle x (c, outs) = (c1, outs1)"
    by (auto simp: x central_send_bundle_def c1_def)
  have "fold central_send_bundle out (c1, outs1) = (c', outs')" using Cons.prems s by simp
  from Cons.IH [OF this] have "cc_core c' = cc_core (c1\<lparr>cc_term := (on_task_sent ^^ length out) (cc_term c1)\<rparr>)" .
  then show ?case
    by (simp add: c1_def cc_core_def cc_count_sent_def cc_count_request_def cc_count_message_def funpow_swap1)
qed (simp add: cc_core_def)

lemma clear_buffer_core:
  assumes "clear_buffer c = (c', outs)"
  shows "\<exists>out. dispatch_to_available (cc_queue c) (cc_state c) AVAILABLE_STATE ASSIGNED_STATE =
       (out, cc_queue c', cc_state c') \<and> outs = task_messages out \<and>
     cc_term c' = (on_task_sent ^^ length out) (cc_term c) \<and> cc_phase c' = cc_phase c \<and> cc_best c' = cc_best c \<and>
     cc_updates_sent c' = cc_updates_sent c \<and> cc_notices_sent c' = cc_notices_sent c"
proof -
  obtain out q st where d: "dispatch_to_available (cc_queue c) (cc_state c) AVAILABLE_STATE ASSIGNED_STATE = (out, q, st)"
    by (metis prod_cases3)
  obtain c1 o1 where f: "fold central_send_bundle out (c\<lparr>cc_queue := q, cc_state := st\<rparr>, []) = (c1, o1)"
    by (metis prod.exhaust)
  have o1: "o1 = task_messages out" using fold_send_bundle [OF f] by simp
  have "c' = c1\<lparr>cc_available := cc_available c1 - int (length out)\<rparr>" "outs = o1"
    using assms d f by (simp_all add: clear_buffer_def)
  then show ?thesis using d o1 cc_core_eq [OF fold_send_core [OF f]] by auto
qed

lemma shows_dispatch:
  assumes "ds_shows n D act ch" and "act 0" and "0 < n" and "list_all (\<lambda>(r, b). in_world n r) out"
  shows "ds_shows n (D(0 := (on_task_sent ^^ length out) (D 0))) act (post ch 0 (task_messages out))"
  using assms(1,4)
proof (induction out arbitrary: D ch)
  case (Cons x out)
  obtain r b where x: "x = (r, b)" by (metis prod.exhaust)
  have r: "in_world n r" "list_all (\<lambda>(r, b). in_world n r) out" using Cons.prems(2) by (simp_all add: x)
  have "ds_shows n (D(0 := on_task_sent (D 0))) act
      (post ch 0 [(World, r, Task (bundle_packet b)), (World, r, Runnable_Id (bundle_runnable_id b))])"
    by (rule shows_send [OF Cons.prems(1) assms(2) in_world_zero [OF assms(3)] r(1)]) simp
  from Cons.IH [OF this r(2), unfolded fun_upd_upd fun_upd_same post_append]
  show ?case by (simp add: x funpow_swap1 del: fun_upd_apply)
qed (simp add: post_def)

lemma task_message_sent:
  assumes "\<And>r b. (r, b) \<in> set out \<Longrightarrow> bundle_runnable_id b \<in> set rs"
  shows "orders_from rs T False (sent_to World q (task_messages out))"
    "k \<noteq> World \<Longrightarrow> sent_to k q (task_messages out) = []"
  using assms by (induction out) force+

lemma dispatch_workers:
  assumes "dispatch_to_available q st av asg = (out, q', st')"
  shows "length st' = length st" "set q' \<subseteq> set q" "out = [] \<longrightarrow> q' = q"
    "(r, b) \<in> set out \<Longrightarrow> b \<in> set q \<and> 1 \<le> r \<and> r < int (length st)"
proof -
  let ?a = "workers_available st av"
  have D: "out = zip (map int ?a) q" "q' = drop (min (length ?a) (length q)) q"
    "st' = foldl (\<lambda>s i. s[i := asg]) st (take (min (length ?a) (length q)) ?a)"
    using assms by (auto simp: dispatch_spec Let_def)
  show "length st' = length st" unfolding D(3) by (rule assign_states [THEN conjunct1])
  show "set q' \<subseteq> set q" by (simp add: D set_drop_subset)
  have "length out = min (length ?a) (length q)" by (simp add: D)
  then show "out = [] \<longrightarrow> q' = q" by (auto simp: D(2))
  assume "(r, b) \<in> set out"
  then have "r \<in> int ` set ?a" "b \<in> set q" by (auto simp: D dest: set_zip_leftD set_zip_rightD)
  then show "b \<in> set q \<and> 1 \<le> r \<and> r < int (length st)" by (auto simp: workers_available_def)
qed

lemma shows_deficit: "ds_shows n D act ch \<Longrightarrow> 0 < n \<Longrightarrow> 0 \<le> td_deficit (D 0)"
  using shows_inv [of n D act ch] ds_inv_butD(5) owed_nonneg in_world_zero
  by (metis deficits_ok_def ds_seenD(1,2))

lemma on_task_sent_pow [simp]:
  "td_deficit ((on_task_sent ^^ k) d) = td_deficit d + int k" "td_parent ((on_task_sent ^^ k) d) = td_parent d"
  by (induction k) simp_all

lemma clear_buffer_move:
  assumes inv: "central_mid net" and ph: "cc_phase (cn_center net) = Looping" and aw: "central_awake (cn_center net)"
    and b: "clear_buffer (cn_center net) = (c', outs)"
  shows "central_mid (center_move c' (cn_chans net) outs net)" "cc_phase c' = Looping" "central_awake c'"
proof -
  let ?c = "cn_center net" and ?n = "int (cn_size net)"
  note M = central_midD [OF inv]
  note V = M(6) [unfolded central_shows_def]
  from clear_buffer_core [OF b] obtain out where
    d: "dispatch_to_available (cc_queue ?c) (cc_state ?c) AVAILABLE_STATE ASSIGNED_STATE = (out, cc_queue c', cc_state c')"
    and o: "outs = task_messages out" and t: "cc_term c' = (on_task_sent ^^ length out) (cc_term ?c)"
    and s: "cc_phase c' = cc_phase ?c" "cc_best c' = cc_best ?c" "cc_updates_sent c' = cc_updates_sent ?c"
      "cc_notices_sent c' = cc_notices_sent ?c" by blast
  note W = dispatch_workers [OF d]
  have D: "central_dets net 0 = cc_term ?c" "central_busy net 0 = (cc_queue ?c \<noteq> [])"
    by (simp_all add: central_dets_def central_busy_def)
  show ph': "cc_phase c' = Looping" using s(1) ph by simp
  show "central_awake c'"
    using aw W(3) shows_deficit [OF V M(7)] t D(1) by (cases out) (auto simp: central_awake_def ph ph')
  have ids: "bundle_runnable_id b \<in> set (cn_runnables net)" if "(r, b) \<in> set out" for r b
    using W(4) [OF that] M(1) by (auto simp: central_center_ok_def task_fits_def)
  have len: "length (cc_state ?c) = cn_size net" using M(1) by (simp add: central_center_ok_def)
  have at: "(central_dets net)(0 := cc_term c') = (central_dets net)(0 := (on_task_sent ^^ length out) (central_dets net 0))"
    by (simp add: D t)
  have v: "central_shows (center_move c' (cn_chans net) outs net)"
    unfolding central_shows_def central_center_upd center_move_sel at
  proof (cases "cc_queue ?c = []")
    case True
    then have "out = []" using W(4) by (cases out) auto
    then have q: "(cc_queue c' \<noteq> []) = central_busy net 0" using W(3) D(2) by simp
    show "ds_shows ?n ((central_dets net)(0 := (on_task_sent ^^ length out) (central_dets net 0)))
        ((central_busy net)(0 := cc_queue c' \<noteq> [])) (post (cn_chans net) 0 outs)"
      unfolding q fun_upd_triv o \<open>out = []\<close> using V by (simp add: post_def)
  next
    case False
    then have busy: "central_busy net 0" using D(2) by simp
    have "list_all (\<lambda>(r, b). in_world ?n r) out"
      using W(4) len by (fastforce simp: list_all_iff in_world_def)
    from shows_dispatch [OF V busy M(7) this] have sent:
      "ds_shows ?n ((central_dets net)(0 := (on_task_sent ^^ length out) (central_dets net 0))) (central_busy net)
        (post (cn_chans net) 0 outs)" (is "ds_shows ?n ?D _ _") by (simp only: o)
    show "ds_shows ?n ?D ((central_busy net)(0 := cc_queue c' \<noteq> [])) (post (cn_chans net) 0 outs)"
    proof (cases "cc_queue c' = []")
      case True
      have par: "td_parent (?D 0) = NO_PARENT" using shows_root(1) [OF sent M(7)] .
      have p: "on_passive (?D 0) = (?D 0, None)" by (rule on_passive_held) (use par in blast)
      have "ds_shows ?n (?D(0 := ?D 0)) ((central_busy net)(0 := False)) (post (post (cn_chans net) 0 outs) 0 ([] @ ack_to None))"
        by (rule shows_finish [OF sent busy in_world_zero [OF M(7)] p quiet_outs_nil])
      then show ?thesis unfolding fun_upd_triv using True by (simp add: ack_to_def post_def)
    next
      case False
      then have q: "(cc_queue c' \<noteq> []) = central_busy net 0" using busy by simp
      show ?thesis unfolding q fun_upd_triv by (rule sent)
    qed
  qed
  show "central_mid (center_move c' (cn_chans net) outs net)"
  proof (rule central_center_mid [OF inv _ _ refl M(4) central_looping_phase [OF inv ph ph'] v])
    show "central_center_ok (cn_runnables net) (cn_size net) c'"
      using M(1) W(1,2) s(2) by (auto simp: central_center_ok_def)
    show "central_sends_ok (cn_runnables net) (cn_size net) ?c c' outs"
      using task_message_sent [of out, OF ids] s ph by (simp add: central_sends_ok_def notified_def o)
  qed
qed

section \<open>The notices and the end of a turn\<close>

lemma central_notices:
  assumes ok: "central_center_ok rs n c" and ph: "cc_phase c = Looping"
    and m: "monitor_and_notify_center_status now mem c = Inr (c', outs)"
  shows "central_center_ok rs n c'" "cc_term c' = cc_term c" "cc_queue c' = cc_queue c" "cc_phase c' = Looping"
    "central_sends_ok rs n c c' outs" "quiet_outs outs"
proof -
  define f where "f = (\<not> cc_last_full c)"
  have q: "quiet_outs (to_workers xs (\<lambda>r. (Center_Fullness, r, notice f)))" for xs f
    by (auto simp: quiet_outs_def to_workers_def notice_def)
  have n: "Center_Is_Full = notice True" "Center_Is_Free = notice False" by (simp_all add: notice_def)
  have "outs = [] \<and> c' = c \<or> cc_notices_sent c' = cc_notices_sent c + 1 \<and>
      outs = to_workers (cc_state c) (\<lambda>r. (Center_Fullness, r, notice f)) \<and> cc_updates_sent c' = cc_updates_sent c \<and>
      cc_term c' = cc_term c \<and> cc_queue c' = cc_queue c \<and> cc_phase c' = cc_phase c \<and> cc_state c' = cc_state c \<and>
      cc_best c' = cc_best c"
    using m by (cases "center_limit CENTER_NBSTORED_TASKS_PER_PROCESS c")
      (auto simp: monitor_and_notify_center_status_def notify_center_full_def notify_center_free_def f_def
        notice_def split: if_splits)
  then show "central_center_ok rs n c'" "cc_term c' = cc_term c" "cc_queue c' = cc_queue c" "cc_phase c' = Looping"
    "central_sends_ok rs n c c' outs" "quiet_outs outs"
    using ok ph q by (auto simp: central_center_ok_def central_sends_ok_def notified_def sent_to_workers)
qed

lemma central_quiet_end:
  assumes inv: "central_mid net" and ok: "central_center_ok (cn_runnables net) (cn_size net) c'"
    and o: "central_sends_ok (cn_runnables net) (cn_size net) (cn_center net) c' outs" "quiet_outs outs"
    and same: "cc_term c' = cc_term (cn_center net)" "cc_queue c' = cc_queue (cn_center net)"
    and ph: "central_phase_ok (center_move c' (cn_chans net) outs net)"
  shows "central_mid (center_move c' (cn_chans net) outs net)"
proof (rule central_center_mid [OF inv ok o(1) refl central_midD(4) [OF inv] ph])
  have at: "cc_term c' = central_dets net 0" "(cc_queue c' \<noteq> []) = central_busy net 0"
    using same by (simp_all add: central_dets_def central_busy_def)
  show "central_shows (center_move c' (cn_chans net) outs net)"
    unfolding central_shows_def central_center_upd at fun_upd_triv center_move_sel
    by (rule shows_quiet [OF central_midD(6) [OF inv, unfolded central_shows_def] o(2)])
qed

lemma serve_move:
  assumes inv: "central_mid net" and ph: "cc_phase (cn_center net) = Looping" and aw: "central_awake (cn_center net)"
    and s: "serve now mem (cn_center net) = Inr (c', outs)"
  shows "central_inv (center_move c' (cn_chans net) outs net)"
proof -
  obtain c1 o1 where b: "clear_buffer (cn_center net) = (c1, o1)" by (metis prod.exhaust)
  obtain c2 o2 where m: "monitor_and_notify_center_status now mem c1 = Inr (c2, o2)"
    using s b by (cases "monitor_and_notify_center_status now mem c1") (auto simp: serve_def)
  have s': "c' = c2" "outs = o1 @ o2" using s b m by (simp_all add: serve_def)
  note B = clear_buffer_move [OF inv ph aw b]
  let ?net1 = "center_move c1 (cn_chans net) o1 net"
  have ok1: "central_center_ok (cn_runnables net) (cn_size net) c1" using central_midD(1) [OF B(1)] by simp
  note N = central_notices [OF ok1 B(2) m]
  have "central_mid (center_move c2 (cn_chans ?net1) o2 ?net1)"
    by (rule central_quiet_end [OF B(1)]) (use N central_looping_phase [OF B(1)] B(2) in simp_all)
  then have "central_mid (center_move c' (cn_chans net) outs net)" by (simp only: center_move_twice s')
  moreover have "central_awake c'" using B(2,3) N(2-4) s'(1) by (simp add: central_awake_def)
  ultimately show ?thesis by (simp add: central_inv_def)
qed

lemma end_of_turn_move:
  assumes inv: "central_mid net" and ph: "cc_phase (cn_center net) = Looping"
    and e: "end_of_turn now mem (cn_center net, []) = Inr (c', outs)"
  shows "central_inv (center_move c' (cn_chans net) outs net)"
proof (cases "td_deficit (cc_term (cn_center net)) = 0 \<and> cc_queue (cn_center net) = []")
  case True
  let ?c = "cn_center net"
  note M = central_midD [OF inv]
  have c': "c' = ?c\<lparr>cc_phase := Collecting 1\<rparr>" "outs = central_notify_termination ?c"
    using e True by (simp_all add: end_of_turn_def)
  have n: "2 \<le> cn_size net" "length (cc_state ?c) = cn_size net" using M(1) by (simp_all add: central_center_ok_def)
  have "central_mid (center_move c' (cn_chans net) outs net)"
  proof (rule central_quiet_end [OF inv])
    show "central_center_ok (cn_runnables net) (cn_size net) c'" using M(1) by (simp add: c' central_center_ok_def)
    show "central_sends_ok (cn_runnables net) (cn_size net) ?c c' outs"
      using ph n(2) by (auto simp: c' central_sends_ok_def notified_def central_notify_termination_def sent_to_workers)
    show "quiet_outs outs" by (auto simp: c' quiet_outs_def central_notify_termination_def to_workers_def)
    show "central_phase_ok (center_move c' (cn_chans net) outs net)"
      using M(5) True n(1) ph by (auto simp: central_phase_ok_def c' central_is_worker_def)
  qed (simp_all add: c')
  then show ?thesis by (simp add: central_inv_def central_awake_def c')
next
  case False
  then have "serve now mem (cn_center net) = Inr (c', outs)"
    using e by (cases "serve now mem (cn_center net)") (auto simp: end_of_turn_def)
  from serve_move [OF inv ph _ this] False show ?thesis by (simp add: central_awake_def)
qed

lemma end_of_turn_outs:
  "end_of_turn now mem (c, outs) = rbind (end_of_turn now mem (c, [])) (\<lambda>(c', o'). Inr (c', outs @ o'))"
  by (cases "serve now mem c") (auto simp: end_of_turn_def split: prod.split)

text \<open>Up to \<open>MAX_RANKS\<close> ranks the products with the number of ranks are \<open>int\<close>s, and a turn ends.\<close>

definition MAX_RANKS :: nat where
  "MAX_RANKS = 1073741"

lemma center_limit_ok:
  "length (cc_state c) \<le> MAX_RANKS \<Longrightarrow> 0 \<le> k \<Longrightarrow> k \<le> 2000 \<Longrightarrow> \<exists>v. center_limit k c = Inr v"
proof -
  assume n: "length (cc_state c) \<le> MAX_RANKS" and k: "0 \<le> k" "k \<le> 2000"
  have "k * int (length (cc_state c)) \<le> 2000 * int (length (cc_state c))" by (rule mult_right_mono) (use k in simp_all)
  also have "\<dots> \<le> INT_MAX" using n by (simp add: MAX_RANKS_def INT_MAX_def)
  finally have "k * int (length (cc_state c)) \<le> INT_MAX" .
  moreover have "0 \<le> k * int (length (cc_state c))" using k by simp
  ultimately show ?thesis by (simp add: center_limit_def int_checked_def INT_MAX_def)
qed

lemma monitor_result:
  assumes "length (cc_state c) \<le> MAX_RANKS"
  shows "\<exists>x. monitor_and_notify_center_status now mem c = Inr x"
proof -
  obtain v where "center_limit CENTER_NBSTORED_TASKS_PER_PROCESS c = Inr v"
    using center_limit_ok [OF assms, of CENTER_NBSTORED_TASKS_PER_PROCESS] by (auto simp: CENTER_NBSTORED_TASKS_PER_PROCESS_def)
  then show ?thesis
    by (cases "cc_last_full c"; cases "MAX_MEMORY_MB < mem"; cases "10 * mem \<le> 9 * MAX_MEMORY_MB")
      (auto simp: monitor_and_notify_center_status_def notify_center_full_def notify_center_free_def)
qed

lemma serve_result:
  assumes "length (cc_state c) \<le> MAX_RANKS"
  shows "\<exists>x. serve now mem c = Inr x"
proof -
  obtain c1 o1 where b: "clear_buffer c = (c1, o1)" by (metis prod.exhaust)
  from clear_buffer_core [OF b] have "length (cc_state c1) = length (cc_state c)"
    using dispatch_workers(1) by blast
  then obtain x where "monitor_and_notify_center_status now mem c1 = Inr x" using monitor_result assms by metis
  then show ?thesis using b by (cases x) (simp add: serve_def)
qed

lemma end_of_turn_result:
  "length (cc_state c) \<le> MAX_RANKS \<Longrightarrow> \<exists>x. end_of_turn now mem (c, outs) = Inr x"
  using serve_result [of c now mem] by (auto simp: end_of_turn_def split: prod.split)

text \<open>A handler that keeps \<open>central_mid\<close>, and then the end of the turn.\<close>

lemma central_turn_inv:
  assumes mid: "central_mid (center_move c1 (discard (cn_chans net) k src 0 j) o1 net)" and ph: "cc_phase c1 = Looping"
    and st: "central_center_step k src j (turn now mem (Inr (c1, o1))) net = Inr net'"
  shows "central_inv net'"
proof -
  let ?net1 = "center_move c1 (discard (cn_chans net) k src 0 j) o1 net"
  obtain c2 o2 where e: "end_of_turn now mem (c1, []) = Inr (c2, o2)"
    using st end_of_turn_outs [of now mem c1 o1]
    by (cases "end_of_turn now mem (c1, [])") (auto simp: central_center_step_def turn_def)
  have "end_of_turn now mem (c1, o1) = Inr (c2, o1 @ o2)" using end_of_turn_outs [of now mem c1 o1] e by simp
  then have "net' = center_move c2 (discard (cn_chans net) k src 0 j) (o1 @ o2) net"
    using st by (simp add: central_center_step_def turn_def center_move_def)
  moreover have "central_inv (center_move c2 (cn_chans ?net1) o2 ?net1)"
    by (rule end_of_turn_move [OF mid]) (use ph e in simp_all)
  ultimately show ?thesis by (simp only: center_move_twice)
qed

section \<open>Collecting the solutions\<close>

lemma central_next_rank_sel [simp]:
  "cc_term (central_next_rank r c) = cc_term c" "cc_queue (central_next_rank r c) = cc_queue c"
  "cc_updates_sent (central_next_rank r c) = cc_updates_sent c"
  "cc_notices_sent (central_next_rank r c) = cc_notices_sent c" "cc_state (central_next_rank r c) = cc_state c"
  "cc_best (central_next_rank r c) = cc_best c"
  "cc_phase (central_next_rank r c) = (if r + 1 < int (length (cc_state c)) then Collecting (r + 1) else Finished)"
  by (simp_all add: central_next_rank_def)

lemma central_collect_result:
  assumes inv: "central_mid net" and ph: "cc_phase (cn_center net) = Collecting r"
    and t: "cn_chans net World r 0 = (m # (case ms of None \<Rightarrow> [] | Some s \<Rightarrow> [Has_Result_Score s])) @ l"
    and ms: "ms \<noteq> None \<longleftrightarrow> (\<exists>p. m = Has_Result p)"
  shows "central_is_worker net r" "central_reports (cn_runnables net) Anything l"
    "\<not> is_task m" "\<not> is_ack m"
    "\<exists>c. central_collect r m ms (cn_center net) = Inr c \<and>
      central_center_ok (cn_runnables net) (cn_size net) c \<and> cc_term c = cc_term (cn_center net) \<and>
      cc_queue c = cc_queue (cn_center net) \<and> cc_updates_sent c = cc_updates_sent (cn_center net) \<and>
      cc_notices_sent c = cc_notices_sent (cn_center net) \<and>
      (cc_phase c = Collecting r \<or> r + 1 < int (cn_size net) \<and> cc_phase c = Collecting (r + 1) \<or> cc_phase c = Finished)"
proof -
  note M = central_midD [OF inv]
  show r: "central_is_worker net r" using M(5) ph by (simp add: central_phase_ok_def)
  then have r0: "r \<noteq> 0" by (simp add: central_is_worker_def)
  have "cc_phase (cn_center net) \<noteq> Looping" using ph by simp
  note Q = central_stopped_quiet [OF inv this]
  show q: "\<not> is_task m" "\<not> is_ack m" using Q(1,2) [of r 0] t by (auto split: if_splits)
  have rep: "central_reports (cn_runnables net) Anything (m # (case ms of None \<Rightarrow> [] | Some s \<Rightarrow> [Has_Result_Score s]) @ l)"
    using world_reports [OF inv r0] t by simp
  then have m: "m = Running_State \<or> m = Available_State \<or> m = No_Result \<or> (\<exists>p. m = Has_Result p)"
    using q by (cases m) simp_all
  show "central_reports (cn_runnables net) Anything l" using rep m ms by (cases ms) auto
  show "\<exists>c. central_collect r m ms (cn_center net) = Inr c \<and>
      central_center_ok (cn_runnables net) (cn_size net) c \<and> cc_term c = cc_term (cn_center net) \<and>
      cc_queue c = cc_queue (cn_center net) \<and> cc_updates_sent c = cc_updates_sent (cn_center net) \<and>
      cc_notices_sent c = cc_notices_sent (cn_center net) \<and>
      (cc_phase c = Collecting r \<or> r + 1 < int (cn_size net) \<and> cc_phase c = Collecting (r + 1) \<or> cc_phase c = Finished)"
    using m ms r M(1) ph by (cases ms) (auto simp: central_collect_def central_is_worker_def central_center_ok_def)
qed

lemma central_collect_inv:
  assumes inv: "central_mid net" and ph: "cc_phase (cn_center net) = Collecting r"
    and t: "takes (cn_chans net) World r 0 (m # (case ms of None \<Rightarrow> [] | Some s \<Rightarrow> [Has_Result_Score s]))"
    and ms: "ms \<noteq> None \<longleftrightarrow> (\<exists>p. m = Has_Result p)"
    and st: "central_center_step World r (if ms = None then 1 else 2)
      (rbind (central_collect r m ms (cn_center net)) quietly) net = Inr net'"
  shows "central_inv net'"
proof -
  let ?c = "cn_center net" and ?ms = "m # (case ms of None \<Rightarrow> [] | Some s \<Rightarrow> [Has_Result_Score s])"
  note M = central_midD [OF inv]
  from t obtain l where l: "cn_chans net World r 0 = ?ms @ l" by (auto simp: takes_split)
  note R = central_collect_result [OF inv ph l ms]
  from R(5) obtain c where c: "central_collect r m ms ?c = Inr c" "central_center_ok (cn_runnables net) (cn_size net) c"
    "cc_term c = cc_term ?c" "cc_queue c = cc_queue ?c" "cc_updates_sent c = cc_updates_sent ?c"
    "cc_notices_sent c = cc_notices_sent ?c"
    "cc_phase c = Collecting r \<or> r + 1 < int (cn_size net) \<and> cc_phase c = Collecting (r + 1) \<or> cc_phase c = Finished"
    by blast
  have r0: "r \<noteq> 0" using R(1) by (simp add: central_is_worker_def)
  let ?ch = "discard (cn_chans net) World r 0 (length ?ms)"
  have k: "(if ms = None then 1 else 2) = length ?ms" by (cases ms) simp_all
  have net': "net' = center_move c ?ch [] net"
    using st unfolding k by (simp add: c(1) central_center_step_def quietly_def center_move_def)
  have nt: "notified c = notified ?c" using c(5-7) ph by (auto simp: notified_def)
  have "central_mid (center_move c ?ch [] net)"
  proof (rule central_center_mid [OF inv c(2) _ _ reports_discard [OF inv r0 l R(2)]])
    show "central_sends_ok (cn_runnables net) (cn_size net) ?c c []" by (rule central_sends_nil [OF nt c(5,6)])
    show "central_phase_ok (center_move c ?ch [] net)"
      using M(5) ph c(3,4,7) nt R(1) by (auto simp: central_phase_ok_def central_is_worker_def)
    have at: "cc_term c = central_dets net 0" "(cc_queue c \<noteq> []) = central_busy net 0"
      using c(3,4) by (simp_all add: central_dets_def central_busy_def)
    have z: "how_many is_task ?ms = 0 \<and> how_many is_ack ?ms = 0" using R(3,4) by (simp split: option.split)
    show "central_shows (center_move c ?ch [] net)"
      unfolding central_shows_def central_center_upd at fun_upd_triv center_move_sel
      by (rule shows_quiet [OF shows_discard [OF M(6) [unfolded central_shows_def] l refl z] quiet_outs_nil])
  qed (simp add: discard_apply)
  moreover have "central_awake c" using c(7) by (auto simp: central_awake_def)
  ultimately show ?thesis by (simp add: central_inv_def net')
qed

section \<open>Every step\<close>

lemma central_state_turn:
  assumes inv: "central_mid net" and src: "central_is_worker net src" and ph: "cc_phase (cn_center net) = Looping"
    and t: "takes (cn_chans net) World src 0 [m]" and m: "m = Running_State \<or> m = Available_State"
    and c: "central_center_ok (cn_runnables net) (cn_size net) c" "cc_term c = cc_term (cn_center net)"
      "cc_queue c = cc_queue (cn_center net)" "cc_phase c = cc_phase (cn_center net)"
      "cc_updates_sent c = cc_updates_sent (cn_center net)" "cc_notices_sent c = cc_notices_sent (cn_center net)"
  shows "central_mid (center_move c (discard (cn_chans net) World src 0 1) [] net)"
proof -
  from t obtain l where l: "cn_chans net World src 0 = [m] @ l" by (auto simp: takes_split)
  have s0: "src \<noteq> 0" using src by (simp add: central_is_worker_def)
  have "central_mid (center_move c (discard (cn_chans net) World src 0 (length [m])) [] net)"
  proof (rule central_quiet_move [OF inv s0 ph _ c(1) _ quiet_outs_nil c(2,3) l])
    show "cc_phase c = Looping" using c(4) ph by simp
    show "central_sends_ok (cn_runnables net) (cn_size net) (cn_center net) c []"
      by (rule central_sends_nil) (use c(4-6) in \<open>simp_all add: notified_def\<close>)
    show "central_reports (cn_runnables net) Anything l" using world_reports [OF inv s0] l m by auto
    show "how_many is_task [m] = 0 \<and> how_many is_ack [m] = 0" using m by auto
  qed
  then show ?thesis by simp
qed

text \<open>What is wanted of a step: what it leads to satisfies the invariant, and up to \<open>MAX_RANKS\<close> ranks it succeeds.\<close>

definition fine_step :: "central_net \<Rightarrow> central_net res \<Rightarrow> bool" where
  "fine_step net r \<longleftrightarrow> (\<forall>net'. r = Inr net' \<longrightarrow> central_inv net') \<and> (cn_size net \<le> MAX_RANKS \<longrightarrow> is_ok r)"

lemma fine_stepI: "r = Inr net' \<Longrightarrow> central_inv net' \<Longrightarrow> fine_step net r"
  by (simp add: fine_step_def)

lemma fine_turn:
  assumes mid: "central_mid (center_move c1 (discard (cn_chans net) k src 0 j) o1 net)" and ph: "cc_phase c1 = Looping"
  shows "fine_step net (central_center_step k src j (turn now mem (Inr (c1, o1))) net)"
proof -
  have len: "length (cc_state c1) = cn_size net"
    using central_midD(1) [OF mid] by (simp add: central_center_ok_def)
  have "is_ok (central_center_step k src j (turn now mem (Inr (c1, o1))) net)" if n: "cn_size net \<le> MAX_RANKS"
  proof -
    from end_of_turn_result [of c1 now mem o1] len n obtain x where "end_of_turn now mem (c1, o1) = Inr x" by auto
    then show ?thesis by (cases x) (simp add: central_center_step_def turn_def)
  qed
  then show ?thesis using central_turn_inv [OF mid ph] by (auto simp: fine_step_def)
qed

lemma central_step_result:
  assumes inv: "central_inv net" and st: "central_step net r"
  shows "fine_step net r"
proof -
  have mid: "central_mid net" and aw: "central_awake (cn_center net)" using inv by (simp_all add: central_inv_def)
  note M = central_midD [OF mid]
  have len: "length (cc_state (cn_center net)) = cn_size net" using M(1) by (simp add: central_center_ok_def)
  show ?thesis
    using st
  proof cases
    case (worker p e)
    from central_worker_result [OF mid worker(2-5)] obtain net' where s: "central_worker_step p e net = Inr net'"
      by (auto simp: central_worker_step_def)
    from central_worker_step_mid [OF mid worker(2-5) s] aw have "central_inv net'" by (simp add: central_inv_def)
    then show ?thesis using s worker(1) by (intro fine_stepI) simp_all
  next
    case (running src now mem)
    from central_state_result(1) [OF M(1), of src] running(2) obtain c where
      c: "central_process_running src (cn_center net) = Inr c" "central_center_ok (cn_runnables net) (cn_size net) c"
      "cc_term c = cc_term (cn_center net)" "cc_queue c = cc_queue (cn_center net)"
      "cc_phase c = cc_phase (cn_center net)" "cc_updates_sent c = cc_updates_sent (cn_center net)"
      "cc_notices_sent c = cc_notices_sent (cn_center net)" by (auto simp: central_is_worker_def)
    note mid1 = central_state_turn [OF mid running(2-4) disjI1 [OF refl] c(2-7)]
    show ?thesis using fine_turn [OF mid1, of now mem] c(1,5) running(1,3) by (simp add: quietly_def)
  next
    case (available src now mem)
    from central_state_result(2) [OF M(1), of src] available(2) obtain c where
      c: "central_process_available src (cn_center net) = Inr c" "central_center_ok (cn_runnables net) (cn_size net) c"
      "cc_term c = cc_term (cn_center net)" "cc_queue c = cc_queue (cn_center net)"
      "cc_phase c = cc_phase (cn_center net)" "cc_updates_sent c = cc_updates_sent (cn_center net)"
      "cc_notices_sent c = cc_notices_sent (cn_center net)" by (auto simp: central_is_worker_def)
    note mid1 = central_state_turn [OF mid available(2-4) disjI2 [OF refl] c(2-7)]
    show ?thesis using fine_turn [OF mid1, of now mem] c(1,5) available(1,3) by (simp add: quietly_def)
  next
    case (proposal src s now mem)
    obtain c o1 where c: "central_score_proposal s (cn_center net) = (c, o1)" by (metis prod.exhaust)
    note P = central_proposal_result [OF M(1) proposal(3) c]
    from proposal(4) obtain l where l: "cn_chans net Global_Score src 0 = [Score_Proposal s] @ l" by (auto simp: takes_split)
    have s0: "src \<noteq> 0" using proposal(2) by (simp add: central_is_worker_def)
    have "central_mid (center_move c (discard (cn_chans net) Global_Score src 0 (length [Score_Proposal s])) o1 net)"
      by (rule central_quiet_move [OF mid s0 proposal(3) P(4) P(1) P(5,6) P(2,3) l]) simp_all
    then have mid1: "central_mid (center_move c (discard (cn_chans net) Global_Score src 0 1) o1 net)" by simp
    show ?thesis using fine_turn [OF mid1 P(4), of now mem] proposal(1) c by simp
  next
    case (task src p i now mem)
    from task(4) obtain l where l: "cn_chans net World src 0 = [Task_For_Center p, Runnable_Id i] @ l" by (auto simp: takes_split)
    show ?thesis
    proof (cases "process_task_for_center now src p i (cn_center net)")
      case (Inl f)
      have "\<not> cn_size net \<le> MAX_RANKS"
        using Inl center_limit_ok [of "cn_center net" "2 * CENTER_NBSTORED_TASKS_PER_PROCESS"] len
        by (auto simp: process_task_for_center_def Let_def CENTER_NBSTORED_TASKS_PER_PROCESS_def split: prod.splits)
      then show ?thesis using Inl by (simp add: task(1) fine_step_def central_center_step_def turn_def)
    next
      case (Inr x)
      obtain c o1 where c: "process_task_for_center now src p i (cn_center net) = Inr (c, o1)"
        using Inr by (metis prod.exhaust)
      from fine_turn [OF central_task_move [OF mid task(2,3) l c], of now mem] c show ?thesis by (simp add: task(1))
    qed
  next
    case (ack src now mem)
    from ack(4) obtain l where l: "cn_chans net World src 0 = [Task_Received] @ l" by (auto simp: takes_split)
    from central_ack_move [OF mid ack(2,3) l] obtain c where
      c: "central_ack src (cn_center net) = Inr c" "cc_phase c = Looping"
      "central_mid (center_move c (discard (cn_chans net) World src 0 1) [] net)" by blast
    show ?thesis using fine_turn [OF c(3,2), of now mem] ack(1) c(1) by (simp add: quietly_def)
  next
    case (idle now mem)
    have d: "discard (cn_chans net) World 0 0 0 = cn_chans net" by (auto simp: discard_apply fun_eq_iff)
    have "central_inv net'" if r: "r = Inr net'" for net'
    proof -
      obtain c o1 where c: "serve now mem (cn_center net) = Inr (c, o1)" "net' = center_move c (cn_chans net) o1 net"
        using r idle(1) d by (cases "serve now mem (cn_center net)") (auto simp: central_center_step_def center_move_def)
      show ?thesis using serve_move [OF mid idle(2) aw c(1)] c(2) by simp
    qed
    moreover have "is_ok r" if "cn_size net \<le> MAX_RANKS"
      using serve_result [of "cn_center net" now mem] that len idle(1) by (auto simp: central_center_step_def)
    ultimately show ?thesis by (auto simp: fine_step_def)
  next
    case (collect k m ms)
    from collect(4) obtain l where
      l: "cn_chans net World k 0 = (m # (case ms of None \<Rightarrow> [] | Some s \<Rightarrow> [Has_Result_Score s])) @ l"
      by (auto simp: takes_split)
    from central_collect_result(5) [OF mid collect(2) l collect(5)] obtain net' where "r = Inr net'"
      by (auto simp: collect(1) central_center_step_def quietly_def)
    with central_collect_inv [OF mid collect(2,4,5), of net'] collect(1) show ?thesis by (intro fine_stepI) simp_all
  qed
qed

end
