(* ===== verification/Central_Properties.thy ===== *)
theory Central_Properties
  imports Central_Run
begin

text \<open>
  What holds of every run of the centralized scheduler: the invariant at the start and in every
  reachable state, and the properties that follow: no fault, and exact detection of termination.
\<close>

section \<open>The start\<close>

lemma ds_shows_start: "ds_shows n (\<lambda>p. new_detector (p = 0)) (\<lambda>p. p = 0) no_messages"
  unfolding ds_shows_def
  by (intro exI [of _ "ds_init n"] conjI ds_reachable.start) (simp add: ds_init_def ds_seen_def)

lemma ds_shows_seeded:
  assumes "2 \<le> n"
  shows "ds_shows n ((\<lambda>p. new_detector (p = 0))(0 := on_task_sent (new_detector True))) (\<lambda>p. False)
    (post no_messages 0 [(World, 1, Task k), (World, 1, Runnable_Id i)])" (is "ds_shows n ?D ?a ?ch")
proof -
  have s: "ds_shows n ?D (\<lambda>p. p = 0) ?ch"
    using shows_send [OF ds_shows_start, of 0 n 1 "Task k" i] assms by (simp add: in_world_def)
  have p: "on_passive (?D 0) = (?D 0, None)" by (rule on_passive_held) simp
  have "ds_shows n (?D(0 := ?D 0)) ((\<lambda>p. p = 0)(0 := False)) (post ?ch 0 ([] @ ack_to None))"
    by (rule shows_finish [OF s _ _ p quiet_outs_nil]) (use assms in \<open>simp_all add: in_world_def\<close>)
  moreover have "((\<lambda>p. p = 0)(0 := False)) = ?a" by (simp add: fun_eq_iff)
  moreover have "post ?ch 0 ([] @ ack_to None) = ?ch" by (simp add: ack_to_def post_def)
  ultimately show ?thesis by simp
qed

lemma central_start_inv:
  assumes s: "central_start n rs g t seed fid = Inr net" and fid: "fid \<in> set rs" and n: "2 \<le> n"
  shows "central_inv net" "cn_size net = n" "cn_runnables net = rs"
proof -
  obtain s0 where d: "get_default_score g t = Inr s0"
    using s by (cases "get_default_score g t") (simp_all add: central_start_def)
  define c where "c = (let c = central_center_init n g s0;
      c1 = c\<lparr>cc_available := cc_available c - 1, cc_state := (cc_state c)[1 := RUNNING_STATE],
             cc_term := on_task_sent (cc_term c)\<rparr>
    in cc_count_message (cc_count_request (cc_count_sent c1)))"
  let ?outs = "[(World, 1, Task seed), (World, 1, Runnable_Id fid)]"
  let ?nm = "\<lparr>nm_goal = g, nm_score = s0, nm_result = Stored_Any None\<rparr>"
  have cs: "central_send_seed seed fid (central_center_init n g s0) = Inr (c, ?outs)"
    using n s d by (cases "byte_count seed")
      (auto simp: central_start_def central_send_seed_def c_def Let_def central_center_init_def vec_set_def)
  have net: "net = \<lparr>cn_size = n, cn_runnables = rs, cn_kind = t, cn_center = c,
      cn_workers = (\<lambda>p. central_worker_init p g s0 ?nm), cn_chans = post no_messages 0 ?outs\<rparr>"
    using s d cs by (simp add: central_start_def)
  show "cn_size net = n" "cn_runnables net = rs" by (simp_all add: net)
  have c: "cc_term c = on_task_sent (new_detector True)" "cc_queue c = []" "cc_phase c = Looping"
    "cc_updates_sent c = 0" "cc_notices_sent c = 0" "length (cc_state c) = n" "length (cc_best c) = n"
    by (simp_all add: c_def Let_def central_center_init_def)
  have w: "fn_pc (cw_funnel (cn_workers net p)) = Listening" "cw_term (cn_workers net p) = new_detector (p = 0)"
    "cw_updates_received (cn_workers net p) = 0" "cw_notices_received (cn_workers net p) = 0" for p
    by (simp_all add: net central_worker_init_def new_funnel_def)
  have "central_dets net = (\<lambda>p. new_detector (p = 0))(0 := on_task_sent (new_detector True))"
    "central_busy net = (\<lambda>p. False)"
    using w c by (auto simp: central_dets_def central_busy_def net fun_eq_iff)
  then have v: "central_shows net"
    using ds_shows_seeded [of "int n" seed fid] n by (simp add: central_shows_def net)
  have "central_chans_ok rs c (cn_workers net p) (cn_chans net) p" if "1 \<le> p" for p
    using that w(3,4) [of p] c fid by (auto simp: central_chans_ok_def net post_apply notified_def)
  then have "central_mid net"
    using v c n w central_init_ok [of ?nm]
    by (auto simp: result_fits_def central_mid_def central_center_ok_def reports_ok_def central_phase_ok_def net post_apply
        central_is_worker_def)
  then show "central_inv net" by (simp add: central_inv_def central_awake_def net c)
qed

lemma central_worker_step_sel:
  "central_worker_step p e net = Inr net' \<Longrightarrow> cn_size net' = cn_size net \<and> cn_runnables net' = cn_runnables net"
  by (cases "central_apply (cn_runnables net) p e (cn_workers net p)") (auto simp: central_worker_step_def)

lemma central_center_step_sel:
  "central_center_step c src k r net = Inr net' \<Longrightarrow> cn_size net' = cn_size net \<and> cn_runnables net' = cn_runnables net"
  by (cases r) (auto simp: central_center_step_def)

lemma central_step_sel:
  assumes "central_step net (Inr net')"
  shows "cn_size net' = cn_size net \<and> cn_runnables net' = cn_runnables net"
  using assms by cases (metis central_worker_step_sel central_center_step_sel)+

lemma central_reachable_inv:
  assumes "central_reachable n rs g t net" and n: "2 \<le> n"
  shows "central_inv net \<and> cn_size net = n \<and> cn_runnables net = rs"
  using assms(1)
proof induction
  case (start seed fid net)
  then show ?case using central_start_inv [OF _ _ n] by blast
next
  case (step net net')
  then have "central_inv net'" using central_step_result [of net] by (simp add: fine_step_def)
  then show ?case using step central_step_sel [OF step(2)] by simp
qed

section \<open>Properties of every run\<close>

text \<open>C5: No step of any run of the centralized scheduler fails: for two to 1,073,741 ranks, user tasks
  that push packets of a legal size for registered functions and report results of a legal size, any
  memory in use, any clock and any order of events, no handler of any rank throws, leaves a vector,
  overflows a product with the number of ranks or casts a packet's size to an \<open>int\<close> that cannot hold it;
  the tasks the center has queued have such sizes as well. In particular no acknowledgement is
  unexpected, no channel is pushed to twice, and every termination message arrives at a worker without
  work in progress that has received no more notices and scores than the center sent. The bound on the
  ranks is that of \<open>2 * CENTER_NBSTORED_TASKS_PER_PROCESS * m_world_size\<close>, an \<open>int\<close>: with one rank more
  it overflows. What the claim leaves out: the message counters are taken to stay within an \<open>int\<close>, and
  \<open>std::priority_queue\<close> is taken to keep its elements as \<open>Task_Priority\<close> has it, although the
  comparator it is given is not the strict order the standard demands.\<close>

theorem central_never_faults:
  assumes "central_reachable n rs g t net" and "2 \<le> n" and "n \<le> MAX_RANKS" and "central_step net r"
  shows "is_ok r \<and> (\<forall>b \<in> set (cc_queue (cn_center net)). int (bundle_size b) \<le> INT_MAX) \<and>
    int_checked (2 * CENTER_NBSTORED_TASKS_PER_PROCESS * (int MAX_RANKS + 1)) = Inl Undefined"
proof -
  note I = central_reachable_inv [OF assms(1,2)]
  then have "fine_step net r" using central_step_result assms(4) by blast
  moreover have "\<forall>b \<in> set (cc_queue (cn_center net)). int (bundle_size b) \<le> INT_MAX"
    using I by (auto simp: central_inv_def central_mid_def central_center_ok_def task_fits_def)
  ultimately show ?thesis using I assms(3)
    by (simp add: fine_step_def MAX_RANKS_def int_checked_def INT_MAX_def CENTER_NBSTORED_TASKS_PER_PROCESS_def)
qed

lemma central_never_faults_witness:
  "\<exists>net. central_play 2 [7] MAXIMISE I32 (Task_Packet [1]) 7 [] = Some net \<and>
     is_ok (central_worker_step 1 (C_Task 0 (Task_Packet [1]) 7) net)"
proof -
  have "map_option (\<lambda>n. central_is_worker n 1 \<and> central_enabled (C_Task 0 (Task_Packet [1]) 7) (cn_workers n 1) \<and>
      ready 1 (central_inputs (C_Task 0 (Task_Packet [1]) 7)) (cn_chans n))
      (central_play 2 [7] MAXIMISE I32 (Task_Packet [1]) 7 []) = Some True" by code_simp
  then obtain net where p: "central_play 2 [7] MAXIMISE I32 (Task_Packet [1]) 7 [] = Some net"
    and e: "central_is_worker net 1" "central_enabled (C_Task 0 (Task_Packet [1]) 7) (cn_workers net 1)"
      "ready 1 (central_inputs (C_Task 0 (Task_Packet [1]) 7)) (cn_chans net)"
    by (auto simp: map_option_case split: option.splits)
  have "central_step net (central_worker_step 1 (C_Task 0 (Task_Packet [1]) 7) net)"
    by (rule central_step.worker) (use e in simp_all)
  from central_never_faults [OF central_play_reachable [OF p] _ _ this] show ?thesis using p by (simp add: MAX_RANKS_def)
qed

text \<open>C6: The center of the centralized scheduler leaves its loop exactly when the computation is over.
  When it has left it, no task and no acknowledgement is in transit, its queue is empty and every worker
  is outside \<open>process_message\<close> with an empty queue, no transmission in progress and a quiescent
  detector; and as long as it loops, a worker is busy, a task or an acknowledgement is in transit, or the
  center holds a task in its queue.\<close>

theorem central_termination_exact:
  assumes "central_reachable n rs g t net" and "2 \<le> n"
  shows "if cc_phase (cn_center net) \<noteq> Looping
    then (\<forall>s d. \<forall>m \<in> set (cn_chans net World s d). \<not> is_task m \<and> \<not> is_ack m) \<and> cc_queue (cn_center net) = [] \<and>
      (\<forall>p \<in> {1..<int n}. \<not> fn_busy (fn_pc (cw_funnel (cn_workers net p))) \<and>
         fn_queue (cw_funnel (cn_workers net p)) = [] \<and> \<not> fn_transmitting (cw_funnel (cn_workers net p)) \<and>
         is_quiescent (cw_term (cn_workers net p)))
    else (\<exists>p. p \<noteq> 0 \<and> fn_busy (fn_pc (cw_funnel (cn_workers net p)))) \<or>
      (\<exists>s d. \<exists>m \<in> set (cn_chans net World s d). is_task m \<or> is_ack m) \<or> cc_queue (cn_center net) \<noteq> []"
proof (cases "cc_phase (cn_center net) = Looping")
  case False
  have mid: "central_mid net" and n: "cn_size net = n"
    using central_reachable_inv [OF assms] by (simp_all add: central_inv_def)
  note Q = central_stopped_quiet [OF mid False]
  have "fn_queue (cw_funnel (cn_workers net p)) = [] \<and> \<not> fn_transmitting (cw_funnel (cn_workers net p))"
    if p: "central_is_worker net p" for p
  proof -
    have "fn_after (fn_pc (cw_funnel (cn_workers net p)))"
      using Q(4) [OF p] by (cases "fn_pc (cw_funnel (cn_workers net p))") simp_all
    then show ?thesis using funnel_ok_quiet [OF central_worker_okD(1) [OF central_midD(2) [OF mid p]]] by simp
  qed
  then show ?thesis using False Q by (auto simp: how_many_zero central_is_worker_def n)
next
  case True
  have mid: "central_mid net" and aw: "central_awake (cn_center net)"
    using central_reachable_inv [OF assms] by (simp_all add: central_inv_def)
  have "\<not> ((\<forall>p. p \<noteq> 0 \<longrightarrow> \<not> fn_busy (fn_pc (cw_funnel (cn_workers net p)))) \<and>
      (\<forall>s d. \<forall>m \<in> set (cn_chans net World s d). \<not> is_task m \<and> \<not> is_ack m) \<and> cc_queue (cn_center net) = [])"
  proof
    assume quiet: "(\<forall>p. p \<noteq> 0 \<longrightarrow> \<not> fn_busy (fn_pc (cw_funnel (cn_workers net p)))) \<and>
      (\<forall>s d. \<forall>m \<in> set (cn_chans net World s d). \<not> is_task m \<and> \<not> is_ack m) \<and> cc_queue (cn_center net) = []"
    have "td_deficit (central_dets net 0) = 0"
      by (rule shows_detected [OF central_midD(6) [OF mid, unfolded central_shows_def] central_midD(7) [OF mid]])
        (use quiet in \<open>auto simp: central_busy_def how_many_zero\<close>)
    then show False using aw True quiet by (simp add: central_awake_def central_dets_def)
  qed
  then show ?thesis using True by auto
qed

definition central_one_task :: "central_move list" where
  "central_one_task = [C_Move 1 (C_Task 0 (Task_Packet [1]) 7), CC_Running 1, C_Move 1 C_Pool_Done, C_Move 1 C_Enter,
     C_Move 1 (C_Poll None None), C_Move 1 C_Pop, C_Move 1 C_Check, C_Move 1 C_Recheck, C_Move 1 C_Leave,
     CC_Available 1, CC_Ack 1]"

lemma central_termination_exact_witness:
  "\<exists>net. central_play 2 [7] MAXIMISE I32 (Task_Packet [1]) 7 central_one_task = Some net \<and>
     cc_phase (cn_center net) = Collecting 1 \<and> is_quiescent (cw_term (cn_workers net 1))"
proof -
  have "map_option (\<lambda>n. cc_phase (cn_center n)) (central_play 2 [7] MAXIMISE I32 (Task_Packet [1]) 7 central_one_task) =
      Some (Collecting 1)" by code_simp
  then obtain net where p: "central_play 2 [7] MAXIMISE I32 (Task_Packet [1]) 7 central_one_task = Some net"
    "cc_phase (cn_center net) = Collecting 1"
    by (auto simp: map_option_case split: option.splits)
  have "central_reachable 2 [7] MAXIMISE I32 net" by (rule central_play_reachable [OF p(1)]) simp
  from central_termination_exact [OF this] p show ?thesis by simp
qed

end
