(* ===== verification/Node_Heap.thy ===== *)
theory Node_Heap
  imports Task_Packet
begin

text \<open>
  The objects the nodes of the search tree are made of
  (\<open>include/gempba/detail/nodes/node_core_impl.hpp\<close>) and what a load balancer keeps about them.

  A \<open>std::shared_ptr<node_core>\<close> is a \<open>ptr\<close>: \<open>None\<close> is the null pointer and \<open>Some a\<close> points to the node
  at address \<open>a\<close>. Nodes point to their parent and to their children, so none is freed while it can be
  reached, and the heap keeps every node. A thread's root cell
  (\<open>std::shared_ptr<std::shared_ptr<node_core>>\<close>) is created once for a thread and named by it.

  \<open>'a\<close> is the tuple of arguments, \<open>'r\<close> the type of the values the user's functions return and \<open>'w\<close> the
  state outside the nodes that user functions and the scheduler share. User functions are named by
  numbers; what they do is a parameter of the operations that call them.
\<close>

type_synonym addr = nat
type_synonym ptr = "addr option"
type_synonym thread = nat

datatype node_state = UNUSED | FORWARDED | PUSHED | DISCARDED | RETRIEVED | SENT_TO_ANOTHER_PROCESS

datatype initialization_type = UNINITIALIZED | INITIALIZED | LAZY | DESERIALIZED

text \<open>\<open>m_initializer\<close>: unset, the closure that returns the node's own arguments, or the user's function.\<close>

datatype ('a, 'w) initializer = No_Initializer | Own_Arguments | Initializer "'w \<Rightarrow> 'a option \<times> 'w"

text \<open>\<open>std::any\<close> is a value or empty; \<open>m_result\<close> holds one or a future, named by its number.\<close>

datatype 'r node_result = Any "'r option" | Future nat

datatype 'r outcome = Waiting | Ready "'r option" | Raised string | Consumed

record ('a, 'r, 'w) nd =
  nd_root :: "thread option"
  nd_parent :: ptr
  nd_children :: "addr list"
  nd_result :: "'r node_result"
  nd_runnable :: "nat option"
  nd_initializer :: "('a, 'w) initializer"
  nd_args_serializer :: "('a \<Rightarrow> task_packet) option"
  nd_args_deserializer :: "(task_packet \<Rightarrow> 'a) option"
  nd_result_serializer :: "('r option \<Rightarrow> task_packet) option"
  nd_result_deserializer :: "(task_packet \<Rightarrow> 'r option) option"
  nd_should_branch_cached :: "bool option"
  nd_flag :: initialization_type
  nd_args :: 'a
  nd_state :: node_state
  nd_forward_count :: int
  nd_push_count :: int
  nd_id :: "32 word"
  nd_thread :: thread
  nd_is_dummy :: bool
  nd_remote :: "32 word"

datatype balancing_policy = QUASI_HORIZONTAL | WORK_STEALING

text \<open>
  The heap with the load balancer: \<open>hp_roots\<close> is \<open>m_roots\<close>, \<open>hp_futures\<close> the state of the futures handed
  out so far, \<open>hp_pool\<close> the tasks of the thread pool that have not run, oldest first, each with its
  future. \<open>hp_default\<close> is the value-initialized tuple of arguments.
\<close>

record ('a, 'r, 'w) heap =
  hp_policy :: balancing_policy
  hp_nodes :: "addr \<Rightarrow> ('a, 'r, 'w) nd"
  hp_count :: nat
  hp_roots :: "thread \<Rightarrow> ptr"
  hp_next_id :: "32 word"
  hp_default :: 'a
  hp_futures :: "nat \<Rightarrow> 'r outcome"
  hp_submitted :: nat
  hp_pool :: "(addr \<times> nat) list"
  hp_thread_count :: "32 word"
  hp_thread_requests :: "64 word"
  hp_pool_full_rejected :: "64 word"
  hp_remote_rejected :: "64 word"
  hp_has_worker :: bool
  hp_world :: 'w

text \<open>What the user's function of a number does, on a thread, with the arguments and the node passed.\<close>

type_synonym ('a, 'r, 'w) invoke =
  "nat \<Rightarrow> thread \<Rightarrow> 'a \<Rightarrow> ptr \<Rightarrow> ('a, 'r, 'w) heap \<Rightarrow> 'r option res \<times> ('a, 'r, 'w) heap"

definition new_nd :: "'a \<Rightarrow> thread \<Rightarrow> 32 word \<Rightarrow> bool \<Rightarrow> ('a, 'r, 'w) nd" where
  "new_nd dflt me i dummy =
     \<lparr>nd_root = None, nd_parent = None, nd_children = [], nd_result = Any None, nd_runnable = None,
      nd_initializer = No_Initializer, nd_args_serializer = None, nd_args_deserializer = None,
      nd_result_serializer = None, nd_result_deserializer = None, nd_should_branch_cached = None,
      nd_flag = UNINITIALIZED, nd_args = dflt, nd_state = UNUSED, nd_forward_count = 0, nd_push_count = 0,
      nd_id = i, nd_thread = me, nd_is_dummy = dummy, nd_remote = - 1\<rparr>"

definition new_heap :: "balancing_policy \<Rightarrow> bool \<Rightarrow> 'a \<Rightarrow> 'w \<Rightarrow> ('a, 'r, 'w) heap" where
  "new_heap policy worker dflt w =
     \<lparr>hp_policy = policy, hp_nodes = (\<lambda>_. new_nd dflt 0 0 False), hp_count = 0, hp_roots = (\<lambda>_. None),
      hp_next_id = 0, hp_default = dflt, hp_futures = (\<lambda>_. Waiting), hp_submitted = 0, hp_pool = [],
      hp_thread_count = 1, hp_thread_requests = 0, hp_pool_full_rejected = 0, hp_remote_rejected = 0,
      hp_has_worker = worker, hp_world = w\<rparr>"

text \<open>Changing the node at an address; an address is valid when a node was created there.\<close>

definition with_nd :: "addr \<Rightarrow> (('a, 'r, 'w) nd \<Rightarrow> ('a, 'r, 'w) nd) \<Rightarrow> ('a, 'r, 'w) heap \<Rightarrow> ('a, 'r, 'w) heap" where
  "with_nd a f h = h\<lparr>hp_nodes := (hp_nodes h)(a := f (hp_nodes h a))\<rparr>"

definition valid :: "('a, 'r, 'w) heap \<Rightarrow> addr \<Rightarrow> bool" where
  "valid h a \<longleftrightarrow> a < hp_count h"

abbreviation nd :: "('a, 'r, 'w) heap \<Rightarrow> addr \<Rightarrow> ('a, 'r, 'w) nd" where
  "nd h a \<equiv> hp_nodes h a"

lemma with_nd_sel [simp]:
  "hp_policy (with_nd a f h) = hp_policy h" "hp_count (with_nd a f h) = hp_count h"
  "hp_roots (with_nd a f h) = hp_roots h" "hp_next_id (with_nd a f h) = hp_next_id h"
  "hp_default (with_nd a f h) = hp_default h" "hp_futures (with_nd a f h) = hp_futures h"
  "hp_submitted (with_nd a f h) = hp_submitted h" "hp_pool (with_nd a f h) = hp_pool h"
  "hp_thread_count (with_nd a f h) = hp_thread_count h" "hp_thread_requests (with_nd a f h) = hp_thread_requests h"
  "hp_pool_full_rejected (with_nd a f h) = hp_pool_full_rejected h"
  "hp_remote_rejected (with_nd a f h) = hp_remote_rejected h"
  "hp_has_worker (with_nd a f h) = hp_has_worker h" "hp_world (with_nd a f h) = hp_world h"
  by (simp_all add: with_nd_def)

lemma with_nd_apply: "nd (with_nd a f h) b = (if b = a then f (nd h a) else nd h b)"
  by (simp add: with_nd_def)

lemma with_nd_same [simp]: "nd (with_nd a f h) a = f (nd h a)"
  by (simp add: with_nd_def)

lemma with_nd_other [simp]: "b \<noteq> a \<Longrightarrow> nd (with_nd a f h) b = nd h b"
  by (simp add: with_nd_def)

section \<open>What a load balancer does for the nodes\<close>

definition generate_unique_id :: "('a, 'r, 'w) heap \<Rightarrow> 32 word \<times> ('a, 'r, 'w) heap" where
  "generate_unique_id h = (hp_next_id h + 1, h\<lparr>hp_next_id := hp_next_id h + 1\<rparr>)"

definition set_root :: "thread \<Rightarrow> addr \<Rightarrow> ('a, 'r, 'w) heap \<Rightarrow> ('a, 'r, 'w) heap" where
  "set_root t a h =
     (case hp_policy h of
        QUASI_HORIZONTAL \<Rightarrow> h\<lparr>hp_roots := (hp_roots h)(t := Some a)\<rparr>
      | WORK_STEALING \<Rightarrow> h)"

text \<open>The cell of a thread, if it has one.\<close>

definition lb_get_root :: "thread \<Rightarrow> ('a, 'r, 'w) heap \<Rightarrow> thread option" where
  "lb_get_root t h =
     (case hp_policy h of
        QUASI_HORIZONTAL \<Rightarrow> (if hp_roots h t \<noteq> None then Some t else None)
      | WORK_STEALING \<Rightarrow> None)"

definition force_local_submit :: "addr \<Rightarrow> ('a, 'r, 'w) heap \<Rightarrow> nat \<times> ('a, 'r, 'w) heap" where
  "force_local_submit a h =
     (hp_submitted h,
      h\<lparr>hp_thread_requests := hp_thread_requests h + 1, hp_submitted := hp_submitted h + 1,
        hp_futures := (hp_futures h)(hp_submitted h := Waiting), hp_pool := hp_pool h @ [(a, hp_submitted h)]\<rparr>)"

definition lb_is_done :: "('a, 'r, 'w) heap \<Rightarrow> bool" where
  "lb_is_done h \<longleftrightarrow> hp_pool h = []"

lemma set_root_sel [simp]:
  "hp_policy (set_root t a h) = hp_policy h" "hp_count (set_root t a h) = hp_count h"
  "hp_nodes (set_root t a h) = hp_nodes h" "hp_world (set_root t a h) = hp_world h"
  "hp_pool (set_root t a h) = hp_pool h" "hp_has_worker (set_root t a h) = hp_has_worker h"
  by (simp_all add: set_root_def split: balancing_policy.split)

lemma force_local_submit_sel [simp]:
  "hp_nodes (snd (force_local_submit a h)) = hp_nodes h" "hp_count (snd (force_local_submit a h)) = hp_count h"
  "hp_roots (snd (force_local_submit a h)) = hp_roots h" "hp_policy (snd (force_local_submit a h)) = hp_policy h"
  "hp_pool (snd (force_local_submit a h)) = hp_pool h @ [(a, hp_submitted h)]"
  "hp_world (snd (force_local_submit a h)) = hp_world h"
  by (simp_all add: force_local_submit_def)

end
