(* ===== verification/Node_Core.thy ===== *)
theory Node_Core
  imports Node_Heap
begin

text \<open>
  A node of the search tree (\<open>include/gempba/detail/nodes/node_core_impl.hpp\<close>): its construction, its
  arguments, its life from \<open>UNUSED\<close> to a consumed state, and its links to parent and children. Each
  operation takes the address of the node it is called on. An operation that throws is an \<open>Inl\<close>; what it
  had changed before is not part of the result.
\<close>

fun get_state_string :: "node_state \<Rightarrow> string" where
  "get_state_string UNUSED = ''UNUSED''"
| "get_state_string FORWARDED = ''FORWARDED''"
| "get_state_string PUSHED = ''PUSHED''"
| "get_state_string DISCARDED = ''DISCARDED''"
| "get_state_string RETRIEVED = ''RETRIEVED''"
| "get_state_string SENT_TO_ANOTHER_PROCESS = ''SENT_TO_ANOTHER_PROCESS''"

text \<open>Calling an empty \<open>std::function\<close>.\<close>

definition bad_function_call :: fault where
  "bad_function_call = Thrown ''bad_function_call''"

definition show_id :: "('a, 'r, 'w) nd \<Rightarrow> string" where
  "show_id n = show_int (sint (nd_id n))"

section \<open>Links\<close>

definition get_root :: "addr \<Rightarrow> ('a, 'r, 'w) heap \<Rightarrow> ptr" where
  "get_root a h = (case nd_root (nd h a) of None \<Rightarrow> None | Some t \<Rightarrow> hp_roots h t)"

text \<open>The end of \<open>add_child\<close>: the child enters the list unless it is there.\<close>

definition enter_child :: "addr \<Rightarrow> addr \<Rightarrow> ('a, 'r, 'w) heap \<Rightarrow> ('a, 'r, 'w) heap" where
  "enter_child p c h =
     with_nd p (\<lambda>n. if c \<in> set (nd_children n) then n else n\<lparr>nd_children := nd_children n @ [c]\<rparr>) h"

text \<open>
  \<open>set_parent\<close> calls \<open>add_child\<close> of the new parent, for which this node already is a child of that parent,
  so only the end of \<open>add_child\<close> is left to do.
\<close>

definition set_parent :: "addr \<Rightarrow> ptr \<Rightarrow> ('a, 'r, 'w) heap \<Rightarrow> ('a, 'r, 'w) heap res" where
  "set_parent a p h =
     (if nd_is_dummy (nd h a) \<and> p \<noteq> None then Inl (Thrown ''Cannot set parent for a dummy node'')
      else if p = Some a then Inl (Thrown ''Cannot set self as parent'')
      else if nd_children (nd h a) \<noteq> [] \<and> p \<noteq> None
      then Inl (Thrown ''Cannot set parent to nullptr when children are present'')
      else if nd_parent (nd h a) = p then Inr h
      else let h1 = with_nd a (\<lambda>n. n\<lparr>nd_parent := p\<rparr>) h
           in case p of
                None \<Rightarrow> Inr h1
              | Some q \<Rightarrow> let h2 = enter_child q a h1
                         in Inr (with_nd a (\<lambda>n. n\<lparr>nd_root := lb_get_root (nd_thread (nd h2 q)) h2\<rparr>) h2))"

definition add_child :: "addr \<Rightarrow> ptr \<Rightarrow> ('a, 'r, 'w) heap \<Rightarrow> ('a, 'r, 'w) heap res" where
  "add_child a p h =
     (case p of
        None \<Rightarrow> Inl (Thrown ''Cannot add null or self as a child'')
      | Some c \<Rightarrow>
          if c = a then Inl (Thrown ''Cannot add null or self as a child'')
          else rbind (if nd_parent (nd h c) \<noteq> Some a then set_parent c (Some a) h else Inr h)
                 (\<lambda>h1. Inr (enter_child a c h1)))"

definition get_leftmost_child :: "addr \<Rightarrow> ('a, 'r, 'w) heap \<Rightarrow> ptr" where
  "get_leftmost_child a h = (case nd_children (nd h a) of [] \<Rightarrow> None | c # _ \<Rightarrow> Some c)"

definition get_second_leftmost_child :: "addr \<Rightarrow> ('a, 'r, 'w) heap \<Rightarrow> addr res" where
  "get_second_leftmost_child a h =
     (case nd_children (nd h a) of
        _ # c # _ \<Rightarrow> Inr c
      | _ \<Rightarrow> Inl (Thrown ''Cannot get second child when there are less than 2 children''))"

text \<open>\<open>pop_front\<close> of an empty list is undefined.\<close>

definition remove_leftmost_child :: "addr \<Rightarrow> ('a, 'r, 'w) heap \<Rightarrow> ('a, 'r, 'w) heap res" where
  "remove_leftmost_child a h =
     (case nd_children (nd h a) of
        [] \<Rightarrow> Inl Undefined
      | _ # cs \<Rightarrow> Inr (with_nd a (\<lambda>n. n\<lparr>nd_children := cs\<rparr>) h))"

definition remove_second_leftmost_child :: "addr \<Rightarrow> ('a, 'r, 'w) heap \<Rightarrow> ('a, 'r, 'w) heap res" where
  "remove_second_leftmost_child a h =
     (case nd_children (nd h a) of
        c # _ # cs \<Rightarrow> Inr (with_nd a (\<lambda>n. n\<lparr>nd_children := c # cs\<rparr>) h)
      | _ \<Rightarrow> Inl (Thrown ''Cannot prune second child when there are less than 2 children''))"

definition get_leftmost_sibling :: "addr \<Rightarrow> ('a, 'r, 'w) heap \<Rightarrow> ptr" where
  "get_leftmost_sibling a h =
     (if nd_is_dummy (nd h a) then None
      else case nd_parent (nd h a) of None \<Rightarrow> None | Some p \<Rightarrow> get_leftmost_child p h)"

text \<open>
  The siblings: \<open>std::find\<close> in the parent's children and one step back or forth. A node that is not among
  them is found at the end of the list.
\<close>

fun before :: "addr \<Rightarrow> addr list \<Rightarrow> ptr" where
  "before a (c # d # cs) = (if d = a then Some c else before a (d # cs))"
| "before a [c] = Some c"
| "before a [] = None"

definition get_left_sibling :: "addr \<Rightarrow> ('a, 'r, 'w) heap \<Rightarrow> ptr res" where
  "get_left_sibling a h =
     (if nd_is_dummy (nd h a) then Inr None
      else case nd_parent (nd h a) of
             None \<Rightarrow> Inr None
           | Some p \<Rightarrow>
               (case nd_children (nd h p) of
                  [] \<Rightarrow> Inl Undefined
                | c # cs \<Rightarrow> if c = a then Inr None else Inr (before a (c # cs))))"

fun after :: "addr \<Rightarrow> addr list \<Rightarrow> ptr" where
  "after a (c # d # cs) = (if c = a then Some d else after a (d # cs))"
| "after a cs = None"

definition get_right_sibling :: "addr \<Rightarrow> ('a, 'r, 'w) heap \<Rightarrow> ptr res" where
  "get_right_sibling a h =
     (if nd_is_dummy (nd h a) then Inr None
      else case nd_parent (nd h a) of
             None \<Rightarrow> Inr None
           | Some p \<Rightarrow>
               let cs = nd_children (nd h p)
               in if cs = [] then Inl Undefined
                  else if last cs = a then Inr None
                  else if a \<notin> set cs then Inl Undefined
                  else Inr (after a cs))"

definition get_children_count :: "addr \<Rightarrow> ('a, 'r, 'w) heap \<Rightarrow> nat" where
  "get_children_count a h = length (nd_children (nd h a))"

definition remove_child :: "addr \<Rightarrow> addr \<Rightarrow> ('a, 'r, 'w) heap \<Rightarrow> ('a, 'r, 'w) heap" where
  "remove_child a c h = with_nd a (\<lambda>n. n\<lparr>nd_children := removeAll c (nd_children n)\<rparr>) h"

definition prune :: "addr \<Rightarrow> ('a, 'r, 'w) heap \<Rightarrow> ('a, 'r, 'w) heap res" where
  "prune a h =
     (let h1 = (case nd_parent (nd h a) of None \<Rightarrow> h | Some p \<Rightarrow> remove_child p a h)
      in set_parent a None (with_nd a (\<lambda>n. n\<lparr>nd_root := None, nd_children := []\<rparr>) h1))"

section \<open>Construction\<close>

definition construct :: "thread \<Rightarrow> bool \<Rightarrow> ('a, 'r, 'w) heap \<Rightarrow> addr \<times> ('a, 'r, 'w) heap" where
  "construct me dummy h =
     (let (i, h1) = generate_unique_id h; a = hp_count h1
      in (a, h1\<lparr>hp_count := a + 1, hp_nodes := (hp_nodes h1)(a := new_nd (hp_default h1) me i dummy)\<rparr>))"

definition construct_placeholder ::
    "thread \<Rightarrow> nat \<Rightarrow> ('a \<Rightarrow> task_packet) option \<Rightarrow> (task_packet \<Rightarrow> 'a) option \<Rightarrow> ('a, 'r, 'w) heap \<Rightarrow>
     addr \<times> ('a, 'r, 'w) heap" where
  "construct_placeholder me f ser deser h =
     (let (a, h1) = construct me False h
      in (a, with_nd a (\<lambda>n. n\<lparr>nd_runnable := Some f, nd_args_serializer := ser, nd_args_deserializer := deser\<rparr>) h1))"

definition construct_explicit ::
    "thread \<Rightarrow> nat \<Rightarrow> 'a \<Rightarrow> ('a \<Rightarrow> task_packet) option \<Rightarrow> (task_packet \<Rightarrow> 'a) option \<Rightarrow> ('a, 'r, 'w) heap \<Rightarrow>
     addr \<times> ('a, 'r, 'w) heap" where
  "construct_explicit me f args ser deser h =
     (let (a, h1) = construct me False h
      in (a, with_nd a (\<lambda>n. n\<lparr>nd_runnable := Some f, nd_flag := INITIALIZED, nd_args_serializer := ser,
            nd_args_deserializer := deser, nd_args := args, nd_initializer := Own_Arguments\<rparr>) h1))"

definition construct_lazy ::
    "thread \<Rightarrow> nat \<Rightarrow> ('w \<Rightarrow> 'a option \<times> 'w) \<Rightarrow> ('a \<Rightarrow> task_packet) option \<Rightarrow> (task_packet \<Rightarrow> 'a) option \<Rightarrow>
     ('a, 'r, 'w) heap \<Rightarrow> addr \<times> ('a, 'r, 'w) heap" where
  "construct_lazy me f g ser deser h =
     (let (a, h1) = construct_placeholder me f ser deser h
      in (a, with_nd a (\<lambda>n. n\<lparr>nd_initializer := Initializer g, nd_flag := LAZY\<rparr>) h1))"

definition node_init :: "addr \<Rightarrow> ptr \<Rightarrow> ('a, 'r, 'w) heap \<Rightarrow> ('a, 'r, 'w) heap res" where
  "node_init a p h =
     (case p of
        Some q \<Rightarrow> set_parent a (Some q) h
      | None \<Rightarrow> let t = nd_thread (nd h a); h1 = set_root t a h
                in Inr (with_nd a (\<lambda>n. n\<lparr>nd_root := lb_get_root t h1\<rparr>) h1))"

definition created :: "ptr \<Rightarrow> addr \<times> ('a, 'r, 'w) heap \<Rightarrow> (addr \<times> ('a, 'r, 'w) heap) res" where
  "created p = (\<lambda>(a, h). rbind (node_init a p h) (\<lambda>h1. Inr (a, h1)))"

definition create_serializable_explicit ::
    "thread \<Rightarrow> ptr \<Rightarrow> nat \<Rightarrow> 'a \<Rightarrow> ('a \<Rightarrow> task_packet) option \<Rightarrow> (task_packet \<Rightarrow> 'a) option \<Rightarrow>
     ('a, 'r, 'w) heap \<Rightarrow> (addr \<times> ('a, 'r, 'w) heap) res" where
  "create_serializable_explicit me p f args ser deser h = created p (construct_explicit me f args ser deser h)"

definition create_explicit ::
    "thread \<Rightarrow> ptr \<Rightarrow> nat \<Rightarrow> 'a \<Rightarrow> ('a, 'r, 'w) heap \<Rightarrow> (addr \<times> ('a, 'r, 'w) heap) res" where
  "create_explicit me p f args h = create_serializable_explicit me p f args None None h"

definition create_serializable_lazy ::
    "thread \<Rightarrow> ptr \<Rightarrow> nat \<Rightarrow> ('w \<Rightarrow> 'a option \<times> 'w) \<Rightarrow> ('a \<Rightarrow> task_packet) option \<Rightarrow>
     (task_packet \<Rightarrow> 'a) option \<Rightarrow> ('a, 'r, 'w) heap \<Rightarrow> (addr \<times> ('a, 'r, 'w) heap) res" where
  "create_serializable_lazy me p f g ser deser h = created p (construct_lazy me f g ser deser h)"

definition create_lazy ::
    "thread \<Rightarrow> ptr \<Rightarrow> nat \<Rightarrow> ('w \<Rightarrow> 'a option \<times> 'w) \<Rightarrow> ('a, 'r, 'w) heap \<Rightarrow> (addr \<times> ('a, 'r, 'w) heap) res" where
  "create_lazy me p f g h = create_serializable_lazy me p f g None None h"

definition create_serializable ::
    "thread \<Rightarrow> ptr \<Rightarrow> nat \<Rightarrow> ('a \<Rightarrow> task_packet) option \<Rightarrow> (task_packet \<Rightarrow> 'a) option \<Rightarrow>
     ('a, 'r, 'w) heap \<Rightarrow> (addr \<times> ('a, 'r, 'w) heap) res" where
  "create_serializable me p f ser deser h = created p (construct_placeholder me f ser deser h)"

definition create_seed ::
    "thread \<Rightarrow> nat \<Rightarrow> ('w \<Rightarrow> 'a \<times> 'w) \<Rightarrow> ('a, 'r, 'w) heap \<Rightarrow> (addr \<times> ('a, 'r, 'w) heap) res" where
  "create_seed me f g h =
     created None (construct_lazy me f (\<lambda>w. let (x, w1) = g w in (Some x, w1)) None None h)"

definition create_dummy :: "thread \<Rightarrow> ('a, 'r, 'w) heap \<Rightarrow> (addr \<times> ('a, 'r, 'w) heap) res" where
  "create_dummy me h = created None (construct me True h)"

section \<open>Arguments\<close>

definition call_initializer :: "addr \<Rightarrow> ('a, 'r, 'w) heap \<Rightarrow> ('a option \<times> ('a, 'r, 'w) heap) res" where
  "call_initializer a h =
     (case nd_initializer (nd h a) of
        No_Initializer \<Rightarrow> Inl bad_function_call
      | Own_Arguments \<Rightarrow> Inr (Some (nd_args (nd h a)), h)
      | Initializer g \<Rightarrow> (let (x, w) = g (hp_world h) in Inr (x, h\<lparr>hp_world := w\<rparr>)))"

definition ensure_args_initialized :: "addr \<Rightarrow> ('a, 'r, 'w) heap \<Rightarrow> ('a, 'r, 'w) heap res" where
  "ensure_args_initialized a h =
     (case nd_flag (nd h a) of
        UNINITIALIZED \<Rightarrow> Inl (Thrown ''node arguments have not been initialized'')
      | LAZY \<Rightarrow> rbind (call_initializer a h) (\<lambda>(x, h1).
          case x of
            None \<Rightarrow> Inl (Thrown (''Attempted to initialize a non-worthy node: this should not happen!, node: '' @
                      show_id (nd h a) @ '', state: '' @ get_state_string (nd_state (nd h a))))
          | Some args \<Rightarrow> Inr (with_nd a (\<lambda>n. n\<lparr>nd_args := args, nd_flag := INITIALIZED\<rparr>) h1))
      | _ \<Rightarrow> Inr h)"

definition should_branch :: "addr \<Rightarrow> ('a, 'r, 'w) heap \<Rightarrow> (bool \<times> ('a, 'r, 'w) heap) res" where
  "should_branch a h =
     (case nd_should_branch_cached (nd h a) of
        Some b \<Rightarrow> Inr (b, h)
      | None \<Rightarrow>
          if nd_state (nd h a) \<in> {FORWARDED, PUSHED, DISCARDED}
          then Inr (False, with_nd a (\<lambda>n. n\<lparr>nd_flag := INITIALIZED, nd_should_branch_cached := Some False\<rparr>) h)
          else if nd_flag (nd h a) \<noteq> LAZY
          then Inr (True, with_nd a (\<lambda>n. n\<lparr>nd_should_branch_cached := Some True\<rparr>) h)
          else rbind (call_initializer a h) (\<lambda>(x, h1).
                 case x of
                   None \<Rightarrow> Inr (False, with_nd a (\<lambda>n. n\<lparr>nd_should_branch_cached := Some False, nd_flag := INITIALIZED\<rparr>) h1)
                 | Some args \<Rightarrow> Inr (True, with_nd a (\<lambda>n. n\<lparr>nd_args := args, nd_flag := INITIALIZED,
                                             nd_should_branch_cached := Some True\<rparr>) h1)))"

definition serialize :: "addr \<Rightarrow> ('a, 'r, 'w) heap \<Rightarrow> task_packet res" where
  "serialize a h =
     (if nd_flag (nd h a) \<in> {UNINITIALIZED, LAZY} then Inl (Thrown ''node arguments have not been initialized'')
      else case nd_args_serializer (nd h a) of
             None \<Rightarrow> Inl (Thrown ''Arguments serializer has not been set'')
           | Some f \<Rightarrow> Inr (f (nd_args (nd h a))))"

definition deserialize :: "task_packet \<Rightarrow> addr \<Rightarrow> ('a, 'r, 'w) heap \<Rightarrow> ('a, 'r, 'w) heap res" where
  "deserialize p a h =
     (if nd_flag (nd h a) \<noteq> UNINITIALIZED then Inl (Thrown ''node arguments have already been initialized'')
      else case nd_args_deserializer (nd h a) of
             None \<Rightarrow> Inl (Thrown ''Arguments deserializer has not been set'')
           | Some f \<Rightarrow> Inr (with_nd a (\<lambda>n. n\<lparr>nd_args := f p, nd_flag := DESERIALIZED\<rparr>) h))"

section \<open>Execution\<close>

definition m_invoke ::
    "('a, 'r, 'w) invoke \<Rightarrow> thread \<Rightarrow> bool \<Rightarrow> addr \<Rightarrow> ('a, 'r, 'w) heap \<Rightarrow> 'r option res \<times> ('a, 'r, 'w) heap" where
  "m_invoke user me delegated a h =
     (case nd_runnable (nd h a) of
        None \<Rightarrow> (Inl bad_function_call, h)
      | Some f \<Rightarrow> user f me (nd_args (nd h a)) (if delegated then None else Some a) h)"

definition not_consumed :: "addr \<Rightarrow> ('a, 'r, 'w) heap \<Rightarrow> unit res" where
  "not_consumed a h =
     (if nd_state (nd h a) \<noteq> UNUSED
      then Inl (Thrown (''node is already consumed, node: '' @ show_id (nd h a) @ '', state: '' @
                  get_state_string (nd_state (nd h a))))
      else Inr ())"

definition run_node :: "('a, 'r, 'w) invoke \<Rightarrow> thread \<Rightarrow> addr \<Rightarrow> ('a, 'r, 'w) heap \<Rightarrow> ('a, 'r, 'w) heap res" where
  "run_node user me a h =
     rbind (not_consumed a h) (\<lambda>_. rbind (ensure_args_initialized a h) (\<lambda>h1.
       let (r, h2) = m_invoke user me False a h1
       in rbind r (\<lambda>x. Inr (with_nd a (\<lambda>n. n\<lparr>nd_result := Any x, nd_state := FORWARDED\<rparr>) h2))))"

definition delegate_locally :: "addr \<Rightarrow> ('a, 'r, 'w) heap \<Rightarrow> ('a, 'r, 'w) heap res" where
  "delegate_locally a h =
     rbind (not_consumed a h) (\<lambda>_. rbind (ensure_args_initialized a h) (\<lambda>h1.
       let (k, h2) = force_local_submit a h1
       in Inr (with_nd a (\<lambda>n. n\<lparr>nd_result := Future k, nd_state := PUSHED\<rparr>) h2)))"

text \<open>What the pool does with a submitted task: the closure of \<open>delegate_locally\<close>, on thread \<open>me\<close>.\<close>

definition pool_task :: "('a, 'r, 'w) invoke \<Rightarrow> thread \<Rightarrow> addr \<Rightarrow> nat \<Rightarrow> ('a, 'r, 'w) heap \<Rightarrow> ('a, 'r, 'w) heap res" where
  "pool_task user me a k h =
     (let (r, h1) = m_invoke user me True a h
      in case r of
           Inr x \<Rightarrow> Inr (h1\<lparr>hp_futures := (hp_futures h1)(k := Ready x)\<rparr>)
         | Inl (Thrown m) \<Rightarrow> Inr (h1\<lparr>hp_futures := (hp_futures h1)
             (k := Raised (''TASK EXCEPTION - Node '' @ show_id (nd h1 a) @ '': '' @ m))\<rparr>)
         | Inl e \<Rightarrow> Inl e)"

definition pool_step :: "('a, 'r, 'w) invoke \<Rightarrow> thread \<Rightarrow> ('a, 'r, 'w) heap \<Rightarrow> ('a, 'r, 'w) heap res" where
  "pool_step user me h =
     (case hp_pool h of [] \<Rightarrow> Inr h | (a, k) # ts \<Rightarrow> pool_task user me a k (h\<lparr>hp_pool := ts\<rparr>))"

definition delegate_remotely ::
    "(task_packet \<Rightarrow> int \<Rightarrow> 'w \<Rightarrow> (32 word \<times> 'w) res) \<Rightarrow> int \<Rightarrow> addr \<Rightarrow> ('a, 'r, 'w) heap \<Rightarrow> ('a, 'r, 'w) heap res" where
  "delegate_remotely force_push fid a h =
     rbind (not_consumed a h) (\<lambda>_. rbind (ensure_args_initialized a h) (\<lambda>h1.
     rbind (serialize a h1) (\<lambda>p. rbind (force_push p fid (hp_world h1)) (\<lambda>(d, w).
       Inr (with_nd a (\<lambda>n. n\<lparr>nd_remote := d, nd_state := SENT_TO_ANOTHER_PROCESS\<rparr>) (h1\<lparr>hp_world := w\<rparr>))))))"

section \<open>State and result\<close>

definition set_state :: "node_state \<Rightarrow> addr \<Rightarrow> ('a, 'r, 'w) heap \<Rightarrow> ('a, 'r, 'w) heap" where
  "set_state s a h = with_nd a (\<lambda>n.
     case s of
       FORWARDED \<Rightarrow> n\<lparr>nd_state := s, nd_forward_count := nd_forward_count n + 1\<rparr>
     | PUSHED \<Rightarrow> n\<lparr>nd_state := s, nd_push_count := nd_push_count n + 1\<rparr>
     | _ \<Rightarrow> n\<lparr>nd_state := s\<rparr>) h"

definition is_consumed :: "addr \<Rightarrow> ('a, 'r, 'w) heap \<Rightarrow> bool" where
  "is_consumed a h \<longleftrightarrow> nd_state (nd h a) \<noteq> UNUSED"

definition is_result_ready :: "addr \<Rightarrow> ('a, 'r, 'w) heap \<Rightarrow> bool" where
  "is_result_ready a h \<longleftrightarrow> nd_state (nd h a) \<noteq> DISCARDED \<and> nd_state (nd h a) \<noteq> RETRIEVED"

text \<open>
  \<open>get_any_result\<close> waits for the future: \<open>None\<close> while there is nothing to return. A future can be taken
  once; one that raised stays in the node, consumed, and waiting for it again is undefined.
\<close>

definition get_any_result ::
    "addr \<Rightarrow> ('a, 'r, 'w) heap \<Rightarrow> ('r option \<times> ('a, 'r, 'w) heap) res option" where
  "get_any_result a h =
     (case nd_result (nd h a) of
        Any x \<Rightarrow> Some (Inr (x, with_nd a (\<lambda>n. n\<lparr>nd_state := RETRIEVED\<rparr>) h))
      | Future k \<Rightarrow>
          (case hp_futures h k of
             Waiting \<Rightarrow> None
           | Raised m \<Rightarrow> Some (Inl (Thrown m))
           | Consumed \<Rightarrow> Some (Inl Undefined)
           | Ready x \<Rightarrow> Some (Inr (x, with_nd a (\<lambda>n. n\<lparr>nd_result := Any x, nd_state := RETRIEVED\<rparr>)
                                      (h\<lparr>hp_futures := (hp_futures h)(k := Consumed)\<rparr>)))))"

definition set_result :: "task_packet \<Rightarrow> addr \<Rightarrow> ('a, 'r, 'w) heap \<Rightarrow> ('a, 'r, 'w) heap res" where
  "set_result p a h =
     (case nd_result_deserializer (nd h a) of
        None \<Rightarrow> Inl (Thrown ''Result deserializer has not been set'')
      | Some f \<Rightarrow> Inr (with_nd a (\<lambda>n. n\<lparr>nd_result := Any (f p)\<rparr>) h))"

definition node_get_result ::
    "addr \<Rightarrow> ('a, 'r, 'w) heap \<Rightarrow> (task_packet \<times> ('a, 'r, 'w) heap) res option" where
  "node_get_result a h =
     (case nd_result_serializer (nd h a) of
        None \<Rightarrow> Some (Inl (Thrown ''Result serializer has not been set''))
      | Some f \<Rightarrow> map_option (\<lambda>r. rbind r (\<lambda>(x, h1). Inr (f x, h1))) (get_any_result a h))"

end
