(* ===== verification/Node_Links.thy ===== *)
theory Node_Links
  imports Node_Core
begin

text \<open>
  What the operations of a node do to the shape of the tree and to the lives of the nodes: \<open>links_ok\<close>
  says that parents and children agree and that parents lead up to a node without parent, and
  \<open>same_lives\<close> that two heaps agree on which nodes exist and how far each has come.
\<close>

section \<open>What an operation leaves alone\<close>

definition same_lives :: "('a, 'r, 'w) heap \<Rightarrow> ('a, 'r, 'w) heap \<Rightarrow> bool" where
  "same_lives h h' \<longleftrightarrow> hp_count h' = hp_count h \<and> hp_policy h' = hp_policy h \<and> hp_pool h' = hp_pool h \<and>
     (\<forall>a. nd_state (nd h' a) = nd_state (nd h a))"

definition same_shape :: "('a, 'r, 'w) heap \<Rightarrow> ('a, 'r, 'w) heap \<Rightarrow> bool" where
  "same_shape h h' \<longleftrightarrow> hp_count h' = hp_count h \<and> hp_policy h' = hp_policy h \<and> hp_roots h' = hp_roots h \<and>
     (\<forall>a. nd_parent (nd h' a) = nd_parent (nd h a) \<and> nd_children (nd h' a) = nd_children (nd h a) \<and>
          nd_root (nd h' a) = nd_root (nd h a) \<and> nd_thread (nd h' a) = nd_thread (nd h a) \<and>
          nd_is_dummy (nd h' a) = nd_is_dummy (nd h a))"

lemma same_lives_refl [simp]: "same_lives h h"
  by (simp add: same_lives_def)

lemma same_lives_trans [trans]: "same_lives h h' \<Longrightarrow> same_lives h' h'' \<Longrightarrow> same_lives h h''"
  by (simp add: same_lives_def)

lemma same_shape_refl [simp]: "same_shape h h"
  by (simp add: same_shape_def)

lemma same_shape_trans [trans]: "same_shape h h' \<Longrightarrow> same_shape h' h'' \<Longrightarrow> same_shape h h''"
  by (simp add: same_shape_def)

lemma same_shapeD:
  assumes "same_shape h h'"
  shows "hp_count h' = hp_count h" "hp_roots h' = hp_roots h" "hp_policy h' = hp_policy h"
    "nd_parent (nd h' a) = nd_parent (nd h a)" "nd_children (nd h' a) = nd_children (nd h a)"
    "nd_root (nd h' a) = nd_root (nd h a)" "nd_is_dummy (nd h' a) = nd_is_dummy (nd h a)"
    "nd_thread (nd h' a) = nd_thread (nd h a)"
  using assms by (simp_all add: same_shape_def)

lemma with_nd_same_lives:
  "(\<And>n. nd_state (f n) = nd_state n) \<Longrightarrow> same_lives h (with_nd a f h)"
  by (simp add: same_lives_def with_nd_apply)

lemma with_nd_same_shape:
  "(\<And>n. nd_parent (f n) = nd_parent n \<and> nd_children (f n) = nd_children n \<and> nd_root (f n) = nd_root n \<and>
        nd_thread (f n) = nd_thread n \<and> nd_is_dummy (f n) = nd_is_dummy n) \<Longrightarrow> same_shape h (with_nd a f h)"
  by (simp add: same_shape_def with_nd_apply)

lemma with_nd_twice [simp]: "with_nd a f (with_nd a g h) = with_nd a (\<lambda>n. f (g n)) h"
  by (simp add: with_nd_def)

section \<open>Effects, in closed form\<close>

definition pruned :: "addr \<Rightarrow> ('a, 'r, 'w) heap \<Rightarrow> ('a, 'r, 'w) heap" where
  "pruned a h = with_nd a (\<lambda>n. n\<lparr>nd_root := None, nd_children := [], nd_parent := None\<rparr>)
     (case nd_parent (nd h a) of None \<Rightarrow> h | Some p \<Rightarrow> remove_child p a h)"

lemma prune_eq: "prune a h = Inr (pruned a h)"
proof -
  have id: "n\<lparr>nd_root := None, nd_children := [], nd_parent := None\<rparr> = n\<lparr>nd_root := None, nd_children := []\<rparr>"
    if "nd_parent n = None" for n :: "('a, 'b, 'c) nd"
    using that by (cases n) simp
  show ?thesis
  proof (cases "nd_parent (nd h a)")
    case None
    have "with_nd a (\<lambda>n. n\<lparr>nd_root := None, nd_children := [], nd_parent := None\<rparr>) h =
        with_nd a (\<lambda>n. n\<lparr>nd_root := None, nd_children := []\<rparr>) h"
      unfolding with_nd_def id [OF None] ..
    then show ?thesis using None by (simp add: prune_def pruned_def set_parent_def)
  next
    case (Some p)
    then show ?thesis
      by (cases "p = a") (simp_all add: prune_def pruned_def set_parent_def Let_def remove_child_def)
  qed
qed

lemma pruned_apply:
  "nd (pruned a h) b =
     (if b = a then (nd h a)\<lparr>nd_root := None, nd_children := [], nd_parent := None\<rparr>
      else if nd_parent (nd h a) = Some b then (nd h b)\<lparr>nd_children := removeAll a (nd_children (nd h b))\<rparr>
      else nd h b)"
  by (auto simp: pruned_def remove_child_def with_nd_apply split: option.split)

lemma pruned_sel [simp]:
  "hp_count (pruned a h) = hp_count h" "hp_roots (pruned a h) = hp_roots h" "hp_policy (pruned a h) = hp_policy h"
  "hp_world (pruned a h) = hp_world h" "hp_pool (pruned a h) = hp_pool h"
  by (simp_all add: pruned_def remove_child_def split: option.split)

lemma pruned_same_lives: "same_lives h (pruned a h)"
  by (simp add: same_lives_def pruned_apply)

text \<open>\<open>inner f\<close>: \<open>f\<close> changes neither the links of a node nor its state.\<close>

definition inner :: "(('a, 'r, 'w) nd \<Rightarrow> ('a, 'r, 'w) nd) \<Rightarrow> bool" where
  "inner f \<longleftrightarrow> (\<forall>n. nd_parent (f n) = nd_parent n \<and> nd_children (f n) = nd_children n \<and>
     nd_root (f n) = nd_root n \<and> nd_thread (f n) = nd_thread n \<and> nd_is_dummy (f n) = nd_is_dummy n \<and>
     nd_state (f n) = nd_state n)"

definition inner_change :: "addr \<Rightarrow> ('a, 'r, 'w) heap \<Rightarrow> ('a, 'r, 'w) heap \<Rightarrow> bool" where
  "inner_change a h h' \<longleftrightarrow> (\<exists>f w. inner f \<and> h' = with_nd a f (h\<lparr>hp_world := w\<rparr>))"

lemma inner_changeI: "inner f \<Longrightarrow> inner_change a h (with_nd a f (h\<lparr>hp_world := w\<rparr>))"
  by (auto simp: inner_change_def)

lemma world_same: "h\<lparr>hp_world := hp_world h\<rparr> = h"
  by simp

lemma same_world: "\<exists>w. h = h\<lparr>hp_world := w\<rparr>"
  by (rule exI [of _ "hp_world h"]) simp

lemma inner_changeI0: "inner f \<Longrightarrow> inner_change a h (with_nd a f h)"
  using inner_changeI [of f a h "hp_world h"] by (simp add: world_same)

lemma inner_change_refl: "inner_change a h h"
  using inner_changeI0 [of id a h] by (simp add: inner_def with_nd_def)

lemma inner_changeD:
  assumes "inner_change a h h'"
  shows "same_lives h h'" "same_shape h h'" "x \<noteq> a \<Longrightarrow> nd h' x = nd h x" "hp_pool h' = hp_pool h"
    "hp_submitted h' = hp_submitted h" "hp_futures h' = hp_futures h" "hp_has_worker h' = hp_has_worker h"
proof -
  obtain f w where f: "inner f" and h': "h' = with_nd a f (h\<lparr>hp_world := w\<rparr>)"
    using assms by (auto simp: inner_change_def)
  show "same_lives h h'" using f by (simp add: h' same_lives_def with_nd_apply inner_def)
  show "same_shape h h'" using f by (simp add: h' same_shape_def with_nd_apply inner_def)
  show "x \<noteq> a \<Longrightarrow> nd h' x = nd h x" by (simp add: h')
  show "hp_pool h' = hp_pool h" "hp_submitted h' = hp_submitted h" "hp_futures h' = hp_futures h"
    "hp_has_worker h' = hp_has_worker h" by (simp_all add: h')
qed

lemma call_initializer_Inr:
  "call_initializer a h = Inr (x, h1) \<Longrightarrow> \<exists>w. h1 = h\<lparr>hp_world := w\<rparr>"
  by (cases "nd_initializer (nd h a)") (auto simp: call_initializer_def case_prod_beta intro: same_world)

lemma should_branch_inner:
  assumes "should_branch a h = Inr (b, h')"
  shows "inner_change a h h' \<and> nd_should_branch_cached (nd h' a) = Some b"
proof (cases "nd_should_branch_cached (nd h a)")
  case (Some c)
  then show ?thesis using assms by (simp add: should_branch_def inner_change_refl)
next
  case None
  consider "nd_state (nd h a) \<in> {FORWARDED, PUSHED, DISCARDED}"
    | "nd_state (nd h a) \<notin> {FORWARDED, PUSHED, DISCARDED}" "nd_flag (nd h a) \<noteq> LAZY"
    | x h1 where "nd_state (nd h a) \<notin> {FORWARDED, PUSHED, DISCARDED}" "nd_flag (nd h a) = LAZY"
        "call_initializer a h = Inr (x, h1)"
    using assms None by (cases "call_initializer a h") (auto simp: should_branch_def split: if_splits)
  then show ?thesis
  proof cases
    case 1
    then have "(b, h') = (False, with_nd a (\<lambda>n. n\<lparr>nd_flag := INITIALIZED, nd_should_branch_cached := Some False\<rparr>) h)"
      using assms None by (simp add: should_branch_def)
    then show ?thesis by (auto simp: inner_def intro!: inner_changeI0)
  next
    case 2
    then have "(b, h') = (True, with_nd a (\<lambda>n. n\<lparr>nd_should_branch_cached := Some True\<rparr>) h)"
      using assms None by (simp add: should_branch_def)
    then show ?thesis by (auto simp: inner_def intro!: inner_changeI0)
  next
    case (3 x h1)
    obtain w where w: "h1 = h\<lparr>hp_world := w\<rparr>" using call_initializer_Inr [OF 3(3)] by blast
    show ?thesis
    proof (cases x)
      case None
      then have "(b, h') = (False, with_nd a (\<lambda>n. n\<lparr>nd_should_branch_cached := Some False, nd_flag := INITIALIZED\<rparr>) h1)"
        using assms 3 \<open>nd_should_branch_cached (nd h a) = None\<close> by (simp add: should_branch_def)
      then show ?thesis by (auto simp: inner_def w intro!: inner_changeI)
    next
      case (Some args)
      then have "(b, h') = (True, with_nd a (\<lambda>n. n\<lparr>nd_args := args, nd_flag := INITIALIZED,
          nd_should_branch_cached := Some True\<rparr>) h1)"
        using assms 3 \<open>nd_should_branch_cached (nd h a) = None\<close> by (simp add: should_branch_def)
      then show ?thesis by (auto simp: inner_def w intro!: inner_changeI)
    qed
  qed
qed

lemmas should_branch_frame = should_branch_inner [THEN conjunct1, THEN inner_changeD(1)]
  should_branch_inner [THEN conjunct1, THEN inner_changeD(2)]
  should_branch_inner [THEN conjunct1, THEN inner_changeD(3)]
  should_branch_inner [THEN conjunct1, THEN inner_changeD(4)]

lemma ensure_inner:
  assumes "ensure_args_initialized a h = Inr h'"
  shows "inner_change a h h'"
proof (cases "nd_flag (nd h a) = LAZY")
  case True
  then obtain args h1 where h1: "call_initializer a h = Inr (Some args, h1)"
    and h': "h' = with_nd a (\<lambda>n. n\<lparr>nd_args := args, nd_flag := INITIALIZED\<rparr>) h1"
    using assms by (auto simp: ensure_args_initialized_def split: option.splits)
  obtain w where w: "h1 = h\<lparr>hp_world := w\<rparr>" using call_initializer_Inr [OF h1] by blast
  show ?thesis unfolding h' w by (rule inner_changeI) (simp add: inner_def)
next
  case False
  then show ?thesis
    using assms by (cases "nd_flag (nd h a)") (auto simp: ensure_args_initialized_def inner_change_refl)
qed

lemma delegate_locally_frame:
  assumes "delegate_locally a h = Inr h'"
  shows "nd_state (nd h a) = UNUSED" "nd_state (nd h' a) = PUSHED" "same_shape h h'"
    "x \<noteq> a \<Longrightarrow> nd h' x = nd h x" "hp_pool h' = hp_pool h @ [(a, hp_submitted h)]"
proof -
  obtain h1 where h1: "ensure_args_initialized a h = Inr h1" and s: "nd_state (nd h a) = UNUSED"
    using assms by (auto simp: delegate_locally_def not_consumed_def split: if_splits)
  have h': "h' = with_nd a (\<lambda>n. n\<lparr>nd_result := Future (hp_submitted h1), nd_state := PUSHED\<rparr>) (snd (force_local_submit a h1))"
    using assms h1 s by (auto simp: delegate_locally_def not_consumed_def Let_def force_local_submit_def)
  note F = inner_changeD [OF ensure_inner [OF h1]]
  show "nd_state (nd h a) = UNUSED" by (rule s)
  show "nd_state (nd h' a) = PUSHED" by (simp add: h')
  show "same_shape h h'" using F(2) by (simp add: h' same_shape_def with_nd_apply)
  show "x \<noteq> a \<Longrightarrow> nd h' x = nd h x" using F(3) by (simp add: h')
  show "hp_pool h' = hp_pool h @ [(a, hp_submitted h)]" using F(4,5) by (simp add: h')
qed

lemma delegate_remotely_frame:
  assumes "delegate_remotely push fid a h = Inr h'"
  shows "nd_state (nd h a) = UNUSED" "nd_state (nd h' a) = SENT_TO_ANOTHER_PROCESS" "same_shape h h'"
    "x \<noteq> a \<Longrightarrow> nd h' x = nd h x" "hp_pool h' = hp_pool h"
proof -
  obtain h1 p d w where h1: "ensure_args_initialized a h = Inr h1" and s: "nd_state (nd h a) = UNUSED"
    and h': "h' = with_nd a (\<lambda>n. n\<lparr>nd_remote := d, nd_state := SENT_TO_ANOTHER_PROCESS\<rparr>) (h1\<lparr>hp_world := w\<rparr>)"
    using assms by (auto simp: delegate_remotely_def not_consumed_def split: if_splits)
  note F = inner_changeD [OF ensure_inner [OF h1]]
  show "nd_state (nd h a) = UNUSED" by (rule s)
  show "nd_state (nd h' a) = SENT_TO_ANOTHER_PROCESS" by (simp add: h')
  show "same_shape h h'" using F(2) by (simp add: h' same_shape_def with_nd_apply)
  show "x \<noteq> a \<Longrightarrow> nd h' x = nd h x" using F(3) by (simp add: h')
  show "hp_pool h' = hp_pool h" using F(4) by (simp add: h')
qed

lemma set_state_frame:
  "same_shape h (set_state s a h)" "nd_state (nd (set_state s a h) a) = s"
  "x \<noteq> a \<Longrightarrow> nd (set_state s a h) x = nd h x" "hp_pool (set_state s a h) = hp_pool h"
  by (auto simp: set_state_def same_shape_def with_nd_apply split: node_state.split)

section \<open>The tree\<close>

inductive rooted :: "('a, 'r, 'w) heap \<Rightarrow> addr \<Rightarrow> bool" for h where
  top: "nd_parent (nd h a) = None \<Longrightarrow> rooted h a"
| below: "nd_parent (nd h a) = Some p \<Longrightarrow> rooted h p \<Longrightarrow> rooted h a"

definition node_ok :: "('a, 'r, 'w) heap \<Rightarrow> addr \<Rightarrow> bool" where
  "node_ok h a \<longleftrightarrow> distinct (nd_children (nd h a)) \<and>
     (\<forall>c \<in> set (nd_children (nd h a)). valid h c \<and> nd_parent (nd h c) = Some a) \<and>
     (\<forall>p. nd_parent (nd h a) = Some p \<longrightarrow> valid h p \<and> a \<in> set (nd_children (nd h p))) \<and>
     (nd_is_dummy (nd h a) \<longrightarrow> nd_parent (nd h a) = None) \<and> rooted h a"

definition links_ok :: "('a, 'r, 'w) heap \<Rightarrow> bool" where
  "links_ok h \<longleftrightarrow> (\<forall>a. valid h a \<longrightarrow> node_ok h a) \<and> (\<forall>t a. hp_roots h t = Some a \<longrightarrow> valid h a)"

lemma links_okD:
  assumes "links_ok h"
  shows "valid h a \<Longrightarrow> distinct (nd_children (nd h a))"
    "valid h a \<Longrightarrow> c \<in> set (nd_children (nd h a)) \<Longrightarrow> valid h c \<and> nd_parent (nd h c) = Some a"
    "valid h a \<Longrightarrow> nd_parent (nd h a) = Some p \<Longrightarrow> valid h p \<and> a \<in> set (nd_children (nd h p))"
    "valid h a \<Longrightarrow> nd_is_dummy (nd h a) \<Longrightarrow> nd_parent (nd h a) = None"
    "valid h a \<Longrightarrow> rooted h a" "hp_roots h t = Some a \<Longrightarrow> valid h a"
  using assms unfolding links_ok_def node_ok_def by blast+

lemma rooted_cut:
  assumes "rooted h a" and cut: "\<And>x. nd_parent (nd h' x) = nd_parent (nd h x) \<or> nd_parent (nd h' x) = None"
  shows "rooted h' a"
  using assms(1)
proof induction
  case (top a)
  then show ?case using cut [of a] by (auto intro: rooted.top)
next
  case (below a p)
  then show ?case using cut [of a] by (auto intro: rooted.intros)
qed

lemma rooted_no_cycle: "rooted h a \<Longrightarrow> nd_parent (nd h a) \<noteq> Some a"
proof (induction rule: rooted.induct)
  case (below a p)
  then show ?case by auto
qed simp

lemma links_same_shape: "same_shape h h' \<Longrightarrow> links_ok h \<Longrightarrow> links_ok h'"
proof -
  assume s: "same_shape h h'" and l: "links_ok h"
  have "rooted h' a" if "rooted h a" for a
    by (rule rooted_cut [OF that]) (simp add: same_shapeD(4) [OF s])
  then show "links_ok h'"
    using l unfolding links_ok_def node_ok_def valid_def same_shapeD [OF s] by blast
qed

text \<open>Pruning a node without children takes it out of the tree.\<close>

lemma pruned_links:
  assumes l: "links_ok h" and c: "\<And>x. valid h x \<Longrightarrow> nd_parent (nd h x) \<noteq> Some a"
  shows "links_ok (pruned a h)"
  unfolding links_ok_def
proof (intro conjI allI impI)
  fix x assume "valid (pruned a h) x"
  then have x: "valid h x" by (simp add: valid_def)
  note L = links_okD [OF l]
  have r: "rooted (pruned a h) x"
    by (rule rooted_cut [OF L(5) [OF x]]) (auto simp: pruned_apply)
  show "node_ok (pruned a h) x"
    using L(1-4) [OF x] r c x
    by (auto simp: node_ok_def pruned_apply valid_def distinct_removeAll)
next
  fix t x assume "hp_roots (pruned a h) t = Some x"
  then show "valid (pruned a h) x" using links_okD(6) [OF l] by (simp add: valid_def)
qed

lemma no_children_no_parent:
  "links_ok h \<Longrightarrow> nd_children (nd h a) = [] \<Longrightarrow> valid h x \<Longrightarrow> nd_parent (nd h x) \<noteq> Some a"
  using links_okD(3) by fastforce

lemma prune_leaf_links: "links_ok h \<Longrightarrow> nd_children (nd h a) = [] \<Longrightarrow> links_ok (pruned a h)"
  using pruned_links no_children_no_parent by blast

end
