(* ===== verification/Load_Balancers.thy ===== *)
theory Load_Balancers
  imports Node_Links
begin

text \<open>
  The two load balancers (\<open>private/impl/load_balancing/quasi_horizontal_load_balancer.hpp\<close>,
  \<open>work_stealing_load_balancer.hpp\<close>) and the node handle they work with
  (\<open>include/gempba/core/node.hpp\<close>). What is outside a balancer is a parameter: whether its mutex could be
  locked, how many tasks the pool runs, whether the scheduler's channel opens, and the scheduler's
  \<open>force_push\<close>; each may change the world \<open>'w\<close>.
\<close>

record 'w outside =
  out_try_lock :: "'w \<Rightarrow> bool \<times> 'w"
  out_tasks_running :: "'w \<Rightarrow> 32 word \<times> 'w"
  out_try_open :: "'w \<Rightarrow> bool \<times> 'w"
  out_force_push :: "task_packet \<Rightarrow> int \<Rightarrow> 'w \<Rightarrow> (32 word \<times> 'w) res"

definition ask :: "('w \<Rightarrow> 'b \<times> 'w) \<Rightarrow> ('a, 'r, 'w) heap \<Rightarrow> 'b \<times> ('a, 'r, 'w) heap" where
  "ask f h = (let (x, w) = f (hp_world h) in (x, h\<lparr>hp_world := w\<rparr>))"

text \<open>A \<open>node\<close> handle may hold no node.\<close>

definition throw_if_null :: "ptr \<Rightarrow> addr res" where
  "throw_if_null p = (case p of None \<Rightarrow> Inl (Thrown ''Attempted to access a null node'') | Some a \<Rightarrow> Inr a)"

text \<open>Following a pointer to no node is undefined.\<close>

definition deref :: "('a, 'r, 'w) heap \<Rightarrow> addr \<Rightarrow> unit res" where
  "deref h a = (if valid h a then Inr () else Inl Undefined)"

definition is_thread_pool_full :: "'w outside \<Rightarrow> ('a, 'r, 'w) heap \<Rightarrow> bool \<times> ('a, 'r, 'w) heap" where
  "is_thread_pool_full out h = (let (k, h1) = ask (out_tasks_running out) h in (k = hp_thread_count h1, h1))"

definition already_consumed :: "('a, 'r, 'w) nd \<Rightarrow> fault" where
  "already_consumed n = Thrown (''Node: '' @ show_id n @ '' is already consumed'')"

text \<open>The two ways to hand a node over, and the end of both: a node not worth it is discarded.\<close>

definition submit_or_discard ::
    "(addr \<Rightarrow> ('a, 'r, 'w) heap \<Rightarrow> ('a, 'r, 'w) heap res) \<Rightarrow> addr \<Rightarrow> ('a, 'r, 'w) heap \<Rightarrow> ('a, 'r, 'w) heap res" where
  "submit_or_discard delegate a h =
     rbind (should_branch a h) (\<lambda>(b, h1). if b then delegate a h1 else Inr (set_state DISCARDED a h1))"

section \<open>The root of the tree\<close>

definition make_root :: "addr \<Rightarrow> ('a, 'r, 'w) heap \<Rightarrow> ('a, 'r, 'w) heap res" where
  "make_root a h = set_parent a None (set_root (nd_thread (nd h a)) a h)"

text \<open>\<open>with_kids h\<close>: how many nodes have children.\<close>

definition with_kids :: "('a, 'r, 'w) heap \<Rightarrow> nat" where
  "with_kids h = card {a. valid h a \<and> nd_children (nd h a) \<noteq> []}"

definition unrooted :: "addr \<Rightarrow> addr \<Rightarrow> ('a, 'r, 'w) heap \<Rightarrow> ('a, 'r, 'w) heap" where
  "unrooted r c h = pruned r (with_nd c (\<lambda>n. n\<lparr>nd_parent := None\<rparr>) (set_root (nd_thread (nd h c)) c h))"

lemma with_nd_id: "f (nd h a) = nd h a \<Longrightarrow> with_nd a f h = h"
  by (simp add: with_nd_def fun_upd_idem)

lemma make_root_eq:
  "make_root c h = Inr (with_nd c (\<lambda>n. n\<lparr>nd_parent := None\<rparr>) (set_root (nd_thread (nd h c)) c h))"
proof (cases "nd_parent (nd h c)")
  case None
  have "(nd h c)\<lparr>nd_parent := None\<rparr> = nd h c" using None by (cases "nd h c") simp
  then have "with_nd c (\<lambda>n. n\<lparr>nd_parent := None\<rparr>) (set_root (nd_thread (nd h c)) c h) = set_root (nd_thread (nd h c)) c h"
    by (intro with_nd_id) simp
  then show ?thesis using None by (simp add: make_root_def set_parent_def)
qed (simp add: make_root_def set_parent_def)

lemma lower_eq: "rbind (make_root c h) (prune r) = Inr (unrooted r c h)"
  by (simp add: make_root_eq prune_eq unrooted_def)

lemma unrooted_sel [simp]: "hp_count (unrooted r c h) = hp_count h" "hp_policy (unrooted r c h) = hp_policy h"
  "hp_pool (unrooted r c h) = hp_pool h" "hp_world (unrooted r c h) = hp_world h"
  by (simp_all add: unrooted_def)

lemma unrooted_children:
  "nd_children (nd (unrooted r c h) r) = []"
  "nd_children (nd (unrooted r c h) x) \<noteq> [] \<Longrightarrow> nd_children (nd h x) \<noteq> []"
  by (auto simp: unrooted_def pruned_apply with_nd_apply split: if_splits)

lemma with_kids_finite [simp]: "finite {a. valid h a \<and> nd_children (nd h a) \<noteq> []}"
  by (rule finite_subset [of _ "{..<hp_count h}"]) (auto simp: valid_def)

lemma with_kids_less:
  assumes "valid h r" and "nd_children (nd h r) \<noteq> []"
  shows "with_kids (unrooted r c h) < with_kids h"
  unfolding with_kids_def
proof (rule psubset_card_mono)
  show "{a. valid (unrooted r c h) a \<and> nd_children (nd (unrooted r c h) a) \<noteq> []} \<subset> {a. valid h a \<and> nd_children (nd h a) \<noteq> []}"
    using assms unrooted_children(2) [of r c h] unrooted_children(1) [of r c h] by (auto simp: valid_def)
qed simp

text \<open>The loop of \<open>try_correct_root\<close>, for the node \<open>a\<close> and the root \<open>r\<close>.\<close>

function lower_root :: "addr \<Rightarrow> addr \<Rightarrow> ('a, 'r, 'w) heap \<Rightarrow> ('a, 'r, 'w) heap res" where
  "lower_root a r h =
     rbind (deref h r) (\<lambda>_.
       if get_children_count r h \<noteq> 1 then Inr h
       else let c = hd (nd_children (nd h r))
            in rbind (rbind (make_root c h) (prune r)) (\<lambda>h1.
                 if c = a \<or> 2 \<le> get_children_count c h1 then Inr h1 else lower_root a c h1))"
  by pat_completeness auto
termination
proof (relation "measure (\<lambda>(a, r, h). with_kids h)", goal_cases)
  case (2 a r h u c h1)
  have "valid h r" using 2(1) by (simp add: deref_def split: if_splits)
  moreover have "nd_children (nd h r) \<noteq> []" using 2(2) by (auto simp: get_children_count_def)
  moreover have "h1 = unrooted r c h" using 2(4) unfolding lower_eq by simp
  ultimately show ?case using with_kids_less by simp
qed simp

declare lower_root.simps [simp del]

definition try_correct_root :: "ptr \<Rightarrow> ('a, 'r, 'w) heap \<Rightarrow> ('a, 'r, 'w) heap res" where
  "try_correct_root p h =
     rbind (throw_if_null p) (\<lambda>a.
       case get_root a h of
         None \<Rightarrow> Inr h
       | Some r \<Rightarrow>
           if r = a \<and> get_children_count r h = 0 then Inr h
           else if 2 \<le> get_children_count r h then Inr h
           else lower_root a r h)"

definition prune_and_correct_root_after_forward :: "addr \<Rightarrow> ('a, 'r, 'w) heap \<Rightarrow> ('a, 'r, 'w) heap res" where
  "prune_and_correct_root_after_forward a h =
     (case nd_parent (nd h a) of
        None \<Rightarrow> prune a h
      | Some p \<Rightarrow> rbind (prune a h) (try_correct_root (Some p)))"

definition prune_and_fix_parent_root_if_needed :: "addr \<Rightarrow> ('a, 'r, 'w) heap \<Rightarrow> ('a, 'r, 'w) heap res" where
  "prune_and_fix_parent_root_if_needed a h =
     (if get_root a h = Some a \<and> get_children_count a h = 0 then Inr h
      else rbind (prune a h) (try_correct_root (nd_parent (nd h a))))"

definition get_root_level_pending_node :: "addr \<Rightarrow> ('a, 'r, 'w) heap \<Rightarrow> (ptr \<times> ('a, 'r, 'w) heap) res" where
  "get_root_level_pending_node a h =
     (if nd_parent (nd h a) = None then Inr (None, h)
      else if nd_parent (nd h a) = get_root a h then Inr (None, h)
      else case get_root a h of
             None \<Rightarrow> Inr (None, h)
           | Some r \<Rightarrow>
               if get_children_count r h < 2 then Inr (None, h)
               else rbind (get_second_leftmost_child r h) (\<lambda>c. rbind (deref h c) (\<lambda>_.
                      rbind (prune c h) (\<lambda>h1. Inr (Some c, h1)))))"

section \<open>The quasi-horizontal balancer\<close>

definition qh_forward :: "('a, 'r, 'w) invoke \<Rightarrow> thread \<Rightarrow> addr \<Rightarrow> ('a, 'r, 'w) heap \<Rightarrow> ('a, 'r, 'w) heap res" where
  "qh_forward user me a h =
     rbind (if nd_state (nd h a) = UNUSED
            then rbind (should_branch a h) (\<lambda>(b, h1). if b then run_node user me a h1 else Inr h1)
            else Inr h)
       (prune_and_correct_root_after_forward a)"

text \<open>\<open>try_push_root_level_node_locally\<close> and \<open>try_push_root_level_node_remotely\<close>, which differ in \<open>delegate\<close>.\<close>

definition try_push_root_level_node ::
    "(addr \<Rightarrow> ('a, 'r, 'w) heap \<Rightarrow> ('a, 'r, 'w) heap res) \<Rightarrow> addr \<Rightarrow> ('a, 'r, 'w) heap \<Rightarrow>
     (bool \<times> ('a, 'r, 'w) heap) res" where
  "try_push_root_level_node delegate a h =
     rbind (get_root_level_pending_node a h) (\<lambda>(p, h1).
       case p of
         None \<Rightarrow> Inr (False, h1)
       | Some c \<Rightarrow>
           if is_consumed c h1 then Inl (Thrown ''Attempt to push a consumed node'')
           else rbind (try_correct_root (Some a) h1) (\<lambda>h2.
                rbind (submit_or_discard delegate c h2) (\<lambda>h3. Inr (True, h3))))"

text \<open>The end of both \<open>send\<close> functions, for the node itself.\<close>

definition send_node_itself ::
    "(addr \<Rightarrow> ('a, 'r, 'w) heap \<Rightarrow> ('a, 'r, 'w) heap res) \<Rightarrow> addr \<Rightarrow> ('a, 'r, 'w) heap \<Rightarrow>
     (bool \<times> ('a, 'r, 'w) heap) res" where
  "send_node_itself delegate a h =
     (if is_consumed a h then Inl (already_consumed (nd h a))
      else rbind (prune_and_fix_parent_root_if_needed a h) (\<lambda>h1.
           rbind (submit_or_discard delegate a h1) (\<lambda>h2. Inr (True, h2))))"

definition unused :: "('a, 'r, 'w) heap \<Rightarrow> nat" where
  "unused h = card {a. valid h a \<and> nd_state (nd h a) = UNUSED}"

section \<open>Every step keeps the lives of the nodes\<close>

lemma unrooted_same_lives: "same_lives h (unrooted r c h)"
proof -
  have "same_lives h (with_nd c (\<lambda>n. n\<lparr>nd_parent := None\<rparr>) (set_root (nd_thread (nd h c)) c h))"
    by (simp add: same_lives_def with_nd_apply)
  then show ?thesis unfolding unrooted_def by (rule same_lives_trans [OF _ pruned_same_lives])
qed

lemma lower_root_same_lives: "lower_root a r h = Inr h' \<Longrightarrow> same_lives h h'"
proof (induction a r h rule: lower_root.induct)
  case (1 a r h)
  have v: "deref h r = Inr ()" using "1.prems" by (cases "deref h r") (simp_all add: lower_root.simps)
  show ?case
  proof (cases "get_children_count r h = 1")
    case False
    then show ?thesis using "1.prems" v by (simp add: lower_root.simps)
  next
    case True
    let ?c = "hd (nd_children (nd h r))"
    let ?h1 = "unrooted r ?c h"
    note u = unrooted_same_lives [of h r ?c]
    show ?thesis
    proof (cases "?c = a \<or> 2 \<le> get_children_count ?c ?h1")
      case s: True
      then have "h' = ?h1"
        using "1.prems" v True unfolding lower_root.simps [of a r h] Let_def lower_eq by simp
      then show ?thesis using u by simp
    next
      case s: False
      then have "lower_root a ?c ?h1 = Inr h'"
        using "1.prems" v True unfolding lower_root.simps [of a r h] Let_def lower_eq by simp
      then have "same_lives ?h1 h'" using "1.IH" [OF v _ refl lower_eq] True s by simp
      then show ?thesis by (rule same_lives_trans [OF u])
    qed
  qed
qed

lemma try_correct_root_same_lives: "try_correct_root p h = Inr h' \<Longrightarrow> same_lives h h'"
  by (auto simp: try_correct_root_def split: option.splits if_splits dest: lower_root_same_lives)

lemma prune_and_fix_same_lives: "prune_and_fix_parent_root_if_needed a h = Inr h' \<Longrightarrow> same_lives h h'"
  using same_lives_trans [OF pruned_same_lives [of h a] try_correct_root_same_lives]
  by (auto simp: prune_and_fix_parent_root_if_needed_def prune_eq split: if_splits)

lemma pending_node_same_lives: "get_root_level_pending_node a h = Inr (p, h') \<Longrightarrow> same_lives h h'"
  using pruned_same_lives [of h]
  by (auto simp: get_root_level_pending_node_def prune_eq split: option.splits if_splits)

text \<open>What both ways of delegating guarantee.\<close>

definition delegates :: "(addr \<Rightarrow> ('a, 'r, 'w) heap \<Rightarrow> ('a, 'r, 'w) heap res) \<Rightarrow> bool" where
  "delegates d \<longleftrightarrow> (\<forall>a h h'. d a h = Inr h' \<longrightarrow>
     nd_state (nd h a) = UNUSED \<and> nd_state (nd h' a) \<noteq> UNUSED \<and> same_shape h h' \<and>
     (\<forall>x. x \<noteq> a \<longrightarrow> nd h' x = nd h x))"

lemma delegates_locally: "delegates delegate_locally"
  using delegate_locally_frame unfolding delegates_def by (metis node_state.distinct(3))

lemma delegates_remotely: "delegates (delegate_remotely push fid)"
  using delegate_remotely_frame unfolding delegates_def by (metis node_state.distinct(9))

lemma submit_or_discard_frame:
  assumes d: "delegates d" and s: "submit_or_discard d a h = Inr h'"
  shows "same_shape h h'" "nd_state (nd h' a) \<noteq> UNUSED" "x \<noteq> a \<Longrightarrow> nd h' x = nd h x"
proof -
  obtain b h1 where b: "should_branch a h = Inr (b, h1)"
    and h': "(if b then d a h1 else Inr (set_state DISCARDED a h1)) = Inr h'"
    using s by (auto simp: submit_or_discard_def)
  note B = should_branch_frame [OF b]
  have D: "same_shape h1 h' \<and> nd_state (nd h' a) \<noteq> UNUSED \<and> (\<forall>x. x \<noteq> a \<longrightarrow> nd h' x = nd h1 x)"
  proof (cases b)
    case True
    then show ?thesis using d h' unfolding delegates_def by simp
  next
    case False
    then have "h' = set_state DISCARDED a h1" using h' by simp
    then show ?thesis by (simp add: set_state_frame)
  qed
  then show "same_shape h h'" using same_shape_trans [OF B(2)] by blast
  show "nd_state (nd h' a) \<noteq> UNUSED" using D by blast
  show "nd h' x = nd h x" if "x \<noteq> a" using D B(3) that by metis
qed

end
