(* ===== verification/Balancer_Send.thy ===== *)
theory Balancer_Send
  imports Load_Balancers
begin

text \<open>
  The \<open>send\<close> functions of both load balancers and the operations users call. The loops of the
  quasi-horizontal balancer end because every round consumes a node of the root's level.
\<close>

lemma unused_finite [simp]: "finite {a. valid h a \<and> nd_state (nd h a) = UNUSED}"
  by (rule finite_subset [of _ "{..<hp_count h}"]) (auto simp: valid_def)

lemma unused_world [simp]: "unused (h\<lparr>hp_world := w\<rparr>) = unused h"
  "unused (h\<lparr>hp_pool_full_rejected := k\<rparr>) = unused h" "unused (h\<lparr>hp_remote_rejected := k\<rparr>) = unused h"
  by (simp_all add: unused_def valid_def)

lemma ask_world: "ask f h = (x, h1) \<Longrightarrow> \<exists>w. h1 = h\<lparr>hp_world := w\<rparr>"
  by (auto simp: ask_def case_prod_beta)

lemma pool_full_world: "is_thread_pool_full out h = (x, h1) \<Longrightarrow> \<exists>w. h1 = h\<lparr>hp_world := w\<rparr>"
  using ask_world [of "out_tasks_running out" h]
  by (cases "ask (out_tasks_running out) h") (auto simp: is_thread_pool_full_def)

lemma pending_node_valid:
  "get_root_level_pending_node a h = Inr (Some c, h') \<Longrightarrow> valid h c \<and> h' = pruned c h \<and>
     (\<exists>r. get_root a h = Some r \<and> nd_parent (nd h a) \<noteq> Some r \<and> nd_parent (nd h a) \<noteq> None \<and>
        2 \<le> length (nd_children (nd h r)) \<and> c = nd_children (nd h r) ! 1)"
  by (auto simp: get_root_level_pending_node_def prune_eq deref_def get_children_count_def
      get_second_leftmost_child_def split: option.splits if_splits list.splits)

lemma try_push_frame:
  assumes d: "delegates d" and t: "try_push_root_level_node d a h = Inr (True, h')"
  obtains c where "valid h c" "nd_state (nd h c) = UNUSED" "nd_state (nd h' c) \<noteq> UNUSED"
    "hp_count h' = hp_count h" "\<And>x. x \<noteq> c \<Longrightarrow> nd_state (nd h' x) = nd_state (nd h x)"
    "\<exists>r. get_root a h = Some r \<and> nd_parent (nd h a) \<noteq> Some r \<and> nd_parent (nd h a) \<noteq> None \<and>
        2 \<le> length (nd_children (nd h r)) \<and> c = nd_children (nd h r) ! 1"
proof -
  obtain c h1 h2 where c: "get_root_level_pending_node a h = Inr (Some c, h1)"
    and u: "\<not> is_consumed c h1" and h2: "try_correct_root (Some a) h1 = Inr h2"
    and h3: "submit_or_discard d c h2 = Inr h'"
    using t by (auto simp: try_push_root_level_node_def split: option.splits if_splits)
  note l1 = pending_node_same_lives [OF c]
  note l2 = same_lives_trans [OF l1 try_correct_root_same_lives [OF h2]]
  note S = submit_or_discard_frame [OF d h3]
  show ?thesis
  proof (rule that [of c])
    show "valid h c" using pending_node_valid [OF c] by blast
    show "nd_state (nd h c) = UNUSED" using u l1 by (simp add: is_consumed_def same_lives_def)
    show "nd_state (nd h' c) \<noteq> UNUSED" by (rule S(2))
    show "hp_count h' = hp_count h" using same_shapeD(1) [OF S(1)] l2 by (simp add: same_lives_def)
    show "nd_state (nd h' x) = nd_state (nd h x)" if "x \<noteq> c" for x
      using S(3) [OF that] l2 by (simp add: same_lives_def)
    show "\<exists>r. get_root a h = Some r \<and> nd_parent (nd h a) \<noteq> Some r \<and> nd_parent (nd h a) \<noteq> None \<and>
        2 \<le> length (nd_children (nd h r)) \<and> c = nd_children (nd h r) ! 1"
      using pending_node_valid [OF c] by blast
  qed
qed

lemma try_push_unused:
  assumes d: "delegates d" and t: "try_push_root_level_node d a h = Inr (True, h')"
  shows "unused h' < unused h"
proof -
  obtain c where c: "valid h c" "nd_state (nd h c) = UNUSED" "nd_state (nd h' c) \<noteq> UNUSED"
    "hp_count h' = hp_count h" "\<And>x. x \<noteq> c \<Longrightarrow> nd_state (nd h' x) = nd_state (nd h x)"
    using try_push_frame [OF d t] by metis
  have "{x. valid h' x \<and> nd_state (nd h' x) = UNUSED} \<subset> {x. valid h x \<and> nd_state (nd h x) = UNUSED}"
    using c by (auto simp: valid_def) metis
  then show ?thesis unfolding unused_def by (rule psubset_card_mono [OF unused_finite])
qed

section \<open>The quasi-horizontal balancer\<close>

function qh_send_locally ::
    "'w outside \<Rightarrow> addr \<Rightarrow> ('a, 'r, 'w) heap \<Rightarrow> (bool \<times> ('a, 'r, 'w) heap) res" where
  "qh_send_locally out a h =
     (let (owns, h1) = ask (out_try_lock out) h
      in if \<not> owns then Inr (False, h1)
         else let (full, h2) = is_thread_pool_full out h1
              in if full then Inr (False, h2\<lparr>hp_pool_full_rejected := hp_pool_full_rejected h2 + 1\<rparr>)
                 else rbind (try_push_root_level_node delegate_locally a h2) (\<lambda>(found, h3).
                        if found then qh_send_locally out a h3
                        else send_node_itself delegate_locally a h3))"
  by pat_completeness auto
termination
proof (relation "measure (\<lambda>(out, a, h). unused h)", goal_cases)
  case (2 out a h x owns h1 y full h2 z found h3)
  obtain w where "h1 = h\<lparr>hp_world := w\<rparr>" using 2(1,2) ask_world [of "out_try_lock out" h] by metis
  moreover obtain v where "h2 = h1\<lparr>hp_world := v\<rparr>"
    using 2(4,5) pool_full_world [of out h1] by metis
  ultimately have "unused h2 = unused h" by simp
  then show ?case using try_push_unused [OF delegates_locally, of a h2 h3] 2(7-9) by simp
qed simp

declare qh_send_locally.simps [simp del]

function qh_send_remotely ::
    "'w outside \<Rightarrow> addr \<Rightarrow> int \<Rightarrow> ('a, 'r, 'w) heap \<Rightarrow> (bool \<times> ('a, 'r, 'w) heap) res" where
  "qh_send_remotely out a fid h =
     (let (owns, h1) = ask (out_try_lock out) h
      in if \<not> owns then Inr (False, h1)
         else let (opened, h2) = ask (out_try_open out) h1
              in if \<not> opened then Inr (False, h2\<lparr>hp_remote_rejected := hp_remote_rejected h2 + 1\<rparr>)
                 else rbind (try_push_root_level_node (delegate_remotely (out_force_push out) fid) a h2) (\<lambda>(found, h3).
                        if found then qh_send_remotely out a fid h3
                        else send_node_itself (delegate_remotely (out_force_push out) fid) a h3))"
  by pat_completeness auto
termination
proof (relation "measure (\<lambda>(out, a, fid, h). unused h)", goal_cases)
  case (2 out a fid h x owns h1 y opened h2 z found h3)
  obtain w where "h1 = h\<lparr>hp_world := w\<rparr>" using 2(1,2) ask_world [of "out_try_lock out" h] by metis
  moreover obtain v where "h2 = h1\<lparr>hp_world := v\<rparr>" using 2(4,5) ask_world [of "out_try_open out" h1] by metis
  ultimately have "unused h2 = unused h" by simp
  then show ?case using try_push_unused [OF delegates_remotely, of "out_force_push out" fid a h2 h3] 2(7-9) by simp
qed simp

declare qh_send_remotely.simps [simp del]

definition qh_try_local_submit ::
    "'w outside \<Rightarrow> ('a, 'r, 'w) invoke \<Rightarrow> thread \<Rightarrow> addr \<Rightarrow> ('a, 'r, 'w) heap \<Rightarrow> (bool \<times> ('a, 'r, 'w) heap) res" where
  "qh_try_local_submit out user me a h =
     rbind (qh_send_locally out a h) (\<lambda>(sent, h1).
       if sent then Inr (True, h1) else rbind (qh_forward user me a h1) (\<lambda>h2. Inr (False, h2)))"

definition no_worker :: fault where
  "no_worker = Thrown ''Attempted to do remote submission without a scheduler worker''"

definition qh_try_remote_submit ::
    "'w outside \<Rightarrow> ('a, 'r, 'w) invoke \<Rightarrow> thread \<Rightarrow> addr \<Rightarrow> int \<Rightarrow> ('a, 'r, 'w) heap \<Rightarrow>
     (bool \<times> ('a, 'r, 'w) heap) res" where
  "qh_try_remote_submit out user me a fid h =
     (if \<not> hp_has_worker h then Inl no_worker
      else rbind (qh_send_remotely out a fid h) (\<lambda>(sent, h1).
        if sent then Inr (True, h1)
        else rbind (qh_try_local_submit out user me a h1) (\<lambda>(_, h2). Inr (False, h2))))"

section \<open>The work-stealing balancer\<close>

definition ws_forward :: "('a, 'r, 'w) invoke \<Rightarrow> thread \<Rightarrow> addr \<Rightarrow> ('a, 'r, 'w) heap \<Rightarrow> ('a, 'r, 'w) heap res" where
  "ws_forward user me a h =
     rbind (if nd_state (nd h a) = UNUSED
            then rbind (should_branch a h) (\<lambda>(b, h1). if b then run_node user me a h1 else Inr h1)
            else Inr h)
       (prune a)"

definition ws_send_node ::
    "(addr \<Rightarrow> ('a, 'r, 'w) heap \<Rightarrow> ('a, 'r, 'w) heap res) \<Rightarrow> addr \<Rightarrow> ('a, 'r, 'w) heap \<Rightarrow>
     (bool \<times> ('a, 'r, 'w) heap) res" where
  "ws_send_node delegate a h =
     (if is_consumed a h then Inl (already_consumed (nd h a))
      else rbind (prune a h) (\<lambda>h1. rbind (submit_or_discard delegate a h1) (\<lambda>h2. Inr (True, h2))))"

definition ws_send_locally ::
    "'w outside \<Rightarrow> addr \<Rightarrow> ('a, 'r, 'w) heap \<Rightarrow> (bool \<times> ('a, 'r, 'w) heap) res" where
  "ws_send_locally out a h =
     (let (owns, h1) = ask (out_try_lock out) h
      in if \<not> owns then Inr (False, h1)
         else let (full, h2) = is_thread_pool_full out h1
              in if full then Inr (False, h2\<lparr>hp_pool_full_rejected := hp_pool_full_rejected h2 + 1\<rparr>)
                 else ws_send_node delegate_locally a h2)"

definition ws_send_remotely ::
    "'w outside \<Rightarrow> addr \<Rightarrow> int \<Rightarrow> ('a, 'r, 'w) heap \<Rightarrow> (bool \<times> ('a, 'r, 'w) heap) res" where
  "ws_send_remotely out a fid h =
     (let (owns, h1) = ask (out_try_lock out) h
      in if \<not> owns then Inr (False, h1)
         else let (opened, h2) = ask (out_try_open out) h1
              in if \<not> opened then Inr (False, h2\<lparr>hp_remote_rejected := hp_remote_rejected h2 + 1\<rparr>)
                 else ws_send_node (delegate_remotely (out_force_push out) fid) a h2)"

definition ws_try_local_submit ::
    "'w outside \<Rightarrow> ('a, 'r, 'w) invoke \<Rightarrow> thread \<Rightarrow> addr \<Rightarrow> ('a, 'r, 'w) heap \<Rightarrow> (bool \<times> ('a, 'r, 'w) heap) res" where
  "ws_try_local_submit out user me a h =
     rbind (ws_send_locally out a h) (\<lambda>(sent, h1).
       if sent then Inr (True, h1) else rbind (ws_forward user me a h1) (\<lambda>h2. Inr (False, h2)))"

definition ws_try_remote_submit ::
    "'w outside \<Rightarrow> ('a, 'r, 'w) invoke \<Rightarrow> thread \<Rightarrow> addr \<Rightarrow> int \<Rightarrow> ('a, 'r, 'w) heap \<Rightarrow>
     (bool \<times> ('a, 'r, 'w) heap) res" where
  "ws_try_remote_submit out user me a fid h =
     (if \<not> hp_has_worker h then Inl no_worker
      else rbind (ws_send_remotely out a fid h) (\<lambda>(sent, h1).
        if sent then Inr (True, h1)
        else rbind (ws_try_local_submit out user me a h1) (\<lambda>(_, h2). Inr (False, h2))))"

end
