(* ===== verification/Balancer_Lives.thy ===== *)
theory Balancer_Lives
  imports Balancer_Send
begin

text \<open>
  What the load balancers guarantee about the life of a node: it is looked at once by its initializer,
  and handed over at most once. \<open>handed h h'\<close> says what a number of local submissions did: the pool got
  the nodes \<open>ns\<close>, each of them unused before and pushed after; every other node kept its state or was
  discarded unused.
\<close>

definition handed :: "('a, 'r, 'w) heap \<Rightarrow> ('a, 'r, 'w) heap \<Rightarrow> bool" where
  "handed h h' \<longleftrightarrow> (\<exists>ns ks. hp_pool h' = hp_pool h @ zip ns ks \<and> length ks = length ns \<and> distinct ns \<and>
     (\<forall>n \<in> set ns. nd_state (nd h n) = UNUSED \<and> nd_state (nd h' n) = PUSHED) \<and>
     (\<forall>x. x \<notin> set ns \<longrightarrow> nd_state (nd h' x) = nd_state (nd h x) \<or>
        nd_state (nd h x) = UNUSED \<and> nd_state (nd h' x) = DISCARDED))"

lemma handed_same: "same_lives h h' \<Longrightarrow> handed h h'"
  unfolding handed_def same_lives_def by (intro exI [of _ "[]"]) simp

lemma handed_trans [trans]:
  assumes "handed h h1" and "handed h1 h2"
  shows "handed h h2"
proof -
  obtain ns ks where 1: "hp_pool h1 = hp_pool h @ zip ns ks" "length ks = length ns" "distinct ns"
    "\<And>n. n \<in> set ns \<Longrightarrow> nd_state (nd h n) = UNUSED \<and> nd_state (nd h1 n) = PUSHED"
    "\<And>x. x \<notin> set ns \<Longrightarrow> nd_state (nd h1 x) = nd_state (nd h x) \<or>
        nd_state (nd h x) = UNUSED \<and> nd_state (nd h1 x) = DISCARDED"
    using assms(1) unfolding handed_def by blast
  obtain ms js where 2: "hp_pool h2 = hp_pool h1 @ zip ms js" "length js = length ms" "distinct ms"
    "\<And>n. n \<in> set ms \<Longrightarrow> nd_state (nd h1 n) = UNUSED \<and> nd_state (nd h2 n) = PUSHED"
    "\<And>x. x \<notin> set ms \<Longrightarrow> nd_state (nd h2 x) = nd_state (nd h1 x) \<or>
        nd_state (nd h1 x) = UNUSED \<and> nd_state (nd h2 x) = DISCARDED"
    using assms(2) unfolding handed_def by blast
  have disj: "set ns \<inter> set ms = {}" using 1(4) 2(4) by fastforce
  have new: "nd_state (nd h n) = UNUSED \<and> nd_state (nd h2 n) = PUSHED" if "n \<in> set (ns @ ms)" for n
  proof (cases "n \<in> set ns")
    case True
    then have "n \<notin> set ms" using disj by blast
    then show ?thesis using 1(4) [OF True] 2(5) [of n] by auto
  next
    case False
    then have "n \<in> set ms" using that by simp
    then show ?thesis using 2(4) 1(5) [OF False] by auto
  qed
  have old: "nd_state (nd h2 x) = nd_state (nd h x) \<or> nd_state (nd h x) = UNUSED \<and> nd_state (nd h2 x) = DISCARDED"
    if "x \<notin> set (ns @ ms)" for x
    using 1(5) [of x] 2(5) [of x] that by auto
  have "hp_pool h2 = hp_pool h @ zip (ns @ ms) (ks @ js)" using 1(1,2) 2(1) by simp
  then show ?thesis
    unfolding handed_def using 1(2,3) 2(2,3) disj new old
    by (intro exI [of _ "ns @ ms"] exI [of _ "ks @ js"]) simp
qed

lemma handed_submit:
  assumes "submit_or_discard delegate_locally a h = Inr h'" and "nd_state (nd h a) = UNUSED"
  shows "handed h h' \<and> nd_state (nd h' a) \<in> {PUSHED, DISCARDED}"
proof -
  obtain b h1 where b: "should_branch a h = Inr (b, h1)"
    and h': "(if b then delegate_locally a h1 else Inr (set_state DISCARDED a h1)) = Inr h'"
    using assms(1) by (auto simp: submit_or_discard_def)
  note B = should_branch_frame [OF b]
  have "handed h1 h' \<and> nd_state (nd h' a) \<in> {PUSHED, DISCARDED}"
  proof (cases b)
    case True
    then have d: "delegate_locally a h1 = Inr h'" using h' by simp
    note D = delegate_locally_frame [OF d]
    have "handed h1 h'"
      unfolding handed_def using D by (intro exI [of _ "[a]"] exI [of _ "[hp_submitted h1]"]) auto
    then show ?thesis using D(2) by simp
  next
    case False
    then have h': "h' = set_state DISCARDED a h1" using h' by simp
    have u: "nd_state (nd h1 a) = UNUSED" using B(1) assms(2) by (simp add: same_lives_def)
    have "nd_state (nd h' x) = nd_state (nd h1 x) \<or> nd_state (nd h1 x) = UNUSED \<and> nd_state (nd h' x) = DISCARDED" for x
      using u set_state_frame(2) [of DISCARDED a h1] set_state_frame(3) [of x a DISCARDED h1]
      unfolding h' by (cases "x = a") simp_all
    then have "handed h1 h'"
      unfolding handed_def h' by (intro exI [of _ "[]"]) (simp add: set_state_frame)
    then show ?thesis by (simp add: h' set_state_frame)
  qed
  then show ?thesis using handed_trans [OF handed_same [OF B(1)]] by blast
qed

lemma handed_push:
  assumes "try_push_root_level_node delegate_locally a h = Inr (b, h')"
  shows "handed h h'"
proof -
  obtain p h1 where p: "get_root_level_pending_node a h = Inr (p, h1)"
    using assms by (auto simp: try_push_root_level_node_def)
  note l = pending_node_same_lives [OF p]
  show ?thesis
  proof (cases p)
    case None
    then show ?thesis using assms p handed_same [OF l] by (simp add: try_push_root_level_node_def)
  next
    case (Some c)
    obtain h2 where u: "\<not> is_consumed c h1" and h2: "try_correct_root (Some a) h1 = Inr h2"
      and s: "submit_or_discard delegate_locally c h2 = Inr h'"
      using assms p Some by (auto simp: try_push_root_level_node_def split: if_splits)
    note l2 = try_correct_root_same_lives [OF h2]
    have "nd_state (nd h2 c) = UNUSED" using u l2 by (simp add: is_consumed_def same_lives_def)
    then have "handed h2 h'" using handed_submit [OF s] by blast
    then show ?thesis by (rule handed_trans [OF handed_same [OF same_lives_trans [OF l l2]]])
  qed
qed

lemma handed_itself:
  assumes "send_node_itself delegate_locally a h = Inr (b, h')"
  shows "handed h h' \<and> b \<and> nd_state (nd h a) = UNUSED \<and> nd_state (nd h' a) \<in> {PUSHED, DISCARDED}"
proof -
  obtain h1 where u: "\<not> is_consumed a h" and h1: "prune_and_fix_parent_root_if_needed a h = Inr h1"
    and s: "submit_or_discard delegate_locally a h1 = Inr h'" and b: "b"
    using assms by (auto simp: send_node_itself_def split: if_splits)
  note l = prune_and_fix_same_lives [OF h1]
  have a: "nd_state (nd h a) = UNUSED" "nd_state (nd h1 a) = UNUSED"
    using u l by (simp_all add: is_consumed_def same_lives_def)
  from handed_submit [OF s a(2)] a b show ?thesis using handed_trans [OF handed_same [OF l]] by blast
qed

lemma handed_world: "handed (h\<lparr>hp_world := w\<rparr>) h' \<Longrightarrow> handed h h'"
  by (simp add: handed_def)

lemma send_locally_handed:
  "qh_send_locally out a h = Inr (b, h') \<Longrightarrow>
     handed h h' \<and> (b \<longrightarrow> nd_state (nd h' a) \<in> {PUSHED, DISCARDED})"
proof (induction out a h rule: qh_send_locally.induct)
  case (1 out a h)
  obtain owns h1 where o: "ask (out_try_lock out) h = (owns, h1)" by (metis prod.exhaust)
  obtain w where h1: "h1 = h\<lparr>hp_world := w\<rparr>" using ask_world [OF o] by blast
  obtain full h2 where f: "is_thread_pool_full out h1 = (full, h2)" by (metis prod.exhaust)
  obtain v where h2: "h2 = h1\<lparr>hp_world := v\<rparr>" using pool_full_world [OF f] by blast
  show ?case
  proof (cases "owns \<and> \<not> full")
    case False
    then have "(b, h') = (False, if owns then h2\<lparr>hp_pool_full_rejected := hp_pool_full_rejected h2 + 1\<rparr> else h1)"
      using "1.prems" o f by (cases owns) (simp_all add: qh_send_locally.simps [of out a h])
    then show ?thesis by (simp add: h1 h2 same_lives_def handed_same)
  next
    case True
    then obtain found h3 where t: "try_push_root_level_node delegate_locally a h2 = Inr (found, h3)"
      and r: "(if found then qh_send_locally out a h3 else send_node_itself delegate_locally a h3) = Inr (b, h')"
      using "1.prems" o f by (auto simp: qh_send_locally.simps [of out a h])
    have h3: "handed h h3" by (rule handed_world [OF handed_world [OF handed_push [OF t, unfolded h2 h1]]])
    show ?thesis
    proof (cases found)
      case found: True
      then have "handed h3 h' \<and> (b \<longrightarrow> nd_state (nd h' a) \<in> {PUSHED, DISCARDED})"
        using "1.IH" [OF o [symmetric] refl _ f [symmetric] refl _ t refl] True r by simp
      then show ?thesis using handed_trans [OF h3] by blast
    next
      case False
      then have "send_node_itself delegate_locally a h3 = Inr (b, h')" using r by simp
      from handed_itself [OF this] show ?thesis using handed_trans [OF h3] by blast
    qed
  qed
qed

lemma ws_send_locally_handed:
  assumes "ws_send_locally out a h = Inr (b, h')"
  shows "handed h h' \<and> (b \<longrightarrow> nd_state (nd h' a) \<in> {PUSHED, DISCARDED})"
proof -
  obtain owns h1 where o: "ask (out_try_lock out) h = (owns, h1)" by (metis prod.exhaust)
  obtain w where h1: "h1 = h\<lparr>hp_world := w\<rparr>" using ask_world [OF o] by blast
  obtain full h2 where f: "is_thread_pool_full out h1 = (full, h2)" by (metis prod.exhaust)
  obtain v where h2: "h2 = h1\<lparr>hp_world := v\<rparr>" using pool_full_world [OF f] by blast
  show ?thesis
  proof (cases "owns \<and> \<not> full")
    case False
    then have "(b, h') = (False, if owns then h2\<lparr>hp_pool_full_rejected := hp_pool_full_rejected h2 + 1\<rparr> else h1)"
      using assms o f by (cases owns) (simp_all add: ws_send_locally_def)
    then show ?thesis by (simp add: h1 h2 same_lives_def handed_same)
  next
    case True
    then have "ws_send_node delegate_locally a h2 = Inr (b, h')" using assms o f by (simp add: ws_send_locally_def)
    then have u: "nd_state (nd h2 a) = UNUSED" and s: "submit_or_discard delegate_locally a (pruned a h2) = Inr h'"
      by (auto simp: ws_send_node_def prune_eq is_consumed_def split: if_splits)
    have "nd_state (nd (pruned a h2) a) = UNUSED" using u by (simp add: pruned_apply)
    note S = handed_submit [OF s this]
    have "handed h2 h'" by (rule handed_trans [OF handed_same [OF pruned_same_lives] S [THEN conjunct1]])
    then have "handed h h'" unfolding h2 h1 by (rule handed_world [OF handed_world])
    then show ?thesis using S by blast
  qed
qed

end
