(* ===== verification/Balancer_Tree.thy ===== *)
theory Balancer_Tree
  imports Balancer_Lives
begin

text \<open>
  The tree the quasi-horizontal balancer works on. \<open>tree_ok\<close> adds to \<open>links_ok\<close> that only the first
  child of a node is at work: the other children have no children of their own and are unused. Lowering
  the root and pruning a leaf keep it, and no operation of the balancer throws on such a tree.
\<close>

definition tree_ok :: "('a, 'r, 'w) heap \<Rightarrow> bool" where
  "tree_ok h \<longleftrightarrow> links_ok h \<and> (\<forall>p c. valid h p \<longrightarrow> c \<in> set (tl (nd_children (nd h p))) \<longrightarrow>
     nd_children (nd h c) = [] \<and> nd_state (nd h c) = UNUSED) \<and>
     (\<forall>t r. hp_roots h t = Some r \<longrightarrow> nd_parent (nd h r) = None)"

lemma tree_okD:
  assumes "tree_ok h"
  shows "links_ok h"
    "valid h p \<Longrightarrow> c \<in> set (tl (nd_children (nd h p))) \<Longrightarrow> nd_children (nd h c) = [] \<and> nd_state (nd h c) = UNUSED"
    "hp_roots h t = Some r \<Longrightarrow> nd_parent (nd h r) = None"
  using assms unfolding tree_ok_def by blast+

lemma tl_removeAll: "set (tl (removeAll x l)) \<subseteq> set (tl l)"
proof (cases l)
  case (Cons y ys)
  have "set (tl (removeAll x ys)) \<subseteq> set ys" by (metis list.set_sel(2) set_removeAll Diff_iff subsetI tl_Nil)
  then show ?thesis using Cons by (cases "y = x") auto
qed simp

text \<open>Fewer children, no new ones: enough to keep the second half of \<open>tree_ok\<close>.\<close>

lemma tree_ok_shrink:
  assumes t: "tree_ok h" and l: "links_ok h'" and c: "hp_count h' = hp_count h"
    and sub: "\<And>p. set (tl (nd_children (nd h' p))) \<subseteq> set (tl (nd_children (nd h p)))"
    and empty: "\<And>x. nd_children (nd h x) = [] \<Longrightarrow> nd_children (nd h' x) = []"
    and state: "\<And>p x. valid h p \<Longrightarrow> x \<in> set (tl (nd_children (nd h' p))) \<Longrightarrow> nd_state (nd h' x) = nd_state (nd h x)"
    and roots: "\<And>t r. hp_roots h' t = Some r \<Longrightarrow> nd_parent (nd h' r) = None"
  shows "tree_ok h'"
  unfolding tree_ok_def
proof (intro conjI l allI impI roots)
  fix p x assume p: "valid h' p" and x: "x \<in> set (tl (nd_children (nd h' p)))"
  then have v: "valid h p" and x': "x \<in> set (tl (nd_children (nd h p)))" using sub c by (auto simp: valid_def)
  note T = tree_okD(2) [OF t v x']
  show "nd_children (nd h' x) = []" using empty T by blast
  show "nd_state (nd h' x) = UNUSED" using state [OF v x] T by simp
qed

lemma pruned_children_sub: "set (tl (nd_children (nd (pruned a h) p))) \<subseteq> set (tl (nd_children (nd h p)))"
  using tl_removeAll [of a "nd_children (nd h p)"] by (auto simp: pruned_apply)

lemma pruned_tree:
  assumes "tree_ok h" and "nd_children (nd h a) = []"
  shows "tree_ok (pruned a h)"
proof (rule tree_ok_shrink [OF assms(1)])
  show "links_ok (pruned a h)" by (rule prune_leaf_links [OF tree_okD(1) [OF assms(1)] assms(2)])
  show "set (tl (nd_children (nd (pruned a h) p))) \<subseteq> set (tl (nd_children (nd h p)))" for p
    by (rule pruned_children_sub)
qed (use tree_okD(3) [OF assms(1)] in \<open>auto simp: pruned_apply\<close>)

section \<open>Lowering the root\<close>

lemma unrooted_apply:
  "nd (unrooted r c h) x =
     (let n = (if x = c then (nd h x)\<lparr>nd_parent := None\<rparr> else nd h x)
      in if x = r then n\<lparr>nd_root := None, nd_children := [], nd_parent := None\<rparr>
         else if nd_parent (nd h r) = Some x \<and> r \<noteq> c then n\<lparr>nd_children := removeAll r (nd_children n)\<rparr>
         else n)"
  by (auto simp: unrooted_def pruned_apply with_nd_apply Let_def)

lemma unrooted_roots:
  "hp_roots (unrooted r c h) = (if hp_policy h = QUASI_HORIZONTAL then (hp_roots h)(nd_thread (nd h c) := Some c) else hp_roots h)"
  by (simp add: unrooted_def set_root_def split: balancing_policy.split)

lemma unrooted_links:
  assumes l: "links_ok h" and r: "valid h r" and c: "nd_children (nd h r) = [c]"
  shows "links_ok (unrooted r c h)"
proof -
  note L = links_okD [OF l]
  have cv: "valid h c" "nd_parent (nd h c) = Some r" using L(2) [OF r, of c] c by simp_all
  have cr: "c \<noteq> r" using rooted_no_cycle [OF L(5) [OF r]] cv by auto
  have only: "x = c" if "valid h x" "nd_parent (nd h x) = Some r" for x
    using L(3) [OF that] c by simp
  show ?thesis
    unfolding links_ok_def
  proof (intro conjI allI impI)
    fix x assume "valid (unrooted r c h) x"
    then have x: "valid h x" by (simp add: valid_def)
    have ro: "rooted (unrooted r c h) x"
      by (rule rooted_cut [OF L(5) [OF x]]) (auto simp: unrooted_apply Let_def)
    have kids: "valid h k \<and> nd_parent (nd (unrooted r c h) k) = Some x"
      if k: "k \<in> set (nd_children (nd (unrooted r c h) x))" for k
    proof -
      have k': "k \<in> set (nd_children (nd h x))" "x \<noteq> r" "nd_parent (nd h r) = Some x \<longrightarrow> k \<noteq> r"
        using k cr by (auto simp: unrooted_apply Let_def split: if_splits)
      note K = L(2) [OF x k'(1)]
      have "k \<noteq> c" using K cv k'(2) by auto
      moreover have "k \<noteq> r" using K k'(3) by auto
      ultimately show ?thesis using K by (simp add: unrooted_apply Let_def)
    qed
    have par: "valid h p \<and> x \<in> set (nd_children (nd (unrooted r c h) p))"
      if p: "nd_parent (nd (unrooted r c h) x) = Some p" for p
    proof -
      have p': "nd_parent (nd h x) = Some p" "x \<noteq> c" "x \<noteq> r"
        using p by (auto simp: unrooted_apply Let_def split: if_splits)
      note P = L(3) [OF x p'(1)]
      have "p \<noteq> r" using only [OF x] p' by auto
      then show ?thesis using P p'(3) by (auto simp: unrooted_apply Let_def)
    qed
    have "distinct (nd_children (nd (unrooted r c h) x))"
      using L(1) [OF x] by (auto simp: unrooted_apply Let_def distinct_removeAll)
    moreover have "nd_is_dummy (nd (unrooted r c h) x) \<longrightarrow> nd_parent (nd (unrooted r c h) x) = None"
      using L(4) [OF x] by (simp add: unrooted_apply Let_def)
    ultimately show "node_ok (unrooted r c h) x"
      using ro kids par by (simp add: node_ok_def valid_def)
  next
    fix t x assume "hp_roots (unrooted r c h) t = Some x"
    then show "valid (unrooted r c h) x"
      using L(6) cv by (auto simp: unrooted_roots valid_def split: if_splits)
  qed
qed

lemma unrooted_tree:
  assumes t: "tree_ok h" and r: "valid h r" and c: "nd_children (nd h r) = [c]"
  shows "tree_ok (unrooted r c h)"
proof (rule tree_ok_shrink [OF t])
  show "links_ok (unrooted r c h)" by (rule unrooted_links [OF tree_okD(1) [OF t] r c])
  show "set (tl (nd_children (nd (unrooted r c h) p))) \<subseteq> set (tl (nd_children (nd h p)))" for p
    using tl_removeAll [of r "nd_children (nd h p)"] by (auto simp: unrooted_apply Let_def)
  show "nd_parent (nd (unrooted r c h) x) = None" if "hp_roots (unrooted r c h) k = Some x" for k x
    using that tree_okD(3) [OF t, of k x] by (auto simp: unrooted_roots unrooted_apply Let_def split: if_splits)
qed (auto simp: unrooted_apply Let_def)

text \<open>\<open>only_path h r x\<close>: from \<open>r\<close> one gets to \<open>x\<close> through nodes with a single child.\<close>

inductive only_path :: "('a, 'r, 'w) heap \<Rightarrow> addr \<Rightarrow> addr \<Rightarrow> bool" for h where
  here: "only_path h r r"
| deeper: "nd_children (nd h r) = [c] \<Longrightarrow> only_path h c x \<Longrightarrow> only_path h r x"

text \<open>What else lowering and pruning leave alone; a root cell is only ever let go of.\<close>

definition frame_of :: "('a, 'r, 'w) heap \<Rightarrow> ('a, 'r, 'w) heap \<Rightarrow> bool" where
  "frame_of h h' \<longleftrightarrow> hp_count h' = hp_count h \<and> hp_policy h' = hp_policy h \<and> hp_world h' = hp_world h \<and>
     (\<forall>x. nd_thread (nd h' x) = nd_thread (nd h x) \<and> nd_state (nd h' x) = nd_state (nd h x) \<and>
        nd_flag (nd h' x) = nd_flag (nd h x) \<and> nd_initializer (nd h' x) = nd_initializer (nd h x) \<and>
        nd_should_branch_cached (nd h' x) = nd_should_branch_cached (nd h x) \<and>
        (nd_root (nd h' x) = nd_root (nd h x) \<or> nd_root (nd h' x) = None) \<and>
        (nd_children (nd h x) = [] \<longrightarrow> nd_children (nd h' x) = []))"

lemma frame_refl [simp]: "frame_of h h"
  by (simp add: frame_of_def)

lemma frame_trans: "frame_of h h1 \<Longrightarrow> frame_of h1 h2 \<Longrightarrow> frame_of h h2"
  unfolding frame_of_def by metis

lemma frame_pruned: "frame_of h (pruned a h)"
  by (simp add: frame_of_def pruned_apply)

lemma frame_unrooted: "frame_of h (unrooted r c h)"
  by (simp add: frame_of_def unrooted_apply Let_def)

lemma lower_root_tree:
  assumes "tree_ok h" and "valid h r"
  shows "\<exists>h'. lower_root a r h = Inr h' \<and> tree_ok h' \<and> frame_of h h'"
  using assms
proof (induction a r h rule: lower_root.induct)
  case (1 a r h)
  have v: "deref h r = Inr ()" using "1.prems" by (simp add: deref_def)
  show ?case
  proof (cases "get_children_count r h = 1")
    case False
    then show ?thesis using "1.prems" v by (simp add: lower_root.simps [of a r h])
  next
    case True
    then obtain c where c: "nd_children (nd h r) = [c]"
      by (auto simp: get_children_count_def length_Suc_conv)
    let ?h1 = "unrooted r c h"
    note t = unrooted_tree [OF "1.prems" c]
    have "valid ?h1 c" using links_okD(2) [OF tree_okD(1) [OF "1.prems"(1)] "1.prems"(2), of c] c
      by (simp add: valid_def)
    then have ih: "\<exists>h'. lower_root a c ?h1 = Inr h' \<and> tree_ok h' \<and> frame_of ?h1 h'"
      if "\<not> (c = a \<or> 2 \<le> get_children_count c ?h1)"
      using "1.IH" [OF v _ refl lower_eq] True that t c by simp
    show ?thesis
      using ih t frame_unrooted [of h r c] frame_trans [OF frame_unrooted [of h r c]] v True c
      unfolding lower_root.simps [of a r h] Let_def lower_eq by (auto simp: lower_eq)
  qed
qed

lemma try_correct_root_tree:
  assumes t: "tree_ok h"
  shows "\<exists>h'. try_correct_root (Some a) h = Inr h' \<and> tree_ok h' \<and> frame_of h h'"
proof (cases "get_root a h")
  case None
  then show ?thesis using t by (simp add: try_correct_root_def throw_if_null_def)
next
  case (Some r)
  have "valid h r" using links_okD(6) [OF tree_okD(1) [OF t]] Some by (auto simp: get_root_def split: option.splits)
  from lower_root_tree [OF t this, of a] show ?thesis
    using t Some by (auto simp: try_correct_root_def throw_if_null_def)
qed

section \<open>Where the root ends\<close>

lemma unrooted_top:
  assumes l: "links_ok h" and r: "valid h r" and c: "nd_children (nd h r) = [c]" and top: "nd_parent (nd h r) = None"
  shows "nd_children (nd (unrooted r c h) x) = (if x = r then [] else nd_children (nd h x))"
    "only_path (unrooted r c h) c x \<Longrightarrow> only_path h c x \<and> x \<noteq> r"
proof -
  have eq: "nd_children (nd (unrooted r c h) y) = (if y = r then [] else nd_children (nd h y))" for y
    using top by (simp add: unrooted_apply Let_def)
  show "nd_children (nd (unrooted r c h) x) = (if x = r then [] else nd_children (nd h x))" by (rule eq)
  have cv: "valid h c" "nd_parent (nd h c) = Some r" using links_okD(2) [OF l r, of c] c by simp_all
  have "only_path (unrooted r c h) y x \<Longrightarrow> valid h y \<Longrightarrow> y \<noteq> r \<Longrightarrow> only_path h y x \<and> x \<noteq> r" for y
  proof (induction rule: only_path.induct)
    case (here y)
    then show ?case by (simp add: only_path.here)
  next
    case (deeper y d x)
    then have d: "nd_children (nd h y) = [d]" using eq [of y] by simp
    have "valid h d \<and> nd_parent (nd h d) = Some y" using links_okD(2) [OF l deeper.prems(1), of d] d by simp
    then have "valid h d" "d \<noteq> r" using top by auto
    from deeper.IH [OF this] show ?case using only_path.deeper [OF d] by blast
  qed
  moreover have "c \<noteq> r" using cv top by auto
  ultimately show "only_path (unrooted r c h) c x \<Longrightarrow> only_path h c x \<and> x \<noteq> r" using cv(1) by blast
qed

lemma lower_root_spec:
  assumes "tree_ok h" and "valid h r" and "nd_parent (nd h r) = None" and "hp_policy h = QUASI_HORIZONTAL"
    and "hp_roots h t = Some r" and "\<And>x. valid h x \<Longrightarrow> nd_thread (nd h x) = t"
  shows "\<exists>h' r'. lower_root a r h = Inr h' \<and> tree_ok h' \<and> only_path h r r' \<and> hp_roots h' t = Some r' \<and>
    nd_parent (nd h' r') = None \<and> (r' = a \<or> length (nd_children (nd h r')) \<noteq> 1) \<and>
    (\<forall>x. length (nd_children (nd h x)) \<noteq> 1 \<longrightarrow> nd_children (nd h' x) = nd_children (nd h x))"
  using assms
proof (induction a r h rule: lower_root.induct)
  case (1 a r h)
  have v: "deref h r = Inr ()" using "1.prems" by (simp add: deref_def)
  show ?case
  proof (cases "get_children_count r h = 1")
    case False
    then show ?thesis
      using "1.prems" v by (auto simp: lower_root.simps [of a r h] get_children_count_def intro!: exI [of _ r] only_path.here)
  next
    case True
    then obtain c where c: "nd_children (nd h r) = [c]"
      by (auto simp: get_children_count_def length_Suc_conv)
    let ?h1 = "unrooted r c h"
    note l = tree_okD(1) [OF "1.prems"(1)]
    note top = unrooted_top [OF l "1.prems"(2) c "1.prems"(3)]
    have t1: "tree_ok ?h1" by (rule unrooted_tree [OF "1.prems"(1,2) c])
    have cv: "valid h c" "c \<noteq> r" using links_okD(2) [OF l "1.prems"(2), of c] c "1.prems"(3) by auto
    have c1: "valid ?h1 c" "nd_parent (nd ?h1 c) = None" "hp_policy ?h1 = QUASI_HORIZONTAL"
      "hp_roots ?h1 t = Some c" "\<And>x. valid ?h1 x \<Longrightarrow> nd_thread (nd ?h1 x) = t"
      using cv "1.prems"(4,6) frame_unrooted [of h r c]
      by (auto simp: valid_def unrooted_roots frame_of_def unrooted_apply Let_def)
    have p: "only_path h r x \<and> x \<noteq> r" if "only_path ?h1 c x" for x
      using top(2) [OF that] only_path.deeper [OF c] by blast
    have same: "nd_children (nd ?h1 x) = nd_children (nd h x)" if "length (nd_children (nd h x)) \<noteq> 1" for x
      using top(1) [of x] that c by auto
    show ?thesis
    proof (cases "c = a \<or> 2 \<le> get_children_count c ?h1")
      case s: True
      then have "lower_root a r h = Inr ?h1"
        using v True c unfolding lower_root.simps [of a r h] Let_def by (simp add: lower_eq)
      moreover have "c = a \<or> length (nd_children (nd h c)) \<noteq> 1"
        using s top(1) [of c] cv(2) by (auto simp: get_children_count_def)
      ultimately show ?thesis
        using t1 c1 same p [OF only_path.here] by (intro exI [of _ ?h1] exI [of _ c]) simp
    next
      case s: False
      have l1: "lower_root a r h = lower_root a c ?h1"
        using v True c s unfolding lower_root.simps [of a r h] Let_def by (simp add: lower_eq)
      have e: "hd (nd_children (nd h r)) = c" using c by simp
      obtain h' r' where ih: "lower_root a c ?h1 = Inr h'" "tree_ok h'" "only_path ?h1 c r'" "hp_roots h' t = Some r'"
          "nd_parent (nd h' r') = None" "r' = a \<or> length (nd_children (nd ?h1 r')) \<noteq> 1"
          "\<And>x. length (nd_children (nd ?h1 x)) \<noteq> 1 \<Longrightarrow> nd_children (nd h' x) = nd_children (nd ?h1 x)"
        using "1.IH" [OF v _ e [symmetric] lower_eq _ t1 c1] True s by auto
      have "nd_children (nd h' x) = nd_children (nd h x)" if "length (nd_children (nd h x)) \<noteq> 1" for x
        using ih(7) [of x] same [OF that] that by simp
      moreover have "r' = a \<or> length (nd_children (nd h r')) \<noteq> 1"
        using ih(6) top(1) [of r'] p [OF ih(3)] by auto
      ultimately show ?thesis
        unfolding l1 using ih(1,2,4,5) p [OF ih(3)] by blast
    qed
  qed
qed

end
