(* ===== verification/Balancer_Safety.thy ===== *)
theory Balancer_Safety
  imports Balancer_Tree
begin

text \<open>
  On a well-formed tree built by one thread, a local submission through the quasi-horizontal balancer
  never throws: the node found at the root's level is never consumed already, the root that is corrected
  exists, and the handle of the parent is never null.
\<close>

text \<open>An unused node has arguments or can get them.\<close>

definition worth_ok :: "('a, 'r, 'w) nd \<Rightarrow> bool" where
  "worth_ok n \<longleftrightarrow> nd_state n = UNUSED \<longrightarrow> nd_flag n \<noteq> UNINITIALIZED \<and>
     (nd_flag n = LAZY \<longrightarrow> nd_should_branch_cached n = None \<and> nd_initializer n \<noteq> No_Initializer)"

text \<open>What holds between the operations of one thread \<open>t\<close>.\<close>

definition arena :: "thread \<Rightarrow> ('a, 'r, 'w) heap \<Rightarrow> bool" where
  "arena t h \<longleftrightarrow> tree_ok h \<and> hp_policy h = QUASI_HORIZONTAL \<and>
     (\<forall>x. valid h x \<longrightarrow> worth_ok (nd h x) \<and> nd_thread (nd h x) = t \<and> nd_root (nd h x) \<in> {None, Some t})"

text \<open>A node that can be submitted: a leaf, unused, with a parent or the root itself.\<close>

definition submittable :: "addr \<Rightarrow> ('a, 'r, 'w) heap \<Rightarrow> bool" where
  "submittable a h \<longleftrightarrow> valid h a \<and> nd_state (nd h a) = UNUSED \<and> nd_children (nd h a) = [] \<and>
     (nd_parent (nd h a) \<noteq> None \<or> get_root a h = Some a)"

lemma arenaD:
  assumes "arena t h"
  shows "tree_ok h" "hp_policy h = QUASI_HORIZONTAL" "valid h x \<Longrightarrow> worth_ok (nd h x)"
    "valid h x \<Longrightarrow> nd_thread (nd h x) = t" "valid h x \<Longrightarrow> nd_root (nd h x) \<in> {None, Some t}"
  using assms unfolding arena_def by blast+

lemma arena_frame:
  assumes "arena t h" and "tree_ok h'" and f: "frame_of h h'"
  shows "arena t h'"
proof -
  have "worth_ok (nd h' x) \<and> nd_thread (nd h' x) = t \<and> nd_root (nd h' x) \<in> {None, Some t}" if "valid h' x" for x
  proof -
    have v: "valid h x" using that f by (simp add: frame_of_def valid_def)
    have "worth_ok (nd h' x) = worth_ok (nd h x)" "nd_thread (nd h' x) = nd_thread (nd h x)"
      "nd_root (nd h' x) = nd_root (nd h x) \<or> nd_root (nd h' x) = None"
      using f by (simp_all add: frame_of_def worth_ok_def)
    then show ?thesis using arenaD(3-5) [OF assms(1) v] by auto
  qed
  moreover have "hp_policy h' = QUASI_HORIZONTAL" using f arenaD(2) [OF assms(1)] by (simp add: frame_of_def)
  ultimately show ?thesis using assms(2) by (simp add: arena_def)
qed

lemma arena_world:
  assumes "arena t h"
  shows "arena t (h\<lparr>hp_world := w\<rparr>)"
proof -
  have s: "same_shape h (h\<lparr>hp_world := w\<rparr>)" by (simp add: same_shape_def)
  have "tree_ok (h\<lparr>hp_world := w\<rparr>)"
    using tree_okD [OF arenaD(1) [OF assms]] links_same_shape [OF s]
    by (simp add: tree_ok_def valid_def)
  then show ?thesis using arenaD [OF assms] by (simp add: arena_def valid_def)
qed

lemma arena_counter: "arena t h \<Longrightarrow> arena t (h\<lparr>hp_pool_full_rejected := k\<rparr>)"
proof -
  assume ar: "arena t h"
  have s: "same_shape h (h\<lparr>hp_pool_full_rejected := k\<rparr>)" by (simp add: same_shape_def)
  have "tree_ok (h\<lparr>hp_pool_full_rejected := k\<rparr>)"
    using tree_okD [OF arenaD(1) [OF ar]] links_same_shape [OF s] by (simp add: tree_ok_def valid_def)
  then show ?thesis using arenaD [OF ar] by (simp add: arena_def valid_def)
qed

lemma submittable_world: "submittable a (h\<lparr>hp_world := w\<rparr>) = submittable a h"
  by (simp add: submittable_def valid_def get_root_def split: option.split)

section \<open>Submitting one node\<close>

lemma should_branch_ready:
  assumes "worth_ok (nd h a)" and "nd_state (nd h a) = UNUSED"
  shows "\<exists>b h1. should_branch a h = Inr (b, h1) \<and> (b \<longrightarrow> nd_flag (nd h1 a) \<notin> {UNINITIALIZED, LAZY}) \<and>
    nd_state (nd h1 a) = UNUSED"
proof (cases "nd_should_branch_cached (nd h a)")
  case (Some b)
  then show ?thesis using assms by (auto simp: should_branch_def worth_ok_def)
next
  case None
  show ?thesis
  proof (cases "nd_flag (nd h a) = LAZY")
    case False
    then have "should_branch a h = Inr (True, with_nd a (\<lambda>n. n\<lparr>nd_should_branch_cached := Some True\<rparr>) h)"
      using None assms by (simp add: should_branch_def)
    then show ?thesis using False assms by (auto simp: worth_ok_def)
  next
    case True
    obtain x h1 where c: "call_initializer a h = Inr (x, h1)"
      using assms True by (cases "nd_initializer (nd h a)") (auto simp: worth_ok_def call_initializer_def case_prod_beta)
    obtain w where w: "h1 = h\<lparr>hp_world := w\<rparr>" using call_initializer_Inr [OF c] by blast
    show ?thesis using None True assms c by (cases x) (auto simp: should_branch_def w)
  qed
qed

lemma submit_ok:
  assumes "worth_ok (nd h a)" and "nd_state (nd h a) = UNUSED"
  shows "\<exists>h'. submit_or_discard delegate_locally a h = Inr h'"
proof -
  obtain b h1 where b: "should_branch a h = Inr (b, h1)" "b \<longrightarrow> nd_flag (nd h1 a) \<notin> {UNINITIALIZED, LAZY}"
    "nd_state (nd h1 a) = UNUSED"
    using should_branch_ready [OF assms] by blast
  show ?thesis
  proof (cases b)
    case True
    then have "ensure_args_initialized a h1 = Inr h1"
      using b(2) by (cases "nd_flag (nd h1 a)") (auto simp: ensure_args_initialized_def)
    then show ?thesis using True b by (simp add: submit_or_discard_def delegate_locally_def not_consumed_def force_local_submit_def)
  next
    case False
    then show ?thesis using b by (simp add: submit_or_discard_def)
  qed
qed

text \<open>A node outside the tree that is handed over leaves the tree as it was.\<close>

lemma submit_arena:
  assumes ar: "arena t h" and s: "submit_or_discard delegate_locally a h = Inr h'"
    and out: "\<And>p. valid h p \<Longrightarrow> a \<notin> set (tl (nd_children (nd h p)))"
  shows "arena t h'" "same_shape h h'" "x \<noteq> a \<Longrightarrow> nd h' x = nd h x"
proof -
  note S = submit_or_discard_frame [OF delegates_locally s]
  show sh: "same_shape h h'" by (rule S(1))
  show other: "x \<noteq> a \<Longrightarrow> nd h' x = nd h x" for x by (rule S(3))
  note E = same_shapeD [OF sh]
  have l: "links_ok h'" by (rule links_same_shape [OF sh tree_okD(1) [OF arenaD(1) [OF ar]]])
  have "tree_ok h'"
  proof (rule tree_ok_shrink [OF arenaD(1) [OF ar] l E(1)])
    show "nd_state (nd h' x) = nd_state (nd h x)" if "valid h p" "x \<in> set (tl (nd_children (nd h' p)))" for p x
    proof -
      have "x \<noteq> a" using out [OF that(1)] that(2) by (auto simp: E(5))
      then show ?thesis using other by simp
    qed
  qed (use tree_okD(3) [OF arenaD(1) [OF ar]] in \<open>simp_all add: E(2,4,5)\<close>)
  moreover have "worth_ok (nd h' x)" if "valid h x" for x
  proof (cases "x = a")
    case True
    then show ?thesis using S(2) by (simp add: worth_ok_def)
  next
    case False
    then show ?thesis using other arenaD(3) [OF ar that] by simp
  qed
  ultimately show "arena t h'"
    using arenaD [OF ar] E by (simp add: arena_def valid_def)
qed

section \<open>Lowering the root towards the node\<close>

lemma unrooted_submittable:
  assumes ar: "arena t h" and s: "submittable a h" and r: "valid h r" "nd_children (nd h r) = [c]"
    and nr: "nd_root (nd h a) = Some t" and root: "hp_roots h t = Some r"
  shows "submittable a (unrooted r c h)" "nd_root (nd (unrooted r c h) a) = Some t"
    "hp_roots (unrooted r c h) t = Some c"
proof -
  have ar': "a \<noteq> r" using s r(2) by (auto simp: submittable_def)
  have cv: "valid h c" using links_okD(2) [OF tree_okD(1) [OF arenaD(1) [OF ar]] r(1), of c] r(2) by simp
  show nr': "nd_root (nd (unrooted r c h) a) = Some t" using ar' nr by (auto simp: unrooted_apply Let_def)
  show root': "hp_roots (unrooted r c h) t = Some c"
    using arenaD(2) [OF ar] arenaD(4) [OF ar cv] by (simp add: unrooted_roots)
  have "nd_parent (nd h a) \<noteq> None" using s nr root ar' by (simp add: submittable_def get_root_def)
  then have "nd_parent (nd (unrooted r c h) a) \<noteq> None \<or> get_root a (unrooted r c h) = Some a"
    using ar' nr' root' by (cases "a = c") (simp_all add: unrooted_apply Let_def get_root_def)
  moreover have "nd_children (nd (unrooted r c h) a) = []" "nd_state (nd (unrooted r c h) a) = UNUSED"
    "valid (unrooted r c h) a"
    using s frame_unrooted [of h r c] by (auto simp: submittable_def frame_of_def valid_def)
  ultimately show "submittable a (unrooted r c h)" by (simp add: submittable_def)
qed

lemma lower_root_submittable:
  assumes "lower_root b r h = Inr h'" and "arena t h" and "submittable a h" and "valid h r"
    and "nd_root (nd h a) = Some t" and "hp_roots h t = Some r"
  shows "submittable a h'"
  using assms
proof (induction b r h rule: lower_root.induct)
  case (1 b r h)
  have v: "deref h r = Inr ()" using "1.prems" by (simp add: deref_def)
  show ?case
  proof (cases "get_children_count r h = 1")
    case False
    then show ?thesis using "1.prems" v by (simp add: lower_root.simps [of b r h])
  next
    case True
    then obtain c where c: "nd_children (nd h r) = [c]" by (auto simp: get_children_count_def length_Suc_conv)
    have e: "hd (nd_children (nd h r)) = c" using c by simp
    let ?h1 = "unrooted r c h"
    note tr = arenaD(1) [OF "1.prems"(2)]
    have ar1: "arena t ?h1" by (rule arena_frame [OF "1.prems"(2) unrooted_tree [OF tr "1.prems"(4) c] frame_unrooted])
    note U = unrooted_submittable [OF "1.prems"(2,3,4) c "1.prems"(5,6)]
    have cv: "valid ?h1 c" using links_okD(2) [OF tree_okD(1) [OF tr] "1.prems"(4), of c] c by (simp add: valid_def)
    show ?thesis
    proof (cases "c = b \<or> 2 \<le> get_children_count c ?h1")
      case True
      then have "h' = ?h1"
        using "1.prems"(1) v c \<open>get_children_count r h = 1\<close> unfolding lower_root.simps [of b r h] Let_def
        by (simp add: lower_eq)
      then show ?thesis using U by simp
    next
      case False
      then have "lower_root b c ?h1 = Inr h'"
        using "1.prems"(1) v c \<open>get_children_count r h = 1\<close> unfolding lower_root.simps [of b r h] Let_def
        by (simp add: lower_eq)
      from "1.IH" [OF v _ e [symmetric] lower_eq _ this ar1 U(1) cv U(2,3)] False True show ?thesis by simp
    qed
  qed
qed

lemma try_correct_root_submittable:
  assumes ar: "arena t h" and s: "submittable a h" and h': "try_correct_root (Some a) h = Inr h'"
  shows "submittable a h'"
proof (cases "get_root a h")
  case None
  then show ?thesis using h' s by (simp add: try_correct_root_def throw_if_null_def)
next
  case (Some r)
  have nr: "nd_root (nd h a) = Some t" "hp_roots h t = Some r"
    using Some arenaD(5) [OF ar, of a] s by (auto simp: get_root_def submittable_def)
  have v: "valid h r" using links_okD(6) [OF tree_okD(1) [OF arenaD(1) [OF ar]] nr(2)] .
  show ?thesis
    using h' s Some lower_root_submittable [OF _ ar s v nr, of a]
    by (auto simp: try_correct_root_def throw_if_null_def split: if_splits)
qed

section \<open>A round of the loop\<close>

lemma pending_node_ok:
  assumes ar: "arena t h" and s: "submittable a h"
  shows "get_root_level_pending_node a h = Inr (None, h) \<or>
    (\<exists>c r. get_root_level_pending_node a h = Inr (Some c, pruned c h) \<and> get_root a h = Some r \<and>
       valid h r \<and> c \<in> set (tl (nd_children (nd h r))) \<and> c \<noteq> a \<and> nd_parent (nd h c) = Some r)"
proof (cases "get_root_level_pending_node a h = Inr (None, h)")
  case False
  then obtain r where r: "get_root a h = Some r" and p: "nd_parent (nd h a) \<noteq> None" "nd_parent (nd h a) \<noteq> Some r"
    and two: "\<not> get_children_count r h < 2"
    by (auto simp: get_root_level_pending_node_def split: if_splits option.splits)
  then obtain x c cs where cs: "nd_children (nd h r) = x # c # cs"
    by (cases "nd_children (nd h r)" rule: remdups_adj.cases) (auto simp: get_children_count_def)
  note l = tree_okD(1) [OF arenaD(1) [OF ar]]
  have v: "valid h r" using r links_okD(6) [OF l] by (auto simp: get_root_def split: option.splits)
  have c: "valid h c \<and> nd_parent (nd h c) = Some r" using links_okD(2) [OF l v, of c] cs by simp
  have "get_root_level_pending_node a h = Inr (Some c, pruned c h)"
    using r p two cs c
    by (auto simp: get_root_level_pending_node_def get_second_leftmost_child_def deref_def prune_eq)
  moreover have "c \<noteq> a" using c p by auto
  moreover have "c \<in> set (tl (nd_children (nd h r)))" using cs by simp
  ultimately show ?thesis using r v c by blast
qed simp

lemma pruned_submittable:
  assumes "submittable a h" and "c \<noteq> a"
  shows "submittable a (pruned c h)"
  using assms by (auto simp: submittable_def pruned_apply valid_def get_root_def split: option.splits)

lemma not_child_again: "links_ok h \<Longrightarrow> valid h p \<Longrightarrow> nd_parent (nd h a) = None \<Longrightarrow> a \<notin> set (nd_children (nd h p))"
  using links_okD(2) by fastforce

lemma frame_parent_lower:
  "lower_root b r h = Inr h' \<Longrightarrow> nd_parent (nd h x) = None \<Longrightarrow> nd_parent (nd h' x) = None"
proof (induction b r h rule: lower_root.induct)
  case (1 b r h)
  have v: "deref h r = Inr ()" using "1.prems" by (cases "deref h r") (simp_all add: lower_root.simps)
  let ?c = "hd (nd_children (nd h r))"
  let ?h1 = "unrooted r ?c h"
  have u: "nd_parent (nd ?h1 x) = None" using "1.prems"(2) by (simp add: unrooted_apply Let_def)
  show ?case
  proof (cases "get_children_count r h = 1")
    case False
    then show ?thesis using "1.prems" v by (simp add: lower_root.simps [of b r h])
  next
    case True
    show ?thesis
    proof (cases "?c = b \<or> 2 \<le> get_children_count ?c ?h1")
      case s: True
      then have "h' = ?h1"
        using "1.prems" v True unfolding lower_root.simps [of b r h] Let_def lower_eq by simp
      then show ?thesis using u by simp
    next
      case s: False
      then have "lower_root b ?c ?h1 = Inr h'"
        using "1.prems" v True unfolding lower_root.simps [of b r h] Let_def lower_eq by simp
      from "1.IH" [OF v _ refl lower_eq _ this u] True s show ?thesis by simp
    qed
  qed
qed

lemma frame_parent_correct:
  "try_correct_root p h = Inr h' \<Longrightarrow> nd_parent (nd h x) = None \<Longrightarrow> nd_parent (nd h' x) = None"
proof -
  assume h': "try_correct_root p h = Inr h'" and x: "nd_parent (nd h x) = None"
  obtain a where a: "p = Some a" using h' by (cases p) (simp_all add: try_correct_root_def throw_if_null_def)
  show ?thesis
  proof (cases "get_root a h")
    case None
    then show ?thesis using h' x a by (simp add: try_correct_root_def throw_if_null_def)
  next
    case (Some r)
    then have "h' = h \<or> lower_root a r h = Inr h'"
      using h' a by (auto simp: try_correct_root_def throw_if_null_def split: if_splits)
    then show ?thesis using x frame_parent_lower by blast
  qed
qed

lemma try_push_arena:
  assumes ar: "arena t h" and s: "submittable a h"
  shows "\<exists>b h'. try_push_root_level_node delegate_locally a h = Inr (b, h') \<and> arena t h' \<and> submittable a h'"
proof -
  note l = tree_okD(1) [OF arenaD(1) [OF ar]]
  consider "get_root_level_pending_node a h = Inr (None, h)"
    | c r where "get_root_level_pending_node a h = Inr (Some c, pruned c h)" "get_root a h = Some r"
       "valid h r" "c \<in> set (tl (nd_children (nd h r)))" "c \<noteq> a" "nd_parent (nd h c) = Some r"
    using pending_node_ok [OF ar s] by blast
  then show ?thesis
  proof cases
    case 1
    then show ?thesis using ar s by (intro exI [of _ False] exI [of _ h]) (simp add: try_push_root_level_node_def)
  next
    case (2 c r)
    note C = tree_okD(2) [OF arenaD(1) [OF ar] 2(3,4)]
    let ?h1 = "pruned c h"
    have cv: "valid h c" using 2(3,4) links_okD(2) [OF l 2(3), of c] by (metis list.set_sel(2) tl_Nil)
    have ar1: "arena t ?h1"
      by (rule arena_frame [OF ar pruned_tree frame_pruned]) (use arenaD(1) [OF ar] C in simp_all)
    have s1: "submittable a ?h1" by (rule pruned_submittable [OF s 2(5)])
    obtain h2 where h2: "try_correct_root (Some a) ?h1 = Inr h2" "tree_ok h2" "frame_of ?h1 h2"
      using try_correct_root_tree [OF arenaD(1) [OF ar1]] by blast
    have ar2: "arena t h2" by (rule arena_frame [OF ar1 h2(2,3)])
    have s2: "submittable a h2" by (rule try_correct_root_submittable [OF ar1 s1 h2(1)])
    have c2: "nd_state (nd h2 c) = UNUSED" "valid h2 c"
      using h2(3) C cv by (auto simp: frame_of_def pruned_apply valid_def)
    have p2: "nd_parent (nd h2 c) = None" by (rule frame_parent_correct [OF h2(1)]) (simp add: pruned_apply)
    obtain h3 where h3: "submit_or_discard delegate_locally c h2 = Inr h3"
      using submit_ok [OF arenaD(3) [OF ar2 c2(2)] c2(1)] by blast
    have notin: "c \<notin> set (tl (nd_children (nd h2 p)))" if "valid h2 p" for p
      using not_child_again [OF tree_okD(1) [OF h2(2)] that p2] by (metis list.set_sel(2) tl_Nil)
    note S = submit_arena [OF ar2 h3 notin]
    have "submittable a h3"
    proof -
      have "nd h3 a = nd h2 a" using S(3) 2(5) by metis
      moreover have "hp_roots h3 = hp_roots h2" "hp_count h3 = hp_count h2" using same_shapeD [OF S(2)] by simp_all
      ultimately show ?thesis using s2 by (simp add: submittable_def valid_def get_root_def split: option.splits)
    qed
    moreover have "\<not> is_consumed c ?h1" using C by (simp add: is_consumed_def pruned_apply)
    ultimately show ?thesis
      using 2(1) h2(1) h3 S(1) by (auto simp: try_push_root_level_node_def)
  qed
qed

lemma send_itself_arena:
  assumes ar: "arena t h" and s: "submittable a h"
  shows "\<exists>h'. send_node_itself delegate_locally a h = Inr (True, h') \<and> arena t h'"
proof -
  note l = tree_okD(1) [OF arenaD(1) [OF ar]]
  have u: "\<not> is_consumed a h" "valid h a" "nd_children (nd h a) = []" "nd_state (nd h a) = UNUSED"
    using s by (simp_all add: submittable_def is_consumed_def)
  have "\<exists>h1. prune_and_fix_parent_root_if_needed a h = Inr h1 \<and> tree_ok h1 \<and> frame_of h h1 \<and>
      (\<forall>p. valid h p \<longrightarrow> a \<notin> set (tl (nd_children (nd h1 p))))"
  proof (cases "get_root a h = Some a")
    case True
    then have "nd_parent (nd h a) = None"
      using tree_okD(3) [OF arenaD(1) [OF ar]] by (auto simp: get_root_def split: option.splits)
    then have "a \<notin> set (tl (nd_children (nd h p)))" if "valid h p" for p
      using not_child_again [OF l that] by (metis list.set_sel(2) tl_Nil)
    then show ?thesis using True u arenaD(1) [OF ar]
      by (simp add: prune_and_fix_parent_root_if_needed_def get_children_count_def)
  next
    case False
    then obtain p where p: "nd_parent (nd h a) = Some p" using s by (auto simp: submittable_def)
    obtain h2 where h2: "try_correct_root (Some p) (pruned a h) = Inr h2" "tree_ok h2" "frame_of (pruned a h) h2"
      using try_correct_root_tree [OF pruned_tree [OF arenaD(1) [OF ar] u(3)]] by blast
    have "nd_parent (nd h2 a) = None" by (rule frame_parent_correct [OF h2(1)]) (simp add: pruned_apply)
    then have "a \<notin> set (tl (nd_children (nd h2 q)))" if "valid h q" for q
      using not_child_again [OF tree_okD(1) [OF h2(2)], of q a] that frame_trans [OF frame_pruned h2(3)]
      by (metis frame_of_def list.set_sel(2) tl_Nil valid_def)
    then show ?thesis
      using False p h2 frame_trans [OF frame_pruned h2(3)] by (auto simp: prune_and_fix_parent_root_if_needed_def prune_eq)
  qed
  then obtain h1 where h1: "prune_and_fix_parent_root_if_needed a h = Inr h1" "tree_ok h1" "frame_of h h1"
    "\<And>p. valid h p \<Longrightarrow> a \<notin> set (tl (nd_children (nd h1 p)))" by blast
  have ar1: "arena t h1" by (rule arena_frame [OF ar h1(2,3)])
  have a1: "valid h1 a" "nd_state (nd h1 a) = UNUSED" and v: "valid h1 p = valid h p" for p
    using h1(3) u by (simp_all add: frame_of_def valid_def)
  obtain h2 where h2: "submit_or_discard delegate_locally a h1 = Inr h2"
    using submit_ok [OF arenaD(3) [OF ar1 a1(1)] a1(2)] by blast
  have "arena t h2" by (rule submit_arena(1) [OF ar1 h2]) (use h1(4) v in simp)
  then show ?thesis using u(1) h1(1) h2 by (simp add: send_node_itself_def)
qed

lemma send_locally_arena:
  assumes "arena t h" and "submittable a h"
  shows "\<exists>b h'. qh_send_locally out a h = Inr (b, h') \<and> arena t h'"
  using assms
proof (induction out a h rule: qh_send_locally.induct)
  case (1 out a h)
  obtain owns h1 where o: "ask (out_try_lock out) h = (owns, h1)" by (metis prod.exhaust)
  obtain w where h1: "h1 = h\<lparr>hp_world := w\<rparr>" using ask_world [OF o] by blast
  obtain full h2 where f: "is_thread_pool_full out h1 = (full, h2)" by (metis prod.exhaust)
  obtain v where h2: "h2 = h1\<lparr>hp_world := v\<rparr>" using pool_full_world [OF f] by blast
  have ar: "arena t h1" "arena t h2" unfolding h2 h1 by (intro arena_world "1.prems")+
  have s: "submittable a h2" using "1.prems"(2) by (simp add: h2 h1 submittable_world)
  have rej: "arena t (h2\<lparr>hp_pool_full_rejected := k\<rparr>)" for k
    using arena_counter [OF ar(2)] .
  show ?case
  proof (cases "owns \<and> \<not> full")
    case False
    then have "qh_send_locally out a h =
        Inr (False, if owns then h2\<lparr>hp_pool_full_rejected := hp_pool_full_rejected h2 + 1\<rparr> else h1)"
      using o f by (cases owns) (simp_all add: qh_send_locally.simps [of out a h])
    then show ?thesis using ar rej by auto
  next
    case True
    obtain found h3 where t: "try_push_root_level_node delegate_locally a h2 = Inr (found, h3)"
      "arena t h3" "submittable a h3" using try_push_arena [OF ar(2) s] by blast
    show ?thesis
    proof (cases found)
      case found: True
      then have "qh_send_locally out a h = qh_send_locally out a h3"
        using True o f t(1) by (simp add: qh_send_locally.simps [of out a h])
      then show ?thesis
        using "1.IH" [OF o [symmetric] refl _ f [symmetric] refl _ t(1) refl _ t(2,3)] True found by simp
    next
      case False
      then have "qh_send_locally out a h = send_node_itself delegate_locally a h3"
        using True o f t(1) by (simp add: qh_send_locally.simps [of out a h])
      then show ?thesis using send_itself_arena [OF t(2,3)] by auto
    qed
  qed
qed

end
