(* ===== verification/Balancer_Create.thy ===== *)
theory Balancer_Create
  imports Balancer_Safety
begin

text \<open>
  Creating a node keeps the tree well formed and gives a node that can be submitted: the constructors
  and \<open>init\<close>, for a thread's own tree.
\<close>

lemma rooted_upto:
  assumes "rooted h x" and "valid h x" and "links_ok h"
    and par: "\<And>y. valid h y \<Longrightarrow> nd_parent (nd h' y) = nd_parent (nd h y)"
  shows "rooted h' x"
  using assms(1,2)
proof induction
  case (top x)
  then show ?case using par [of x] by (simp add: rooted.top)
next
  case (below x p)
  have "valid h p" using links_okD(3) [OF assms(3) below.prems below.hyps(1)] by blast
  then show ?case using below par [of x] by (auto intro: rooted.below)
qed

text \<open>A constructed node that \<open>init\<close> has not seen.\<close>

definition newborn :: "thread \<Rightarrow> ('a, 'r, 'w) nd \<Rightarrow> bool" where
  "newborn t n \<longleftrightarrow> nd_parent n = None \<and> nd_children n = [] \<and> nd_root n = None \<and> nd_thread n = t \<and>
     nd_state n = UNUSED \<and> \<not> nd_is_dummy n \<and> worth_ok n"

definition adds :: "('a, 'r, 'w) heap \<Rightarrow> addr \<times> ('a, 'r, 'w) heap \<Rightarrow> ('a, 'r, 'w) nd \<Rightarrow> bool" where
  "adds h r n \<longleftrightarrow> fst r = hp_count h \<and> hp_count (snd r) = Suc (hp_count h) \<and> hp_roots (snd r) = hp_roots h \<and>
     hp_policy (snd r) = hp_policy h \<and> hp_nodes (snd r) = (hp_nodes h)(hp_count h := n)"

lemma construct_explicit_adds:
  "\<exists>n. adds h (construct_explicit t f args ser deser h) n \<and> newborn t n"
  by (rule exI [of _ "nd (snd (construct_explicit t f args ser deser h)) (hp_count h)"])
    (simp add: adds_def construct_explicit_def construct_def generate_unique_id_def with_nd_def new_nd_def
      newborn_def worth_ok_def Let_def)

lemma construct_lazy_adds:
  "\<exists>n. adds h (construct_lazy t f g ser deser h) n \<and> newborn t n"
  by (rule exI [of _ "nd (snd (construct_lazy t f g ser deser h)) (hp_count h)"])
    (simp add: adds_def construct_lazy_def construct_placeholder_def construct_def generate_unique_id_def
      with_nd_def new_nd_def newborn_def worth_ok_def Let_def)

lemma added_arena:
  assumes ar: "arena t h" and ad: "adds h (a, h1) n" and nb: "newborn t n"
  shows "arena t h1"
proof -
  note l = tree_okD(1) [OF arenaD(1) [OF ar]]
  note L = links_okD [OF l]
  have a: "a = hp_count h" "hp_count h1 = Suc a" "hp_roots h1 = hp_roots h" "hp_policy h1 = hp_policy h"
    "nd h1 a = n" "\<And>x. x \<noteq> a \<Longrightarrow> nd h1 x = nd h x"
    using ad by (auto simp: adds_def)
  have v: "valid h1 x \<longleftrightarrow> valid h x \<or> x = a" and na: "\<not> valid h a" for x
    using a(1,2) by (auto simp: valid_def)
  have old: "nd h1 x = nd h x" if "valid h x" for x using a(6) [of x] that na by auto
  have "node_ok h1 x" if x: "valid h x" for x
  proof -
    have ne: "c \<noteq> a" if "valid h c" for c using that na by auto
    have "rooted h1 x" by (rule rooted_upto [OF L(5) [OF x] x l]) (simp add: old)
    moreover have "nd_children (nd h1 x) = nd_children (nd h x)" "nd_parent (nd h1 x) = nd_parent (nd h x)"
      "nd_is_dummy (nd h1 x) = nd_is_dummy (nd h x)" using old [OF x] by simp_all
    moreover have "valid h1 c \<and> nd_parent (nd h1 c) = Some x" if "c \<in> set (nd_children (nd h x))" for c
      using L(2) [OF x that] old [of c] v [of c] by simp
    moreover have "valid h1 p \<and> x \<in> set (nd_children (nd h1 p))" if "nd_parent (nd h x) = Some p" for p
      using L(3) [OF x that] old [of p] v [of p] by simp
    ultimately show ?thesis using L(1,4) [OF x] by (simp add: node_ok_def)
  qed
  moreover have "node_ok h1 a"
    using nb a(5) by (auto simp: node_ok_def newborn_def intro: rooted.top)
  ultimately have "links_ok h1" using v L(6) a(3) by (auto simp: links_ok_def)
  moreover have "nd_children (nd h1 c) = [] \<and> nd_state (nd h1 c) = UNUSED"
    if "valid h1 p" "c \<in> set (tl (nd_children (nd h1 p)))" for p c
  proof -
    have p: "valid h p" using that v [of p] nb a(5) by (auto simp: newborn_def)
    have c: "c \<in> set (tl (nd_children (nd h p)))" using that(2) old [OF p] by simp
    then have "c \<in> set (nd_children (nd h p))" by (metis list.set_sel(2) tl_Nil)
    then have "valid h c" using L(2) [OF p] by blast
    then show ?thesis using tree_okD(2) [OF arenaD(1) [OF ar] p c] old by simp
  qed
  moreover have "nd_parent (nd h1 r) = None" if "hp_roots h1 k = Some r" for k r
    using tree_okD(3) [OF arenaD(1) [OF ar], of k r] L(6) [of k r] that a(3) old by simp
  ultimately have "tree_ok h1" by (auto simp: tree_ok_def)
  moreover have "worth_ok (nd h1 x) \<and> nd_thread (nd h1 x) = t \<and> nd_root (nd h1 x) \<in> {None, Some t}" if "valid h1 x" for x
  proof (cases "x = a")
    case True
    then show ?thesis using nb a(5) by (simp add: newborn_def)
  next
    case False
    then have x: "valid h x" using v that by simp
    then show ?thesis using arenaD(3-5) [OF ar x] old by simp
  qed
  ultimately show ?thesis using arenaD(2) [OF ar] a(4) by (simp add: arena_def)
qed

text \<open>A node may get children while none of them waits in another node's list.\<close>

definition may_parent :: "addr \<Rightarrow> ('a, 'r, 'w) heap \<Rightarrow> bool" where
  "may_parent q h \<longleftrightarrow> valid h q \<and> (\<forall>p. valid h p \<longrightarrow> q \<notin> set (tl (nd_children (nd h p))))"

lemma node_init_root:
  assumes ar: "arena t h" and a: "valid h a" "nd h a = n" and nb: "newborn t n"
  shows "\<exists>h'. node_init a None h = Inr h' \<and> arena t h' \<and> submittable a h'"
proof -
  let ?h = "h\<lparr>hp_roots := (hp_roots h)(t := Some a)\<rparr>"
  let ?h' = "with_nd a (\<lambda>n. n\<lparr>nd_root := Some t\<rparr>) ?h"
  have t: "nd_thread (nd h a) = t" using nb a by (simp add: newborn_def)
  have h': "node_init a None h = Inr ?h'"
    using arenaD(2) [OF ar] t by (simp add: node_init_def Let_def set_root_def lb_get_root_def)
  note L = links_okD [OF tree_okD(1) [OF arenaD(1) [OF ar]]]
  have p: "nd_parent (nd ?h' x) = nd_parent (nd h x)" "nd_children (nd ?h' x) = nd_children (nd h x)"
    "nd_state (nd ?h' x) = nd_state (nd h x)" "nd_is_dummy (nd ?h' x) = nd_is_dummy (nd h x)"
    "worth_ok (nd ?h' x) = worth_ok (nd h x)" "nd_thread (nd ?h' x) = nd_thread (nd h x)"
    "nd_root (nd ?h' x) = nd_root (nd h x) \<or> nd_root (nd ?h' x) = Some t" for x
    by (auto simp: with_nd_apply worth_ok_def)
  have r: "rooted ?h' x" if "rooted h x" for x by (rule rooted_cut [OF that]) (simp add: p(1))
  have "node_ok ?h' x" if "valid h x" for x
    using that L(1-5) [OF that] r [OF L(5) [OF that]] unfolding node_ok_def p valid_def by simp
  moreover have "valid h x" if "((hp_roots h)(t := Some a)) k = Some x" for k x
    using that a(1) L(6) [of k x] by (simp split: if_splits)
  ultimately have l: "links_ok ?h'" by (simp add: links_ok_def valid_def)
  have "tree_ok ?h'"
  proof (rule tree_ok_shrink [OF arenaD(1) [OF ar] l])
    show "nd_parent (nd ?h' x) = None" if "hp_roots ?h' k = Some x" for k x
      using that tree_okD(3) [OF arenaD(1) [OF ar], of k x] nb a(2) by (auto simp: p newborn_def split: if_splits)
  qed (simp_all add: p)
  moreover have "worth_ok (nd ?h' x) \<and> nd_thread (nd ?h' x) = t \<and> nd_root (nd ?h' x) \<in> {None, Some t}" if "valid h x" for x
    using arenaD(3-5) [OF ar that] p(5-7) [of x] by auto
  ultimately have "arena t ?h'" using arenaD(2) [OF ar] by (simp add: arena_def valid_def)
  moreover have "submittable a ?h'"
    using nb a p by (simp add: submittable_def newborn_def get_root_def valid_def)
  ultimately show ?thesis using h' by blast
qed

lemma node_init_child:
  assumes ar: "arena t h" and a: "valid h a" "nd h a = n" and nb: "newborn t n" and q: "may_parent q h" "q \<noteq> a"
    and fresh: "\<And>x. valid h x \<Longrightarrow> nd_parent (nd h x) \<noteq> Some a"
    and noroot: "\<And>k. hp_roots h k \<noteq> Some a"
  shows "\<exists>h'. node_init a (Some q) h = Inr h' \<and> arena t h' \<and> submittable a h'"
proof -
  note tr = arenaD(1) [OF ar]
  note l = tree_okD(1) [OF tr]
  note L = links_okD [OF l]
  have n: "nd_parent (nd h a) = None" "nd_children (nd h a) = []" "\<not> nd_is_dummy (nd h a)" "nd_state (nd h a) = UNUSED"
    "nd_thread (nd h a) = t" "worth_ok (nd h a)"
    using nb a by (simp_all add: newborn_def)
  have q1: "valid h q" "nd_thread (nd h q) = t" using q arenaD(4) [OF ar] by (simp_all add: may_parent_def)
  have notin: "a \<notin> set (nd_children (nd h q))" by (rule not_child_again [OF l q1(1) n(1)])
  define c where "c = lb_get_root t h"
  have c: "c \<in> {None, Some t}" by (simp add: c_def lb_get_root_def split: balancing_policy.split)
  define h' where "h' = with_nd a (\<lambda>n. n\<lparr>nd_parent := Some q, nd_root := c\<rparr>)
    (with_nd q (\<lambda>n. n\<lparr>nd_children := nd_children n @ [a]\<rparr>) h)"
  have "node_init a (Some q) h = Inr h'"
  proof -
    have eq: "with_nd a f (with_nd q g (with_nd a k h)) = with_nd a (\<lambda>n. f (k n)) (with_nd q g h)" for f g k
      using q(2) by (auto simp: with_nd_def fun_upd_twist)
    have e: "enter_child q a (with_nd a (\<lambda>n. n\<lparr>nd_parent := Some q\<rparr>) h) =
        with_nd q (\<lambda>n. n\<lparr>nd_children := nd_children n @ [a]\<rparr>) (with_nd a (\<lambda>n. n\<lparr>nd_parent := Some q\<rparr>) h)"
      using notin q(2) by (simp add: enter_child_def with_nd_def)
    have "lb_get_root (nd_thread (nd (enter_child q a (with_nd a (\<lambda>n. n\<lparr>nd_parent := Some q\<rparr>) h)) q))
        (enter_child q a (with_nd a (\<lambda>n. n\<lparr>nd_parent := Some q\<rparr>) h)) = c"
      unfolding e using q1(2) q(2) by (auto simp: c_def lb_get_root_def split: balancing_policy.split)
    then show ?thesis
      using n q(2) by (simp add: node_init_def set_parent_def Let_def e eq h'_def)
  qed
  have P: "nd_parent (nd h' x) = (if x = a then Some q else nd_parent (nd h x))"
    "nd_children (nd h' x) = (if x = q then nd_children (nd h x) @ [a] else nd_children (nd h x))"
    "nd_root (nd h' x) = (if x = a then c else nd_root (nd h x))" "nd_is_dummy (nd h' x) = nd_is_dummy (nd h x)"
    "nd_state (nd h' x) = nd_state (nd h x)" "nd_thread (nd h' x) = nd_thread (nd h x)"
    "worth_ok (nd h' x) = worth_ok (nd h x)" for x
    using q(2) by (auto simp: h'_def with_nd_apply worth_ok_def)
  have H: "hp_count h' = hp_count h" "hp_roots h' = hp_roots h" "hp_policy h' = hp_policy h"
    by (simp_all add: h'_def)
  have v: "valid h' x = valid h x" for x by (simp add: valid_def H)
  have up: "rooted h x \<Longrightarrow> valid h x \<Longrightarrow> x \<noteq> a \<Longrightarrow> rooted h' x" for x
  proof (induction rule: rooted.induct)
    case (top x)
    then show ?case by (intro rooted.top) (simp add: P)
  next
    case (below x p)
    have "p \<noteq> a" using fresh [OF below.prems(1)] below.hyps(1) by auto
    moreover have "valid h p" using L(3) [OF below.prems(1) below.hyps(1)] by blast
    ultimately have "rooted h' p" using below.IH by blast
    then show ?case using below.hyps(1) below.prems(2) by (intro rooted.below [of h' x p]) (simp_all add: P)
  qed
  have qr: "rooted h' q" using up [OF L(5) [OF q1(1)] q1(1) q(2)] .
  have "node_ok h' x" if x: "valid h x" for x
  proof -
    have "rooted h' x"
    proof (cases "x = a")
      case True
      then show ?thesis using qr by (intro rooted.below [of h' x q]) (simp_all add: P)
    qed (rule up [OF L(5) [OF x] x])
    moreover have "distinct (nd_children (nd h' x))" using L(1) [OF x] notin by (auto simp: P)
    moreover have "valid h k \<and> nd_parent (nd h' k) = Some x" if "k \<in> set (nd_children (nd h' x))" for k
    proof -
      have "k \<in> set (nd_children (nd h x)) \<or> x = q \<and> k = a" using that by (auto simp: P split: if_splits)
      then show ?thesis using L(2) [OF x, of k] a(1) n(1) by (auto simp: P)
    qed
    moreover have "valid h p \<and> x \<in> set (nd_children (nd h' p))" if "nd_parent (nd h' x) = Some p" for p
      using that L(3) [OF x, of p] q1(1) by (auto simp: P split: if_splits)
    moreover have "nd_is_dummy (nd h' x) \<longrightarrow> nd_parent (nd h' x) = None" using L(4) [OF x] n(3) by (auto simp: P)
    ultimately show ?thesis unfolding node_ok_def v by blast
  qed
  then have "links_ok h'" using L(6) by (simp add: links_ok_def v H)
  moreover have "nd_children (nd h' k) = [] \<and> nd_state (nd h' k) = UNUSED"
    if p: "valid h p" and k: "k \<in> set (tl (nd_children (nd h' p)))" for p k
  proof -
    have "k \<in> set (tl (nd_children (nd h p))) \<or> k = a"
      using k by (cases "nd_children (nd h p)") (auto simp: P split: if_splits)
    moreover have "q \<notin> set (tl (nd_children (nd h p)))" using q(1) p by (simp add: may_parent_def)
    ultimately show ?thesis
      using tree_okD(2) [OF tr p, of k] n q(2) by (auto simp: P)
  qed
  moreover have "nd_parent (nd h' r) = None" if "hp_roots h k = Some r" for k r
    using tree_okD(3) [OF tr that] noroot [of k] that by (auto simp: P)
  ultimately have "tree_ok h'" by (simp add: tree_ok_def v H)
  moreover have "worth_ok (nd h' x) \<and> nd_thread (nd h' x) = t \<and> nd_root (nd h' x) \<in> {None, Some t}" if "valid h x" for x
    using arenaD(3-5) [OF ar that] c by (auto simp: P)
  ultimately have "arena t h'" using arenaD(2) [OF ar] by (simp add: arena_def v H)
  moreover have "submittable a h'" using n a q(2) by (simp add: submittable_def v P)
  ultimately show ?thesis using \<open>node_init a (Some q) h = Inr h'\<close> by blast
qed

lemma created_arena:
  assumes ar: "arena t h" and ad: "adds h (a, h1) n" and nb: "newborn t n"
    and p: "p = None \<or> (\<exists>q. p = Some q \<and> may_parent q h)"
  shows "\<exists>h'. created p (a, h1) = Inr (a, h') \<and> arena t h' \<and> submittable a h'"
proof -
  have ar1: "arena t h1" by (rule added_arena [OF ar ad nb])
  have a: "a = hp_count h" "hp_count h1 = Suc a" "hp_roots h1 = hp_roots h" "nd h1 a = n"
    "\<And>x. x \<noteq> a \<Longrightarrow> nd h1 x = nd h x"
    using ad by (auto simp: adds_def)
  note L = links_okD [OF tree_okD(1) [OF arenaD(1) [OF ar]]]
  have va: "valid h1 a" using a(2) by (simp add: valid_def)
  have na: "\<not> valid h a" using a(1) by (simp add: valid_def)
  show ?thesis
  proof (cases p)
    case None
    then show ?thesis using node_init_root [OF ar1 va a(4) nb] by (auto simp: created_def)
  next
    case (Some q)
    then have q: "may_parent q h" using p by simp
    then have qa: "q \<noteq> a" "valid h q" using na by (auto simp: may_parent_def)
    have old: "valid h x" if "valid h1 x" "x \<noteq> a" for x using that a(1,2) by (auto simp: valid_def)
    have kids: "nd_children (nd h1 a) = []" using nb a(4) by (simp add: newborn_def)
    have "may_parent q h1"
    proof -
      have "q \<notin> set (tl (nd_children (nd h1 x)))" if "valid h1 x" for x
        using q old [OF that] a(5) [of x] kids by (cases "x = a") (auto simp: may_parent_def)
      moreover have "valid h1 q" using qa a(1,2) by (simp add: valid_def)
      ultimately show ?thesis by (simp add: may_parent_def)
    qed
    moreover have "nd_parent (nd h1 x) \<noteq> Some a" if "valid h1 x" for x
    proof (cases "x = a")
      case True
      then show ?thesis using nb a(4) by (simp add: newborn_def)
    next
      case False
      then show ?thesis using L(3) [OF old [OF that False], of a] a(5) [OF False] na by auto
    qed
    moreover have "hp_roots h1 k \<noteq> Some a" for k using L(6) [of k a] na a(3) by auto
    ultimately show ?thesis
      using node_init_child [OF ar1 va a(4) nb _ qa(1)] Some by (fastforce simp: created_def)
  qed
qed

end
