(* ===== verification/Balancer_Properties.thy ===== *)
theory Balancer_Properties
  imports Balancer_Create
begin

text \<open>
  The properties of the nodes and of the load balancers, with a small search tree as the example: node
  \<open>0\<close> is the root, \<open>1\<close> and \<open>2\<close> its children, \<open>3\<close> the child of \<open>1\<close>; all are made by thread \<open>0\<close>, with
  explicit arguments.
\<close>

section \<open>An example\<close>

type_synonym sample_heap = "(nat, nat, unit) heap"

definition sample_nd :: "ptr \<Rightarrow> addr list \<Rightarrow> (nat, nat, unit) nd" where
  "sample_nd p cs = (new_nd 0 0 1 False)\<lparr>nd_parent := p, nd_children := cs, nd_root := Some 0,
     nd_flag := INITIALIZED, nd_runnable := Some 9\<rparr>"

definition sample_heap :: sample_heap where
  "sample_heap = (new_heap QUASI_HORIZONTAL True 0 ())\<lparr>hp_count := 4, hp_roots := (\<lambda>t. if t = 0 then Some 0 else None),
     hp_nodes := (\<lambda>a. if a = 0 then sample_nd None [1, 2] else if a = 1 then sample_nd (Some 0) [3]
                      else if a = 2 then sample_nd (Some 0) [] else sample_nd (Some 1) [])\<rparr>"

text \<open>Everything outside says yes: the lock is free, no task runs, the channel is open.\<close>

definition free_outside :: "unit outside" where
  "free_outside = \<lparr>out_try_lock = (\<lambda>w. (True, w)), out_tasks_running = (\<lambda>w. (0, w)),
     out_try_open = (\<lambda>w. (True, w)), out_force_push = (\<lambda>p i w. Inr (0, w))\<rparr>"

lemma sample_sel:
  "hp_count sample_heap = 4" "hp_policy sample_heap = QUASI_HORIZONTAL"
  "hp_roots sample_heap t = (if t = 0 then Some 0 else None)"
  "nd_parent (nd sample_heap a) = (if a = 0 then None else if a = 1 \<or> a = 2 then Some 0 else Some 1)"
  "nd_children (nd sample_heap a) = (if a = 0 then [1, 2] else if a = 1 then [3] else [])"
  "nd_state (nd sample_heap a) = UNUSED" "nd_flag (nd sample_heap a) = INITIALIZED" "nd_thread (nd sample_heap a) = 0"
  "nd_root (nd sample_heap a) = Some 0" "\<not> nd_is_dummy (nd sample_heap a)"
  by (simp_all add: sample_heap_def sample_nd_def new_heap_def new_nd_def)

lemma sample_rooted: "rooted sample_heap a"
proof -
  have 0: "rooted sample_heap 0" by (rule rooted.top) (simp add: sample_sel)
  have 1: "rooted sample_heap 1" by (rule rooted.below [OF _ 0]) (simp add: sample_sel)
  show ?thesis
  proof (cases "a = 0 \<or> a = 1")
    case True
    then show ?thesis using 0 1 by blast
  next
    case False
    then have "nd_parent (nd sample_heap a) = Some 0 \<or> nd_parent (nd sample_heap a) = Some 1"
      by (simp add: sample_sel)
    then show ?thesis using 0 1 rooted.below by blast
  qed
qed

lemma sample_arena: "arena 0 sample_heap"
proof -
  have four: "valid sample_heap x \<longleftrightarrow> x = 0 \<or> x = 1 \<or> x = 2 \<or> x = 3" for x
    by (auto simp: valid_def sample_sel)
  have "links_ok sample_heap"
    using sample_rooted by (auto simp: links_ok_def node_ok_def four sample_sel split: if_splits)
  then have "tree_ok sample_heap" by (auto simp: tree_ok_def four sample_sel split: if_splits)
  then show ?thesis by (simp add: arena_def sample_sel worth_ok_def)
qed

lemma sample_submittable: "submittable 3 sample_heap"
  by (simp add: submittable_def valid_def sample_sel)

lemma handed_states:
  assumes "handed h h'"
  shows "nd_state (nd h' x) = nd_state (nd h x) \<or> nd_state (nd h' x) \<in> {PUSHED, DISCARDED}"
proof -
  obtain ns :: "addr list" where "\<forall>n \<in> set ns. nd_state (nd h n) = UNUSED \<and> nd_state (nd h' n) = PUSHED"
    "\<forall>x. x \<notin> set ns \<longrightarrow> nd_state (nd h' x) = nd_state (nd h x) \<or>
       nd_state (nd h x) = UNUSED \<and> nd_state (nd h' x) = DISCARDED"
    using assms unfolding handed_def by blast
  then show ?thesis by (cases "x \<in> set ns") auto
qed

section \<open>Properties\<close>

text \<open>C10: A local submission hands over each node at most once. Whatever \<open>send\<close> of either balancer
  returns, the tasks it added to the pool are distinct nodes that were unused and are pushed now, and any
  other node is as it was or went from unused to discarded; when it reports success, the node it was
  called for has been pushed or discarded.\<close>

theorem send_hands_over_once:
  assumes "qh_send_locally out a h = Inr (b, h') \<or> ws_send_locally out a h = Inr (b, h')"
  shows "(\<exists>ns ks. hp_pool h' = hp_pool h @ zip ns ks \<and> length ks = length ns \<and> distinct ns \<and>
      (\<forall>n \<in> set ns. nd_state (nd h n) = UNUSED \<and> nd_state (nd h' n) = PUSHED) \<and>
      (\<forall>x. x \<notin> set ns \<longrightarrow> nd_state (nd h' x) = nd_state (nd h x) \<or>
         nd_state (nd h x) = UNUSED \<and> nd_state (nd h' x) = DISCARDED)) \<and>
    (b \<longrightarrow> nd_state (nd h' a) \<in> {PUSHED, DISCARDED})"
proof -
  have "handed h h' \<and> (b \<longrightarrow> nd_state (nd h' a) \<in> {PUSHED, DISCARDED})"
    using assms by (rule disjE) (rule send_locally_handed, assumption, rule ws_send_locally_handed, assumption)
  then show ?thesis unfolding handed_def .
qed

lemma send_hands_over_once_witness:
  "\<exists>b h'. qh_send_locally free_outside 3 sample_heap = Inr (b, h') \<and>
     (\<exists>ns ks. hp_pool h' = zip ns ks \<and> distinct ns \<and> (\<forall>n \<in> set ns. nd_state (nd h' n) = PUSHED))"
proof -
  obtain b h' where h': "qh_send_locally free_outside 3 sample_heap = Inr (b, h')"
    using send_locally_arena [OF sample_arena sample_submittable] by blast
  have e: "hp_pool sample_heap = []" by (simp add: sample_heap_def new_heap_def)
  obtain ns :: "addr list" and ks :: "nat list" where n: "hp_pool h' = hp_pool sample_heap @ zip ns ks" "distinct ns"
      "\<forall>n \<in> set ns. nd_state (nd sample_heap n) = UNUSED \<and> nd_state (nd h' n) = PUSHED"
    using send_hands_over_once [OF disjI1 [OF h'], THEN conjunct1] by (elim exE conjE)
  have "hp_pool h' = zip ns ks" "\<forall>n \<in> set ns. nd_state (nd h' n) = PUSHED" using n e by simp_all
  then show ?thesis using h' n(2) by (intro exI conjI)
qed

text \<open>C9: On a well-formed tree of one thread, submitting an unused leaf through the quasi-horizontal
  balancer never throws, whatever the lock and the pool answer, and leaves the tree well formed: no node
  found at the root's level is consumed already, no handle is null, and the loop ends.\<close>

theorem send_never_throws:
  assumes "arena t h" and "submittable a h"
  shows "\<exists>b h'. qh_send_locally out a h = Inr (b, h') \<and> arena t h'"
  by (rule send_locally_arena [OF assms])

lemma send_never_throws_witness:
  "\<exists>b h'. qh_send_locally free_outside 3 sample_heap = Inr (b, h') \<and> arena 0 h'"
  by (rule send_never_throws [OF sample_arena sample_submittable])

text \<open>C22: A node created by a thread on its own tree, as a root or below a node that is not itself
  waiting, is one that can be submitted, and the tree stays well formed.\<close>

theorem created_can_be_submitted:
  assumes "arena t h" and "p = None \<or> (\<exists>q. p = Some q \<and> may_parent q h)"
  shows "(\<exists>a h'. create_serializable_explicit t p f args ser deser h = Inr (a, h') \<and> arena t h' \<and> submittable a h') \<and>
    (\<exists>a h'. create_serializable_lazy t p f g ser deser h = Inr (a, h') \<and> arena t h' \<and> submittable a h')"
proof
  obtain n where n: "adds h (construct_explicit t f args ser deser h) n" "newborn t n"
    using construct_explicit_adds [of h t f args ser deser] by (elim exE conjE)
  obtain a h1 where c: "construct_explicit t f args ser deser h = (a, h1)" by (metis prod.exhaust)
  from created_arena [OF assms(1) n(1) [unfolded c] n(2) assms(2)]
  show "\<exists>a h'. create_serializable_explicit t p f args ser deser h = Inr (a, h') \<and> arena t h' \<and> submittable a h'"
    unfolding create_serializable_explicit_def c by blast
next
  obtain n where n: "adds h (construct_lazy t f g ser deser h) n" "newborn t n"
    using construct_lazy_adds [of h t f g ser deser] by (elim exE conjE)
  obtain a h1 where c: "construct_lazy t f g ser deser h = (a, h1)" by (metis prod.exhaust)
  from created_arena [OF assms(1) n(1) [unfolded c] n(2) assms(2)]
  show "\<exists>a h'. create_serializable_lazy t p f g ser deser h = Inr (a, h') \<and> arena t h' \<and> submittable a h'"
    unfolding create_serializable_lazy_def c by blast
qed

lemma created_can_be_submitted_witness:
  "\<exists>a h'. create_serializable_explicit 0 (Some 3) 9 5 None None sample_heap = Inr (a, h') \<and> submittable a h'"
proof -
  have "may_parent 3 sample_heap" by (simp add: may_parent_def valid_def sample_sel)
  then show ?thesis using created_can_be_submitted [OF sample_arena, of "Some 3"] by blast
qed

text \<open>C11: \<open>try_correct_root\<close> moves the root of the thread's tree down exactly through the nodes with a
  single child: the new root has no parent, is the node itself or has no child or several, and no node
  that had work waiting beside its first child loses any of it.\<close>

theorem correct_root_lowers:
  assumes "tree_ok h" and "hp_policy h = QUASI_HORIZONTAL" and "\<And>x. valid h x \<Longrightarrow> nd_thread (nd h x) = t"
    and "nd_root (nd h a) = Some t" and "get_root a h = Some r"
  shows "\<exists>h' r'. try_correct_root (Some a) h = Inr h' \<and> tree_ok h' \<and> only_path h r r' \<and> hp_roots h' t = Some r' \<and>
    nd_parent (nd h' r') = None \<and> (r' = a \<or> length (nd_children (nd h r')) \<noteq> 1) \<and>
    (\<forall>x. length (nd_children (nd h x)) \<noteq> 1 \<longrightarrow> nd_children (nd h' x) = nd_children (nd h x))"
proof -
  have r: "hp_roots h t = Some r" using assms(4,5) by (simp add: get_root_def)
  have v: "valid h r" "nd_parent (nd h r) = None"
    using links_okD(6) [OF tree_okD(1) [OF assms(1)] r] tree_okD(3) [OF assms(1) r] by simp_all
  show ?thesis
  proof (cases "r = a \<and> get_children_count r h = 0 \<or> 2 \<le> get_children_count r h")
    case True
    then have "try_correct_root (Some a) h = Inr h"
      using assms(5) by (auto simp: try_correct_root_def throw_if_null_def)
    moreover have "length (nd_children (nd h r)) \<noteq> 1" using True by (auto simp: get_children_count_def)
    ultimately show ?thesis using assms(1) r v only_path.here by blast
  next
    case False
    then have "try_correct_root (Some a) h = lower_root a r h"
      using assms(5) by (auto simp: try_correct_root_def throw_if_null_def)
    then show ?thesis using lower_root_spec [OF assms(1) v assms(2) r assms(3), of a] by simp
  qed
qed

lemma correct_root_lowers_witness:
  "\<exists>h' r'. try_correct_root (Some 3) sample_heap = Inr h' \<and> only_path sample_heap 0 r' \<and> hp_roots h' 0 = Some r' \<and>
     nd_children (nd h' 0) = [1, 2]"
proof -
  have "\<And>x. valid sample_heap x \<Longrightarrow> nd_thread (nd sample_heap x) = 0" by (simp add: sample_sel)
  from correct_root_lowers [OF arenaD(1,2) [OF sample_arena] this, of 3 0]
  show ?thesis by (auto simp: sample_sel get_root_def)
qed

text \<open>C12: Work near the root goes first: when the submitted node lies below the root's children and the
  root has a child waiting, one round of \<open>send\<close> hands over the second child of the root, takes it out
  of the tree, and leaves the submitted node still submittable.\<close>

theorem root_level_first:
  assumes "arena t h" and "submittable a h" and "get_root a h = Some r" and "nd_parent (nd h a) \<notin> {None, Some r}"
    and "2 \<le> length (nd_children (nd h r))"
  shows "\<exists>h'. try_push_root_level_node delegate_locally a h = Inr (True, h') \<and> arena t h' \<and> submittable a h' \<and>
    nd_state (nd h (nd_children (nd h r) ! 1)) = UNUSED \<and>
    nd_state (nd h' (nd_children (nd h r) ! 1)) \<in> {PUSHED, DISCARDED} \<and>
    nd_state (nd h' a) = nd_state (nd h a)"
proof -
  obtain b h' where p: "try_push_root_level_node delegate_locally a h = Inr (b, h')" "arena t h'" "submittable a h'"
    using try_push_arena [OF assms(1,2)] by blast
  have "get_root_level_pending_node a h \<noteq> Inr (None, h)"
    using assms(3-5) by (cases "nd_children (nd h r)" rule: remdups_adj.cases)
      (auto simp: get_root_level_pending_node_def get_children_count_def get_second_leftmost_child_def deref_def prune_eq)
  then obtain c where c: "get_root_level_pending_node a h = Inr (Some c, pruned c h)"
    using pending_node_ok [OF assms(1,2)] by blast
  then have b: "b" using p(1) by (auto simp: try_push_root_level_node_def split: if_splits)
  have t: "try_push_root_level_node delegate_locally a h = Inr (True, h')" using p(1) b by simp
  obtain d where d: "nd_state (nd h d) = UNUSED" "nd_state (nd h' d) \<noteq> UNUSED" "d = nd_children (nd h r) ! 1"
    using try_push_frame [OF delegates_locally t] assms(3) by (metis option.inject)
  have "nd_state (nd h' d) \<in> {PUSHED, DISCARDED}"
    using handed_states [OF handed_push [OF t], of d] d(1,2) by simp
  moreover have "nd_state (nd h' a) = nd_state (nd h a)" using assms(2) p(3) by (simp add: submittable_def)
  ultimately show ?thesis using t p d by blast
qed

lemma root_level_first_witness:
  "\<exists>h'. try_push_root_level_node delegate_locally 3 sample_heap = Inr (True, h') \<and>
     nd_state (nd h' 2) \<in> {PUSHED, DISCARDED} \<and> nd_state (nd h' 3) = UNUSED"
proof -
  have "get_root 3 sample_heap = Some 0" by (simp add: get_root_def sample_sel)
  from root_level_first [OF sample_arena sample_submittable this] show ?thesis
    by (auto simp: sample_sel)
qed

text \<open>The initializer of a node runs at most once: after \<open>should_branch\<close> has answered, every later
  call gives the same answer and changes nothing, whatever has become of the rest of the world.\<close>

theorem should_branch_asks_once:
  assumes "should_branch a h = Inr (b, h1)" and "nd_should_branch_cached (nd h2 a) = nd_should_branch_cached (nd h1 a)"
  shows "should_branch a h2 = Inr (b, h2)"
proof -
  have "nd_should_branch_cached (nd h1 a) = Some b" using should_branch_inner [OF assms(1)] by blast
  then show ?thesis using assms(2) by (simp add: should_branch_def)
qed

lemma should_branch_asks_once_witness:
  "\<exists>h1. should_branch 3 sample_heap = Inr (True, h1) \<and> should_branch 3 h1 = Inr (True, h1)"
proof -
  have "nd_should_branch_cached (nd sample_heap 3) = None" by (simp add: sample_heap_def sample_nd_def new_nd_def)
  then obtain h1 where "should_branch 3 sample_heap = Inr (True, h1)" by (simp add: should_branch_def sample_sel)
  then show ?thesis using should_branch_asks_once [of 3 sample_heap True h1 h1] by blast
qed

text \<open>C30: A node is consumed once: whichever two of \<open>run\<close>, \<open>delegate_locally\<close> and \<open>delegate_remotely\<close>
  are called on a node one after the other, the second throws, and a consumed node makes either throw
  the message that names its state.\<close>

theorem consumed_once:
  assumes "f \<in> {run_node user me, delegate_locally, delegate_remotely push fid}"
    and "g \<in> {run_node user' me', delegate_locally, delegate_remotely push' fid'}"
  shows "\<not> is_ok (rbind (f a h) (g a)) \<and>
    (nd_state (nd h a) \<noteq> UNUSED \<longrightarrow> f a h = Inl (Thrown (''node is already consumed, node: '' @ show_id (nd h a) @
       '', state: '' @ get_state_string (nd_state (nd h a)))))"
proof -
  have used: "nd_state (nd h1 a) \<noteq> UNUSED" if "f a h = Inr h1" for h1
    using assms(1) that delegate_locally_frame(2) [of a h h1] delegate_remotely_frame(2) [of push fid a h h1]
    by (auto simp: run_node_def case_prod_beta Let_def)
  have throws: "k a h1 = Inl (Thrown (''node is already consumed, node: '' @ show_id (nd h1 a) @
       '', state: '' @ get_state_string (nd_state (nd h1 a))))"
    if "k \<in> {run_node u m, delegate_locally, delegate_remotely ps i}" "nd_state (nd h1 a) \<noteq> UNUSED" for k u m ps i h1
    using that by (auto simp: run_node_def delegate_locally_def delegate_remotely_def not_consumed_def)
  have "\<not> is_ok (rbind (f a h) (g a))"
  proof (cases "f a h")
    case (Inr h1)
    then show ?thesis using throws [OF assms(2) used [OF Inr]] by simp
  qed simp
  then show ?thesis using throws [OF assms(1)] by blast
qed

lemma consumed_once_witness:
  "\<not> is_ok (rbind (delegate_locally 3 sample_heap) (delegate_locally 3))"
  using consumed_once [of delegate_locally "\<lambda>f t x p h. (Inr None, h)" 0 "\<lambda>p i w. Inr (0, w)" 0 delegate_locally
      "\<lambda>f t x p h. (Inr None, h)" 0 "\<lambda>p i w. Inr (0, w)" 0 3 sample_heap] by blast

text \<open>C39: Moving a node to another parent leaves it among the children of the old one: \<open>set_parent\<close>
  never removes it there, so it becomes a child of both, and pruning it later removes it from one only.\<close>

theorem set_parent_keeps_old_child:
  assumes "set_parent a (Some q) h = Inr h'" and "nd_parent (nd h a) = Some p" and "p \<noteq> q" and "p \<noteq> a"
    and "a \<in> set (nd_children (nd h p))"
  shows "a \<in> set (nd_children (nd h' p)) \<and> a \<in> set (nd_children (nd h' q)) \<and> nd_parent (nd h' a) = Some q \<and>
    a \<in> set (nd_children (nd (pruned a h') p))"
proof -
  have qa: "q \<noteq> a" using assms(1) by (auto simp: set_parent_def split: if_splits)
  obtain c where h': "h' = with_nd a (\<lambda>n. n\<lparr>nd_root := c\<rparr>) (enter_child q a (with_nd a (\<lambda>n. n\<lparr>nd_parent := Some q\<rparr>) h))"
    using assms(1-3) by (auto simp: set_parent_def Let_def split: if_splits)
  have "a \<in> set (nd_children (nd h' p))" using assms(3-5) by (simp add: h' enter_child_def)
  moreover have "a \<in> set (nd_children (nd h' q))" using qa by (simp add: h' enter_child_def)
  moreover have "nd_parent (nd h' a) = Some q" using qa by (simp add: h' enter_child_def)
  ultimately show ?thesis using assms(3,4) by (simp add: pruned_apply)
qed

lemma set_parent_keeps_old_child_witness:
  "\<exists>h'. set_parent 3 (Some 2) sample_heap = Inr h' \<and> 3 \<in> set (nd_children (nd h' 1)) \<and> 3 \<in> set (nd_children (nd h' 2))"
proof -
  obtain h' where h': "set_parent 3 (Some 2) sample_heap = Inr h'" by (simp add: set_parent_def sample_sel Let_def)
  from set_parent_keeps_old_child [OF h', of 1] show ?thesis using h' by (simp add: sample_sel)
qed

end
