(* ===== verification/Telemetry_Frames.thy ===== *)
theory Telemetry_Frames
  imports Byte_Codec
begin

text \<open>
  The records telemetry exchanges (\<open>include/gempba/telemetry/frames.hpp\<close>,
  \<open>include/gempba/telemetry/topology.hpp\<close>): the periodic sample of a rank and of a host, the static
  description of the ranks and hosts of a run, and the control messages. A \<open>char\<close> array or a
  \<open>std::string\<close> is a list of bytes without its terminator; a \<open>float\<close> is its bits.
\<close>

definition MAX_WORKERS :: nat where "MAX_WORKERS = 1024"
definition MAX_SOCKETS :: nat where "MAX_SOCKETS = 8"
definition CPU_MASK_WORDS :: nat where "CPU_MASK_WORDS = 1024 div 64"
definition TELEMETRY_SCHEMA_VERSION :: "16 word" where "TELEMETRY_SCHEMA_VERSION = 2"

record edge_counter =
  ec_dst :: "32 word"
  ec_bytes :: "64 word"
  ec_count :: "64 word"

record worker_frame_header =
  wf_version :: "16 word"
  wf_worker_id :: "32 word"
  wf_seq_no :: "32 word"
  wf_snapshot_id :: "32 word"
  wf_worker_local_ms :: "64 word"
  wf_tasks_started_total :: "64 word"
  wf_tasks_sent_total :: "64 word"
  wf_tasks_recv_total :: "64 word"
  wf_bytes_sent_total :: "64 word"
  wf_bytes_recv_total :: "64 word"
  wf_send_microseconds_total :: "64 word"
  wf_recv_microseconds_total :: "64 word"
  wf_spawn_rejected_pool_full :: "64 word"
  wf_spawn_remote_rejected :: "64 word"
  wf_tasks_running :: "32 word"
  wf_scheduler_pending_count :: "32 word"
  wf_idle_microseconds_per_worker :: "64 word"
  wf_idle_microseconds_starved :: "64 word"
  wf_idle_microseconds_imbalanced :: "64 word"
  wf_sched_running_microseconds :: "64 word"
  wf_sched_waiting_microseconds :: "64 word"
  wf_first_task_ms :: "64 word"
  wf_last_task_ms :: "64 word"
  wf_assign_latency_microseconds_total :: "64 word"
  wf_assign_count :: "64 word"
  wf_assign_latency_microseconds_max :: "64 word"
  wf_available_microseconds_queue_empty :: "64 word"
  wf_coordinator_state_msgs_total :: "64 word"
  wf_coordinator_score_proposals_total :: "64 word"
  wf_coordinator_score_broadcasts_total :: "64 word"
  wf_score_proposals_sent :: "64 word"
  wf_last_score_improvement_ms :: "64 word"
  wf_coordinator_full_microseconds :: "64 word"
  wf_telemetry_microseconds_total :: "64 word"
  wf_process_cpu_pct :: "32 word"
  wf_process_rss_bytes :: "64 word"
  wf_process_threads :: "32 word"

record worker_frame = worker_frame_header +
  wf_edges_out :: "edge_counter list"

text \<open>\<open>worker_frame{}\<close>.\<close>

definition zero_frame :: worker_frame where
  "zero_frame = \<lparr>wf_version = 0, wf_worker_id = 0, wf_seq_no = 0, wf_snapshot_id = 0,
     wf_worker_local_ms = 0, wf_tasks_started_total = 0, wf_tasks_sent_total = 0, wf_tasks_recv_total = 0,
     wf_bytes_sent_total = 0, wf_bytes_recv_total = 0, wf_send_microseconds_total = 0,
     wf_recv_microseconds_total = 0, wf_spawn_rejected_pool_full = 0, wf_spawn_remote_rejected = 0,
     wf_tasks_running = 0, wf_scheduler_pending_count = 0, wf_idle_microseconds_per_worker = 0,
     wf_idle_microseconds_starved = 0, wf_idle_microseconds_imbalanced = 0, wf_sched_running_microseconds = 0,
     wf_sched_waiting_microseconds = 0, wf_first_task_ms = 0, wf_last_task_ms = 0,
     wf_assign_latency_microseconds_total = 0, wf_assign_count = 0, wf_assign_latency_microseconds_max = 0,
     wf_available_microseconds_queue_empty = 0, wf_coordinator_state_msgs_total = 0,
     wf_coordinator_score_proposals_total = 0, wf_coordinator_score_broadcasts_total = 0,
     wf_score_proposals_sent = 0, wf_last_score_improvement_ms = 0, wf_coordinator_full_microseconds = 0,
     wf_telemetry_microseconds_total = 0, wf_process_cpu_pct = 0, wf_process_rss_bytes = 0,
     wf_process_threads = 0, wf_edges_out = []\<rparr>"

record socket_stats =
  ss_socket_id :: byte
  ss_cpu_pct :: "32 word"
  ss_mem_total_bytes :: "64 word"
  ss_mem_used_bytes :: "64 word"

record node_frame =
  nf_version :: "16 word"
  nf_sentinel_worker_id :: "32 word"
  nf_sentinel_local_ms :: "64 word"
  nf_hostname :: string
  nf_socket_count :: byte
  nf_logical_cores :: "32 word"
  nf_sockets :: "socket_stats list"
  nf_mem_total_bytes :: "64 word"
  nf_mem_avail_bytes :: "64 word"
  nf_cgroup_mem_used_bytes :: "64 word"
  nf_cgroup_mem_limit_bytes :: "64 word"

record worker_identity =
  wi_version :: "16 word"
  wi_worker_id :: "32 word"
  wi_hostname :: string
  wi_pid :: "32 word"
  wi_primary_socket :: byte
  wi_allowed_cpu_mask :: "64 word list"

datatype control_kind = UNSPECIFIED | BE_NODE_SENTINEL | SET_INTERVAL_MS | PAUSE | RESUME | SNAPSHOT

record control_msg =
  cm_version :: "16 word"
  cm_kind :: control_kind
  cm_value :: "32 word"

section \<open>The topology\<close>

record topology_socket =
  ts_socket_id :: byte
  ts_name :: string
  ts_physical_cores :: "16 word"
  ts_logical_cores :: "16 word"
  ts_cpu_ids :: "32 word list"

record topology_node =
  tn_hostname :: string
  tn_worker_ids :: "32 word list"
  tn_sentinel_worker_id :: "32 word"
  tn_sockets :: "topology_socket list"
  tn_total_physical_cores :: "16 word"
  tn_total_logical_cores :: "16 word"
  tn_mem_total_bytes :: "64 word"

record topology_snapshot =
  tp_nodes :: "topology_node list"
  tp_identities :: "worker_identity list"

datatype marker_source = CODE | DASHBOARD
datatype rank_role = ROLE_WORKER | ROLE_COORDINATOR
datatype runtime_mode = MT_ONLY | MP_MPI

record run_marker =
  rm_elapsed_ms :: "64 word"
  rm_label :: string
  rm_source :: marker_source

record run_description =
  rd_mode :: runtime_mode
  rd_scheduler :: string
  rd_load_balancer :: string
  rd_world_size :: "32 word"
  rd_roles :: "rank_role list"
  rd_threads_per_process :: "32 word"
  rd_gempba_version :: string
  rd_annotations :: "(string \<times> string) list"
  rd_markers :: "run_marker list"

definition empty_socket :: topology_socket where
  "empty_socket = \<lparr>ts_socket_id = 0, ts_name = [], ts_physical_cores = 0, ts_logical_cores = 0, ts_cpu_ids = []\<rparr>"

definition empty_node :: topology_node where
  "empty_node = \<lparr>tn_hostname = [], tn_worker_ids = [], tn_sentinel_worker_id = 0, tn_sockets = [],
     tn_total_physical_cores = 0, tn_total_logical_cores = 0, tn_mem_total_bytes = 0\<rparr>"

end
