(* ===== verification/Scheduler_Clock.thy ===== *)
theory Scheduler_Clock
  imports Telemetry_Frames
begin

text \<open>
  \<open>scheduler_clock\<close> (\<open>private/impl/telemetry/scheduler_clock.hpp\<close>): the times of a rank's scheduler, from
  events stamped in microseconds. Times are 64-bit words, as in the code, so that a difference may wrap.
\<close>

datatype clock_phase = CP_NONE | CP_WAITING | CP_RUNNING

record scheduler_clock =
  sc_in_run :: bool
  sc_run_start :: "64 word"
  sc_since :: "64 word"
  sc_phase :: clock_phase
  sc_task_seen :: bool
  sc_running :: "64 word"
  sc_waiting :: "64 word"
  sc_first_task_ms :: "64 word"
  sc_last_task_ms :: "64 word"
  sc_assigned_at :: "nat \<Rightarrow> 64 word"
  sc_assign_latency_total :: "64 word"
  sc_assign_latency_max :: "64 word"
  sc_assign_count :: "64 word"
  sc_available_ranks :: "64 word"
  sc_queue_empty :: bool
  sc_available_queue_empty :: "64 word"
  sc_coordinator_full :: bool
  sc_coordinator_full_time :: "64 word"
  sc_last_score_improvement_ms :: "64 word"

definition k_unassigned :: "64 word" where
  "k_unassigned = - 1"

definition new_clock :: scheduler_clock where
  "new_clock = \<lparr>sc_in_run = False, sc_run_start = 0, sc_since = 0, sc_phase = CP_NONE, sc_task_seen = False,
     sc_running = 0, sc_waiting = 0, sc_first_task_ms = 0, sc_last_task_ms = 0,
     sc_assigned_at = (\<lambda>r. k_unassigned), sc_assign_latency_total = 0, sc_assign_latency_max = 0,
     sc_assign_count = 0, sc_available_ranks = 0, sc_queue_empty = True, sc_available_queue_empty = 0,
     sc_coordinator_full = False, sc_coordinator_full_time = 0, sc_last_score_improvement_ms = 0\<rparr>"

definition accrue :: "64 word \<Rightarrow> scheduler_clock \<Rightarrow> scheduler_clock" where
  "accrue now c =
     (let elapsed = now - sc_since c
      in c\<lparr>sc_running := if sc_phase c = CP_RUNNING then sc_running c + elapsed else sc_running c,
           sc_waiting := if sc_phase c = CP_WAITING then sc_waiting c + elapsed else sc_waiting c,
           sc_available_queue_empty :=
             if sc_queue_empty c then sc_available_queue_empty c + sc_available_ranks c * elapsed
             else sc_available_queue_empty c,
           sc_coordinator_full_time :=
             if sc_coordinator_full c then sc_coordinator_full_time c + elapsed else sc_coordinator_full_time c,
           sc_since := now\<rparr>)"

definition on_run_start :: "64 word \<Rightarrow> scheduler_clock \<Rightarrow> scheduler_clock" where
  "on_run_start now c = c\<lparr>sc_in_run := True, sc_run_start := now, sc_since := now\<rparr>"

definition on_run_end :: "64 word \<Rightarrow> scheduler_clock \<Rightarrow> scheduler_clock" where
  "on_run_end now c =
     (if \<not> sc_in_run c then c else (accrue now c)\<lparr>sc_phase := CP_NONE, sc_in_run := False\<rparr>)"

definition on_worker_waiting :: "64 word \<Rightarrow> scheduler_clock \<Rightarrow> scheduler_clock" where
  "on_worker_waiting now c =
     (if \<not> sc_in_run c then c
      else let c1 = accrue now c;
               c2 = (if sc_phase c1 = CP_RUNNING
                     then c1\<lparr>sc_last_task_ms := (now - sc_run_start c1) div 1000\<rparr> else c1)
           in c2\<lparr>sc_phase := CP_WAITING\<rparr>)"

definition on_worker_running :: "64 word \<Rightarrow> scheduler_clock \<Rightarrow> scheduler_clock" where
  "on_worker_running now c =
     (if \<not> sc_in_run c then c
      else let c1 = accrue now c;
               c2 = (if \<not> sc_task_seen c1
                     then c1\<lparr>sc_task_seen := True, sc_first_task_ms := (now - sc_run_start c1) div 1000\<rparr> else c1)
           in c2\<lparr>sc_phase := CP_RUNNING\<rparr>)"

definition on_assignment :: "32 word \<Rightarrow> 64 word \<Rightarrow> scheduler_clock \<Rightarrow> scheduler_clock" where
  "on_assignment r now c =
     (if unat r < MAX_WORKERS then c\<lparr>sc_assigned_at := (sc_assigned_at c)(unat r := now)\<rparr> else c)"

definition on_assignment_accepted :: "32 word \<Rightarrow> 64 word \<Rightarrow> scheduler_clock \<Rightarrow> scheduler_clock" where
  "on_assignment_accepted r now c =
     (if MAX_WORKERS \<le> unat r \<or> sc_assigned_at c (unat r) = k_unassigned then c
      else let latency = now - sc_assigned_at c (unat r)
           in c\<lparr>sc_assigned_at := (sc_assigned_at c)(unat r := k_unassigned),
                sc_assign_latency_total := sc_assign_latency_total c + latency,
                sc_assign_latency_max := max (sc_assign_latency_max c) latency,
                sc_assign_count := sc_assign_count c + 1\<rparr>)"

definition on_coordinator_queue :: "32 word \<Rightarrow> bool \<Rightarrow> 64 word \<Rightarrow> scheduler_clock \<Rightarrow> scheduler_clock" where
  "on_coordinator_queue available queue_empty now c =
     (if \<not> sc_in_run c then c
      else (accrue now c)\<lparr>sc_available_ranks := ucast available, sc_queue_empty := queue_empty\<rparr>)"

definition on_coordinator_full :: "64 word \<Rightarrow> scheduler_clock \<Rightarrow> scheduler_clock" where
  "on_coordinator_full now c =
     (if \<not> sc_in_run c \<or> sc_coordinator_full c then c else (accrue now c)\<lparr>sc_coordinator_full := True\<rparr>)"

definition on_global_score_improved :: "64 word \<Rightarrow> scheduler_clock \<Rightarrow> scheduler_clock" where
  "on_global_score_improved now c =
     (if sc_in_run c then c\<lparr>sc_last_score_improvement_ms := (now - sc_run_start c) div 1000\<rparr> else c)"

definition on_coordinator_free :: "64 word \<Rightarrow> scheduler_clock \<Rightarrow> scheduler_clock" where
  "on_coordinator_free now c =
     (if \<not> sc_in_run c \<or> \<not> sc_coordinator_full c then c else (accrue now c)\<lparr>sc_coordinator_full := False\<rparr>)"

definition fill :: "'a worker_frame_header_scheme \<Rightarrow> 64 word \<Rightarrow> scheduler_clock \<Rightarrow> 'a worker_frame_header_scheme" where
  "fill f now c =
     (let open_time = (if sc_in_run c then now - sc_since c else 0)
      in f\<lparr>wf_sched_running_microseconds := sc_running c + (if sc_phase c = CP_RUNNING then open_time else 0),
           wf_sched_waiting_microseconds := sc_waiting c + (if sc_phase c = CP_WAITING then open_time else 0),
           wf_first_task_ms := sc_first_task_ms c,
           wf_last_task_ms := sc_last_task_ms c,
           wf_assign_latency_microseconds_total := sc_assign_latency_total c,
           wf_assign_count := sc_assign_count c,
           wf_assign_latency_microseconds_max := sc_assign_latency_max c,
           wf_available_microseconds_queue_empty :=
             sc_available_queue_empty c + (if sc_queue_empty c then sc_available_ranks c * open_time else 0),
           wf_coordinator_full_microseconds :=
             sc_coordinator_full_time c + (if sc_coordinator_full c then open_time else 0),
           wf_last_score_improvement_ms := sc_last_score_improvement_ms c\<rparr>)"

section \<open>Events during a run\<close>

datatype sched_event =
    Worker_Waiting | Worker_Running | Assignment "32 word" | Accepted "32 word" | Coordinator_Queue "32 word" bool
  | Coordinator_Full | Coordinator_Free | Score_Improved

fun clock_event :: "64 word \<times> sched_event \<Rightarrow> scheduler_clock \<Rightarrow> scheduler_clock" where
  "clock_event (now, Worker_Waiting) = on_worker_waiting now"
| "clock_event (now, Worker_Running) = on_worker_running now"
| "clock_event (now, Assignment r) = on_assignment r now"
| "clock_event (now, Accepted r) = on_assignment_accepted r now"
| "clock_event (now, Coordinator_Queue n b) = on_coordinator_queue n b now"
| "clock_event (now, Coordinator_Full) = on_coordinator_full now"
| "clock_event (now, Coordinator_Free) = on_coordinator_free now"
| "clock_event (now, Score_Improved) = on_global_score_improved now"

lemmas clock_defs = accrue_def on_worker_waiting_def on_worker_running_def on_assignment_def
  on_assignment_accepted_def on_coordinator_queue_def on_coordinator_full_def on_coordinator_free_def
  on_global_score_improved_def Let_def

text \<open>
  A worker in a run is waiting or running; what it has accrued reaches from the moment \<open>t1\<close> at which it
  first waited to the last moment it accrued at.
\<close>

definition clock_ok :: "64 word \<Rightarrow> scheduler_clock \<Rightarrow> bool" where
  "clock_ok t1 c \<longleftrightarrow> sc_in_run c \<and> sc_phase c \<noteq> CP_NONE \<and> sc_running c + sc_waiting c = sc_since c - t1"

lemma clock_start_ok: "clock_ok t1 (on_worker_waiting t1 (on_run_start t0 new_clock))"
  by (simp add: clock_ok_def clock_defs on_run_start_def new_clock_def)

lemma clock_phases: "p \<noteq> CP_NONE \<longleftrightarrow> p = CP_WAITING \<or> p = CP_RUNNING"
  by (cases p) simp_all

lemma accrue_sum:
  assumes "clock_ok t1 c"
  shows "sc_running (accrue now c) + sc_waiting (accrue now c) = now - t1"
    "sc_since (accrue now c) = now" "sc_in_run (accrue now c)" "sc_phase (accrue now c) = sc_phase c"
proof -
  have s: "sc_running c + sc_waiting c = sc_since c - t1" "sc_phase c = CP_WAITING \<or> sc_phase c = CP_RUNNING"
    using assms by (auto simp: clock_ok_def clock_phases)
  have r: "sc_running c = sc_since c - t1 - sc_waiting c" using s(1) by (simp add: algebra_simps)
  show "sc_running (accrue now c) + sc_waiting (accrue now c) = now - t1"
    using s(2) by (auto simp: accrue_def Let_def r)
  show "sc_since (accrue now c) = now" "sc_in_run (accrue now c)" "sc_phase (accrue now c) = sc_phase c"
    using assms by (simp_all add: accrue_def Let_def clock_ok_def)
qed

lemma clock_event_ok:
  assumes "clock_ok t1 c"
  shows "clock_ok t1 (clock_event e c)"
proof -
  note A = accrue_sum [OF assms]
  obtain now k where e: "e = (now, k)" by (metis prod.exhaust)
  have k: "sc_in_run c" "sc_phase c \<noteq> CP_NONE" using assms by (simp_all add: clock_ok_def)
  show ?thesis
    using assms A k unfolding e
    by (cases k) (auto simp: clock_ok_def on_worker_waiting_def on_worker_running_def on_assignment_def
      on_assignment_accepted_def on_coordinator_queue_def on_coordinator_full_def on_coordinator_free_def
      on_global_score_improved_def Let_def)
qed

lemma clock_events_ok: "clock_ok t1 c \<Longrightarrow> clock_ok t1 (fold clock_event es c)"
  by (induction es arbitrary: c) (simp_all add: clock_event_ok)

text \<open>C35: The scheduler times of a worker add up: whatever events follow, and even when a stamp wraps
  around, the running and the waiting time of a frame filled at time \<open>t\<close> sum to the time since the worker
  first waited; after the run has ended at \<open>t2\<close> they stay at the time up to \<open>t2\<close>.\<close>

theorem clock_adds_up:
  "let c = fold clock_event es (on_worker_waiting t1 (on_run_start t0 new_clock));
       f = fill frame t c; g = fill frame t (on_run_end t2 c)
   in wf_sched_running_microseconds f + wf_sched_waiting_microseconds f = t - t1 \<and>
      wf_sched_running_microseconds g + wf_sched_waiting_microseconds g = t2 - t1"
proof -
  let ?c = "fold clock_event es (on_worker_waiting t1 (on_run_start t0 new_clock))"
  have ok: "clock_ok t1 ?c" by (rule clock_events_ok [OF clock_start_ok])
  then have run: "sc_in_run ?c" by (simp add: clock_ok_def)
  have f: "wf_sched_running_microseconds (fill frame t ?c) + wf_sched_waiting_microseconds (fill frame t ?c) =
      sc_running (accrue t ?c) + sc_waiting (accrue t ?c)"
    using run by (simp add: fill_def accrue_def Let_def)
  have g: "wf_sched_running_microseconds (fill frame t (on_run_end t2 ?c)) +
      wf_sched_waiting_microseconds (fill frame t (on_run_end t2 ?c)) =
      sc_running (accrue t2 ?c) + sc_waiting (accrue t2 ?c)"
    using run by (simp add: fill_def on_run_end_def Let_def)
  show ?thesis using accrue_sum(1) [OF ok] f g by (simp add: Let_def)
qed

section \<open>The time the coordinator is full\<close>

fun stamps_from :: "64 word \<Rightarrow> (64 word \<times> sched_event) list \<Rightarrow> bool" where
  "stamps_from t [] \<longleftrightarrow> True"
| "stamps_from t ((now, e) # es) \<longleftrightarrow> t \<le> now \<and> stamps_from now es"

definition full_ok :: "64 word \<Rightarrow> 64 word \<Rightarrow> scheduler_clock \<Rightarrow> bool" where
  "full_ok t0 t c \<longleftrightarrow> t0 \<le> sc_since c \<and> sc_since c \<le> t \<and> sc_coordinator_full_time c \<le> sc_since c - t0"

lemma word_gap_add:
  fixes x y z :: "64 word"
  assumes "x \<le> y" and "y \<le> z" and "a \<le> y - x"
  shows "a + (z - y) \<le> z - x" "a \<le> z - x"
proof -
  have u: "unat (y - x) = unat y - unat x" "unat (z - y) = unat z - unat y" "unat (z - x) = unat z - unat x"
    using assms(1,2) by (auto simp: unat_sub intro: order_trans)
  have l: "unat x \<le> unat y" "unat y \<le> unat z" "unat a \<le> unat (y - x)"
    using assms by (simp_all only: word_le_nat_alt)
  have s: "unat a + unat (z - y) \<le> unat z - unat x" using u l by linarith
  also have "\<dots> < 2 ^ 64" using unsigned_less [of z, where ?'a = nat] by simp
  finally have "unat (a + (z - y)) = unat a + unat (z - y)" by (simp add: unat_add_lem [THEN iffD1])
  then show "a + (z - y) \<le> z - x" "a \<le> z - x" using s u by (simp_all add: word_le_nat_alt)
qed

lemma accrue_full:
  assumes "full_ok t0 t c" and "t \<le> now"
  shows "full_ok t0 now (accrue now c)"
proof -
  have a: "t0 \<le> sc_since c" "sc_since c \<le> now" "sc_coordinator_full_time c \<le> sc_since c - t0"
    using assms by (auto simp: full_ok_def)
  then show ?thesis using word_gap_add [OF a] order_trans [OF a(1,2)]
    by (simp add: full_ok_def accrue_def Let_def)
qed

lemma clock_event_full:
  assumes "full_ok t0 t c" and "t \<le> now"
  shows "full_ok t0 now (clock_event (now, e) c)"
proof -
  have "full_ok t0 now c" using assms by (auto simp: full_ok_def)
  with accrue_full [OF assms] show ?thesis
    by (cases e) (auto simp: full_ok_def on_worker_waiting_def on_worker_running_def on_assignment_def
      on_assignment_accepted_def on_coordinator_queue_def on_coordinator_full_def on_coordinator_free_def
      on_global_score_improved_def Let_def)
qed

lemma clock_events_full:
  "full_ok t0 t c \<Longrightarrow> stamps_from t es \<Longrightarrow> list_all (\<lambda>x. fst x \<le> t') es \<Longrightarrow> t \<le> t' \<Longrightarrow>
   full_ok t0 t' (fold clock_event es c)"
proof (induction es arbitrary: t c)
  case (Cons x es)
  obtain now e where x: "x = (now, e)" by (metis prod.exhaust)
  have n: "t \<le> now" "stamps_from now es" "now \<le> t'" "list_all (\<lambda>x. fst x \<le> t') es"
    using Cons.prems by (auto simp: x)
  show ?case using Cons.IH [OF clock_event_full [OF Cons.prems(1) n(1)] n(2,4,3)] by (simp add: x)
qed (auto simp: full_ok_def)

text \<open>C36: While the stamps do not go back, the time the coordinator reports to have been full is at most the
  time since the run started: overlapping notices are not counted twice and nothing overflows.\<close>

theorem coordinator_full_bounded:
  assumes "stamps_from t0 es" and "list_all (\<lambda>x. fst x \<le> t) es" and "t0 \<le> t"
  shows "wf_coordinator_full_microseconds (fill frame t (fold clock_event es (on_run_start t0 new_clock))) \<le> t - t0"
proof -
  let ?c = "fold clock_event es (on_run_start t0 new_clock)"
  have "full_ok t0 t0 (on_run_start t0 new_clock)" by (simp add: full_ok_def on_run_start_def new_clock_def)
  from clock_events_full [OF this assms] have f: "full_ok t0 t ?c" .
  have "sc_coordinator_full_time (accrue t ?c) \<le> t - t0"
    using accrue_full [OF f order_refl] by (simp add: full_ok_def accrue_def Let_def)
  moreover have "sc_coordinator_full_time ?c \<le> t - t0" using f word_gap_add(2) by (auto simp: full_ok_def)
  ultimately show ?thesis by (simp add: fill_def accrue_def Let_def split: if_splits)
qed

lemma coordinator_full_bounded_witness:
  "wf_coordinator_full_microseconds (fill zero_frame 9 (fold clock_event [(2, Coordinator_Full), (3, Coordinator_Full),
     (5, Coordinator_Free), (7, Coordinator_Full)] (on_run_start 1 new_clock))) \<le> 9 - 1"
  by (rule coordinator_full_bounded) simp_all

end
