(* ===== verification/Client_Outbox.thy ===== *)
theory Client_Outbox
  imports Byte_Codec "HOL-Library.Sublist"
begin

text \<open>
  \<open>client_outbox\<close> (\<open>private/impl/telemetry/client_outbox.hpp\<close>): the broadcast lines waiting to reach one
  client. The connection is a function: from its state and the bytes offered, to how many it took, if it
  has not failed, and its next state.
\<close>

record outbox =
  ob_lines :: "string list"
  ob_front_written :: nat
  ob_capacity :: nat

definition new_outbox :: "nat \<Rightarrow> outbox" where
  "new_outbox capacity = \<lparr>ob_lines = [], ob_front_written = 0, ob_capacity = max capacity 1\<rparr>"

text \<open>The loop of \<open>push\<close>: the oldest line that has not started to go out is dropped.\<close>

function drop_oldest :: "nat \<Rightarrow> nat \<Rightarrow> string list \<Rightarrow> string list" where
  "drop_oldest in_flight capacity l =
     (if capacity < length l - in_flight \<and> in_flight < length l
      then drop_oldest in_flight capacity (take in_flight l @ drop (in_flight + 1) l) else l)"
  by pat_completeness auto
termination by (relation "measure (\<lambda>(_, _, l). length l)") auto

declare drop_oldest.simps [simp del]

definition push :: "string \<Rightarrow> outbox \<Rightarrow> outbox" where
  "push line ob = (let in_flight = (if 0 < ob_front_written ob then 1 else 0)
     in ob\<lparr>ob_lines := drop_oldest in_flight (ob_capacity ob) (ob_lines ob @ [line])\<rparr>)"

definition outbox_empty :: "outbox \<Rightarrow> bool" where
  "outbox_empty ob \<longleftrightarrow> ob_lines ob = []"

text \<open>
  \<open>flush\<close> returns what it sent, besides the value of the code. \<open>substr\<close> throws when a sender claims to
  have taken more than it was offered.
\<close>

type_synonym 's sender = "string \<Rightarrow> 's \<Rightarrow> nat option \<times> 's"

function flush :: "'s sender \<Rightarrow> 's \<Rightarrow> outbox \<Rightarrow> (bool \<times> outbox \<times> 's \<times> string) res" where
  "flush send s ob =
     (case ob_lines ob of
        [] \<Rightarrow> Inr (True, ob, s, [])
      | line # rest \<Rightarrow>
          if length line < ob_front_written ob then Inl (Thrown ''basic_string_view::substr'')
          else (case send (drop (ob_front_written ob) line) s of
              (None, s1) \<Rightarrow> Inr (False, ob, s1, [])
            | (Some n, s1) \<Rightarrow>
                if n = 0 then Inr (True, ob, s1, [])
                else let sent = take n (drop (ob_front_written ob) line);
                         written = ob_front_written ob + n;
                         ob1 = (if written = length line then ob\<lparr>ob_lines := rest, ob_front_written := 0\<rparr>
                               else ob\<lparr>ob_front_written := written\<rparr>)
                     in rbind (flush send s1 ob1) (\<lambda>(b, ob2, s2, out). Inr (b, ob2, s2, sent @ out))))"
  by pat_completeness auto
termination
  by (relation "measure (\<lambda>(_, _, ob). case ob_lines ob of [] \<Rightarrow> 0 | line # rest \<Rightarrow>
      if length line < ob_front_written ob then 0
      else 1 + length (concat (ob_lines ob)) + length (ob_lines ob) - ob_front_written ob)")
    (auto split: list.splits if_splits)

declare flush.simps [simp del]

section \<open>What the client receives\<close>

text \<open>
  \<open>outbox_ok pushed sent o\<close>: of the lines pushed, some were sent whole, in order, then comes the part of
  the first waiting line that has gone out; the lines sent and waiting are among the pushed ones, in
  order, and the newest is there.
\<close>

definition outbox_ok :: "string list \<Rightarrow> string \<Rightarrow> outbox \<Rightarrow> bool" where
  "outbox_ok pushed sent ob \<longleftrightarrow>
     (\<exists>whole. sent = concat whole @ take (ob_front_written ob) (concat (take 1 (ob_lines ob))) \<and>
        subseq (whole @ ob_lines ob) pushed \<and>
        (pushed \<noteq> [] \<longrightarrow> whole @ ob_lines ob \<noteq> [] \<and> last (whole @ ob_lines ob) = last pushed)) \<and>
     (ob_front_written ob = 0 \<or> ob_lines ob \<noteq> [] \<and> ob_front_written ob < length (hd (ob_lines ob))) \<and>
     1 \<le> ob_capacity ob \<and>
     length (ob_lines ob) - (if 0 < ob_front_written ob then 1 else 0) \<le> ob_capacity ob"

lemma new_outbox_ok: "outbox_ok [] [] (new_outbox n)"
  by (auto simp: outbox_ok_def new_outbox_def intro!: exI [of _ "[]"])

lemma drop_oldest_eq:
  assumes "k \<le> 1" and "k < length l" and "1 \<le> c"
  shows "drop_oldest k c l = take k l @ drop (max k (length l - c)) l"
  using assms
proof (induction k c l rule: drop_oldest.induct)
  case (1 k c l)
  let ?l = "take k l @ drop (k + 1) l"
  show ?case
  proof (cases "c < length l - k")
    case True
    have len: "length ?l = length l - 1" "k < length ?l" "take k ?l = take k l"
      using True "1.prems" by auto
    have d: "drop (max k (length l - 1 - c)) ?l = drop (max k (length l - c)) l"
    proof -
      define j where "j = length l - 1 - c - k"
      have a: "max k (length l - 1 - c) = k + j" by (simp add: j_def)
      have b: "max k (length l - c) = j + (k + 1)" using True by (simp add: j_def)
      have "drop (k + j) ?l = drop j (drop (k + 1) l)" using "1.prems"(2) by simp
      then show ?thesis unfolding a b by (simp only: drop_drop)
    qed
    have "drop_oldest k c l = drop_oldest k c ?l"
      using True "1.prems" by (subst drop_oldest.simps) simp
    also have "\<dots> = take k ?l @ drop (max k (length ?l - c)) ?l"
      by (rule "1.IH") (use True "1.prems" len in simp_all)
    finally show ?thesis by (simp only: len d)
  next
    case False
    then have "max k (length l - c) = k" using "1.prems" by simp
    then show ?thesis using False by (subst drop_oldest.simps) simp
  qed
qed

lemma push_ok:
  assumes ok: "outbox_ok pushed sent ob"
  shows "outbox_ok (pushed @ [line]) sent (push line ob)"
proof -
  let ?k = "if 0 < ob_front_written ob then 1 else 0 :: nat" and ?l = "ob_lines ob @ [line]"
  from ok obtain whole where w: "sent = concat whole @ take (ob_front_written ob) (concat (take 1 (ob_lines ob)))"
    "subseq (whole @ ob_lines ob) pushed"
    and f: "ob_front_written ob = 0 \<or> ob_lines ob \<noteq> [] \<and> ob_front_written ob < length (hd (ob_lines ob))"
    and c: "1 \<le> ob_capacity ob" by (auto simp: outbox_ok_def)
  have k: "?k \<le> 1" "?k < length ?l" using f by auto
  define m where "m = max ?k (length ?l - ob_capacity ob)"
  have p: "push line ob = ob\<lparr>ob_lines := take ?k ?l @ drop m ?l\<rparr>"
    by (simp add: push_def Let_def drop_oldest_eq [OF k c] m_def)
  have m: "m < length ?l" "?k \<le> m" using k c by (auto simp: m_def)
  then obtain x y where d: "drop m ?l = drop m (ob_lines ob) @ [line]" by simp
  have head: "take 1 (take ?k ?l @ drop m ?l) = take 1 (ob_lines ob)" if "0 < ob_front_written ob"
    using f that by (cases "ob_lines ob") auto
  have "subseq (take ?k ?l @ drop m ?l) ?l"
  proof -
    have "?l = take ?k ?l @ drop ?k ?l" by (rule append_take_drop_id [symmetric])
    moreover have "suffix (drop m ?l) (drop ?k ?l)"
      using m(2) by (metis add.commute drop_drop le_Suc_ex suffix_drop)
    ultimately show ?thesis
      by (metis list_emb_append_mono subseq_order.refl suffix_imp_subseq)
  qed
  moreover have "subseq (whole @ ?l) (pushed @ [line])"
    using w(2) by (metis append.assoc list_emb_append_mono subseq_order.refl)
  ultimately have s: "subseq (whole @ (take ?k ?l @ drop m ?l)) (pushed @ [line])"
    by (meson list_emb_append_mono subseq_order.refl subseq_order.trans)
  have front: "take (ob_front_written ob) (concat (take 1 (take ?k ?l @ drop m ?l))) =
      take (ob_front_written ob) (concat (take 1 (ob_lines ob)))"
    using head by (cases "0 < ob_front_written ob") simp_all
  have hd: "0 < ob_front_written ob \<Longrightarrow> hd (take ?k ?l @ drop m ?l) = hd (ob_lines ob)"
    using f by (cases "ob_lines ob") auto
  show ?thesis
    unfolding outbox_ok_def p
  proof (intro conjI exI [of _ whole])
    show "sent = concat whole @ take (ob_front_written (ob\<lparr>ob_lines := take ?k ?l @ drop m ?l\<rparr>))
        (concat (take 1 (ob_lines (ob\<lparr>ob_lines := take ?k ?l @ drop m ?l\<rparr>))))"
      using w(1) front by simp
    show "length (ob_lines (ob\<lparr>ob_lines := take ?k ?l @ drop m ?l\<rparr>)) -
        (if 0 < ob_front_written (ob\<lparr>ob_lines := take ?k ?l @ drop m ?l\<rparr>) then 1 else 0)
        \<le> ob_capacity (ob\<lparr>ob_lines := take ?k ?l @ drop m ?l\<rparr>)"
      using k by (auto simp: m_def)
  qed (use s c d f hd in auto)
qed

lemma sent_some:
  assumes ok: "outbox_ok pushed sent ob" and l: "ob_lines ob = line # rest"
    and n: "0 < n" "n \<le> length (drop (ob_front_written ob) line)"
  shows "outbox_ok pushed (sent @ take n (drop (ob_front_written ob) line))
    (if ob_front_written ob + n = length line then ob\<lparr>ob_lines := rest, ob_front_written := 0\<rparr>
     else ob\<lparr>ob_front_written := ob_front_written ob + n\<rparr>)"
proof -
  let ?f = "ob_front_written ob"
  from ok l obtain whole where w: "sent = concat whole @ take ?f line" "subseq (whole @ line # rest) pushed"
    "pushed \<noteq> [] \<longrightarrow> last (whole @ line # rest) = last pushed"
    and f: "?f = 0 \<or> ?f < length line" and c: "1 \<le> ob_capacity ob"
    and len: "length (line # rest) - (if 0 < ?f then 1 else 0) \<le> ob_capacity ob"
    by (auto simp: outbox_ok_def)
  have bytes: "sent @ take n (drop ?f line) = concat whole @ take (?f + n) line" using w(1) by (simp add: take_add)
  show ?thesis
  proof (cases "?f + n = length line")
    case True
    have "sent @ take n (drop ?f line) = concat (whole @ [line])" using bytes True by simp
    moreover have "whole @ line # rest = (whole @ [line]) @ rest" by simp
    ultimately show ?thesis using w(2,3) c len True
      by (auto simp: outbox_ok_def split: if_splits intro!: exI [of _ "whole @ [line]"])
  next
    case False
    then have "?f + n < length line" using n(2) f by auto
    then show ?thesis using False bytes w(2,3) c len n(1) l
      by (auto simp: outbox_ok_def split: if_splits intro!: exI [of _ whole])
  qed
qed

lemma flush_ok:
  assumes "outbox_ok pushed sent ob" and send: "\<And>bytes s n s'. send bytes s = (Some n, s') \<Longrightarrow> n \<le> length bytes"
  shows "\<exists>b ob' s' out. flush send s ob = Inr (b, ob', s', out) \<and> outbox_ok pushed (sent @ out) ob'"
  using assms
proof (induction send s ob arbitrary: sent rule: flush.induct)
  case (1 send s ob)
  show ?case
  proof (cases "ob_lines ob")
    case Nil
    then show ?thesis using "1.prems"(1) by (subst flush.simps) auto
  next
    case (Cons line rest)
    have f: "\<not> length line < ob_front_written ob" using "1.prems"(1) Cons by (auto simp: outbox_ok_def)
    obtain a s1 where a: "send (drop (ob_front_written ob) line) s = (a, s1)" by (metis prod.exhaust)
    show ?thesis
    proof (cases "a = None \<or> a = Some 0")
      case True
      then show ?thesis using "1.prems"(1) Cons f a by (subst flush.simps) auto
    next
      case False
      then obtain n where n: "a = Some n" "0 < n" by auto
      let ?ob1 = "if ob_front_written ob + n = length line then ob\<lparr>ob_lines := rest, ob_front_written := 0\<rparr>
         else ob\<lparr>ob_front_written := ob_front_written ob + n\<rparr>"
      have "n \<le> length (drop (ob_front_written ob) line)" using "1.prems"(2) a n(1) by blast
      note ok1 = sent_some [OF "1.prems"(1) Cons n(2) this]
      have "\<exists>b ob' s' out. flush send s1 ?ob1 = Inr (b, ob', s', out) \<and>
          outbox_ok pushed ((sent @ take n (drop (ob_front_written ob) line)) @ out) ob'"
        by (rule "1.IH" [OF Cons f a [symmetric] n(1) _ refl refl refl ok1 "1.prems"(2)]) (use n in simp_all)
      then show ?thesis using Cons f a n by (subst flush.simps) (auto simp: Let_def)
    qed
  qed
qed

section \<open>Every history\<close>

text \<open>The states of the connection are numbered; each flush may find another connection.\<close>

inductive outbox_reached :: "nat \<Rightarrow> string list \<Rightarrow> string \<Rightarrow> outbox \<Rightarrow> bool" for n where
  start: "outbox_reached n [] [] (new_outbox n)"
| pushed: "outbox_reached n pushed sent ob \<Longrightarrow> outbox_reached n (pushed @ [line]) sent (push line ob)"
| flushed: "outbox_reached n pushed sent ob \<Longrightarrow>
    (\<And>bytes s k s'. send bytes s = (Some k, s') \<Longrightarrow> k \<le> length bytes) \<Longrightarrow>
    flush send (s :: nat) ob = Inr (b, ob', s'', out) \<Longrightarrow> outbox_reached n pushed (sent @ out) ob'"

lemma flush_capacity: "flush send s ob = Inr (b, ob', s', out) \<Longrightarrow> ob_capacity ob' = ob_capacity ob"
proof (induction send s ob arbitrary: b ob' s' out rule: flush.induct)
  case (1 send s ob)
  show ?case
  proof (cases "ob_lines ob")
    case Nil
    then show ?thesis using "1.prems" by (subst (asm) flush.simps) simp
  next
    case (Cons line rest)
    obtain a s1 where a: "send (drop (ob_front_written ob) line) s = (a, s1)" by (metis prod.exhaust)
    have f: "\<not> length line < ob_front_written ob" using "1.prems" Cons by (subst (asm) flush.simps) auto
    show ?thesis
    proof (cases "a = None \<or> a = Some 0")
      case True
      then show ?thesis using "1.prems" Cons f a by (subst (asm) flush.simps) auto
    next
      case False
      then obtain n where n: "a = Some n" "n \<noteq> 0" by auto
      let ?ob1 = "if ob_front_written ob + n = length line then ob\<lparr>ob_lines := rest, ob_front_written := 0\<rparr>
         else ob\<lparr>ob_front_written := ob_front_written ob + n\<rparr>"
      have "flush send s ob = rbind (flush send s1 ?ob1) (\<lambda>(b, ob2, s2, out).
          Inr (b, ob2, s2, take n (drop (ob_front_written ob) line) @ out))"
        using Cons f a n by (subst flush.simps) (simp add: Let_def)
      then obtain out1 where o1: "flush send s1 ?ob1 = Inr (b, ob', s', out1)"
        using "1.prems" by (cases "flush send s1 ?ob1") auto
      have "ob_capacity ob' = ob_capacity ?ob1"
        by (rule "1.IH" [OF Cons f a [symmetric] n(1) _ refl refl refl o1]) (use n in simp)
      then show ?thesis by simp
    qed
  qed
qed

lemma outbox_reached_ok: "outbox_reached n pushed sent ob \<Longrightarrow> outbox_ok pushed sent ob \<and> ob_capacity ob = max n 1"
proof (induction rule: outbox_reached.induct)
  case start
  show ?case using new_outbox_ok by (simp add: new_outbox_def)
next
  case (pushed pushed sent ob line)
  have "ob_capacity (push line ob) = ob_capacity ob" by (simp add: push_def Let_def)
  then show ?case using push_ok [of pushed sent ob line] pushed.IH by simp
next
  case (flushed pushed sent ob send s b ob' s'' out)
  have "\<exists>b ob' s' out. flush send s ob = Inr (b, ob', s', out) \<and> outbox_ok pushed (sent @ out) ob'"
    by (rule flush_ok [OF conjunct1 [OF flushed.IH]]) (rule flushed.hyps(2))
  then have "outbox_ok pushed (sent @ out) ob'" using flushed.hyps(3) by auto
  then show ?case using flush_capacity [OF flushed.hyps(3)] flushed.IH by simp
qed

text \<open>The reached outboxes, spelt out.\<close>

lemma outbox_lines:
  assumes "outbox_reached n pushed sent ob"
  shows "(\<exists>whole. sent = concat whole @ take (ob_front_written ob) (concat (take 1 (ob_lines ob))) \<and>
      subseq (whole @ ob_lines ob) pushed \<and>
      (if pushed = [] then ob_lines ob = [] else last (whole @ ob_lines ob) = last pushed)) \<and>
    length (ob_lines ob) \<le> max n 1 + 1"
proof -
  note R = outbox_reached_ok [OF assms(1)]
  then have ok: "outbox_ok pushed sent ob" and c: "ob_capacity ob = max n 1" by simp_all
  from ok obtain whole where w: "sent = concat whole @ take (ob_front_written ob) (concat (take 1 (ob_lines ob)))"
    "subseq (whole @ ob_lines ob) pushed" "pushed \<noteq> [] \<longrightarrow> last (whole @ ob_lines ob) = last pushed"
    by (auto simp: outbox_ok_def)
  have l: "length (ob_lines ob) \<le> max n 1 + 1" using ok c by (auto simp: outbox_ok_def split: if_splits)
  have "ob_lines ob = []" if "pushed = []"
  proof -
    have "whole @ ob_lines ob = []" by (rule list_emb_Nil2 [of "(=)"]) (use w(2) that in simp)
    then show ?thesis by simp
  qed
  then have "if pushed = [] then ob_lines ob = [] else last (whole @ ob_lines ob) = last pushed" using w(3) by simp
  then show ?thesis using w(1,2) l by blast
qed

text \<open>A connection that takes at most three bytes at a time, twice.\<close>

definition slow_sender :: "nat sender" where
  "slow_sender bytes s = (if s = 0 then (Some 0, s) else (Some (min 3 (length bytes)), s - 1))"

end
