(* ===== verification/Topology_Codec.thy ===== *)
theory Topology_Codec
  imports Telemetry_Frames "HOL-Library.Char_ord"
begin

unbundle bit_operations_syntax

text \<open>
  The wire form of a host's layout, \<open>detail::serialize_node_topology\<close> and
  \<open>detail::deserialize_node_topology\<close> (\<open>src/telemetry/topology_builder.cpp\<close>), with the bounds-checked
  reader. A reader that ran over the end keeps going with zeros and an \<open>m_ok\<close> that stays false.
\<close>

definition byte_of_char :: "char \<Rightarrow> byte" where
  "byte_of_char c = word_of_nat (of_char c)"

definition char_of_byte :: "byte \<Rightarrow> char" where
  "char_of_byte b = char_of (unat b)"

section \<open>Writing\<close>

definition put_u8 :: "byte \<Rightarrow> byte list" where
  "put_u8 v = [v]"

definition put_u16 :: "16 word \<Rightarrow> byte list" where
  "put_u16 v = [ucast (v AND 0xFF), ucast (drop_bit 8 v AND 0xFF)]"

definition put_u32 :: "32 word \<Rightarrow> byte list" where
  "put_u32 v = map (\<lambda>i. ucast (drop_bit (8 * i) v AND 0xFF)) [0..<4]"

definition put_u64 :: "64 word \<Rightarrow> byte list" where
  "put_u64 v = map (\<lambda>i. ucast (drop_bit (8 * i) v AND 0xFF)) [0..<8]"

definition put_str :: "string \<Rightarrow> byte list" where
  "put_str s = (let len = min (length s) 0xFFFF in put_u16 (word_of_nat len) @ map byte_of_char (take len s))"

definition serialize_socket :: "topology_socket \<Rightarrow> byte list" where
  "serialize_socket s =
     put_u8 (ts_socket_id s) @ put_u16 (ts_physical_cores s) @ put_u16 (ts_logical_cores s) @ put_str (ts_name s) @
     put_u32 (word_of_nat (length (ts_cpu_ids s))) @ concat (map put_u32 (ts_cpu_ids s))"

definition serialize_node_topology :: "topology_node \<Rightarrow> byte list" where
  "serialize_node_topology n =
     put_str (tn_hostname n) @ put_u16 (tn_total_physical_cores n) @ put_u16 (tn_total_logical_cores n) @
     put_u64 (tn_mem_total_bytes n) @ put_u16 (word_of_nat (length (tn_sockets n))) @
     concat (map serialize_socket (tn_sockets n))"

section \<open>Reading\<close>

record byte_reader =
  br_data :: "byte list"
  br_pos :: nat
  br_ok :: bool

definition open_reader :: "byte list \<Rightarrow> byte_reader" where
  "open_reader bs = \<lparr>br_data = bs, br_pos = 0, br_ok = True\<rparr>"

definition has :: "nat \<Rightarrow> byte_reader \<Rightarrow> bool" where
  "has n r \<longleftrightarrow> \<not> length (br_data r) < br_pos r + n"

definition overrun :: "byte_reader \<Rightarrow> byte_reader" where
  "overrun r = r\<lparr>br_ok := False\<rparr>"

text \<open>\<open>take n\<close> and then \<open>n\<close> bytes, of which \<open>f\<close> is the value.\<close>

definition read_bytes :: "nat \<Rightarrow> (byte list \<Rightarrow> 'a) \<Rightarrow> 'a \<Rightarrow> byte_reader \<Rightarrow> 'a \<times> byte_reader" where
  "read_bytes n f zero r =
     (if has n r then (f (take n (drop (br_pos r) (br_data r))), r\<lparr>br_pos := br_pos r + n\<rparr>) else (zero, overrun r))"

definition reader_u8 :: "byte_reader \<Rightarrow> byte \<times> byte_reader" where
  "reader_u8 = read_bytes 1 hd 0"

definition reader_u16 :: "byte_reader \<Rightarrow> 16 word \<times> byte_reader" where
  "reader_u16 = read_bytes 2 (\<lambda>bs. ucast (bs ! 0) OR push_bit 8 (ucast (bs ! 1))) 0"

definition reader_u32 :: "byte_reader \<Rightarrow> 32 word \<times> byte_reader" where
  "reader_u32 = read_bytes 4 (\<lambda>bs. foldl (\<lambda>v i. v OR push_bit (8 * i) (ucast (bs ! i))) 0 [0..<4]) 0"

definition reader_u64 :: "byte_reader \<Rightarrow> 64 word \<times> byte_reader" where
  "reader_u64 = read_bytes 8 (\<lambda>bs. foldl (\<lambda>v i. v OR push_bit (8 * i) (ucast (bs ! i))) 0 [0..<8]) 0"

definition reader_str :: "byte_reader \<Rightarrow> string \<times> byte_reader" where
  "reader_str r = (let (len, r1) = reader_u16 r in read_bytes (unat len) (map char_of_byte) [] r1)"

fun read_cpu_ids :: "nat \<Rightarrow> byte_reader \<Rightarrow> 32 word list \<times> byte_reader" where
  "read_cpu_ids 0 r = ([], r)"
| "read_cpu_ids (Suc k) r =
     (if br_ok r then let (x, r1) = reader_u32 r; (xs, r2) = read_cpu_ids k r1 in (x # xs, r2) else ([], r))"

definition read_socket :: "byte_reader \<Rightarrow> topology_socket \<times> byte_reader" where
  "read_socket r =
     (let (socket_id, r1) = reader_u8 r; (physical, r2) = reader_u16 r1; (logical, r3) = reader_u16 r2;
          (name, r4) = reader_str r3; (cpu_count, r5) = reader_u32 r4; (cpus, r6) = read_cpu_ids (unat cpu_count) r5
      in (\<lparr>ts_socket_id = socket_id, ts_name = name, ts_physical_cores = physical, ts_logical_cores = logical,
           ts_cpu_ids = cpus\<rparr>, r6))"

fun read_sockets :: "nat \<Rightarrow> byte_reader \<Rightarrow> topology_socket list \<times> byte_reader" where
  "read_sockets 0 r = ([], r)"
| "read_sockets (Suc k) r =
     (if br_ok r then let (x, r1) = read_socket r; (xs, r2) = read_sockets k r1 in (x # xs, r2) else ([], r))"

definition read_node :: "topology_node \<Rightarrow> byte_reader \<Rightarrow> topology_node \<times> byte_reader" where
  "read_node node r =
     (let (hostname, r1) = reader_str r; (physical, r2) = reader_u16 r1; (logical, r3) = reader_u16 r2;
          (mem, r4) = reader_u64 r3; (socket_count, r5) = reader_u16 r4;
          (sockets, r6) = read_sockets (unat socket_count) r5
      in (node\<lparr>tn_hostname := hostname, tn_total_physical_cores := physical, tn_total_logical_cores := logical,
               tn_mem_total_bytes := mem, tn_sockets := sockets\<rparr>, r6))"

definition deserialize_node_topology :: "topology_node \<Rightarrow> byte list \<Rightarrow> bool \<times> topology_node" where
  "deserialize_node_topology node data = (let (n, r) = read_node node (open_reader data) in (br_ok r, n))"

section \<open>What a reader reads\<close>

text \<open>
  \<open>reads f bs x\<close>: wherever the bytes \<open>bs\<close> stand in the data, \<open>f\<close> takes exactly them and returns \<open>x\<close>.
\<close>

definition at_bytes :: "byte list \<Rightarrow> byte list \<Rightarrow> byte_reader" where
  "at_bytes pre post = \<lparr>br_data = pre @ post, br_pos = length pre, br_ok = True\<rparr>"

definition reads :: "(byte_reader \<Rightarrow> 'a \<times> byte_reader) \<Rightarrow> byte list \<Rightarrow> 'a \<Rightarrow> bool" where
  "reads f bs x \<longleftrightarrow> (\<forall>pre post. f (at_bytes pre (bs @ post)) = (x, at_bytes (pre @ bs) post))"

lemma readsD: "reads f bs x \<Longrightarrow> f (at_bytes pre (bs @ post)) = (x, at_bytes (pre @ bs) post)"
  by (simp add: reads_def)

lemma at_bytes_ok [simp]: "br_ok (at_bytes pre post)"
  by (simp add: at_bytes_def)

lemma reads_bytes: "length bs = n \<Longrightarrow> f bs = x \<Longrightarrow> reads (read_bytes n f z) bs x"
  by (auto simp: reads_def read_bytes_def has_def at_bytes_def)

lemma reads_then:
  assumes "reads f bs x" and "reads (g x) cs y"
  shows "reads (\<lambda>r. let (a, r1) = f r in g a r1) (bs @ cs) y"
  using assms by (simp add: reads_def)

lemma reads_value: "reads f bs x \<Longrightarrow> reads (\<lambda>r. let (a, r1) = f r in (h a, r1)) bs (h x)"
  by (simp add: reads_def)

lemma byte_bits: "bit (b :: byte) i \<Longrightarrow> i < 8"
  using bit_imp_le_length [of b i] by simp

lemma reads_u8: "reads reader_u8 (put_u8 v) v"
  unfolding reader_u8_def put_u8_def by (rule reads_bytes) simp_all

lemma bit_255: "bit (255 :: 'a::len word) n \<longleftrightarrow> n < 8 \<and> n < LENGTH('a)"
proof -
  have "(255 :: 'a word) = mask 8" by (simp add: mask_eq_exp_minus_1)
  then show ?thesis by (simp only: bit_mask_iff) (auto simp: possible_bit_def)
qed

lemma low_byte: "(ucast ((v :: 'a::len word) AND 0xFF) :: byte) = ucast v"
proof (rule bit_eqI)
  fix n
  show "bit (ucast (v AND 0xFF) :: byte) n = bit (ucast v :: byte) n"
    unfolding bit_ucast_iff bit_and_iff bit_255 by (auto dest: bit_imp_le_length)
qed

lemma word16_bytes: "ucast (ucast v :: byte) OR push_bit 8 (ucast (ucast (drop_bit 8 v) :: byte)) = (v :: 16 word)"
  by (rule bit_eqI) (auto simp: bit_simps)

lemma reads_u16: "reads reader_u16 (put_u16 v) v"
  unfolding reader_u16_def put_u16_def by (rule reads_bytes) (simp_all add: low_byte word16_bytes)

lemma shifted_byte: "bit (push_bit k (ucast (ucast (drop_bit k v) :: byte)) :: 'a::len word) n \<longleftrightarrow>
    k \<le> n \<and> n < k + 8 \<and> bit (v :: 'a word) n"
  by (auto simp: bit_simps dest: bit_imp_le_length)

lemma gathered_bits:
  "bit (foldl (\<lambda>w i. w OR push_bit (8 * i) (ucast (ucast (drop_bit (8 * i) v) :: byte))) (0 :: 'a word) [0..<k]) n \<longleftrightarrow>
    n < 8 * k \<and> bit (v :: 'a::len word) n"
proof (induction k)
  case (Suc k)
  then show ?case by (auto simp: bit_or_iff shifted_byte)
qed simp

lemma gathered:
  assumes "LENGTH('a) = 8 * k"
  shows "foldl (\<lambda>w i. w OR push_bit (8 * i) (ucast (map (\<lambda>i. ucast (drop_bit (8 * i) v AND 0xFF) :: byte) [0..<k] ! i)))
    0 [0..<k] = (v :: 'a::len word)" (is "foldl ?f 0 _ = v")
proof -
  have "foldl ?f 0 [0..<k] = foldl (\<lambda>w i. w OR push_bit (8 * i) (ucast (ucast (drop_bit (8 * i) v) :: byte))) 0 [0..<k]"
    by (rule foldl_cong) (simp_all add: low_byte)
  also have "\<dots> = v"
    by (rule bit_eqI) (use assms in \<open>auto simp: gathered_bits\<close>)
  finally show ?thesis .
qed

lemma reads_u32: "reads reader_u32 (put_u32 v) v"
  unfolding reader_u32_def put_u32_def by (rule reads_bytes, simp, rule gathered) simp

lemma reads_u64: "reads reader_u64 (put_u64 v) v"
  unfolding reader_u64_def put_u64_def by (rule reads_bytes, simp, rule gathered) simp

lemma char_of_byte_of_char [simp]: "char_of_byte (byte_of_char c) = c"
proof -
  have "unat (byte_of_char c) = of_char c"
    using nat_of_char_less_256 [of c] by (simp add: byte_of_char_def unat_of_nat)
  then show ?thesis by (simp add: char_of_byte_def)
qed

lemma reads_str:
  assumes "length s \<le> 0xFFFF"
  shows "reads reader_str (put_str s) s"
proof -
  have "unat (word_of_nat (length s) :: 16 word) = length s" using assms by (simp add: unat_of_nat)
  then have "reads (read_bytes (unat (word_of_nat (length s) :: 16 word)) (map char_of_byte) []) (map byte_of_char s) s"
    by (intro reads_bytes) (simp_all add: comp_def)
  from reads_then [OF reads_u16, of "\<lambda>len. read_bytes (unat len) (map char_of_byte) []", OF this]
  have "reads reader_str (put_u16 (word_of_nat (length s)) @ map byte_of_char s) s"
    unfolding reader_str_def .
  then show ?thesis using assms by (simp add: put_str_def Let_def min_def)
qed

lemma reads_cpu_ids: "reads (read_cpu_ids (length xs)) (concat (map put_u32 xs)) xs"
proof (induction xs)
  case (Cons x xs)
  show ?case
    unfolding reads_def by (simp add: readsD [OF reads_u32] readsD [OF Cons.IH])
qed (simp add: reads_def)

definition socket_fits :: "topology_socket \<Rightarrow> bool" where
  "socket_fits s \<longleftrightarrow> length (ts_name s) \<le> 0xFFFF \<and> length (ts_cpu_ids s) < 2 ^ 32"

lemma reads_socket:
  assumes "socket_fits s"
  shows "reads read_socket (serialize_socket s) s"
  unfolding reads_def
proof (intro allI)
  fix pre post
  have n: "unat (word_of_nat (length (ts_cpu_ids s)) :: 32 word) = length (ts_cpu_ids s)"
    using assms by (simp add: socket_fits_def unat_of_nat)
  have name: "reads reader_str (put_str (ts_name s)) (ts_name s)"
    using assms by (intro reads_str) (simp add: socket_fits_def)
  note R = readsD [OF reads_u8] readsD [OF reads_u16] readsD [OF name] readsD [OF reads_u32] readsD [OF reads_cpu_ids]
  show "read_socket (at_bytes pre (serialize_socket s @ post)) = (s, at_bytes (pre @ serialize_socket s) post)"
    by (simp add: read_socket_def serialize_socket_def R n Let_def)
qed

lemma reads_sockets:
  "list_all socket_fits xs \<Longrightarrow> reads (read_sockets (length xs)) (concat (map serialize_socket xs)) xs"
proof (induction xs)
  case (Cons x xs)
  then have x: "reads read_socket (serialize_socket x) x" "reads (read_sockets (length xs)) (concat (map serialize_socket xs)) xs"
    using reads_socket by simp_all
  show ?case
    unfolding reads_def by (simp add: readsD [OF x(1)] readsD [OF x(2)])
qed (simp add: reads_def)

definition node_fits :: "topology_node \<Rightarrow> bool" where
  "node_fits n \<longleftrightarrow> length (tn_hostname n) \<le> 0xFFFF \<and> length (tn_sockets n) < 2 ^ 16 \<and> list_all socket_fits (tn_sockets n)"

definition with_layout_of :: "topology_node \<Rightarrow> topology_node \<Rightarrow> topology_node" where
  "with_layout_of n m = m\<lparr>tn_hostname := tn_hostname n, tn_total_physical_cores := tn_total_physical_cores n,
     tn_total_logical_cores := tn_total_logical_cores n, tn_mem_total_bytes := tn_mem_total_bytes n,
     tn_sockets := tn_sockets n\<rparr>"

lemma reads_node:
  assumes "node_fits n"
  shows "reads (read_node m) (serialize_node_topology n) (with_layout_of n m)"
  unfolding reads_def
proof (intro allI)
  fix pre post
  have k: "unat (word_of_nat (length (tn_sockets n)) :: 16 word) = length (tn_sockets n)"
    using assms by (simp add: node_fits_def unat_of_nat)
  have s: "reads reader_str (put_str (tn_hostname n)) (tn_hostname n)"
    "reads (read_sockets (length (tn_sockets n))) (concat (map serialize_socket (tn_sockets n))) (tn_sockets n)"
    using assms by (simp_all add: node_fits_def reads_str reads_sockets)
  note R = readsD [OF s(1)] readsD [OF reads_u16] readsD [OF reads_u64] readsD [OF s(2)]
  show "read_node m (at_bytes pre (serialize_node_topology n @ post)) =
      (with_layout_of n m, at_bytes (pre @ serialize_node_topology n) post)"
    by (simp add: read_node_def serialize_node_topology_def R k Let_def with_layout_of_def)
qed

section \<open>Reading a prefix\<close>

text \<open>
  A reader that did not run over the end does the same when more bytes follow, and one that did stays
  failed.
\<close>

definition extend :: "byte list \<Rightarrow> byte_reader \<Rightarrow> byte_reader" where
  "extend rest r = r\<lparr>br_data := br_data r @ rest\<rparr>"

definition stable :: "(byte_reader \<Rightarrow> 'a \<times> byte_reader) \<Rightarrow> bool" where
  "stable f \<longleftrightarrow> (\<forall>r rest. br_ok (snd (f r)) \<longrightarrow> br_ok r \<and> (br_pos r \<le> length (br_data r) \<longrightarrow>
     br_data (snd (f r)) = br_data r \<and> br_pos (snd (f r)) \<le> length (br_data r) \<and>
     f (extend rest r) = (fst (f r), extend rest (snd (f r)))))"

lemma stable_bytes: "stable (read_bytes n f z)"
  by (auto simp: stable_def read_bytes_def has_def overrun_def extend_def)

lemma stable_done: "stable (Pair x)"
  by (simp add: stable_def)

lemma stable_bind:
  assumes f: "stable f" and g: "\<And>x. stable (g x)"
  shows "stable (\<lambda>r. let (a, r1) = f r in g a r1)"
  unfolding stable_def
proof (intro allI impI)
  fix r rest
  obtain a r1 where a: "f r = (a, r1)" by (metis prod.exhaust)
  obtain b r2 where b: "g a r1 = (b, r2)" by (metis prod.exhaust)
  assume "br_ok (snd (let (a, r1) = f r in g a r1))"
  then have ok: "br_ok r2" using a b by simp
  have G: "br_ok r1 \<and> (br_pos r1 \<le> length (br_data r1) \<longrightarrow> br_data r2 = br_data r1 \<and>
      br_pos r2 \<le> length (br_data r1) \<and> g a (extend rest r1) = (b, extend rest r2))"
    using g [of a] ok b unfolding stable_def by (metis fst_conv snd_conv)
  then have F: "br_ok r \<and> (br_pos r \<le> length (br_data r) \<longrightarrow> br_data r1 = br_data r \<and>
      br_pos r1 \<le> length (br_data r) \<and> f (extend rest r) = (a, extend rest r1))"
    using f a unfolding stable_def by (metis fst_conv snd_conv)
  show "br_ok r \<and> (br_pos r \<le> length (br_data r) \<longrightarrow>
      br_data (snd (let (a, r1) = f r in g a r1)) = br_data r \<and>
      br_pos (snd (let (a, r1) = f r in g a r1)) \<le> length (br_data r) \<and>
      (let (a, r1) = f (extend rest r) in g a r1) =
        (fst (let (a, r1) = f r in g a r1), extend rest (snd (let (a, r1) = f r in g a r1))))"
    using F G a b by auto
qed

lemma stable_readers:
  "stable reader_u8" "stable reader_u16" "stable reader_u32" "stable reader_u64" "stable reader_str"
  unfolding reader_u8_def reader_u16_def reader_u32_def reader_u64_def reader_str_def
  by (rule stable_bytes | rule stable_bind)+

lemma stable_if: "stable f \<Longrightarrow> stable (\<lambda>r. if br_ok r then f r else (x, r))"
  by (auto simp: stable_def extend_def)

lemma stable_cpu_ids: "stable (read_cpu_ids k)"
proof (induction k)
  case 0
  have "read_cpu_ids 0 = Pair []" by (rule ext) simp
  then show ?case by (simp add: stable_done)
next
  case (Suc k)
  show ?case
    unfolding read_cpu_ids.simps(2) [abs_def] by (intro stable_if stable_bind stable_readers Suc stable_done)
qed

lemma stable_socket: "stable read_socket"
  unfolding read_socket_def [abs_def] by (intro stable_bind stable_readers stable_cpu_ids stable_done)

lemma stable_sockets: "stable (read_sockets k)"
proof (induction k)
  case 0
  have "read_sockets 0 = Pair []" by (rule ext) simp
  then show ?case by (simp add: stable_done)
next
  case (Suc k)
  show ?case
    unfolding read_sockets.simps(2) [abs_def] by (intro stable_if stable_bind stable_socket Suc stable_done)
qed

lemma stable_node: "stable (read_node m)"
  unfolding read_node_def [abs_def] by (intro stable_bind stable_readers stable_sockets stable_done)

section \<open>Properties\<close>

lemma open_at_bytes: "open_reader bs = at_bytes [] bs"
  by (simp add: open_reader_def at_bytes_def)

text \<open>C32: A host's layout survives the wire: reading what \<open>serialize_node_topology\<close> wrote, with or without
  more bytes behind it, succeeds and gives the hostname, the counts, the memory and every socket with its
  whole list of CPUs, as long as no name is longer than 65535 bytes and no list longer than its counter;
  the ranks of the node read into are left alone.\<close>

theorem topology_roundtrip:
  assumes "node_fits n"
  shows "deserialize_node_topology m (serialize_node_topology n @ rest) = (True, with_layout_of n m)"
  using readsD [OF reads_node [OF assms], of m "[]" rest]
  by (simp add: deserialize_node_topology_def open_at_bytes)

definition sample_node :: topology_node where
  "sample_node = empty_node\<lparr>tn_hostname := ''n1'', tn_total_logical_cores := 300, tn_mem_total_bytes := 70000,
     tn_sockets := [empty_socket\<lparr>ts_name := ''cpu'', ts_cpu_ids := [0, 511]\<rparr>]\<rparr>"

lemma sample_node_fits: "node_fits sample_node"
  by (simp add: sample_node_def node_fits_def socket_fits_def empty_node_def empty_socket_def)

lemma topology_roundtrip_witness:
  "deserialize_node_topology empty_node (serialize_node_topology sample_node @ [7]) = (True, sample_node)"
  using topology_roundtrip [OF sample_node_fits, of empty_node "[7]"]
  by (simp add: with_layout_of_def sample_node_def empty_node_def)

text \<open>A buffer cut off anywhere is refused: \<open>deserialize_node_topology\<close> returns false on every proper
  prefix of a serialized layout.\<close>

theorem topology_truncated:
  assumes "node_fits n" and "k < length (serialize_node_topology n)"
  shows "\<not> fst (deserialize_node_topology m (take k (serialize_node_topology n)))"
proof
  let ?bs = "serialize_node_topology n" and ?r = "open_reader (take k (serialize_node_topology n))"
  assume "fst (deserialize_node_topology m (take k ?bs))"
  then have ok: "br_ok (snd (read_node m ?r))" by (simp add: deserialize_node_topology_def split: prod.splits)
  have pos: "br_pos ?r \<le> length (br_data ?r)" by (simp add: open_reader_def)
  have ext: "extend (drop k ?bs) ?r = open_reader ?bs" by (simp add: extend_def open_reader_def)
  have S: "br_pos (snd (read_node m ?r)) \<le> length (br_data ?r)"
    "snd (read_node m (open_reader ?bs)) = extend (drop k ?bs) (snd (read_node m ?r))"
    using stable_node [of m, unfolded stable_def, rule_format, OF ok, of "drop k ?bs"] pos by (simp_all add: ext)
  have "br_pos (snd (read_node m (open_reader ?bs))) = length ?bs"
    using readsD [OF reads_node [OF assms(1)], of m "[]" "[]"] by (simp add: open_at_bytes) (simp add: at_bytes_def)
  moreover have "br_pos (extend (drop k ?bs) x) = br_pos x" for x by (simp add: extend_def)
  moreover have "length (br_data ?r) = k" using assms(2) by (simp add: open_reader_def)
  ultimately show False using S assms(2) by (metis less_le_not_le)
qed

lemma topology_truncated_witness:
  "\<not> fst (deserialize_node_topology empty_node (take 5 (serialize_node_topology sample_node)))"
  by (rule topology_truncated [OF sample_node_fits])
    (simp add: serialize_node_topology_def put_str_def put_u16_def put_u64_def Let_def)

end
