(* ===== verification/Host_Probes.thy ===== *)
theory Host_Probes
  imports Telemetry_Frames Gempba_Prelude
begin

unbundle bit_operations_syntax

text \<open>
  What a process reads about its host (\<open>src/telemetry/topology_builder.cpp\<close>,
  \<open>src/telemetry/hwloc_probe.cpp\<close>, \<open>src/telemetry/node_probe.cpp\<close>,
  \<open>private/impl/telemetry/cgroup_memory.hpp\<close>), in the Linux branches. A file is the list of its lines, or
  None when it cannot be opened; what hwloc and the operating system answer is a record of the answers.
\<close>

section \<open>Text\<close>

definition is_space :: "char \<Rightarrow> bool" where
  "is_space c \<longleftrightarrow> c = CHR '' '' \<or> (0x09 \<le> (of_char c :: nat) \<and> (of_char c :: nat) \<le> 0x0D)"

definition is_digit :: "char \<Rightarrow> bool" where
  "is_digit c \<longleftrightarrow> 0x30 \<le> (of_char c :: nat) \<and> (of_char c :: nat) \<le> 0x39"

definition decimal :: "string \<Rightarrow> nat" where
  "decimal ds = foldl (\<lambda>v c. 10 * v + (of_char c - 0x30)) 0 ds"

text \<open>\<open>std::stoull\<close> in base 10, with the sign \<open>strtoull\<close> accepts.\<close>

definition stoull :: "string \<Rightarrow> 64 word res" where
  "stoull s =
     (let s1 = dropWhile is_space s;
          negative = (s1 \<noteq> [] \<and> hd s1 = CHR ''-'');
          s2 = (if s1 \<noteq> [] \<and> (hd s1 = CHR ''-'' \<or> hd s1 = CHR ''+'') then tl s1 else s1);
          digits = takeWhile is_digit s2;
          v = decimal digits
      in if digits = [] then Inl (Thrown ''stoull: no conversion'')
         else if 2 ^ 64 \<le> v then Inl (Thrown ''stoull: out of range'')
         else Inr (if negative then - word_of_nat v else word_of_nat v))"

definition starts_with :: "string \<Rightarrow> string \<Rightarrow> bool" where
  "starts_with key line \<longleftrightarrow> take (length key) line = key"

text \<open>
  \<open>find_last_not_of\<close> gives \<open>npos\<close> when nothing but blanks is left, and the length \<open>npos - first + 1\<close> then
  is 0 only for \<open>first = 0\<close>; otherwise the rest stays.
\<close>

definition trim_copy :: "string \<Rightarrow> string" where
  "trim_copy s =
     (let rest = dropWhile (\<lambda>c. c = CHR '' '' \<or> c = CHR 0x09) s;
          kept = rev (dropWhile (\<lambda>c. c = CHR '' '' \<or> c = CHR 0x09 \<or> c = CHR 0x0D \<or> c = CHR 0x0A) (rev rest))
      in if rest = [] then [] else if kept = [] \<and> length rest < length s then rest else kept)"

fun cpu_brand_of :: "string list \<Rightarrow> string" where
  "cpu_brand_of [] = []"
| "cpu_brand_of (line # rest) =
     (if starts_with ''model name'' line \<and> CHR '':'' \<in> set line
      then trim_copy (tl (dropWhile (\<lambda>c. c \<noteq> CHR '':'') line)) else cpu_brand_of rest)"

definition read_cpu_brand :: "string list option \<Rightarrow> string" where
  "read_cpu_brand cpuinfo = (case cpuinfo of None \<Rightarrow> [] | Some ls \<Rightarrow> cpu_brand_of ls)"

text \<open>
  A line \<open>key   123 kB\<close> in bytes. The functions that call it are \<open>noexcept\<close>, so that a \<open>Thrown\<close> here ends
  the process.
\<close>

definition kilobytes :: "string \<Rightarrow> 64 word res" where
  "kilobytes line = rbind (stoull (dropWhile (\<lambda>c. \<not> is_digit c) line)) (\<lambda>v. Inr (v * 1024))"

fun total_memory_of :: "string list \<Rightarrow> 64 word res" where
  "total_memory_of [] = Inr 0"
| "total_memory_of (line # rest) =
     (if starts_with ''MemTotal:'' line \<and> list_ex is_digit line then kilobytes line else total_memory_of rest)"

definition query_total_memory_bytes :: "string list option \<Rightarrow> 64 word res" where
  "query_total_memory_bytes meminfo = (case meminfo of None \<Rightarrow> Inr 0 | Some ls \<Rightarrow> total_memory_of ls)"

definition mem_consume :: "string \<Rightarrow> string \<Rightarrow> 64 word res" where
  "mem_consume key line = (if starts_with key line \<and> list_ex is_digit line then kilobytes line else Inr 0)"

fun fill_memory_loop :: "string list \<Rightarrow> 64 word \<times> 64 word \<times> 64 word \<Rightarrow> (64 word \<times> 64 word \<times> 64 word) res" where
  "fill_memory_loop [] acc = Inr acc"
| "fill_memory_loop (line # rest) (tot, avail, free_fallback) =
     rbind (mem_consume ''MemTotal:'' line) (\<lambda>t.
       if t \<noteq> 0 then fill_memory_loop rest (t, avail, free_fallback)
       else rbind (mem_consume ''MemAvailable:'' line) (\<lambda>a.
         if a \<noteq> 0 then fill_memory_loop rest (tot, a, free_fallback)
         else rbind (mem_consume ''MemFree:'' line) (\<lambda>f.
           fill_memory_loop rest (tot, avail, if f \<noteq> 0 then f else free_fallback))))"

definition fill_memory :: "string list option \<Rightarrow> (64 word \<times> 64 word) res" where
  "fill_memory meminfo =
     (case meminfo of None \<Rightarrow> Inr (0, 0)
      | Some ls \<Rightarrow> rbind (fill_memory_loop ls (0, 0, 0))
          (\<lambda>(tot, avail, free_fallback). Inr (tot, if avail = 0 then free_fallback else avail)))"

section \<open>The memory cgroup\<close>

text \<open>\<open>fs p\<close> is the first token of the file \<open>p\<close>, empty for an empty file.\<close>

type_synonym files = "string \<Rightarrow> string option"

definition read_cgroup_uint :: "files \<Rightarrow> string \<Rightarrow> 64 word" where
  "read_cgroup_uint fs path =
     (case fs path of None \<Rightarrow> 0
      | Some token \<Rightarrow> if token = [] \<or> token = ''max'' then 0
                       else (case stoull token of Inl e \<Rightarrow> 0 | Inr v \<Rightarrow> v))"

text \<open>\<open>parent_dir d\<close> is \<open>d\<close> up to its last slash, if it has one.\<close>

definition parent_dir :: "string \<Rightarrow> string option" where
  "parent_dir d = (if CHR ''/'' \<in> set d then Some (rev (tl (dropWhile (\<lambda>c. c \<noteq> CHR ''/'') (rev d)))) else None)"

lemma parent_dir_shorter: "parent_dir d = Some p \<Longrightarrow> length p < length d"
proof -
  assume a: "parent_dir d = Some p"
  then have m: "CHR ''/'' \<in> set d" and p: "p = rev (tl (dropWhile (\<lambda>c. c \<noteq> CHR ''/'') (rev d)))"
    by (auto simp: parent_dir_def split: if_splits)
  have "dropWhile (\<lambda>c. c \<noteq> CHR ''/'') (rev d) \<noteq> []" using m by simp
  then have "length p < length (dropWhile (\<lambda>c. c \<noteq> CHR ''/'') (rev d))" using p by simp
  then show ?thesis using length_dropWhile_le [of "\<lambda>c. c \<noteq> CHR ''/''" "rev d"] by simp
qed

definition next_dir :: "string \<Rightarrow> string \<Rightarrow> string option" where
  "next_dir root dir =
     (if length dir \<le> length root then None
      else case parent_dir dir of None \<Rightarrow> None | Some p \<Rightarrow> if length p < length root then None else Some p)"

lemma next_dir_shorter: "next_dir root d = Some p \<Longrightarrow> length p < length d"
  by (auto simp: next_dir_def split: if_splits option.splits dest: parent_dir_shorter)

definition real_limit :: "64 word \<Rightarrow> 64 word \<Rightarrow> bool" where
  "real_limit host_total v \<longleftrightarrow> v \<noteq> 0 \<and> (host_total = 0 \<or> v \<le> host_total)"

text \<open>The loop of \<open>resolve_cgroup_memory\<close>, with the best limit so far and the usage beside it.\<close>

function cgroup_walk :: "files \<Rightarrow> string \<Rightarrow> string \<Rightarrow> string \<Rightarrow> 64 word \<Rightarrow> string \<Rightarrow> 64 word \<times> 64 word \<Rightarrow> 64 word \<times> 64 word" where
  "cgroup_walk fs root limit_file used_file host_total dir best =
     (let v = read_cgroup_uint fs (dir @ ''/'' @ limit_file);
          best' = (if real_limit host_total v \<and> (fst best = 0 \<or> v < fst best)
                   then (v, read_cgroup_uint fs (dir @ ''/'' @ used_file)) else best)
      in case next_dir root dir of None \<Rightarrow> best'
         | Some p \<Rightarrow> cgroup_walk fs root limit_file used_file host_total p best')"
  by pat_completeness auto
termination by (relation "measure (\<lambda>(_, _, _, _, _, dir, _). length dir)") (auto dest: next_dir_shorter)

declare cgroup_walk.simps [simp del]

text \<open>The limit and the usage.\<close>

definition resolve_cgroup_memory :: "files \<Rightarrow> string \<Rightarrow> string \<Rightarrow> string \<Rightarrow> string \<Rightarrow> 64 word \<Rightarrow> 64 word \<times> 64 word" where
  "resolve_cgroup_memory fs dir root limit_file used_file host_total =
     (let (best_limit, best_used) = cgroup_walk fs root limit_file used_file host_total dir (0, 0)
      in (best_limit, if best_limit \<noteq> 0 then best_used else read_cgroup_uint fs (dir @ ''/'' @ used_file)))"

text \<open>
  \<open>fill_cgroup_memory\<close>: a line of \<open>/proc/self/cgroup\<close> is a number, the controllers and the path; the last
  one of each kind counts.
\<close>

definition contains :: "string \<Rightarrow> string \<Rightarrow> bool" where
  "contains word s \<longleftrightarrow> list_ex (\<lambda>i. starts_with word (drop i s)) [0..<length s + 1]"

definition cgroup_line :: "string \<Rightarrow> string \<times> string \<Rightarrow> string \<times> string" where
  "cgroup_line line paths =
     (let s1 = dropWhile (\<lambda>c. c \<noteq> CHR '':'') line; s2 = dropWhile (\<lambda>c. c \<noteq> CHR '':'') (tl s1);
          controllers = takeWhile (\<lambda>c. c \<noteq> CHR '':'') (tl s1); path = tl s2
      in if s1 = [] \<or> s2 = [] then paths
         else if controllers = [] then (path, snd paths)
         else if contains ''memory'' controllers then (fst paths, path) else paths)"

definition fill_cgroup_memory :: "files \<Rightarrow> string list option \<Rightarrow> 64 word \<Rightarrow> 64 word \<times> 64 word" where
  "fill_cgroup_memory fs cgroup host_total =
     (case cgroup of None \<Rightarrow> (0, 0)
      | Some ls \<Rightarrow>
          let (v2, v1) = fold cgroup_line ls ([], []);
              (limit, used) = (if v2 \<noteq> [] then resolve_cgroup_memory fs (''/sys/fs/cgroup'' @ v2) ''/sys/fs/cgroup''
                                 ''memory.max'' ''memory.current'' host_total else (0, 0))
          in if limit = 0 \<and> used = 0 \<and> v1 \<noteq> []
             then resolve_cgroup_memory fs (''/sys/fs/cgroup/memory'' @ v1) ''/sys/fs/cgroup/memory''
                    ''memory.limit_in_bytes'' ''memory.usage_in_bytes'' host_total
             else (limit, used))"

section \<open>The limit that binds\<close>

text \<open>
  The directories from \<open>dir\<close> up to the root, the deepest first: \<open>dir\<close>, and \<open>dir\<close> cut before each of its
  slashes that the path of the root does not reach over.
\<close>

definition slashes_below :: "nat \<Rightarrow> string \<Rightarrow> nat list" where
  "slashes_below k dir = filter (\<lambda>i. dir ! i = CHR ''/'' \<and> k \<le> i) [0..<length dir]"

definition dir_chain :: "string \<Rightarrow> string \<Rightarrow> string list" where
  "dir_chain root dir = dir # rev (map (\<lambda>i. take i dir) (slashes_below (length root) dir))"

lemma parent_dir_split:
  assumes "parent_dir d = Some p"
  shows "\<exists>t. d = p @ CHR ''/'' # t \<and> CHR ''/'' \<notin> set t"
proof -
  have "CHR ''/'' \<in> set (rev d)" and p: "p = rev (tl (dropWhile (\<lambda>c. c \<noteq> CHR ''/'') (rev d)))"
    using assms by (auto simp: parent_dir_def split: if_splits)
  then obtain u v where u: "rev d = u @ CHR ''/'' # v" "CHR ''/'' \<notin> set u" by (metis split_list_first)
  have "dropWhile (\<lambda>c. c \<noteq> CHR ''/'') (u @ CHR ''/'' # v) = CHR ''/'' # v" using u(2) by (induction u) auto
  then have "p = rev v" using p u(1) by simp
  moreover have "rev (rev d) = rev v @ CHR ''/'' # rev u" unfolding u(1) by simp
  ultimately show ?thesis using u(2) by (intro exI [of _ "rev u"]) simp
qed

lemma slashes_below_parent:
  assumes "CHR ''/'' \<notin> set t"
  shows "slashes_below k (p @ CHR ''/'' # t) = (if k \<le> length p then slashes_below k p @ [length p] else [])"
proof -
  have "[0..<length (p @ CHR ''/'' # t)] = [0..<length p] @ [length p] @ [Suc (length p)..<Suc (length p) + length t]"
    using upt_add_eq_append [of 0 "length p" "Suc (length t)"] upt_conv_Cons [of "length p" "length p + Suc (length t)"]
    by simp
  moreover have "filter (\<lambda>i. (p @ CHR ''/'' # t) ! i = CHR ''/'' \<and> k \<le> i) [Suc (length p)..<Suc (length p) + length t] = []"
    using assms by (auto simp: filter_empty_conv nth_append nth_Cons' in_set_conv_nth)
  moreover have "filter (\<lambda>i. (p @ CHR ''/'' # t) ! i = CHR ''/'' \<and> k \<le> i) [0..<length p] = slashes_below k p"
    unfolding slashes_below_def by (rule filter_cong) (simp_all add: nth_append)
  moreover have "slashes_below k p = []" if "\<not> k \<le> length p"
    using that by (auto simp: slashes_below_def filter_empty_conv)
  ultimately show ?thesis by (simp add: slashes_below_def)
qed

lemma dir_chain_step:
  "dir_chain root dir = dir # (case next_dir root dir of None \<Rightarrow> [] | Some p \<Rightarrow> dir_chain root p)"
proof (cases "parent_dir dir")
  case None
  then have "CHR ''/'' \<notin> set dir" by (auto simp: parent_dir_def split: if_splits)
  then have "slashes_below (length root) dir = []"
    unfolding slashes_below_def filter_empty_conv by (metis atLeastLessThan_iff nth_mem set_upt)
  then show ?thesis using None by (simp add: dir_chain_def next_dir_def)
next
  case (Some p)
  from parent_dir_split [OF Some] obtain t where d: "dir = p @ CHR ''/'' # t" "CHR ''/'' \<notin> set t" by blast
  have "map (\<lambda>i. take i dir) (slashes_below k p) = map (\<lambda>i. take i p) (slashes_below k p)" for k
    by (auto simp: d slashes_below_def)
  then show ?thesis
    using Some slashes_below_parent [OF d(2), of "length root" p] by (auto simp: dir_chain_def next_dir_def d)
qed

definition limit_at :: "files \<Rightarrow> string \<Rightarrow> string \<Rightarrow> 64 word" where
  "limit_at fs limit_file d = read_cgroup_uint fs (d @ ''/'' @ limit_file)"

definition binding :: "files \<Rightarrow> string \<Rightarrow> 64 word \<Rightarrow> string list \<Rightarrow> string list" where
  "binding fs limit_file host_total ds =
     filter (\<lambda>d. real_limit host_total (limit_at fs limit_file d)) ds"

text \<open>A step of the walk takes a directory when its limit is real and smaller than the best so far.\<close>

definition best_of :: "files \<Rightarrow> string \<Rightarrow> string \<Rightarrow> 64 word \<Rightarrow> string \<Rightarrow> 64 word \<times> 64 word \<Rightarrow> 64 word \<times> 64 word" where
  "best_of fs limit_file used_file host_total dir best =
     (let v = limit_at fs limit_file dir
      in if real_limit host_total v \<and> (fst best = 0 \<or> v < fst best)
         then (v, read_cgroup_uint fs (dir @ ''/'' @ used_file)) else best)"


lemma cgroup_walk_chain:
  "cgroup_walk fs root lf uf t dir best = fold (best_of fs lf uf t) (dir_chain root dir) best"
proof (induction dir arbitrary: best rule: measure_induct_rule [where f = length])
  case (less dir)
  show ?case
  proof (cases "next_dir root dir")
    case None
    then show ?thesis
      by (simp add: cgroup_walk.simps [of _ _ _ _ _ dir] dir_chain_step [of _ dir] best_of_def limit_at_def Let_def)
  next
    case (Some p)
    show ?thesis
      using less.IH [OF next_dir_shorter [OF Some]] Some
      by (simp add: cgroup_walk.simps [of _ _ _ _ _ dir] dir_chain_step [of _ dir] best_of_def limit_at_def Let_def)
  qed
qed

text \<open>
  The smallest real limit of the chain, and the deepest of the directories that have it; 0 and the leaf
  when no directory has a real limit.
\<close>

definition tightest_limit :: "files \<Rightarrow> string \<Rightarrow> 64 word \<Rightarrow> string list \<Rightarrow> 64 word" where
  "tightest_limit fs limit_file host_total ds =
     (let bs = binding fs limit_file host_total ds in if bs = [] then 0 else Min (limit_at fs limit_file ` set bs))"

definition tightest_dir :: "files \<Rightarrow> string \<Rightarrow> 64 word \<Rightarrow> string list \<Rightarrow> string" where
  "tightest_dir fs limit_file host_total ds =
     (let bs = binding fs limit_file host_total ds
      in if bs = [] then hd ds
         else hd (filter (\<lambda>d. limit_at fs limit_file d = tightest_limit fs limit_file host_total ds) bs))"

lemma binding_snoc: "binding fs lf t (ds @ [d]) =
    binding fs lf t ds @ (if real_limit t (limit_at fs lf d) then [d] else [])"
  by (simp add: binding_def)

lemma binding_real: "d \<in> set (binding fs lf t ds) \<Longrightarrow> real_limit t (limit_at fs lf d)"
  by (simp add: binding_def)

lemma tightest_in:
  assumes "binding fs lf t ds \<noteq> []"
  shows "tightest_limit fs lf t ds \<in> limit_at fs lf ` set (binding fs lf t ds)"
  using assms by (simp add: tightest_limit_def del: set_empty) (rule Min_in, simp_all)

lemma tightest_le: "d \<in> set (binding fs lf t ds) \<Longrightarrow> tightest_limit fs lf t ds \<le> limit_at fs lf d"
  by (auto simp: tightest_limit_def Let_def)

lemma tightest_real: "binding fs lf t ds \<noteq> [] \<Longrightarrow> real_limit t (tightest_limit fs lf t ds)"
  using tightest_in [of fs lf t ds] binding_real by fastforce

lemma tightest_limit_snoc:
  "tightest_limit fs lf t (ds @ [d]) =
     (if real_limit t (limit_at fs lf d) \<and> (binding fs lf t ds = [] \<or> limit_at fs lf d < tightest_limit fs lf t ds)
      then limit_at fs lf d else tightest_limit fs lf t ds)"
  by (cases "real_limit t (limit_at fs lf d)") (simp_all add: tightest_limit_def Let_def binding_snoc min_def order.order_iff_strict
      del: Min_le_iff Min_less_iff Min_ge_iff Min_gr_iff)

lemma tightest_hit:
  assumes "binding fs lf t ds \<noteq> []"
  shows "filter (\<lambda>d. limit_at fs lf d = tightest_limit fs lf t ds) (binding fs lf t ds) \<noteq> []"
  using tightest_in [OF assms] by (auto simp: filter_empty_conv)

lemma best_of_limit_at: "best_of fs lf uf t d best =
    (if real_limit t (limit_at fs lf d) \<and> (fst best = 0 \<or> limit_at fs lf d < fst best)
     then (limit_at fs lf d, read_cgroup_uint fs (d @ ''/'' @ uf)) else best)"
  by (simp add: best_of_def Let_def)

lemma fold_best_of:
  "fold (best_of fs lf uf t) ds (0, 0) =
     (if binding fs lf t ds = [] then (0, 0)
      else (tightest_limit fs lf t ds, read_cgroup_uint fs (tightest_dir fs lf t ds @ ''/'' @ uf)))"
proof (induction ds rule: rev_induct)
  case Nil
  show ?case by (simp add: binding_def)
next
  case (snoc d ds)
  let ?B = "binding fs lf t ds" and ?m = "tightest_limit fs lf t ds" and ?v = "limit_at fs lf d"
  have m0: "?B \<noteq> [] \<Longrightarrow> ?m \<noteq> 0" using tightest_real [of fs lf t ds] by (auto simp: real_limit_def)
  have taken: "tightest_dir fs lf t (ds @ [d]) = d" if "real_limit t ?v" "?B = [] \<or> ?v < ?m"
  proof -
    have "filter (\<lambda>e. limit_at fs lf e = ?v) ?B = []"
      using that(2) tightest_le [of _ fs lf t ds] by (fastforce simp: filter_empty_conv)
    then show ?thesis using that by (simp add: tightest_dir_def Let_def binding_snoc tightest_limit_snoc)
  qed
  have kept: "tightest_dir fs lf t (ds @ [d]) = tightest_dir fs lf t ds" if "?B \<noteq> []" "\<not> (real_limit t ?v \<and> ?v < ?m)"
    using that tightest_hit [OF that(1)] by (simp add: tightest_dir_def Let_def binding_snoc tightest_limit_snoc)
  show ?case
    using snoc taken kept m0 by (simp add: best_of_limit_at binding_snoc tightest_limit_snoc)
qed

text \<open>C33: The limit reported is the one that binds: the smallest real limit among the directories from the
  process's own up to the root, with the usage of the deepest directory that has it; when no directory has
  a real limit, the limit is 0 and the usage that of the process's own directory.\<close>

theorem cgroup_limit_binds:
  "resolve_cgroup_memory fs dir root limit_file used_file host_total =
     (tightest_limit fs limit_file host_total (dir_chain root dir),
      read_cgroup_uint fs (tightest_dir fs limit_file host_total (dir_chain root dir) @ ''/'' @ used_file))"
proof (cases "binding fs limit_file host_total (dir_chain root dir) = []")
  case True
  moreover have "hd (dir_chain root dir) = dir" by (simp add: dir_chain_def)
  ultimately show ?thesis
    by (simp add: resolve_cgroup_memory_def cgroup_walk_chain fold_best_of tightest_limit_def tightest_dir_def)
next
  case False
  moreover have "tightest_limit fs limit_file host_total (dir_chain root dir) \<noteq> 0"
    using tightest_real [OF False] by (simp add: real_limit_def)
  ultimately show ?thesis by (simp add: resolve_cgroup_memory_def cgroup_walk_chain fold_best_of)
qed

end
