(* ===== verification/Host_Layout.thy ===== *)
theory Host_Layout
  imports Host_Probes
begin

text \<open>
  The description a rank gives of itself and of its host: \<open>src/telemetry/hwloc_probe.cpp\<close>, the sampling of
  \<open>src/telemetry/node_probe.cpp\<close> and the first half of \<open>src/telemetry/topology_builder.cpp\<close>. The answers of
  hwloc and of the operating system are the fields of \<open>hw_view\<close> and \<open>host_probe\<close>.
\<close>

section \<open>hwloc\<close>

text \<open>
  A package that has a CPU set: its model, its subtype, the number of cores and of processing units inside
  it, and the units the iteration visits. A NUMA node: the packages whose CPU sets include its own, None
  when it has none, and its memory, None without attributes.
\<close>

record hw_package =
  hp_model :: "string option"
  hp_subtype :: "string option"
  hp_cores :: int
  hp_pu_count :: int
  hp_pus :: "32 word list"

record hw_numa =
  hn_in_package :: "(nat \<Rightarrow> bool) option"
  hn_local_memory :: "64 word option"

record hw_view =
  hv_package_count :: int
  hv_package :: "nat \<Rightarrow> hw_package option"
  hv_pu_count :: int
  hv_core_count :: int
  hv_numas :: "hw_numa list"

definition read_socket_brand :: "hw_package \<Rightarrow> string" where
  "read_socket_brand p =
     (case hp_model p of Some m \<Rightarrow> m | None \<Rightarrow> (case hp_subtype p of Some s \<Rightarrow> s | None \<Rightarrow> []))"

definition layout_of_package :: "nat \<Rightarrow> hw_package \<Rightarrow> topology_socket" where
  "layout_of_package i p =
     \<lparr>ts_socket_id = word_of_nat i, ts_name = read_socket_brand p,
      ts_physical_cores = (if 0 < hp_cores p then word_of_int (hp_cores p) else 0),
      ts_logical_cores = (if 0 < hp_pu_count p then word_of_int (hp_pu_count p) else 0),
      ts_cpu_ids = hp_pus p\<rparr>"

definition hw_sockets :: "hw_view \<Rightarrow> topology_socket list" where
  "hw_sockets v =
     concat (map (\<lambda>i. case hv_package v i of None \<Rightarrow> [] | Some p \<Rightarrow> [layout_of_package i p])
       [0..<nat (hv_package_count v)])"

text \<open>The node is written even when no package turns out to be usable and the result is false.\<close>

definition fill_static_topology_from_topology :: "hw_view \<Rightarrow> topology_node \<Rightarrow> bool \<times> topology_node" where
  "fill_static_topology_from_topology v n =
     (if hv_package_count v \<le> 0 then (False, n)
      else let n1 = (if 0 < hv_pu_count v then n\<lparr>tn_total_logical_cores := word_of_int (hv_pu_count v)\<rparr> else n);
               n2 = (if 0 < hv_core_count v then n1\<lparr>tn_total_physical_cores := word_of_int (hv_core_count v)\<rparr> else n1);
               n3 = n2\<lparr>tn_sockets := hw_sockets v\<rparr>
           in (tn_sockets n3 \<noteq> [], n3))"

definition fill_static_topology_via_hwloc :: "hw_view option \<Rightarrow> topology_node \<Rightarrow> bool \<times> topology_node" where
  "fill_static_topology_via_hwloc loaded n =
     (case loaded of None \<Rightarrow> (False, n) | Some v \<Rightarrow> fill_static_topology_from_topology v n)"

definition package_memory :: "hw_view \<Rightarrow> nat \<Rightarrow> 64 word" where
  "package_memory v i =
     fold (\<lambda>d acc. case hn_in_package d of None \<Rightarrow> acc
             | Some inside \<Rightarrow> if inside i then acc + (case hn_local_memory d of None \<Rightarrow> 0 | Some b \<Rightarrow> b) else acc)
       (hv_numas v) 0"

definition runtime_socket :: "hw_view \<Rightarrow> nat \<Rightarrow> socket_stats" where
  "runtime_socket v i =
     \<lparr>ss_socket_id = word_of_nat i, ss_cpu_pct = 0,
      ss_mem_total_bytes = (case hv_package v i of None \<Rightarrow> 0 | Some p \<Rightarrow> package_memory v i),
      ss_mem_used_bytes = 0\<rparr>"

text \<open>\<open>m_sockets\<close> has \<open>MAX_SOCKETS\<close> entries; those past the count keep what they had.\<close>

definition fill_runtime_from_topology :: "hw_view \<Rightarrow> node_frame \<Rightarrow> bool \<times> node_frame" where
  "fill_runtime_from_topology v f =
     (if hv_package_count v \<le> 0 then (False, f)
      else let clamped = min (nat (hv_package_count v)) MAX_SOCKETS
           in (True, f\<lparr>nf_socket_count := word_of_nat clamped,
                nf_sockets := map (runtime_socket v) [0..<clamped] @ drop clamped (nf_sockets f)\<rparr>))"

definition fill_runtime_via_hwloc :: "hw_view option \<Rightarrow> node_frame \<Rightarrow> bool \<times> node_frame" where
  "fill_runtime_via_hwloc loaded f =
     (case loaded of None \<Rightarrow> (False, f) | Some v \<Rightarrow> fill_runtime_from_topology v f)"

section \<open>The host\<close>

text \<open>
  What the system answers: the name \<open>gethostname\<close> wrote, None when it failed; the process id; whether a CPU
  is in the affinity set, None when that cannot be read; the package of a CPU by hwloc; the two files; the
  number of threads the hardware runs; hwloc's topology, if it loads.
\<close>

record host_probe =
  hb_hostname :: "string option"
  hb_pid :: "32 word"
  hb_affinity :: "(nat \<Rightarrow> bool) option"
  hb_socket_of_cpu :: "nat \<Rightarrow> int"
  hb_meminfo :: "string list option"
  hb_cpuinfo :: "string list option"
  hb_concurrency :: "32 word"
  hb_hwloc :: "hw_view option"
  hb_files :: files
  hb_cgroup :: "string list option"

text \<open>The buffer has 64 bytes, the last of which ends the string.\<close>

definition fill_hostname :: "host_probe \<Rightarrow> string" where
  "fill_hostname h = (case hb_hostname h of None \<Rightarrow> ''unknown'' | Some s \<Rightarrow> take 63 s)"

definition mask_word :: "(nat \<Rightarrow> bool) \<Rightarrow> nat \<Rightarrow> 64 word" where
  "mask_word allowed w = fold (\<lambda>b acc. if allowed (64 * w + b) then acc OR push_bit b 1 else acc) [0..<64] 0"

definition query_allowed_cpu_mask :: "(nat \<Rightarrow> bool) option \<Rightarrow> 64 word list" where
  "query_allowed_cpu_mask affinity =
     (case affinity of None \<Rightarrow> replicate CPU_MASK_WORDS 0 | Some allowed \<Rightarrow> map (mask_word allowed) [0..<CPU_MASK_WORDS])"

fun first_bit :: "64 word \<Rightarrow> nat list \<Rightarrow> nat option" where
  "first_bit w [] = None"
| "first_bit w (b # bs) = (if w AND push_bit b 1 \<noteq> 0 then Some b else first_bit w bs)"

fun first_allowed_from :: "64 word list \<Rightarrow> nat \<Rightarrow> int" where
  "first_allowed_from [] i = -1"
| "first_allowed_from (w # ws) i =
     (if w = 0 then first_allowed_from ws (i + 1)
      else case first_bit w [0..<64] of Some b \<Rightarrow> int (i * 64 + b) | None \<Rightarrow> first_allowed_from ws (i + 1))"

definition first_allowed_cpu :: "64 word list \<Rightarrow> int" where
  "first_allowed_cpu cpus = first_allowed_from cpus 0"

definition build_self_identity :: "32 word \<Rightarrow> host_probe \<Rightarrow> worker_identity" where
  "build_self_identity rank h =
     (let cpus = query_allowed_cpu_mask (hb_affinity h);
          first_cpu = first_allowed_cpu cpus;
          socket = (if 0 \<le> first_cpu then hb_socket_of_cpu h (nat first_cpu) else -1)
      in \<lparr>wi_version = TELEMETRY_SCHEMA_VERSION, wi_worker_id = rank, wi_hostname = fill_hostname h,
          wi_pid = hb_pid h, wi_primary_socket = (if socket < 0 then 0 else word_of_int socket),
          wi_allowed_cpu_mask = cpus\<rparr>)"

text \<open>The number of logical cores is cut to 16 bits before it is used.\<close>

definition fallback_socket :: "host_probe \<Rightarrow> 16 word \<Rightarrow> topology_socket" where
  "fallback_socket h logical =
     \<lparr>ts_socket_id = 0, ts_name = read_cpu_brand (hb_cpuinfo h), ts_physical_cores = 0, ts_logical_cores = logical,
      ts_cpu_ids = map word_of_nat [0..<unat logical]\<rparr>"

definition fill_local_host_fields :: "host_probe \<Rightarrow> topology_node \<Rightarrow> topology_node res" where
  "fill_local_host_fields h n =
     rbind (query_total_memory_bytes (hb_meminfo h)) (\<lambda>mem.
       let (done, n1) = fill_static_topology_via_hwloc (hb_hwloc h) (n\<lparr>tn_mem_total_bytes := mem\<rparr>);
           logical = (ucast (if hb_concurrency h = 0 then 1 else hb_concurrency h) :: 16 word)
       in Inr (if done then n1
               else n1\<lparr>tn_total_logical_cores := logical, tn_total_physical_cores := 0,
                       tn_sockets := tn_sockets n1 @ [fallback_socket h logical]\<rparr>))"

text \<open>\<open>node_probe::sample\<close>.\<close>

definition sample_node_frame :: "host_probe \<Rightarrow> node_frame \<Rightarrow> node_frame res" where
  "sample_node_frame h f =
     rbind (fill_memory (hb_meminfo h)) (\<lambda>(tot, avail).
       let (limit, used) = fill_cgroup_memory (hb_files h) (hb_cgroup h) tot;
           f1 = f\<lparr>nf_hostname := fill_hostname h,
                  nf_logical_cores := (if hb_concurrency h = 0 then 1 else hb_concurrency h),
                  nf_mem_total_bytes := tot, nf_mem_avail_bytes := avail,
                  nf_cgroup_mem_used_bytes := used, nf_cgroup_mem_limit_bytes := limit\<rparr>;
           (done, f2) = fill_runtime_via_hwloc (hb_hwloc h) f1
       in Inr (if done then f2
               else f2\<lparr>nf_socket_count := 1,
                  nf_sockets := (nf_sockets f2)[0 := \<lparr>ss_socket_id = 0, ss_cpu_pct = 0, ss_mem_total_bytes = tot,
                    ss_mem_used_bytes = (if avail < tot then tot - avail else 0)\<rparr>]\<rparr>))"

section \<open>The lowest CPU\<close>

lemma bit_of_mask_word: "bit (mask_word allowed w) b \<longleftrightarrow> b < 64 \<and> allowed (64 * w + b)"
proof -
  have "bit (fold (\<lambda>b acc. if allowed (64 * w + b) then acc OR push_bit b 1 else acc) [0..<k] (0 :: 64 word)) b \<longleftrightarrow>
      b < k \<and> b < 64 \<and> allowed (64 * w + b)" for k
    by (induction k) (auto simp: bit_or_iff bit_exp_iff possible_bit_def less_Suc_eq)
  from this [of 64] show ?thesis by (simp add: mask_word_def)
qed

lemma first_bit_find: "\<forall>b \<in> set bs. b < 64 \<Longrightarrow> first_bit w bs = find (bit w) bs"
proof (induction bs)
  case (Cons b bs)
  have "w AND 2 ^ b \<noteq> 0 \<longleftrightarrow> bit w b"
    by (simp add: and_exp_eq_0_iff_not_bit)
  then show ?case using Cons by simp
qed simp

lemma find_append: "find P (xs @ ys) = (case find P xs of None \<Rightarrow> find P ys | Some x \<Rightarrow> Some x)"
  by (induction xs) auto

lemma find_map: "find P (map f xs) = map_option f (find (\<lambda>x. P (f x)) xs)"
  by (induction xs) auto

lemma map_add_upt_from: "map (\<lambda>b. a + b) [0..<k] = [a..<a + k]"
  by (induction k) simp_all

lemma first_allowed_from_find:
  "i \<le> n \<Longrightarrow> first_allowed_from (map (mask_word allowed) [i..<n]) i =
     (case find allowed [64 * i..<64 * n] of None \<Rightarrow> -1 | Some c \<Rightarrow> int c)"
proof (induction "n - i" arbitrary: i)
  case (Suc d)
  have s: "[i..<n] = i # [Suc i..<n]" using Suc.hyps(2) by (simp add: upt_rec)
  have r: "[64 * i..<64 * n] = map (\<lambda>b. 64 * i + b) [0..<64] @ [64 * Suc i..<64 * n]"
    using Suc.hyps(2) upt_add_eq_append [of "64 * i" "64 * Suc i" "64 * n - 64 * Suc i"]
    by (simp add: map_add_upt_from add.commute [of 64] del: upt_Suc)
  have b: "first_bit (mask_word allowed i) [0..<64] = find (\<lambda>b. allowed (64 * i + b)) [0..<64]"
    by (subst first_bit_find, simp, rule find_cong) (simp_all add: bit_of_mask_word)
  show ?case
  proof (cases "find (\<lambda>b. allowed (64 * i + b)) [0..<64]")
    case None
    then show ?thesis
      using Suc.hyps(1) [of "Suc i"] Suc.hyps(2) b
      by (simp only: s r find_append find_map) (simp del: upt_Suc)
  next
    case (Some c)
    then have "mask_word allowed i \<noteq> 0"
      using bit_of_mask_word [of allowed i c] by (auto simp: find_Some_iff)
    then show ?thesis
      using Some b by (simp only: s r find_append find_map) (simp add: algebra_simps del: upt_Suc)
  qed
qed simp

text \<open>The CPU a rank is placed by is the lowest it may run on.\<close>

lemma first_allowed_cpu_lowest:
  "first_allowed_cpu (query_allowed_cpu_mask (Some allowed)) =
     (case find allowed [0..<1024] of None \<Rightarrow> -1 | Some c \<Rightarrow> int c)"
  using first_allowed_from_find [of 0 16 allowed]
  by (simp add: first_allowed_cpu_def query_allowed_cpu_mask_def CPU_MASK_WORDS_def del: upt_Suc)

end
