(* ===== verification/Topology_Snapshot.thy ===== *)
theory Topology_Snapshot
  imports Topology_Codec Host_Layout
begin

text \<open>
  The topology of a run (second half of \<open>src/telemetry/topology_builder.cpp\<close>): the ranks are grouped by
  host, the lowest rank of each host, its sentinel, describes the host, and all ranks put the same
  snapshot together. The three collective operations of MPI are parameters of \<open>build_mpi_snapshot\<close>: what
  a rank contributes is their argument, what it receives their value.
\<close>

definition build_mt_only_snapshot :: "32 word \<Rightarrow> host_probe \<Rightarrow> topology_snapshot res" where
  "build_mt_only_snapshot rank h =
     (let self = build_self_identity rank h
      in rbind (fill_local_host_fields h (empty_node\<lparr>tn_hostname := wi_hostname self, tn_worker_ids := [rank],
             tn_sentinel_worker_id := rank\<rparr>))
           (\<lambda>n. Inr \<lparr>tp_nodes = [n], tp_identities = [self]\<rparr>))"

text \<open>The nodes found so far, and the index of a hostname among them.\<close>

type_synonym grouping = "topology_node list \<times> (string \<Rightarrow> nat option)"

definition group_rank :: "worker_identity \<Rightarrow> grouping \<Rightarrow> grouping" where
  "group_rank self g =
     (case g of (nodes, index) \<Rightarrow>
        (case index (wi_hostname self) of
           None \<Rightarrow> (nodes @ [empty_node\<lparr>tn_hostname := wi_hostname self, tn_worker_ids := [wi_worker_id self],
                       tn_sentinel_worker_id := wi_worker_id self\<rparr>],
                    index(wi_hostname self \<mapsto> length nodes))
         | Some i \<Rightarrow>
             let n = (nodes ! i)\<lparr>tn_worker_ids := tn_worker_ids (nodes ! i) @ [wi_worker_id self]\<rparr>;
                 n1 = (if wi_worker_id self < tn_sentinel_worker_id n
                       then n\<lparr>tn_sentinel_worker_id := wi_worker_id self\<rparr> else n)
             in (nodes[i := n1], index)))"

definition group_ranks :: "worker_identity list \<Rightarrow> grouping" where
  "group_ranks ids = fold group_rank ids ([], \<lambda>h. None)"

definition self_blob :: "32 word \<Rightarrow> worker_identity \<Rightarrow> host_probe \<Rightarrow> grouping \<Rightarrow> byte list res" where
  "self_blob rank self h g =
     (if (case snd g (wi_hostname self) of None \<Rightarrow> False
          | Some i \<Rightarrow> tn_sentinel_worker_id (fst g ! i) = rank)
      then rbind (fill_local_host_fields h (empty_node\<lparr>tn_hostname := wi_hostname self\<rparr>))
             (\<lambda>n. Inr (serialize_node_topology n))
      else Inr [])"

text \<open>The displacements and their total, an \<open>int\<close>.\<close>

fun displacements :: "int \<Rightarrow> int list \<Rightarrow> (int list \<times> int) res" where
  "displacements tot [] = Inr ([], tot)"
| "displacements tot (s # sizes) =
     (if - (2 ^ 31) \<le> tot + s \<and> tot + s < 2 ^ 31 then rbind (displacements (tot + s) sizes) (\<lambda>(ds, t). Inr (tot # ds, t))
      else Inl Undefined)"

definition merge_fragment :: "(string \<Rightarrow> nat option) \<Rightarrow> byte list \<Rightarrow> int \<times> int \<Rightarrow> topology_node list \<Rightarrow> topology_node list" where
  "merge_fragment index gathered piece nodes =
     (let (size, displ) = piece
      in if size \<le> 0 then nodes
         else let (ok, fragment) = deserialize_node_topology empty_node (take (nat size) (drop (nat displ) gathered))
              in if \<not> ok then nodes
                 else case index (tn_hostname fragment) of None \<Rightarrow> nodes
                   | Some i \<Rightarrow> nodes[i := (nodes ! i)\<lparr>tn_total_physical_cores := tn_total_physical_cores fragment,
                         tn_total_logical_cores := tn_total_logical_cores fragment,
                         tn_mem_total_bytes := tn_mem_total_bytes fragment,
                         tn_sockets := tn_sockets fragment\<rparr>])"

text \<open>The size of a blob is cast to \<open>int\<close>.\<close>

definition int_size :: "byte list \<Rightarrow> int" where
  "int_size b = sint (word_of_nat (length b) :: 32 word)"

definition build_mpi_snapshot ::
    "(worker_identity \<Rightarrow> worker_identity list) \<Rightarrow> (int \<Rightarrow> int list) \<Rightarrow>
     (byte list \<Rightarrow> int list \<Rightarrow> int list \<Rightarrow> byte list) \<Rightarrow> bool \<Rightarrow> 32 word \<Rightarrow> 32 word \<Rightarrow> host_probe \<Rightarrow>
     topology_snapshot res" where
  "build_mpi_snapshot allgather_ids allgather_sizes allgatherv initialized rank world_size h =
     (let self = build_self_identity rank h
      in if \<not> initialized \<or> world_size \<le> 1 then build_mt_only_snapshot rank h
         else let ids = allgather_ids self; g = group_ranks ids
              in rbind (self_blob rank self h g) (\<lambda>blob.
                   let sizes = allgather_sizes (int_size blob)
                   in rbind (displacements 0 sizes) (\<lambda>(displs, tot).
                        let gathered = allgatherv blob sizes displs
                        in Inr \<lparr>tp_nodes = fold (merge_fragment (snd g) gathered) (zip sizes displs) (fst g),
                                tp_identities = ids\<rparr>)))"

definition build_topology_snapshot ::
    "(worker_identity \<Rightarrow> worker_identity list) \<Rightarrow> (int \<Rightarrow> int list) \<Rightarrow>
     (byte list \<Rightarrow> int list \<Rightarrow> int list \<Rightarrow> byte list) \<Rightarrow> bool \<Rightarrow> runtime_mode \<Rightarrow> 32 word \<Rightarrow> 32 word \<Rightarrow> host_probe \<Rightarrow>
     topology_snapshot res" where
  "build_topology_snapshot allgather_ids allgather_sizes allgatherv initialized mode rank world_size h =
     (case mode of MT_ONLY \<Rightarrow> build_mt_only_snapshot rank h
      | MP_MPI \<Rightarrow> build_mpi_snapshot allgather_ids allgather_sizes allgatherv initialized rank world_size h)"

section \<open>All ranks together\<close>

text \<open>
  The ranks of a run, by what each probes on its host: the collectives give every rank the contributions
  of all ranks in the order of the ranks.
\<close>

definition run_ids :: "host_probe list \<Rightarrow> worker_identity list" where
  "run_ids hs = map (\<lambda>i. build_self_identity (word_of_nat i) (hs ! i)) [0..<length hs]"

definition blob_of :: "host_probe list \<Rightarrow> nat \<Rightarrow> byte list" where
  "blob_of hs i = (case self_blob (word_of_nat i) (run_ids hs ! i) (hs ! i) (group_ranks (run_ids hs)) of
     Inl e \<Rightarrow> [] | Inr b \<Rightarrow> b)"

definition run_blobs :: "host_probe list \<Rightarrow> byte list list" where
  "run_blobs hs = map (blob_of hs) [0..<length hs]"

definition snapshot_of_rank :: "host_probe list \<Rightarrow> nat \<Rightarrow> topology_snapshot res" where
  "snapshot_of_rank hs i =
     build_topology_snapshot (\<lambda>self. run_ids hs) (\<lambda>size. map int_size (run_blobs hs))
       (\<lambda>blob sizes displs. concat (run_blobs hs)) True MP_MPI (word_of_nat i) (word_of_nat (length hs)) (hs ! i)"

section \<open>Grouping\<close>

text \<open>The hostnames in the order in which they first occur, and the node of one.\<close>

fun first_hosts :: "string list \<Rightarrow> string list \<Rightarrow> string list" where
  "first_hosts seen [] = []"
| "first_hosts seen (h # hs) = (if h \<in> set seen then first_hosts seen hs else h # first_hosts (h # seen) hs)"

lemma first_hosts_snoc: "first_hosts seen (hs @ [h]) =
    (if h \<in> set seen \<union> set hs then first_hosts seen hs else first_hosts seen hs @ [h])"
  by (induction hs arbitrary: seen) auto

lemma first_hosts_set: "set (first_hosts seen hs) = set hs - set seen"
  by (induction hs arbitrary: seen) auto

lemma first_hosts_distinct: "distinct (first_hosts seen hs)"
  by (induction hs arbitrary: seen) (auto simp: first_hosts_set)

definition hosts_of :: "worker_identity list \<Rightarrow> string list" where
  "hosts_of ids = first_hosts [] (map wi_hostname ids)"

definition ranks_on :: "worker_identity list \<Rightarrow> string \<Rightarrow> 32 word list" where
  "ranks_on ids h = map wi_worker_id (filter (\<lambda>self. wi_hostname self = h) ids)"

definition sentinel_of :: "worker_identity list \<Rightarrow> string \<Rightarrow> 32 word" where
  "sentinel_of ids h = Min (set (ranks_on ids h))"

definition node_of :: "worker_identity list \<Rightarrow> string \<Rightarrow> topology_node" where
  "node_of ids h = empty_node\<lparr>tn_hostname := h, tn_worker_ids := ranks_on ids h, tn_sentinel_worker_id := sentinel_of ids h\<rparr>"

definition indexes :: "string list \<Rightarrow> (string \<Rightarrow> nat option) \<Rightarrow> bool" where
  "indexes hs index \<longleftrightarrow> (\<forall>h i. index h = Some i \<longleftrightarrow> i < length hs \<and> hs ! i = h)"

lemma indexes_None: "indexes hs index \<Longrightarrow> index h = None \<longleftrightarrow> h \<notin> set hs"
  by (auto simp: indexes_def in_set_conv_nth option.expand) (metis not_None_eq)+

lemma hosts_of_snoc: "hosts_of (ids @ [x]) =
    (if wi_hostname x \<in> set (hosts_of ids) then hosts_of ids else hosts_of ids @ [wi_hostname x])"
  by (simp add: hosts_of_def first_hosts_snoc first_hosts_set)

lemma hosts_of_set: "set (hosts_of ids) = wi_hostname ` set ids"
  by (simp add: hosts_of_def first_hosts_set)

lemma hosts_of_distinct: "distinct (hosts_of ids)"
  by (simp add: hosts_of_def first_hosts_distinct)

lemma ranks_on_snoc: "ranks_on (ids @ [x]) h = ranks_on ids h @ (if wi_hostname x = h then [wi_worker_id x] else [])"
  by (simp add: ranks_on_def)

lemma ranks_on_empty: "ranks_on ids h = [] \<longleftrightarrow> h \<notin> set (hosts_of ids)"
  by (auto simp: ranks_on_def hosts_of_set filter_empty_conv)

lemma node_of_other: "wi_hostname x \<noteq> h \<Longrightarrow> node_of (ids @ [x]) h = node_of ids h"
  by (simp add: node_of_def sentinel_of_def ranks_on_snoc)

lemma group_rank_new:
  assumes "indexes (hosts_of ids) index" and "wi_hostname x \<notin> set (hosts_of ids)"
  shows "group_rank x (map (node_of ids) (hosts_of ids), index) =
     (map (node_of (ids @ [x])) (hosts_of (ids @ [x])), index(wi_hostname x \<mapsto> length (hosts_of ids)))"
proof -
  have "ranks_on ids (wi_hostname x) = []" using assms(2) by (simp add: ranks_on_empty)
  then have "node_of (ids @ [x]) (wi_hostname x) = empty_node\<lparr>tn_hostname := wi_hostname x,
      tn_worker_ids := [wi_worker_id x], tn_sentinel_worker_id := wi_worker_id x\<rparr>"
    by (simp add: node_of_def sentinel_of_def ranks_on_snoc)
  moreover have "map (node_of (ids @ [x])) (hosts_of ids) = map (node_of ids) (hosts_of ids)"
    using assms(2) by (intro map_cong) (auto intro!: node_of_other)
  ultimately show ?thesis
    using assms indexes_None [OF assms(1), of "wi_hostname x"] by (simp add: group_rank_def hosts_of_snoc)
qed

lemma group_rank_old:
  assumes "index (wi_hostname x) = Some i" and i: "i < length (hosts_of ids)" "hosts_of ids ! i = wi_hostname x"
  shows "group_rank x (map (node_of ids) (hosts_of ids), index) =
     (map (node_of (ids @ [x])) (hosts_of (ids @ [x])), index)"
proof -
  let ?h = "wi_hostname x"
  have m: "?h \<in> set (hosts_of ids)" using i by (metis nth_mem)
  then have "ranks_on ids ?h \<noteq> []" by (simp add: ranks_on_empty)
  then have s: "sentinel_of (ids @ [x]) ?h = min (wi_worker_id x) (sentinel_of ids ?h)"
    by (simp add: sentinel_of_def ranks_on_snoc)
  have n: "node_of (ids @ [x]) ?h = (let n = (node_of ids ?h)\<lparr>tn_worker_ids := ranks_on ids ?h @ [wi_worker_id x]\<rparr>
      in if wi_worker_id x < tn_sentinel_worker_id n then n\<lparr>tn_sentinel_worker_id := wi_worker_id x\<rparr> else n)"
    by (auto simp: node_of_def s ranks_on_snoc min_def Let_def empty_node_def)
  have "(map (node_of ids) (hosts_of ids))[i := node_of (ids @ [x]) ?h] = map (node_of (ids @ [x])) (hosts_of ids)"
    using i hosts_of_distinct [of ids]
    by (intro nth_equalityI) (auto simp: nth_list_update, metis node_of_other nth_eq_iff_index_eq)
  moreover have "tn_worker_ids (node_of ids ?h) = ranks_on ids ?h" by (simp add: node_of_def)
  ultimately show ?thesis using assms m n by (simp add: group_rank_def hosts_of_snoc Let_def)
qed

lemma group_ranks_spec:
  obtains index where "group_ranks ids = (map (node_of ids) (hosts_of ids), index)" "indexes (hosts_of ids) index"
proof -
  have "\<exists>index. group_ranks ids = (map (node_of ids) (hosts_of ids), index) \<and> indexes (hosts_of ids) index"
  proof (induction ids rule: rev_induct)
    case Nil
    show ?case by (simp add: group_ranks_def hosts_of_def indexes_def)
  next
    case (snoc x ids)
    then obtain index where g: "group_ranks ids = (map (node_of ids) (hosts_of ids), index)"
      and x: "indexes (hosts_of ids) index" by blast
    have f: "group_ranks (ids @ [x]) = group_rank x (map (node_of ids) (hosts_of ids), index)"
      using g by (simp add: group_ranks_def)
    show ?case
    proof (cases "wi_hostname x \<in> set (hosts_of ids)")
      case True
      then obtain i where i: "i < length (hosts_of ids)" "hosts_of ids ! i = wi_hostname x"
        by (auto simp: in_set_conv_nth)
      then have "index (wi_hostname x) = Some i" using x by (simp add: indexes_def)
      from group_rank_old [of index x i ids, OF this i] show ?thesis using True x by (auto simp: f hosts_of_snoc)
    next
      case False
      have "indexes (hosts_of ids @ [wi_hostname x]) (index(wi_hostname x \<mapsto> length (hosts_of ids)))"
        using x False by (auto simp: indexes_def nth_append less_Suc_eq, metis nth_mem)
      with group_rank_new [OF x False] False show ?thesis by (auto simp: f hosts_of_snoc)
    qed
  qed
  then show thesis using that by blast
qed

section \<open>Gathering\<close>

lemma displacements_spec:
  "int (a + length (concat bs)) < 2 ^ 31 \<Longrightarrow>
   displacements (int a) (map (\<lambda>b. int (length b)) bs) =
     Inr (map (\<lambda>i. int (a + length (concat (take i bs)))) [0..<length bs], int (a + length (concat bs)))"
proof (induction bs arbitrary: a)
  case (Cons b bs)
  have "map (\<lambda>i. int (a + length (concat (take i (b # bs))))) [0..<length (b # bs)] =
      int a # map (\<lambda>i. int ((a + length b) + length (concat (take i bs)))) [0..<length bs]"
    by (simp add: upt_conv_Cons map_Suc_upt [symmetric] del: upt_Suc)
  moreover have "int a + int (length b) < 2 ^ 31" using Cons.prems by simp
  ultimately show ?case using Cons.IH [of "a + length b"] Cons.prems by (simp add: add.assoc del: upt_Suc)
qed simp

lemma slice_concat:
  "i < length bs \<Longrightarrow> take (length (bs ! i)) (drop (length (concat (take i bs))) (concat bs)) = bs ! i"
proof -
  assume i: "i < length bs"
  have "concat bs = concat (take i bs) @ bs ! i @ concat (drop (Suc i) bs)"
    by (subst id_take_nth_drop [OF i]) simp
  then show ?thesis by simp
qed

lemma hwloc_hostname: "tn_hostname (snd (fill_static_topology_via_hwloc v n)) = tn_hostname n"
  by (cases v) (simp_all add: fill_static_topology_via_hwloc_def fill_static_topology_from_topology_def Let_def)

lemma fill_local_hostname:
  assumes "fill_local_host_fields h n = Inr m"
  shows "tn_hostname m = tn_hostname n"
proof -
  obtain mem where m: "(let (done, n1) = fill_static_topology_via_hwloc (hb_hwloc h) (n\<lparr>tn_mem_total_bytes := mem\<rparr>);
      logical = (ucast (if hb_concurrency h = 0 then 1 else hb_concurrency h) :: 16 word)
    in Inr (if done then n1 else n1\<lparr>tn_total_logical_cores := logical, tn_total_physical_cores := 0,
      tn_sockets := tn_sockets n1 @ [fallback_socket h logical]\<rparr>)) = (Inr m :: topology_node res)"
    using assms unfolding fill_local_host_fields_def rbind_eq_Inr by blast
  obtain ok n1 where d: "fill_static_topology_via_hwloc (hb_hwloc h) (n\<lparr>tn_mem_total_bytes := mem\<rparr>) = (ok, n1)"
    by (metis prod.exhaust)
  have "tn_hostname n1 = tn_hostname n"
    using hwloc_hostname [of "hb_hwloc h" "n\<lparr>tn_mem_total_bytes := mem\<rparr>"] d by simp
  then show ?thesis using m d by (cases ok) (auto simp: Let_def)
qed

text \<open>What the probes of the rank \<open>i\<close> say of its host.\<close>

definition layout_by :: "host_probe list \<Rightarrow> nat \<Rightarrow> topology_node" where
  "layout_by hs i = (case fill_local_host_fields (hs ! i) (empty_node\<lparr>tn_hostname := fill_hostname (hs ! i)\<rparr>) of
     Inl e \<Rightarrow> empty_node | Inr n \<Rightarrow> n)"

definition probes_ok :: "host_probe list \<Rightarrow> bool" where
  "probes_ok hs \<longleftrightarrow> 2 \<le> length hs \<and> length hs < 2 ^ 32 \<and>
     (\<forall>i < length hs. is_ok (fill_local_host_fields (hs ! i) (empty_node\<lparr>tn_hostname := fill_hostname (hs ! i)\<rparr>)) \<and>
        node_fits (layout_by hs i)) \<and>
     length (concat (run_blobs hs)) < 2 ^ 31"

definition described :: "host_probe list \<Rightarrow> string \<Rightarrow> topology_node" where
  "described hs h = with_layout_of (layout_by hs (unat (sentinel_of (run_ids hs) h))) (node_of (run_ids hs) h)"

lemma layout_by_ok:
  assumes "probes_ok hs" and "i < length hs"
  shows "fill_local_host_fields (hs ! i) (empty_node\<lparr>tn_hostname := fill_hostname (hs ! i)\<rparr>) = Inr (layout_by hs i)"
    "node_fits (layout_by hs i)" "tn_hostname (layout_by hs i) = fill_hostname (hs ! i)"
proof -
  show e: "fill_local_host_fields (hs ! i) (empty_node\<lparr>tn_hostname := fill_hostname (hs ! i)\<rparr>) = Inr (layout_by hs i)"
    using assms by (auto simp: probes_ok_def is_ok_iff layout_by_def)
  show "node_fits (layout_by hs i)" using assms by (simp add: probes_ok_def)
  show "tn_hostname (layout_by hs i) = fill_hostname (hs ! i)" using fill_local_hostname [OF e] by simp
qed

lemma run_ids_nth: "i < length hs \<Longrightarrow> run_ids hs ! i = build_self_identity (word_of_nat i) (hs ! i)"
  by (simp add: run_ids_def)

lemma self_identity [simp]: "wi_hostname (build_self_identity r h) = fill_hostname h"
  "wi_worker_id (build_self_identity r h) = r"
  by (simp_all add: build_self_identity_def Let_def)

lemma host_in_run: "i < length hs \<Longrightarrow> fill_hostname (hs ! i) \<in> set (hosts_of (run_ids hs))"
  by (simp add: hosts_of_set run_ids_def image_image)

lemma sentinel_on_host:
  assumes "probes_ok hs" and "h \<in> set (hosts_of (run_ids hs))"
  shows "unat (sentinel_of (run_ids hs) h) < length hs"
    "fill_hostname (hs ! unat (sentinel_of (run_ids hs) h)) = h"
proof -
  have "ranks_on (run_ids hs) h \<noteq> []" using assms(2) by (simp add: ranks_on_empty)
  then have "sentinel_of (run_ids hs) h \<in> set (ranks_on (run_ids hs) h)"
    unfolding sentinel_of_def by (intro Min_in) auto
  then obtain i where i: "i < length hs" "fill_hostname (hs ! i) = h" "sentinel_of (run_ids hs) h = word_of_nat i"
    by (auto simp: ranks_on_def run_ids_def)
  moreover have "unat (word_of_nat i :: 32 word) = i" using i(1) assms(1) by (simp add: probes_ok_def unat_of_nat)
  ultimately show "unat (sentinel_of (run_ids hs) h) < length hs"
    "fill_hostname (hs ! unat (sentinel_of (run_ids hs) h)) = h" by simp_all
qed

definition is_sentinel :: "host_probe list \<Rightarrow> nat \<Rightarrow> bool" where
  "is_sentinel hs i \<longleftrightarrow> sentinel_of (run_ids hs) (fill_hostname (hs ! i)) = word_of_nat i"

lemma self_blob_spec:
  assumes "probes_ok hs" and i: "i < length hs"
  shows "self_blob (word_of_nat i) (build_self_identity (word_of_nat i) (hs ! i)) (hs ! i) (group_ranks (run_ids hs)) =
     Inr (if is_sentinel hs i then serialize_node_topology (layout_by hs i) else [])"
proof -
  obtain index where g: "group_ranks (run_ids hs) = (map (node_of (run_ids hs)) (hosts_of (run_ids hs)), index)"
    and x: "indexes (hosts_of (run_ids hs)) index" by (rule group_ranks_spec)
  obtain j where j: "j < length (hosts_of (run_ids hs))" "hosts_of (run_ids hs) ! j = fill_hostname (hs ! i)"
    using host_in_run [OF i] by (auto simp: in_set_conv_nth)
  then have ij: "index (fill_hostname (hs ! i)) = Some j" using x by (simp add: indexes_def)
  have "tn_sentinel_worker_id (map (node_of (run_ids hs)) (hosts_of (run_ids hs)) ! j) =
      sentinel_of (run_ids hs) (fill_hostname (hs ! i))" using j by (simp add: node_of_def)
  then show ?thesis using ij layout_by_ok [OF assms] by (simp add: self_blob_def g is_sentinel_def)
qed

lemma blob_of_spec:
  assumes "probes_ok hs" and "i < length hs"
  shows "blob_of hs i = (if is_sentinel hs i then serialize_node_topology (layout_by hs i) else [])"
  using self_blob_spec [OF assms] assms(2) by (simp add: blob_of_def run_ids_nth)

text \<open>The nodes when the pieces of the first \<open>k\<close> ranks have been merged.\<close>

definition merged :: "host_probe list \<Rightarrow> nat \<Rightarrow> topology_node list" where
  "merged hs k = map (\<lambda>h. if unat (sentinel_of (run_ids hs) h) < k then described hs h else node_of (run_ids hs) h)
     (hosts_of (run_ids hs))"

lemma merge_other:
  assumes ok: "probes_ok hs" and i: "i < length hs" and no: "\<not> is_sentinel hs i"
  shows "merged hs (Suc i) = merged hs i"
proof -
  have "unat (sentinel_of (run_ids hs) h) \<noteq> i" if "h \<in> set (hosts_of (run_ids hs))" for h
    using sentinel_on_host [OF ok that] no by (auto simp: is_sentinel_def)
  then show ?thesis by (auto simp: merged_def less_Suc_eq)
qed

lemma merge_sentinel:
  assumes ok: "probes_ok hs" and i: "i < length hs" and s: "is_sentinel hs i"
    and j: "j < length (hosts_of (run_ids hs))" "hosts_of (run_ids hs) ! j = fill_hostname (hs ! i)"
  shows "(merged hs i)[j := with_layout_of (layout_by hs i) (node_of (run_ids hs) (fill_hostname (hs ! i)))] = merged hs (Suc i)"
proof -
  have u: "unat (word_of_nat i :: 32 word) = i" using ok i by (simp add: probes_ok_def unat_of_nat)
  have other: "unat (sentinel_of (run_ids hs) (hosts_of (run_ids hs) ! m)) \<noteq> i"
    if "m < length (hosts_of (run_ids hs))" "m \<noteq> j" for m
  proof
    assume "unat (sentinel_of (run_ids hs) (hosts_of (run_ids hs) ! m)) = i"
    then have "fill_hostname (hs ! i) = hosts_of (run_ids hs) ! m" using sentinel_on_host [OF ok] that(1) by (metis nth_mem)
    then show False using j that hosts_of_distinct [of "run_ids hs"] by (metis nth_eq_iff_index_eq)
  qed
  show ?thesis
    by (rule nth_equalityI) (use j s other in \<open>auto simp: merged_def nth_list_update described_def is_sentinel_def u less_Suc_eq\<close>)
qed

lemma merge_fragment_step:
  assumes ok: "probes_ok hs" and i: "i < length hs" and x: "indexes (hosts_of (run_ids hs)) index"
  shows "merge_fragment index (concat (run_blobs hs))
      (int (length (run_blobs hs ! i)), int (length (concat (take i (run_blobs hs))))) (merged hs i) = merged hs (Suc i)"
proof -
  have b: "run_blobs hs ! i = (if is_sentinel hs i then serialize_node_topology (layout_by hs i) else [])"
    using blob_of_spec [OF ok i] i by (simp add: run_blobs_def)
  have sl: "take (length (run_blobs hs ! i)) (drop (length (concat (take i (run_blobs hs)))) (concat (run_blobs hs))) = run_blobs hs ! i"
    using i by (intro slice_concat) (simp add: run_blobs_def)
  show ?thesis
  proof (cases "is_sentinel hs i")
    case False
    then show ?thesis using b merge_other [OF ok i False] by (simp add: merge_fragment_def)
  next
    case s: True
    obtain j where j: "j < length (hosts_of (run_ids hs))" "hosts_of (run_ids hs) ! j = fill_hostname (hs ! i)"
      using host_in_run [OF i] by (auto simp: in_set_conv_nth)
    then have ij: "index (fill_hostname (hs ! i)) = Some j" using x by (simp add: indexes_def)
    let ?l = "layout_by hs i"
    have u: "unat (word_of_nat i :: 32 word) = i" using ok i by (simp add: probes_ok_def unat_of_nat)
    have bs: "run_blobs hs ! i = serialize_node_topology ?l" using b s by simp
    have ne: "0 < length (serialize_node_topology ?l)" by (simp add: serialize_node_topology_def put_u16_def)
    have rd: "deserialize_node_topology empty_node (serialize_node_topology ?l) = (True, with_layout_of ?l empty_node)"
      using readsD [OF reads_node [OF layout_by_ok(2) [OF ok i]], of empty_node "[]" "[]"]
      by (simp add: deserialize_node_topology_def open_at_bytes)
    have "merged hs i ! j = node_of (run_ids hs) (fill_hostname (hs ! i))"
      using j s by (simp add: merged_def is_sentinel_def u)
    then have "merge_fragment index (concat (run_blobs hs))
        (int (length (run_blobs hs ! i)), int (length (concat (take i (run_blobs hs))))) (merged hs i) =
      (merged hs i)[j := with_layout_of ?l (node_of (run_ids hs) (fill_hostname (hs ! i)))]"
      using sl ne rd ij layout_by_ok(3) [OF ok i]
      by (simp add: merge_fragment_def bs with_layout_of_def node_of_def empty_node_def)
    then show ?thesis using merge_sentinel [OF ok i s j] by simp
  qed
qed

lemma merge_all:
  assumes ok: "probes_ok hs" and x: "indexes (hosts_of (run_ids hs)) index"
  shows "k \<le> length hs \<Longrightarrow> fold (merge_fragment index (concat (run_blobs hs)))
      (map (\<lambda>i. (int (length (run_blobs hs ! i)), int (length (concat (take i (run_blobs hs)))))) [0..<k]) (merged hs 0) = merged hs k"
proof (induction k)
  case (Suc k)
  then show ?case using merge_fragment_step [OF ok _ x, of k] by simp
qed simp

section \<open>The property\<close>

text \<open>C14: All ranks build the same topology: one node for each hostname, in the order in which the names first
  occur among the ranks, with exactly the ranks on that host, the lowest of them as sentinel, and the
  hardware layout that sentinel probed; and the identities of all ranks in order.\<close>

theorem ranks_agree_on_topology:
  assumes "probes_ok hs" and "i < length hs"
  shows "snapshot_of_rank hs i =
    Inr \<lparr>tp_nodes = map (described hs) (hosts_of (run_ids hs)), tp_identities = run_ids hs\<rparr>"
proof -
  let ?bs = "run_blobs hs"
  obtain index where g: "group_ranks (run_ids hs) = (map (node_of (run_ids hs)) (hosts_of (run_ids hs)), index)"
    and x: "indexes (hosts_of (run_ids hs)) index" by (rule group_ranks_spec)
  have n: "length ?bs = length hs" by (simp add: run_blobs_def)
  have len: "length b < 2 ^ 31" if "b \<in> set ?bs" for b
  proof -
    have "length b \<le> length (concat ?bs)" using that by (auto simp: in_set_conv_decomp)
    then show ?thesis using assms(1) by (simp add: probes_ok_def)
  qed
  have sizes: "map int_size ?bs = map (\<lambda>b. int (length b)) ?bs"
    by (intro map_cong refl) (auto dest: len simp: int_size_def signed_of_nat signed_take_bit_int_eq_self)
  have disp: "displacements 0 (map int_size ?bs) =
      Inr (map (\<lambda>i. int (length (concat (take i ?bs)))) [0..<length hs], int (length (concat ?bs)))"
    using displacements_spec [of 0 ?bs] assms(1) by (simp add: sizes n probes_ok_def)
  have zip: "zip (map int_size ?bs) (map (\<lambda>i. int (length (concat (take i ?bs)))) [0..<length hs]) =
      map (\<lambda>i. (int (length (?bs ! i)), int (length (concat (take i ?bs))))) [0..<length hs]"
    by (rule nth_equalityI) (simp_all add: sizes n)
  have m0: "merged hs 0 = fst (group_ranks (run_ids hs))" by (simp add: merged_def g)
  have mn: "merged hs (length hs) = map (described hs) (hosts_of (run_ids hs))"
    using sentinel_on_host(1) [OF assms(1)] by (simp add: merged_def)
  have w: "\<not> (word_of_nat (length hs) :: 32 word) \<le> 1"
    using assms(1) by (simp add: probes_ok_def word_le_nat_alt unat_of_nat)
  show ?thesis
    using self_blob_spec [OF assms] disp zip merge_all [OF assms(1) x, of "length hs"] m0 mn w
    by (simp add: snapshot_of_rank_def build_topology_snapshot_def build_mpi_snapshot_def Let_def g)
qed

definition sample_host :: "string \<Rightarrow> 32 word \<Rightarrow> host_probe" where
  "sample_host name cores = \<lparr>hb_hostname = Some name, hb_pid = 7, hb_affinity = None, hb_socket_of_cpu = (\<lambda>c. -1),
     hb_meminfo = None, hb_cpuinfo = None, hb_concurrency = cores, hb_hwloc = None,
     hb_files = (\<lambda>p. None), hb_cgroup = None\<rparr>"

definition sample_hosts :: "host_probe list" where
  "sample_hosts = [sample_host ''b'' 2, sample_host ''a'' 1, sample_host ''b'' 3]"

lemma blob_of_cases: "i < length hs \<Longrightarrow> blob_of hs i = [] \<or> blob_of hs i = serialize_node_topology (layout_by hs i)"
  by (auto simp: blob_of_def self_blob_def layout_by_def run_ids_nth rbind_def split: sum.splits)

lemma less_3_cases: "(i :: nat) < 3 \<longleftrightarrow> i = 0 \<or> i = 1 \<or> i = 2"
  by auto

lemma upt_3: "[0..<3] = [0, 1, 2]"
  by (simp add: upt_rec)

lemma sample_layout: "i < 3 \<Longrightarrow> layout_by sample_hosts i =
    empty_node\<lparr>tn_hostname := [''b'', ''a'', ''b''] ! i, tn_total_logical_cores := [2, 1, 3] ! i,
      tn_sockets := [empty_socket\<lparr>ts_logical_cores := [2, 1, 3] ! i, ts_cpu_ids := [[0, 1], [0], [0, 1, 2]] ! i\<rparr>]\<rparr>"
  by (auto simp: less_3_cases layout_by_def sample_hosts_def sample_host_def fill_local_host_fields_def
      query_total_memory_bytes_def fill_static_topology_via_hwloc_def fallback_socket_def read_cpu_brand_def fill_hostname_def
      empty_node_def empty_socket_def upt_3 upt_rec Let_def)

lemma sample_hosts_ok: "probes_ok sample_hosts"
proof -
  have n: "length sample_hosts = 3" by (simp add: sample_hosts_def)
  have b: "length (blob_of sample_hosts i) \<le> 100" "node_fits (layout_by sample_hosts i)" if "i < 3" for i
    using blob_of_cases [of i sample_hosts] sample_layout [OF that] that
    by (auto simp: n less_3_cases serialize_node_topology_def serialize_socket_def put_str_def put_u8_def
        put_u16_def put_u32_def put_u64_def empty_node_def empty_socket_def Let_def node_fits_def socket_fits_def)
  have "is_ok (fill_local_host_fields (sample_hosts ! i) m)" if "i < 3" for i m
    using that by (auto simp: less_3_cases sample_hosts_def sample_host_def fill_local_host_fields_def
        query_total_memory_bytes_def Let_def split: prod.splits)
  moreover have "length (concat (run_blobs sample_hosts)) \<le> 300"
    using b(1) [of 0] b(1) [of 1] b(1) [of 2] by (simp add: run_blobs_def n upt_3)
  ultimately show ?thesis using b(2) by (simp add: probes_ok_def n)
qed

lemma ranks_agree_on_topology_witness:
  "snapshot_of_rank sample_hosts 2 =
    Inr \<lparr>tp_nodes = map (described sample_hosts) (hosts_of (run_ids sample_hosts)), tp_identities = run_ids sample_hosts\<rparr>"
  by (rule ranks_agree_on_topology [OF sample_hosts_ok]) (simp add: sample_hosts_def)

end
