(* ===== verification/Json_Serializer.thy ===== *)
theory Json_Serializer
  imports Telemetry_Frames Score
begin

unbundle bit_operations_syntax

text \<open>
  The lines of the dashboard (\<open>src/telemetry/json_serializer.cpp\<close>): each \<open>emit_\<close> and \<open>serialize_\<close> function
  is here the text it appends. A run of \<open>p_out += "...key...":\<close> and \<open>emit_...\<close> is a list of keys and
  values, written with commas between them.
\<close>

section \<open>Text\<close>

fun joined :: "string \<Rightarrow> string list \<Rightarrow> string" where
  "joined sep [] = []"
| "joined sep [x] = x"
| "joined sep (x # y # xs) = x @ sep @ joined sep (y # xs)"

definition quoted :: "string \<Rightarrow> string" where
  "quoted s = CHR 0x22 # s @ [CHR 0x22]"

definition json_object :: "(string \<times> string) list \<Rightarrow> string" where
  "json_object fs = ''{'' @ joined '','' (map (\<lambda>(k, v). quoted k @ '':'' @ v) fs) @ ''}''"

definition json_array :: "string list \<Rightarrow> string" where
  "json_array vs = ''['' @ joined '','' vs @ '']''"

text \<open>\<open>%04x\<close> of a character below \<open>0x20\<close>.\<close>

definition hex_digit :: "nat \<Rightarrow> char" where
  "hex_digit d = char_of (if d < 10 then 48 + d else 87 + d)"

definition control_escape :: "char \<Rightarrow> string" where
  "control_escape c = CHR 0x5C # ''u00'' @ [hex_digit (of_char c div 16), hex_digit (of_char c mod 16)]"

definition escape_char :: "char \<Rightarrow> string" where
  "escape_char c =
     (if c = CHR 0x22 then [CHR 0x5C, CHR 0x22]
      else if c = CHR 0x5C then [CHR 0x5C, CHR 0x5C]
      else if c = CHR 0x0A then CHR 0x5C # ''n''
      else if c = CHR 0x0D then CHR 0x5C # ''r''
      else if c = CHR 0x09 then CHR 0x5C # ''t''
      else if (of_char c :: nat) < 0x20 then control_escape c
      else [c])"

definition escape_quoted :: "string \<Rightarrow> string" where
  "escape_quoted s = quoted (concat (map escape_char s))"

definition emit_quoted_or_null :: "string \<Rightarrow> string" where
  "emit_quoted_or_null s = (if s = [] then ''null'' else escape_quoted s)"

definition emit_u64 :: "64 word \<Rightarrow> string" where
  "emit_u64 v = show_nat (unat v)"

definition emit_u32 :: "32 word \<Rightarrow> string" where
  "emit_u32 v = emit_u64 (ucast v)"

text \<open>
  \<open>%.3f\<close> of a \<open>float\<close>: its exact value times 1000, rounded to the nearest integer, to the even one of two.
  The buffer has 32 bytes, the last of which ends the string.
\<close>

definition round_half_even :: "nat \<Rightarrow> nat \<Rightarrow> nat" where
  "round_half_even a b = (let q = a div b; r = a mod b
     in if 2 * r < b \<or> (2 * r = b \<and> even q) then q else q + 1)"

definition thousandths :: "int \<Rightarrow> int \<Rightarrow> nat" where
  "thousandths m e = (let a = 1000 * nat \<bar>m\<bar> in if 0 \<le> e then a * 2 ^ nat e else round_half_even a (2 ^ nat (- e)))"

definition three_digits :: "nat \<Rightarrow> string" where
  "three_digits n = [digit_char (n div 100 mod 10), digit_char (n div 10 mod 10), digit_char (n mod 10)]"

definition format_float :: "32 word \<Rightarrow> string" where
  "format_float w =
     (let sign = (if bit w 31 then ''-'' else '''')
      in case ieee 23 8 (unat w) of
           NaN \<Rightarrow> sign @ ''nan''
         | Inf neg \<Rightarrow> sign @ ''inf''
         | Fin m e \<Rightarrow> sign @ show_nat (thousandths m e div 1000) @ ''.'' @ three_digits (thousandths m e))"

definition emit_float :: "32 word \<Rightarrow> string" where
  "emit_float w = take 31 (format_float w)"

section \<open>Frames\<close>

definition edge_json :: "edge_counter \<Rightarrow> string" where
  "edge_json e = json_object [(''to'', emit_u32 (ec_dst e)), (''bytes'', emit_u64 (ec_bytes e)), (''count'', emit_u64 (ec_count e))]"

definition serialize_worker_frame :: "worker_frame \<Rightarrow> string" where
  "serialize_worker_frame f = json_object
     [(''rank'', emit_u32 (wf_worker_id f)),
      (''seq_no'', emit_u32 (wf_seq_no f)),
      (''rank_local_ms'', emit_u64 (wf_worker_local_ms f)),
      (''tasks_started_total'', emit_u64 (wf_tasks_started_total f)),
      (''tasks_sent_total'', emit_u64 (wf_tasks_sent_total f)),
      (''tasks_recv_total'', emit_u64 (wf_tasks_recv_total f)),
      (''bytes_sent_total'', emit_u64 (wf_bytes_sent_total f)),
      (''bytes_recv_total'', emit_u64 (wf_bytes_recv_total f)),
      (''send_microseconds_total'', emit_u64 (wf_send_microseconds_total f)),
      (''recv_microseconds_total'', emit_u64 (wf_recv_microseconds_total f)),
      (''spawn_rejected_pool_full'', emit_u64 (wf_spawn_rejected_pool_full f)),
      (''spawn_remote_rejected'', emit_u64 (wf_spawn_remote_rejected f)),
      (''tasks_running'', emit_u32 (wf_tasks_running f)),
      (''scheduler_pending_count'', emit_u32 (wf_scheduler_pending_count f)),
      (''idle_microseconds_per_thread'', emit_u64 (wf_idle_microseconds_per_worker f)),
      (''idle_microseconds_starved'', emit_u64 (wf_idle_microseconds_starved f)),
      (''idle_microseconds_imbalanced'', emit_u64 (wf_idle_microseconds_imbalanced f)),
      (''sched_running_microseconds'', emit_u64 (wf_sched_running_microseconds f)),
      (''sched_waiting_microseconds'', emit_u64 (wf_sched_waiting_microseconds f)),
      (''first_task_ms'', emit_u64 (wf_first_task_ms f)),
      (''last_task_ms'', emit_u64 (wf_last_task_ms f)),
      (''assign_latency_microseconds_total'', emit_u64 (wf_assign_latency_microseconds_total f)),
      (''assign_count'', emit_u64 (wf_assign_count f)),
      (''assign_latency_microseconds_max'', emit_u64 (wf_assign_latency_microseconds_max f)),
      (''available_microseconds_queue_empty'', emit_u64 (wf_available_microseconds_queue_empty f)),
      (''coordinator_state_msgs_total'', emit_u64 (wf_coordinator_state_msgs_total f)),
      (''coordinator_score_proposals_total'', emit_u64 (wf_coordinator_score_proposals_total f)),
      (''coordinator_score_broadcasts_total'', emit_u64 (wf_coordinator_score_broadcasts_total f)),
      (''score_proposals_sent'', emit_u64 (wf_score_proposals_sent f)),
      (''last_score_improvement_ms'', emit_u64 (wf_last_score_improvement_ms f)),
      (''coordinator_full_microseconds'', emit_u64 (wf_coordinator_full_microseconds f)),
      (''telemetry_microseconds_total'', emit_u64 (wf_telemetry_microseconds_total f)),
      (''process_cpu_pct'', emit_float (wf_process_cpu_pct f)),
      (''process_rss_bytes'', emit_u64 (wf_process_rss_bytes f)),
      (''process_threads'', emit_u32 (wf_process_threads f)),
      (''edges_out'', json_array (map edge_json (filter (\<lambda>e. ec_count e \<noteq> 0) (wf_edges_out f))))]"

definition socket_json :: "socket_stats \<Rightarrow> string" where
  "socket_json s = json_object
     [(''socket_id'', emit_u32 (ucast (ss_socket_id s))), (''cpu_pct'', emit_float (ss_cpu_pct s)),
      (''mem_total_bytes'', emit_u64 (ss_mem_total_bytes s)), (''mem_used_bytes'', emit_u64 (ss_mem_used_bytes s))]"

definition serialize_node_frame :: "node_frame \<Rightarrow> string" where
  "serialize_node_frame f = json_object
     [(''sentinel_rank'', emit_u32 (nf_sentinel_worker_id f)),
      (''sentinel_local_ms'', emit_u64 (nf_sentinel_local_ms f)),
      (''hostname'', escape_quoted (nf_hostname f)),
      (''socket_count'', emit_u32 (ucast (nf_socket_count f))),
      (''logical_cores'', emit_u32 (nf_logical_cores f)),
      (''mem_total_bytes'', emit_u64 (nf_mem_total_bytes f)),
      (''mem_avail_bytes'', emit_u64 (nf_mem_avail_bytes f)),
      (''cgroup_mem_used_bytes'', emit_u64 (nf_cgroup_mem_used_bytes f)),
      (''cgroup_mem_limit_bytes'', emit_u64 (nf_cgroup_mem_limit_bytes f)),
      (''sockets'', json_array (map (\<lambda>i. socket_json (nf_sockets f ! i)) [0..<min (unat (nf_socket_count f)) MAX_SOCKETS]))]"

section \<open>The topology\<close>

definition layout_json :: "topology_socket \<Rightarrow> string" where
  "layout_json s = json_object
     [(''socket_id'', emit_u32 (ucast (ts_socket_id s))), (''name'', escape_quoted (ts_name s)),
      (''physical_cores'', emit_u32 (ucast (ts_physical_cores s))),
      (''logical_cores'', emit_u32 (ucast (ts_logical_cores s))),
      (''cpu_ids'', json_array (map emit_u32 (ts_cpu_ids s)))]"

definition node_json :: "topology_node \<Rightarrow> string" where
  "node_json n = json_object
     [(''hostname'', escape_quoted (tn_hostname n)), (''sentinel_rank'', emit_u32 (tn_sentinel_worker_id n)),
      (''total_physical_cores'', emit_u32 (ucast (tn_total_physical_cores n))),
      (''total_logical_cores'', emit_u32 (ucast (tn_total_logical_cores n))),
      (''mem_total_bytes'', emit_u64 (tn_mem_total_bytes n)),
      (''ranks'', json_array (map emit_u32 (tn_worker_ids n))),
      (''sockets'', json_array (map layout_json (tn_sockets n)))]"

definition is_coordinator :: "run_description \<Rightarrow> 32 word \<Rightarrow> bool" where
  "is_coordinator run r \<longleftrightarrow> unat r < length (rd_roles run) \<and> rd_roles run ! unat r = ROLE_COORDINATOR"

definition allowed_cpus :: "64 word list \<Rightarrow> nat list" where
  "allowed_cpus cpus = filter (\<lambda>c. cpus ! (c div 64) AND push_bit (c mod 64) 1 \<noteq> 0) [0..<64 * CPU_MASK_WORDS]"

definition identity_json :: "run_description option \<Rightarrow> worker_identity \<Rightarrow> string" where
  "identity_json run w = json_object
     ([(''rank'', emit_u32 (wi_worker_id w)), (''hostname'', escape_quoted (wi_hostname w)),
       (''pid'', emit_u32 (wi_pid w)), (''primary_socket'', emit_u32 (ucast (wi_primary_socket w)))] @
      (case run of None \<Rightarrow> []
       | Some r \<Rightarrow> [(''role'', quoted (if is_coordinator r (wi_worker_id w) then ''coordinator'' else ''worker''))]) @
      [(''allowed_cpu_ids'', json_array (map (\<lambda>c. emit_u32 (word_of_nat c)) (allowed_cpus (wi_allowed_cpu_mask w))))])"

definition marker_json :: "run_marker \<Rightarrow> string" where
  "marker_json m = json_object
     [(''elapsed_ms'', emit_u64 (rm_elapsed_ms m)), (''label'', escape_quoted (rm_label m)),
      (''source'', quoted (if rm_source m = DASHBOARD then ''dashboard'' else ''code''))]"

text \<open>The keys of the annotations are escaped too.\<close>

definition annotations_json :: "(string \<times> string) list \<Rightarrow> string" where
  "annotations_json xs = ''{'' @ joined '','' (map (\<lambda>(k, v). escape_quoted k @ '':'' @ escape_quoted v) xs) @ ''}''"

definition run_json :: "run_description \<Rightarrow> string" where
  "run_json r = json_object
     [(''scheduler'', emit_quoted_or_null (rd_scheduler r)),
      (''load_balancer'', emit_quoted_or_null (rd_load_balancer r)),
      (''runtime_mode'', quoted (if rd_mode r = MP_MPI then ''multiprocessing'' else ''multithreading'')),
      (''world_size'', emit_u32 (rd_world_size r)),
      (''threads_per_process'', emit_u32 (rd_threads_per_process r)),
      (''gempba_version'', escape_quoted (rd_gempba_version r)),
      (''annotations'', annotations_json (rd_annotations r)),
      (''markers'', json_array (map marker_json (rd_markers r)))]"

definition serialize_topology :: "topology_snapshot \<Rightarrow> run_description option \<Rightarrow> string" where
  "serialize_topology t run = json_object
     ([(''nodes'', json_array (map node_json (tp_nodes t))),
       (''identities'', json_array (map (identity_json run) (tp_identities t)))] @
      (case run of None \<Rightarrow> [] | Some r \<Rightarrow> [(''run'', run_json r)]))"

section \<open>The broadcast\<close>

record broadcast_payload =
  bp_run_id :: string
  bp_now_ms :: "64 word"
  bp_elapsed_seconds :: "64 word"
  bp_topology :: "topology_snapshot option"
  bp_run :: "run_description option"
  bp_workers :: "worker_frame list option"
  bp_nodes :: "node_frame list option"
  bp_paused :: bool
  bp_final :: bool

definition json_bool :: "bool \<Rightarrow> string" where
  "json_bool b = (if b then ''true'' else ''false'')"

definition emit_broadcast_header :: "broadcast_payload \<Rightarrow> bool \<Rightarrow> (string \<times> string) list" where
  "emit_broadcast_header p paused =
     [(''version'', emit_u32 (ucast TELEMETRY_SCHEMA_VERSION)), (''run_id'', quoted (bp_run_id p)),
      (''ts'', emit_u64 (bp_now_ms p)), (''elapsed_seconds'', emit_u64 (bp_elapsed_seconds p)),
      (''paused'', json_bool paused), (''final'', json_bool (bp_final p))]"

definition serialize_broadcast :: "broadcast_payload \<Rightarrow> string" where
  "serialize_broadcast p = json_object
     (emit_broadcast_header p (bp_paused p) @
      [(''topology'', case bp_topology p of None \<Rightarrow> ''null'' | Some t \<Rightarrow> serialize_topology t (bp_run p)),
       (''ranks'', json_array (case bp_workers p of None \<Rightarrow> [] | Some fs \<Rightarrow> map serialize_worker_frame fs)),
       (''nodes'', json_array (case bp_nodes p of None \<Rightarrow> [] | Some fs \<Rightarrow> map serialize_node_frame fs))])"

definition serialize_paused_broadcast :: "broadcast_payload \<Rightarrow> string" where
  "serialize_paused_broadcast p = json_object (emit_broadcast_header p True)"

end
