(* ===== verification/Json_Grammar.thy ===== *)
theory Json_Grammar
  imports Json_Serializer
begin

text \<open>
  A grammar of JSON texts without blanks (RFC 8259, strings as bytes), and the proof that a line of the
  dashboard is one: every value is escaped or a number, every list has its commas, every bracket closes.
\<close>

section \<open>The grammar\<close>

definition code :: "char \<Rightarrow> nat" where
  "code c = of_char c"

definition json_digit :: "char \<Rightarrow> bool" where
  "json_digit c \<longleftrightarrow> 48 \<le> code c \<and> code c \<le> 57"

definition json_digits :: "string \<Rightarrow> bool" where
  "json_digits s \<longleftrightarrow> s \<noteq> [] \<and> list_all json_digit s"

definition json_int :: "string \<Rightarrow> bool" where
  "json_int s \<longleftrightarrow> json_digits s \<and> (hd s = CHR ''0'' \<longrightarrow> s = ''0'')"

definition json_number :: "string \<Rightarrow> bool" where
  "json_number s \<longleftrightarrow>
     (\<exists>sign whole frac. s = sign @ whole @ frac \<and> (sign = [] \<or> sign = ''-'') \<and> json_int whole \<and>
        (frac = [] \<or> (\<exists>ds. frac = CHR ''.'' # ds \<and> json_digits ds)))"

definition json_hex :: "char \<Rightarrow> bool" where
  "json_hex c \<longleftrightarrow> json_digit c \<or> 97 \<le> code c \<and> code c \<le> 102 \<or> 65 \<le> code c \<and> code c \<le> 70"

definition json_plain :: "char \<Rightarrow> bool" where
  "json_plain c \<longleftrightarrow> 0x20 \<le> code c \<and> c \<noteq> CHR 0x22 \<and> c \<noteq> CHR 0x5C"

definition json_piece :: "string \<Rightarrow> bool" where
  "json_piece p \<longleftrightarrow>
     (\<exists>c. p = [c] \<and> json_plain c) \<or>
     (\<exists>c. p = [CHR 0x5C, c] \<and> c \<in> set (CHR 0x22 # CHR 0x5C # ''/bfnrt'')) \<or>
     (\<exists>ds. p = CHR 0x5C # CHR ''u'' # ds \<and> length ds = 4 \<and> list_all json_hex ds)"

definition json_string :: "string \<Rightarrow> bool" where
  "json_string s \<longleftrightarrow> (\<exists>ps. s = quoted (concat ps) \<and> list_all json_piece ps)"

inductive json_value :: "string \<Rightarrow> bool" where
  null: "json_value ''null''"
| truth: "json_value (json_bool b)"
| num: "json_number s \<Longrightarrow> json_value s"
| str: "json_string s \<Longrightarrow> json_value s"
| arr: "\<forall>v \<in> set vs. json_value v \<Longrightarrow> json_value (''['' @ joined '','' vs @ '']'')"
| obj: "\<forall>m \<in> set ms. json_string (fst m) \<and> json_value (snd m) \<Longrightarrow>
    json_value (''{'' @ joined '','' (map (\<lambda>(k, v). k @ '':'' @ v) ms) @ ''}'')"

inductive_cases json_valueE: "json_value s"

section \<open>A JSON text has no control characters\<close>

definition printable :: "string \<Rightarrow> bool" where
  "printable s \<longleftrightarrow> list_all (\<lambda>c. 0x20 \<le> code c) s"

lemma printable_simps [simp]:
  "printable []" "printable (c # s) \<longleftrightarrow> 0x20 \<le> code c \<and> printable s" "printable (s @ t) \<longleftrightarrow> printable s \<and> printable t"
  by (simp_all add: printable_def)

lemma printable_joined: "printable sep \<Longrightarrow> \<forall>x \<in> set xs. printable x \<Longrightarrow> printable (joined sep xs)"
  by (induction sep xs rule: joined.induct) auto

lemma printable_all: "(\<And>c. c \<in> set s \<Longrightarrow> 0x20 \<le> code c) \<Longrightarrow> printable s"
  by (simp add: printable_def list_all_iff)

lemma printable_digits: "json_digits s \<Longrightarrow> printable s"
  by (auto simp: json_digits_def json_digit_def printable_def list_all_iff)

lemma printable_number: "json_number s \<Longrightarrow> printable s"
  by (auto simp: json_number_def json_int_def printable_digits code_def)

lemma hex_printable: "json_hex c \<Longrightarrow> 0x20 \<le> code c"
  by (auto simp: json_hex_def json_digit_def)

lemma printable_piece: "json_piece p \<Longrightarrow> printable p"
  unfolding json_piece_def
  by (elim disjE exE conjE) (auto simp: json_plain_def code_def printable_def list_all_iff hex_printable [unfolded code_def])

lemma printable_string:
  assumes "json_string s"
  shows "printable s"
proof -
  obtain ps where s: "s = quoted (concat ps)" "list_all json_piece ps" using assms by (auto simp: json_string_def)
  have "printable (concat ps)" using s(2) by (induction ps) (auto simp: printable_piece)
  then show ?thesis by (simp add: s(1) quoted_def code_def)
qed

lemma printable_value: "json_value s \<Longrightarrow> printable s"
proof (induction rule: json_value.induct)
  case (arr vs)
  then have "printable (joined '','' vs)" by (intro printable_joined) (simp_all add: code_def)
  then show ?case by (simp add: code_def)
next
  case (obj ms)
  then have "printable (joined '','' (map (\<lambda>(k, v). k @ '':'' @ v) ms))"
    by (intro printable_joined) (auto simp: code_def printable_string)
  then show ?case by (simp add: code_def)
qed (auto simp: json_bool_def code_def printable_number printable_string)

section \<open>The pieces of a line\<close>

lemma code_digit: "d < 10 \<Longrightarrow> code (digit_char d) = 48 + d"
  by (simp add: code_def digit_char_def)

lemma digit_ok: "d < 10 \<Longrightarrow> json_digit (digit_char d)"
  by (simp add: json_digit_def code_digit)

lemma digit_char_zero: "digit_char 0 = CHR ''0''"
  by code_simp

lemma digit_zero: "d < 10 \<Longrightarrow> digit_char d = CHR ''0'' \<longleftrightarrow> d = 0"
proof
  assume d: "d < 10" "digit_char d = CHR ''0''"
  then have "48 + d = code (CHR ''0'')" using code_digit by metis
  then show "d = 0" by (simp add: code_def)
qed (simp add: digit_char_zero)

lemma show_nat_digits: "json_digits (show_nat n)"
proof (induction n rule: show_nat.induct)
  case (1 n)
  then show ?case by (subst show_nat.simps) (simp add: json_digits_def digit_ok)
qed

lemma show_nat_hd: "hd (show_nat n) = CHR ''0'' \<longleftrightarrow> n = 0"
proof (induction n rule: show_nat.induct)
  case (1 n)
  have "show_nat (n div 10) \<noteq> []" using show_nat_digits by (simp add: json_digits_def)
  then show ?case using 1 by (subst show_nat.simps) (auto simp: digit_zero)
qed

lemma show_nat_int: "json_int (show_nat n)"
  using show_nat_digits [of n] show_nat_hd [of n] by (auto simp: json_int_def show_nat.simps [of 0] digit_char_def)

lemma json_int_number: "json_int s \<Longrightarrow> json_number s"
  unfolding json_number_def by (metis append_Nil append_Nil2)

lemma value_u64 [simp]: "json_value (emit_u64 v)"
  by (simp add: emit_u64_def json_value.num json_int_number show_nat_int)

lemma value_u32 [simp]: "json_value (emit_u32 v)"
  by (simp add: emit_u32_def)

text \<open>A float that is finite and fits the buffer.\<close>

definition float_fits :: "32 word \<Rightarrow> bool" where
  "float_fits w \<longleftrightarrow> (case ieee 23 8 (unat w) of Fin m e \<Rightarrow> length (format_float w) \<le> 31 | _ \<Rightarrow> False)"

lemma value_float:
  assumes "float_fits w"
  shows "json_value (emit_float w)"
proof -
  obtain m e where f: "ieee 23 8 (unat w) = Fin m e" "length (format_float w) \<le> 31"
    using assms by (auto simp: float_fits_def split: fval.splits)
  let ?t = "thousandths m e"
  have "json_digits (three_digits ?t)" by (simp add: json_digits_def three_digits_def digit_ok)
  then have "json_number ((if bit w 31 then ''-'' else '''') @ show_nat (?t div 1000) @ CHR ''.'' # three_digits ?t)"
    unfolding json_number_def using show_nat_int [of "?t div 1000"] by (intro exI conjI) auto
  then show ?thesis using f by (simp add: emit_float_def format_float_def json_value.num)
qed

lemma hex_digit_ok: "d < 16 \<Longrightarrow> json_hex (hex_digit d)"
  by (auto simp: json_hex_def json_digit_def code_def hex_digit_def)

lemma piece_short: "c \<in> set (CHR 0x22 # CHR 0x5C # ''/bfnrt'') \<Longrightarrow> json_piece [CHR 0x5C, c]"
  and piece_plain: "json_plain c \<Longrightarrow> json_piece [c]"
  by (auto simp: json_piece_def)

lemma piece_control: "code c < 0x20 \<Longrightarrow> json_piece (control_escape c)"
  by (auto simp: json_piece_def control_escape_def code_def json_hex_def [of "CHR ''0''"] json_digit_def
      intro!: hex_digit_ok)

lemma escape_char_piece: "json_piece (escape_char c)"
proof (cases "c \<in> {CHR 0x22, CHR 0x5C, CHR 0x0A, CHR 0x0D, CHR 0x09}")
  case True
  then show ?thesis by (auto simp: escape_char_def intro!: piece_short)
next
  case False
  then show ?thesis
    by (auto simp: escape_char_def code_def [symmetric] json_plain_def intro!: piece_plain piece_control)
qed

lemma string_escaped [simp]: "json_string (escape_quoted s)"
  unfolding json_string_def escape_quoted_def
  by (rule exI [of _ "map escape_char s"]) (simp add: list_all_iff escape_char_piece)

lemma string_plain: "list_all json_plain s \<Longrightarrow> json_string (quoted s)"
  unfolding json_string_def
  by (rule exI [of _ "map (\<lambda>c. [c]) s"]) (auto simp: json_piece_def list_all_iff)

lemma value_array: "\<forall>v \<in> set vs. json_value v \<Longrightarrow> json_value (json_array vs)"
  unfolding json_array_def by (rule json_value.arr)

lemma value_object:
  assumes "list_all (\<lambda>(k, v). list_all json_plain k \<and> json_value v) fs"
  shows "json_value (json_object fs)"
proof -
  have "map (\<lambda>(k, v). quoted k @ '':'' @ v) fs = map (\<lambda>(k, v). k @ '':'' @ v) (map (\<lambda>(k, v). (quoted k, v)) fs)"
    by auto
  moreover have "\<forall>m \<in> set (map (\<lambda>(k, v). (quoted k, v)) fs). json_string (fst m) \<and> json_value (snd m)"
    using assms by (auto simp: list_all_iff string_plain)
  ultimately show ?thesis unfolding json_object_def by (metis json_value.obj)
qed

lemma value_null [simp]: "json_value ''null''" and value_bool [simp]: "json_value (json_bool b)"
  by (rule json_value.null, rule json_value.truth)

lemma value_escaped [simp]: "json_value (escape_quoted s)"
  by (simp add: json_value.str)

lemma value_quoted: "list_all json_plain s \<Longrightarrow> json_value (quoted s)"
  by (simp add: json_value.str string_plain)

section \<open>The lines\<close>

text \<open>
  What the texts around the values rest on: the identifier of the run needs no escapes, and no percentage
  is infinite or too long for its buffer.
\<close>

definition payload_ok :: "broadcast_payload \<Rightarrow> bool" where
  "payload_ok p \<longleftrightarrow> list_all json_plain (bp_run_id p) \<and>
     (case bp_workers p of None \<Rightarrow> True | Some fs \<Rightarrow> list_all (\<lambda>f. float_fits (wf_process_cpu_pct f)) fs) \<and>
     (case bp_nodes p of None \<Rightarrow> True
      | Some fs \<Rightarrow> list_all (\<lambda>f. length (nf_sockets f) = MAX_SOCKETS \<and> list_all (\<lambda>s. float_fits (ss_cpu_pct s)) (nf_sockets f)) fs)"

lemma plain_char [simp]:
  "json_plain (Char a b c d e f g h) \<longleftrightarrow>
     0x20 \<le> (of_char (Char a b c d e f g h) :: nat) \<and> Char a b c d e f g h \<noteq> CHR 0x22 \<and> Char a b c d e f g h \<noteq> CHR 0x5C"
  by (simp only: json_plain_def code_def)

lemma value_worker_frame: "float_fits (wf_process_cpu_pct f) \<Longrightarrow> json_value (serialize_worker_frame f)"
proof -
  assume f: "float_fits (wf_process_cpu_pct f)"
  have e: "json_value (edge_json e)" for e unfolding edge_json_def by (rule value_object) simp
  have "json_value (json_array (map edge_json (filter (\<lambda>e. ec_count e \<noteq> 0) (wf_edges_out f))))"
    by (rule value_array) (auto simp: e)
  then show ?thesis
    unfolding serialize_worker_frame_def by (intro value_object) (simp add: value_float [OF f])
qed

lemma value_node_frame:
  assumes "length (nf_sockets f) = MAX_SOCKETS" and "list_all (\<lambda>s. float_fits (ss_cpu_pct s)) (nf_sockets f)"
  shows "json_value (serialize_node_frame f)"
proof -
  have "json_value (socket_json (nf_sockets f ! i))" if "i < MAX_SOCKETS" for i
  proof -
    have "float_fits (ss_cpu_pct (nf_sockets f ! i))" using assms that by (simp add: list_all_length)
    then show ?thesis unfolding socket_json_def by (intro value_object) (simp add: value_float)
  qed
  then have "json_value (json_array (map (\<lambda>i. socket_json (nf_sockets f ! i)) [0..<min (unat (nf_socket_count f)) MAX_SOCKETS]))"
    by (intro value_array) auto
  then show ?thesis unfolding serialize_node_frame_def by (intro value_object) simp
qed

lemma value_node: "json_value (node_json n)"
proof -
  have l: "json_value (layout_json s)" for s
  proof -
    have "json_value (json_array (map emit_u32 (ts_cpu_ids s)))" by (rule value_array) simp
    then show ?thesis unfolding layout_json_def by (intro value_object) simp
  qed
  have "json_value (json_array (map layout_json (tn_sockets n)))" "json_value (json_array (map emit_u32 (tn_worker_ids n)))"
    by (rule value_array, simp add: l)+
  then show ?thesis unfolding node_json_def by (intro value_object) simp
qed

lemma value_identity: "json_value (identity_json run w)"
proof -
  have "json_value (json_array (map (\<lambda>c. emit_u32 (word_of_nat c)) (allowed_cpus (wi_allowed_cpu_mask w))))"
    by (rule value_array) simp
  moreover have "json_value (quoted (if b then ''coordinator'' else ''worker''))" for b by (simp add: value_quoted)
  ultimately show ?thesis unfolding identity_json_def by (intro value_object) (simp split: option.split)
qed

lemma value_annotations: "json_value (annotations_json xs)"
proof -
  have "map (\<lambda>(k, v). escape_quoted k @ '':'' @ escape_quoted v) xs =
      map (\<lambda>(k, v). k @ '':'' @ v) (map (\<lambda>(k, v). (escape_quoted k, escape_quoted v)) xs)" by auto
  moreover have "\<forall>m \<in> set (map (\<lambda>(k, v). (escape_quoted k, escape_quoted v)) xs). json_string (fst m) \<and> json_value (snd m)"
    by auto
  ultimately show ?thesis unfolding annotations_json_def by (metis json_value.obj)
qed

lemma value_run: "json_value (run_json r)"
proof -
  have q: "json_value (quoted (if b then ''dashboard'' else ''code''))"
    "json_value (quoted (if b then ''multiprocessing'' else ''multithreading''))"
    "json_value (emit_quoted_or_null s)" for b s
    by (simp_all add: value_quoted emit_quoted_or_null_def)
  have "json_value (marker_json m)" for m unfolding marker_json_def by (intro value_object) (simp add: q)
  then have "json_value (json_array (map marker_json (rd_markers r)))" by (intro value_array) simp
  then show ?thesis unfolding run_json_def by (intro value_object) (simp add: q value_annotations)
qed

lemma value_topology: "json_value (serialize_topology t run)"
proof -
  have "json_value (json_array (map node_json (tp_nodes t)))" "json_value (json_array (map (identity_json run) (tp_identities t)))"
    by (rule value_array, simp add: value_node value_identity)+
  then show ?thesis unfolding serialize_topology_def by (intro value_object) (simp add: value_run split: option.split)
qed

lemma header_ok:
  assumes "list_all json_plain (bp_run_id p)"
  shows "list_all (\<lambda>(k, v). list_all json_plain k \<and> json_value v) (emit_broadcast_header p b)"
  using assms by (simp add: emit_broadcast_header_def value_quoted)

text \<open>C15: Every line of the dashboard is one JSON text without a line break or another control character,
  whatever the hostnames, labels and annotations contain, as long as the run's identifier is plain text
  and the percentages are finite; a paused line too.\<close>

theorem broadcast_is_json:
  assumes "payload_ok p"
  shows "json_value (serialize_broadcast p) \<and> printable (serialize_broadcast p) \<and>
    json_value (serialize_paused_broadcast p) \<and> printable (serialize_paused_broadcast p)"
proof -
  have r: "list_all json_plain (bp_run_id p)" using assms by (simp add: payload_ok_def)
  have "json_value (json_array (case bp_workers p of None \<Rightarrow> [] | Some fs \<Rightarrow> map serialize_worker_frame fs))"
    using assms by (intro value_array) (auto simp: payload_ok_def list_all_iff value_worker_frame split: option.splits)
  moreover have "json_value (json_array (case bp_nodes p of None \<Rightarrow> [] | Some fs \<Rightarrow> map serialize_node_frame fs))"
    using assms by (intro value_array) (auto simp: payload_ok_def list_all_iff value_node_frame split: option.splits)
  ultimately have "json_value (serialize_broadcast p)"
    unfolding serialize_broadcast_def
    by (intro value_object) (simp add: header_ok [OF r] value_topology split: option.split)
  moreover have "json_value (serialize_paused_broadcast p)"
    unfolding serialize_paused_broadcast_def by (intro value_object header_ok r)
  ultimately show ?thesis by (simp add: printable_value)
qed

definition sample_payload :: broadcast_payload where
  "sample_payload = \<lparr>bp_run_id = ''ab-1'', bp_now_ms = 5, bp_elapsed_seconds = 1,
     bp_topology = Some \<lparr>tp_nodes = [empty_node\<lparr>tn_hostname := [CHR 0x22, CHR 0x0A]\<rparr>], tp_identities = []\<rparr>, bp_run = None,
     bp_workers = Some [zero_frame], bp_nodes = None, bp_paused = False, bp_final = False\<rparr>"

lemma broadcast_is_json_witness:
  "json_value (serialize_broadcast sample_payload) \<and> printable (serialize_broadcast sample_payload) \<and>
   json_value (serialize_paused_broadcast sample_payload) \<and> printable (serialize_paused_broadcast sample_payload)"
proof (rule broadcast_is_json)
  have "float_fits 0" by (simp add: float_fits_def ieee_def format_float_def signed_mantissa_def thousandths_def
      round_half_even_def three_digits_def show_nat.simps [of 0] Let_def)
  then show "payload_ok sample_payload"
    by (simp add: payload_ok_def sample_payload_def zero_frame_def)
qed

end
