(* ===== verification/Control_Lines.thy ===== *)
theory Control_Lines
  imports Json_Grammar Host_Probes Topology_Codec
begin

text \<open>
  What the dashboard's clients send (\<open>src/telemetry/aggregator_tcp_server.cpp\<close>): the fields of a line, the
  markers and controls, and the inbox of a client, from which whole lines are taken. An index into the
  line is here the rest of the line from there on.
\<close>

section \<open>Fields\<close>

definition trim :: "string \<Rightarrow> string" where
  "trim s = rev (dropWhile is_space (rev (dropWhile is_space s)))"

fun after_first :: "string \<Rightarrow> string \<Rightarrow> string option" where
  "after_first pat s =
     (if starts_with pat s then Some (drop (length pat) s)
      else case s of [] \<Rightarrow> None | c # r \<Rightarrow> after_first pat r)"

declare after_first.simps [simp del]

definition find_field_value :: "string \<Rightarrow> string \<Rightarrow> string option" where
  "find_field_value line name = map_option (dropWhile is_space) (after_first (quoted name @ '':'') line)"

definition hex_value :: "char \<Rightarrow> nat option" where
  "hex_value c =
     (if 48 \<le> code c \<and> code c \<le> 57 then Some (code c - 48)
      else if 97 \<le> code c \<and> code c \<le> 102 then Some (code c - 87)
      else if 65 \<le> code c \<and> code c \<le> 70 then Some (code c - 55)
      else None)"

text \<open>\<open>std::from_chars\<close> in base 16 must take all four characters.\<close>

definition parse_hex4 :: "string \<Rightarrow> 32 word option" where
  "parse_hex4 s =
     (if length s < 4 \<or> list_ex (\<lambda>c. hex_value c = None) (take 4 s) then None
      else Some (word_of_nat (foldl (\<lambda>v c. 16 * v + the (hex_value c)) 0 (take 4 s))))"

definition char_of_word :: "32 word \<Rightarrow> char" where
  "char_of_word w = char_of (unat w)"

definition append_utf8 :: "32 word \<Rightarrow> string" where
  "append_utf8 cp =
     (if cp < 0x80 then [char_of_word cp]
      else if cp < 0x800 then [char_of_word (0xC0 OR drop_bit 6 cp), char_of_word (0x80 OR (cp AND 0x3F))]
      else if cp < 0x10000 then [char_of_word (0xE0 OR drop_bit 12 cp),
        char_of_word (0x80 OR (drop_bit 6 cp AND 0x3F)), char_of_word (0x80 OR (cp AND 0x3F))]
      else [char_of_word (0xF0 OR drop_bit 18 cp), char_of_word (0x80 OR (drop_bit 12 cp AND 0x3F)),
        char_of_word (0x80 OR (drop_bit 6 cp AND 0x3F)), char_of_word (0x80 OR (cp AND 0x3F))])"

text \<open>
  \<open>\u\<close> and what follows: the character it stands for and the rest; the upper half of a pair of surrogates
  needs the lower half behind it.
\<close>

definition read_unicode :: "string \<Rightarrow> (string \<times> string) option" where
  "read_unicode s =
     (case parse_hex4 s of None \<Rightarrow> None
      | Some u \<Rightarrow>
          if 0xDC00 \<le> u \<and> u \<le> 0xDFFF then None
          else if 0xD800 \<le> u \<and> u \<le> 0xDBFF
          then (case (if take 2 (drop 4 s) = [CHR 0x5C, CHR ''u''] then parse_hex4 (drop 6 s) else None) of
                  None \<Rightarrow> None
                | Some low \<Rightarrow> if low < 0xDC00 \<or> 0xDFFF < low then None
                    else Some (append_utf8 (0x10000 + push_bit 10 (u - 0xD800) + (low - 0xDC00)), drop 10 s))
          else Some (append_utf8 u, drop 4 s))"

lemma read_unicode_shorter: "read_unicode s = Some (t, r) \<Longrightarrow> length r \<le> length s"
  by (auto simp: read_unicode_def split: option.splits if_splits)

definition simple_escape :: "char \<Rightarrow> char option" where
  "simple_escape c =
     (if c = CHR 0x22 \<or> c = CHR 0x5C \<or> c = CHR ''/'' then Some c
      else if c = CHR ''b'' then Some (CHR 0x08)
      else if c = CHR ''f'' then Some (CHR 0x0C)
      else if c = CHR ''n'' then Some (CHR 0x0A)
      else if c = CHR ''r'' then Some (CHR 0x0D)
      else if c = CHR ''t'' then Some (CHR 0x09)
      else None)"

text \<open>A string up to its closing quote.\<close>

function unescape :: "string \<Rightarrow> string option" where
  "unescape [] = None"
| "unescape (c # r) =
     (if c = CHR 0x22 then Some []
      else if c \<noteq> CHR 0x5C then map_option (Cons c) (unescape r)
      else case r of [] \<Rightarrow> None
        | d # r2 \<Rightarrow>
            if d = CHR ''u'' then (case read_unicode r2 of None \<Rightarrow> None | Some (t, r3) \<Rightarrow> map_option ((@) t) (unescape r3))
            else (case simple_escape d of None \<Rightarrow> None | Some e \<Rightarrow> map_option (Cons e) (unescape r2)))"
  by pat_completeness auto
termination by (relation "measure length") (auto dest: read_unicode_shorter)

definition find_string_field :: "string \<Rightarrow> string \<Rightarrow> string option" where
  "find_string_field line name =
     (case find_field_value line name of Some (c # r) \<Rightarrow> (if c = CHR 0x22 then unescape r else None) | _ \<Rightarrow> None)"

fun read_uint :: "nat \<Rightarrow> bool \<Rightarrow> string \<Rightarrow> nat option" where
  "read_uint acc found [] = (if found then Some acc else None)"
| "read_uint acc found (c # r) =
     (if is_digit c
      then let acc' = acc * 10 + (of_char c - 48) in if 2 ^ 32 - 1 < acc' then None else read_uint acc' True r
      else if found then Some acc else None)"

definition find_uint_field :: "string \<Rightarrow> string \<Rightarrow> 32 word option" where
  "find_uint_field line name =
     (case find_field_value line name of None \<Rightarrow> None | Some s \<Rightarrow> map_option word_of_nat (read_uint 0 False s))"

section \<open>Lines\<close>

definition parse_marker_line :: "string \<Rightarrow> string option" where
  "parse_marker_line line =
     (case find_string_field line ''kind'' of
        None \<Rightarrow> None
      | Some k \<Rightarrow> if trim k = ''mark'' then find_string_field line ''label'' else None)"

definition parse_control_line :: "string \<Rightarrow> (control_kind \<times> 32 word) option" where
  "parse_control_line line =
     (case find_string_field line ''kind'' of
        None \<Rightarrow> None
      | Some k \<Rightarrow>
          let name = trim k
          in if name = ''pause'' then Some (PAUSE, 0)
             else if name = ''resume'' then Some (RESUME, 0)
             else if name = ''snapshot'' then Some (SNAPSHOT, 0)
             else case find_uint_field line ''value'' of
                    None \<Rightarrow> None
                  | Some v \<Rightarrow>
                      if name = ''set_interval_ms'' \<or> name = ''set_worker_interval_ms'' then Some (SET_INTERVAL_MS, v)
                      else if name = ''set_node_interval_ms'' then Some (UNSPECIFIED, v)
                      else None)"

datatype client_command = Mark string | Control control_kind "32 word" | Malformed nat

definition command_of :: "string \<Rightarrow> client_command" where
  "command_of line =
     (case parse_marker_line line of
        Some label \<Rightarrow> Mark label
      | None \<Rightarrow> (case parse_control_line line of Some (ck, v) \<Rightarrow> Control ck v | None \<Rightarrow> Malformed (length line)))"

section \<open>The inbox\<close>

definition newline :: char where
  "newline = CHR 0x0A"

definition k_inbox_cap :: nat where
  "k_inbox_cap = 4096"

text \<open>What \<open>recv\<close> can give once \<open>select\<close> says the socket is ready.\<close>

datatype received = Data string | Closed | Failed

fun receive :: "string \<Rightarrow> received list \<Rightarrow> string option" where
  "receive inbox [] = Some inbox"
| "receive inbox (Data d # rs) = (if k_inbox_cap < length (inbox @ d) then None else receive (inbox @ d) rs)"
| "receive inbox (Closed # rs) = None"
| "receive inbox (Failed # rs) = None"

function take_lines :: "string \<Rightarrow> string list \<times> string" where
  "take_lines inbox =
     (if newline \<in> set inbox
      then let (ls, rest) = take_lines (tl (dropWhile (\<lambda>c. c \<noteq> newline) inbox))
           in (takeWhile (\<lambda>c. c \<noteq> newline) inbox # ls, rest)
      else ([], inbox))"
  by pat_completeness auto
termination
proof (relation "measure length")
  fix inbox :: string
  assume "newline \<in> set inbox"
  then have "dropWhile (\<lambda>c. c \<noteq> newline) inbox \<noteq> []" by simp
  then have "length (tl (dropWhile (\<lambda>c. c \<noteq> newline) inbox)) < length (dropWhile (\<lambda>c. c \<noteq> newline) inbox)" by simp
  also have "\<dots> \<le> length inbox" by (rule length_dropWhile_le)
  finally show "(tl (dropWhile (\<lambda>c. c \<noteq> newline) inbox), inbox) \<in> measure length" by simp
qed simp

declare take_lines.simps [simp del]

text \<open>One poll of a client: None when the connection is to be closed.\<close>

definition drain_inbound :: "string \<Rightarrow> received list \<Rightarrow> (client_command list \<times> string) option" where
  "drain_inbound inbox rs =
     (case receive inbox rs of None \<Rightarrow> None
      | Some s \<Rightarrow> let (ls, rest) = take_lines s in Some (map command_of ls, rest))"

section \<open>Reading back what was written\<close>

lemma unescape_plain: "json_plain c \<Longrightarrow> unescape (c # r) = map_option (Cons c) (unescape r)"
  by (simp add: json_plain_def)

lemma hex_value_digit: "d < 16 \<Longrightarrow> hex_value (hex_digit d) = Some d"
  by (auto simp: hex_value_def hex_digit_def code_def)

lemma hex_value_0: "hex_value (CHR ''0'') = Some 0"
  by (simp add: hex_value_def code_def)

lemma unescape_control:
  assumes "code c < 0x20"
  shows "unescape (control_escape c @ r) = map_option (Cons c) (unescape r)"
proof -
  have h: "parse_hex4 (''00'' @ [hex_digit (code c div 16), hex_digit (code c mod 16)] @ r) = Some (word_of_nat (code c))"
    using assms by (simp add: parse_hex4_def hex_value_0 hex_value_digit mult.commute)
  have w: "unat (word_of_nat (code c) :: 32 word) = code c" using assms by (simp add: unat_of_nat)
  then have "(word_of_nat (code c) :: 32 word) < 0x20" using assms by (simp add: word_less_nat_alt)
  then have small: "(word_of_nat (code c) :: 32 word) < 0x80" "\<not> 0xDC00 \<le> (word_of_nat (code c) :: 32 word)"
    "\<not> 0xD800 \<le> (word_of_nat (code c) :: 32 word)"
    by (simp_all add: word_less_nat_alt word_le_nat_alt)
  have "char_of_word (word_of_nat (code c)) = c" by (simp add: char_of_word_def w) (simp add: code_def)
  then have "read_unicode (''00'' @ [hex_digit (code c div 16), hex_digit (code c mod 16)] @ r) = Some ([c], r)"
    using h small by (simp add: read_unicode_def append_utf8_def)
  moreover have "(@) [c] = Cons c" by (rule ext) simp
  ultimately show ?thesis by (simp add: control_escape_def code_def)
qed

lemma unescape_escape_char: "unescape (escape_char c @ r) = map_option (Cons c) (unescape r)"
proof (cases "c \<in> {CHR 0x22, CHR 0x5C, CHR 0x0A, CHR 0x0D, CHR 0x09}")
  case True
  then show ?thesis by (auto simp: escape_char_def simple_escape_def)
next
  case False
  then show ?thesis
    by (auto simp: escape_char_def code_def [symmetric] json_plain_def unescape_control)
qed

lemma unescape_escaped: "unescape (concat (map escape_char s) @ CHR 0x22 # r) = Some s"
  by (induction s) (simp_all add: unescape_escape_char)

lemma after_first_here: "starts_with pat s \<Longrightarrow> after_first pat s = Some (drop (length pat) s)"
  by (simp add: after_first.simps [of pat s])

lemma after_first_skip: "\<not> starts_with pat (c # r) \<Longrightarrow> after_first pat (c # r) = after_first pat r"
  by (simp add: after_first.simps [of pat "c # r"])

definition more_digit :: "nat \<Rightarrow> char \<Rightarrow> nat" where
  "more_digit v c = v * 10 + (of_char c - 48)"

lemma more_digits_mono: "acc \<le> foldl more_digit acc ds"
proof (induction ds arbitrary: acc)
  case (Cons d ds)
  show ?case using Cons.IH [of "more_digit acc d"] by (simp add: more_digit_def)
qed simp

lemma read_uint_digits:
  "list_all is_digit ds \<Longrightarrow> foldl more_digit acc ds < 2 ^ 32 \<Longrightarrow> r = [] \<or> \<not> is_digit (hd r) \<Longrightarrow> found \<or> ds \<noteq> [] \<Longrightarrow>
   read_uint acc found (ds @ r) = Some (foldl more_digit acc ds)"
proof (induction ds arbitrary: acc found)
  case Nil
  then show ?case by (cases r) auto
next
  case (Cons d ds)
  have "acc * 10 + (of_char d - 48) < 2 ^ 32"
    using more_digits_mono [of "more_digit acc d" ds] Cons.prems(2) more_digit_def [of acc d] by simp
  then show ?case
    using Cons.IH [of "more_digit acc d" True] Cons.prems more_digit_def [of acc d] by simp
qed

lemma decimal_show: "foldl more_digit 0 (show_nat n) = n"
proof (induction n rule: show_nat.induct)
  case (1 n)
  then show ?case
    using code_digit [of "n mod 10", unfolded code_def] code_digit [of n, unfolded code_def]
    by (subst show_nat.simps) (auto simp: more_digit_def [of 0] more_digit_def [of _ "digit_char (n mod 10)"])
qed

lemma json_is_digit: "json_digit = is_digit"
  by (rule ext) (simp add: json_digit_def is_digit_def code_def)

lemma read_uint_show:
  assumes "n < 2 ^ 32" and "r = [] \<or> \<not> is_digit (hd r)"
  shows "read_uint 0 False (show_nat n @ r) = Some n"
  using read_uint_digits [of "show_nat n" 0 r False] show_nat_digits [of n] assms
  by (simp add: decimal_show json_digits_def json_is_digit)

lemma show_nat_front: "dropWhile is_space (show_nat n @ r) = show_nat n @ r"
proof -
  have "json_digits (show_nat n)" by (rule show_nat_digits)
  then obtain c s where "show_nat n = c # s" "is_digit c"
    by (cases "show_nat n") (auto simp: json_digits_def json_is_digit)
  moreover have "is_digit c \<Longrightarrow> \<not> is_space c" for c
    by (auto simp: is_digit_def is_space_def)
  ultimately show ?thesis by simp
qed

definition mark_line :: "string \<Rightarrow> string" where
  "mark_line label = json_object [(''kind'', quoted ''mark''), (''label'', escape_quoted label)]"

definition interval_line :: "32 word \<Rightarrow> string" where
  "interval_line ms = json_object [(''kind'', quoted ''set_interval_ms''), (''value'', emit_u32 ms)]"

lemmas line_simps = json_object_def quoted_def find_field_value_def after_first_here after_first_skip starts_with_def
  is_space_def

lemma kind_of_mark: "find_string_field (mark_line label) ''kind'' = Some ''mark''"
  by (simp add: find_string_field_def mark_line_def line_simps)

lemma label_of_mark: "find_string_field (mark_line label) ''label'' = Some label"
proof -
  have "escape_quoted label = CHR 0x22 # concat (map escape_char label) @ [CHR 0x22]"
    by (simp add: escape_quoted_def quoted_def)
  moreover have "after_first (quoted ''label'' @ '':'') (mark_line label) = Some (escape_quoted label @ ''}'')"
    by (simp add: mark_line_def line_simps)
  ultimately show ?thesis
    using unescape_escaped [of label "''}''"]
    by (simp add: find_string_field_def find_field_value_def is_space_def)
qed

lemma kind_of_interval: "find_string_field (interval_line ms) ''kind'' = Some ''set_interval_ms''"
  by (simp add: find_string_field_def interval_line_def line_simps)

lemma value_of_interval: "find_uint_field (interval_line ms) ''value'' = Some ms"
proof -
  have n: "unat (ucast ms :: 64 word) = unat ms"
    using unsigned_less [of ms, where ?'a = nat] by (simp add: unsigned_ucast_eq take_bit_nat_eq_self)
  have "after_first (quoted ''value'' @ '':'') (interval_line ms) = Some (emit_u32 ms @ ''}'')"
    by (simp add: interval_line_def line_simps)
  moreover have "read_uint 0 False (show_nat (unat ms) @ ''}'') = Some (unat ms)"
    using unsigned_less [of ms, where ?'a = nat] by (intro read_uint_show) (simp_all add: is_digit_def)
  ultimately show ?thesis
    by (simp add: find_uint_field_def find_field_value_def emit_u32_def emit_u64_def n show_nat_front)
qed

text \<open>C28: What a client says is what the server hears: a marker whose label is written as a JSON string is
  recorded with exactly that label, whatever bytes it has, quotes, backslashes and control characters
  included; and every 32-bit interval is read back as its number.\<close>

theorem client_lines_read_back:
  "command_of (mark_line label) = Mark label \<and> command_of (interval_line ms) = Control SET_INTERVAL_MS ms"
proof -
  have t: "trim ''mark'' = ''mark''" "trim ''set_interval_ms'' = ''set_interval_ms''"
    by (simp_all add: trim_def is_space_def)
  have "parse_marker_line (interval_line ms) = None"
    by (simp add: parse_marker_line_def kind_of_interval t)
  then show ?thesis
    by (simp add: command_of_def parse_marker_line_def parse_control_line_def kind_of_mark label_of_mark kind_of_interval
        value_of_interval t Let_def)
qed

section \<open>Lines from pieces\<close>

lemma take_lines_none: "newline \<notin> set s \<Longrightarrow> take_lines s = ([], s)"
  by (simp add: take_lines.simps [of s])

lemma line_split:
  "newline \<notin> set l \<Longrightarrow> takeWhile (\<lambda>c. c \<noteq> newline) (l @ newline # s) = l"
  "newline \<notin> set l \<Longrightarrow> dropWhile (\<lambda>c. c \<noteq> newline) (l @ newline # s) = newline # s"
  by (induction l) auto

lemma take_lines_line: "newline \<notin> set l \<Longrightarrow> take_lines (l @ newline # s) = (l # fst (take_lines s), snd (take_lines s))"
  by (simp add: take_lines.simps [of "l @ newline # s"] line_split split_def Let_def)

lemma take_lines_rest: "newline \<notin> set (snd (take_lines s))"
proof (induction s rule: take_lines.induct)
  case (1 s)
  then show ?case by (subst take_lines.simps) (simp add: split_def Let_def)
qed

lemma take_lines_append:
  "take_lines (s @ t) = (fst (take_lines s) @ fst (take_lines (snd (take_lines s) @ t)), snd (take_lines (snd (take_lines s) @ t)))"
proof (induction s rule: take_lines.induct)
  case (1 s)
  show ?case
  proof (cases "newline \<in> set s")
    case True
    then obtain l r where s: "s = l @ newline # r" "newline \<notin> set l" by (metis split_list_first)
    then have "tl (dropWhile (\<lambda>c. c \<noteq> newline) s) = r" by (simp add: line_split)
    with 1 [OF True] have "take_lines (r @ t) =
        (fst (take_lines r) @ fst (take_lines (snd (take_lines r) @ t)), snd (take_lines (snd (take_lines r) @ t)))" by simp
    then show ?thesis using s by (simp add: take_lines_line)
  qed (simp add: take_lines_none)
qed

text \<open>
  The bytes of a poll, and when the server gives the connection up in it: the client has closed it, reading
  failed, or the unfinished line and the new bytes are more than the inbox may hold.
\<close>

fun bytes_of :: "received list \<Rightarrow> string" where
  "bytes_of [] = []"
| "bytes_of (Data d # rs) = d @ bytes_of rs"
| "bytes_of (r # rs) = bytes_of rs"

definition refused :: "string \<Rightarrow> received list \<Rightarrow> bool" where
  "refused unfinished rs \<longleftrightarrow> Closed \<in> set rs \<or> Failed \<in> set rs \<or> k_inbox_cap < length (unfinished @ bytes_of rs)"

text \<open>The polls of a connection: the commands executed, and the unfinished line unless it was given up.\<close>

fun drain_all :: "string \<Rightarrow> received list list \<Rightarrow> client_command list \<times> string option" where
  "drain_all inbox [] = ([], Some inbox)"
| "drain_all inbox (rs # polls) =
     (case drain_inbound inbox rs of
        None \<Rightarrow> ([], None)
      | Some (cs, rest) \<Rightarrow> let (ds, left) = drain_all rest polls in (cs @ ds, left))"

text \<open>The number of polls before the first one that is refused, after the bytes \<open>came\<close>.\<close>

fun polls_read :: "string \<Rightarrow> received list list \<Rightarrow> nat" where
  "polls_read came [] = 0"
| "polls_read came (rs # polls) =
     (if refused (snd (take_lines came)) rs then 0 else Suc (polls_read (came @ bytes_of rs) polls))"

lemma receive_refused:
  "length inbox \<le> k_inbox_cap \<Longrightarrow> receive inbox rs = (if refused inbox rs then None else Some (inbox @ bytes_of rs))"
  by (induction inbox rs rule: receive.induct) (auto simp: refused_def)

lemma take_lines_shorter: "length (snd (take_lines s)) \<le> length s"
proof (induction s rule: take_lines.induct)
  case (1 s)
  show ?case
  proof (cases "newline \<in> set s")
    case True
    have "length (tl (dropWhile (\<lambda>c. c \<noteq> newline) s)) \<le> length s"
      using length_dropWhile_le [of "\<lambda>c. c \<noteq> newline" s] by simp
    then show ?thesis using 1 [OF True] True by (subst take_lines.simps) (simp add: split_def Let_def)
  qed (simp add: take_lines_none)
qed

lemma drained:
  assumes "length (snd (take_lines came)) \<le> k_inbox_cap"
  shows "drain_all (snd (take_lines came)) polls =
    (let k = polls_read came polls; ls = take_lines (snd (take_lines came) @ concat (map bytes_of (take k polls)))
     in (map command_of (fst ls), if k = length polls then Some (snd ls) else None))"
  using assms
proof (induction polls arbitrary: came)
  case Nil
  show ?case by (simp add: take_lines_none take_lines_rest)
next
  case (Cons rs polls)
  let ?inbox = "snd (take_lines came)"
  note R = receive_refused [OF Cons.prems, of rs]
  show ?case
  proof (cases "refused ?inbox rs")
    case True
    then show ?thesis using R by (simp add: drain_inbound_def take_lines_none take_lines_rest)
  next
    case False
    let ?s = "?inbox @ bytes_of rs"
    have d: "drain_inbound ?inbox rs = Some (map command_of (fst (take_lines ?s)), snd (take_lines ?s))"
      using R False by (simp add: drain_inbound_def split_def Let_def)
    have same: "snd (take_lines (came @ bytes_of rs)) = snd (take_lines ?s)"
      by (simp add: take_lines_append [of came])
    have "length (snd (take_lines (came @ bytes_of rs))) \<le> k_inbox_cap"
      using False take_lines_shorter [of ?s] by (simp add: same refused_def)
    from Cons.IH [OF this] show ?thesis
      using False d take_lines_append [of ?s] by (simp add: same Let_def)
  qed
qed

text \<open>C29: The commands of a client are those of the bytes it sent: up to the poll in which the server gives the
  connection up, every line is executed once, whole and in order, however the bytes were cut by polls and
  reads, and what follows the last line break waits for more. The server gives it up in the first poll in
  which the client has closed the connection, reading fails, or the unfinished line with the new bytes is
  more than 4096 bytes; of that poll no line is executed, not even one that was complete. So the cutting
  into polls matters only for which bytes still count: a client that closes at once after its last line,
  or sends more than 4096 bytes between two polls, loses these lines.\<close>

theorem commands_from_bytes:
  "drain_all [] polls =
     (let k = polls_read [] polls;
          ls = take_lines (concat (map bytes_of (take k polls)))
      in (map command_of (fst ls), if k = length polls then Some (snd ls) else None))"
proof -
  have "take_lines [] = ([], [])" by (rule take_lines_none) simp
  then show ?thesis using drained [of "[]" polls] by simp
qed

end
