(* ===== verification/Worker_Frame_Codec.thy ===== *)
theory Worker_Frame_Codec
  imports Telemetry_Frames
begin

text \<open>
  The wire form of a rank's frame (\<open>private/impl/telemetry/worker_frame_codec.hpp\<close>): the object
  representation of the header and of each edge on the 64-bit targets, where every field stands at a
  multiple of its size; the bytes in between, here 0, are not read.
\<close>

definition HEADER_SIZE :: nat where "HEADER_SIZE = 272"
definition EDGE_SIZE :: nat where "EDGE_SIZE = 24"

definition edge_bytes :: "edge_counter \<Rightarrow> byte list" where
  "edge_bytes e = word_bytes (ec_dst e) @ replicate 4 0 @ word_bytes (ec_bytes e) @ word_bytes (ec_count e)"

definition header_bytes :: "'a worker_frame_header_scheme \<Rightarrow> byte list" where
  "header_bytes f =
     word_bytes (wf_version f) @ replicate 2 0 @ word_bytes (wf_worker_id f) @ word_bytes (wf_seq_no f) @
     word_bytes (wf_snapshot_id f) @ word_bytes (wf_worker_local_ms f) @
     word_bytes (wf_tasks_started_total f) @ word_bytes (wf_tasks_sent_total f) @
     word_bytes (wf_tasks_recv_total f) @ word_bytes (wf_bytes_sent_total f) @
     word_bytes (wf_bytes_recv_total f) @ word_bytes (wf_send_microseconds_total f) @
     word_bytes (wf_recv_microseconds_total f) @ word_bytes (wf_spawn_rejected_pool_full f) @
     word_bytes (wf_spawn_remote_rejected f) @ word_bytes (wf_tasks_running f) @
     word_bytes (wf_scheduler_pending_count f) @ word_bytes (wf_idle_microseconds_per_worker f) @
     word_bytes (wf_idle_microseconds_starved f) @ word_bytes (wf_idle_microseconds_imbalanced f) @
     word_bytes (wf_sched_running_microseconds f) @ word_bytes (wf_sched_waiting_microseconds f) @
     word_bytes (wf_first_task_ms f) @ word_bytes (wf_last_task_ms f) @
     word_bytes (wf_assign_latency_microseconds_total f) @ word_bytes (wf_assign_count f) @
     word_bytes (wf_assign_latency_microseconds_max f) @
     word_bytes (wf_available_microseconds_queue_empty f) @ word_bytes (wf_coordinator_state_msgs_total f) @
     word_bytes (wf_coordinator_score_proposals_total f) @
     word_bytes (wf_coordinator_score_broadcasts_total f) @ word_bytes (wf_score_proposals_sent f) @
     word_bytes (wf_last_score_improvement_ms f) @ word_bytes (wf_coordinator_full_microseconds f) @
     word_bytes (wf_telemetry_microseconds_total f) @ word_bytes (wf_process_cpu_pct f) @ replicate 4 0 @
     word_bytes (wf_process_rss_bytes f) @ word_bytes (wf_process_threads f) @ replicate 4 0"

definition encode_worker_frame :: "worker_frame \<Rightarrow> byte list" where
  "encode_worker_frame f = header_bytes f @ concat (map edge_bytes (wf_edges_out f))"

definition field_at :: "nat \<Rightarrow> nat \<Rightarrow> byte list \<Rightarrow> 'a::len word" where
  "field_at offset n bs = bytes_word (take n (drop offset bs))"

definition bytes_edge :: "byte list \<Rightarrow> edge_counter" where
  "bytes_edge bs = \<lparr>ec_dst = field_at 0 4 bs, ec_bytes = field_at 8 8 bs, ec_count = field_at 16 8 bs\<rparr>"

fun bytes_edges :: "nat \<Rightarrow> byte list \<Rightarrow> edge_counter list" where
  "bytes_edges 0 bs = []"
| "bytes_edges (Suc k) bs = bytes_edge (take EDGE_SIZE bs) # bytes_edges k (drop EDGE_SIZE bs)"

definition bytes_header :: "byte list \<Rightarrow> edge_counter list \<Rightarrow> worker_frame" where
  "bytes_header bs edges = \<lparr>
     wf_version = field_at 0 2 bs, wf_worker_id = field_at 4 4 bs, wf_seq_no = field_at 8 4 bs,
     wf_snapshot_id = field_at 12 4 bs, wf_worker_local_ms = field_at 16 8 bs,
     wf_tasks_started_total = field_at 24 8 bs, wf_tasks_sent_total = field_at 32 8 bs,
     wf_tasks_recv_total = field_at 40 8 bs, wf_bytes_sent_total = field_at 48 8 bs,
     wf_bytes_recv_total = field_at 56 8 bs, wf_send_microseconds_total = field_at 64 8 bs,
     wf_recv_microseconds_total = field_at 72 8 bs, wf_spawn_rejected_pool_full = field_at 80 8 bs,
     wf_spawn_remote_rejected = field_at 88 8 bs, wf_tasks_running = field_at 96 4 bs,
     wf_scheduler_pending_count = field_at 100 4 bs, wf_idle_microseconds_per_worker = field_at 104 8 bs,
     wf_idle_microseconds_starved = field_at 112 8 bs, wf_idle_microseconds_imbalanced = field_at 120 8 bs,
     wf_sched_running_microseconds = field_at 128 8 bs, wf_sched_waiting_microseconds = field_at 136 8 bs,
     wf_first_task_ms = field_at 144 8 bs, wf_last_task_ms = field_at 152 8 bs,
     wf_assign_latency_microseconds_total = field_at 160 8 bs, wf_assign_count = field_at 168 8 bs,
     wf_assign_latency_microseconds_max = field_at 176 8 bs,
     wf_available_microseconds_queue_empty = field_at 184 8 bs,
     wf_coordinator_state_msgs_total = field_at 192 8 bs,
     wf_coordinator_score_proposals_total = field_at 200 8 bs,
     wf_coordinator_score_broadcasts_total = field_at 208 8 bs, wf_score_proposals_sent = field_at 216 8 bs,
     wf_last_score_improvement_ms = field_at 224 8 bs, wf_coordinator_full_microseconds = field_at 232 8 bs,
     wf_telemetry_microseconds_total = field_at 240 8 bs, wf_process_cpu_pct = field_at 248 4 bs,
     wf_process_rss_bytes = field_at 256 8 bs, wf_process_threads = field_at 264 4 bs,
     wf_edges_out = edges\<rparr>"

definition decode_worker_frame :: "byte list \<Rightarrow> worker_frame option" where
  "decode_worker_frame bs =
     (if length bs < HEADER_SIZE \<or> (length bs - HEADER_SIZE) mod EDGE_SIZE \<noteq> 0 then None
      else Some (bytes_header bs (bytes_edges ((length bs - HEADER_SIZE) div EDGE_SIZE) (drop HEADER_SIZE bs))))"

section \<open>Round trip\<close>

lemma length_edge_bytes [simp]: "length (edge_bytes e) = EDGE_SIZE"
  by (simp add: edge_bytes_def EDGE_SIZE_def)

lemma length_header_bytes [simp]: "length (header_bytes f) = HEADER_SIZE"
  by (simp add: header_bytes_def HEADER_SIZE_def)

lemma word_bytes_back:
  "bytes_word (word_bytes (w :: 16 word)) = w" "bytes_word (word_bytes (v :: 32 word)) = v"
  "bytes_word (word_bytes (u :: 64 word)) = u"
  by (simp_all add: bytes_word_word_bytes)

lemma bytes_edge_back: "bytes_edge (edge_bytes e) = e"
  by (simp add: bytes_edge_def edge_bytes_def field_at_def word_bytes_back)

lemma bytes_edges_back: "bytes_edges (length es) (concat (map edge_bytes es)) = es"
  by (induction es) (simp_all add: bytes_edge_back)

lemma bytes_header_back: "bytes_header (header_bytes f @ rest) (wf_edges_out f) = f"
  by (simp add: bytes_header_def header_bytes_def field_at_def word_bytes_back)

lemma length_edges: "length (concat (map edge_bytes es)) = length es * EDGE_SIZE"
  by (induction es) simp_all

lemma decode_encode: "decode_worker_frame (encode_worker_frame f) = Some f"
  by (simp add: decode_worker_frame_def encode_worker_frame_def length_edges bytes_edges_back bytes_header_back
      EDGE_SIZE_def)

end
