(* ===== verification/Telemetry_Transport.thy ===== *)
theory Telemetry_Transport
  imports Worker_Frame_Codec "HOL-Library.Sublist"
begin

text \<open>
  The transports of telemetry (\<open>include/gempba/telemetry/telemetry_transport.hpp\<close>,
  \<open>src/telemetry/local_transport.cpp\<close>, \<open>src/telemetry/mpi_transport.cpp\<close>). The abstract class is a record
  of operations on a state; a callback of \<open>poll\<close> is a list of what it is called with. The loop
  \<open>while (auto c = try_recv_control())\<close> of the hub is one operation, the list of what it takes.
\<close>

record 't transport =
  tr_publish_worker :: "worker_frame \<Rightarrow> 't \<Rightarrow> 't"
  tr_publish_final :: "worker_frame \<Rightarrow> 't \<Rightarrow> 't"
  tr_publish_node :: "node_frame \<Rightarrow> 't \<Rightarrow> 't"
  tr_final_received :: "'t \<Rightarrow> 32 word"
  tr_poll :: "'t \<Rightarrow> (32 word \<times> worker_frame) list \<times> (32 word \<times> node_frame) list \<times> 't"
  tr_send_control :: "32 word \<Rightarrow> control_msg \<Rightarrow> 't \<Rightarrow> 't"
  tr_recv_controls :: "'t \<Rightarrow> control_msg list \<times> 't"

section \<open>Within a process\<close>

text \<open>A slot holds the latest frame of its rank while it is dirty.\<close>

record local_state =
  lt_workers :: "nat \<Rightarrow> worker_frame option"
  lt_nodes :: "nat \<Rightarrow> node_frame option"
  lt_controls :: "(32 word \<times> control_msg) list"

definition new_local :: local_state where
  "new_local = \<lparr>lt_workers = (\<lambda>i. None), lt_nodes = (\<lambda>i. None), lt_controls = []\<rparr>"

definition local_publish_worker :: "worker_frame \<Rightarrow> local_state \<Rightarrow> local_state" where
  "local_publish_worker f t =
     (if MAX_WORKERS \<le> unat (wf_worker_id f) then t
      else t\<lparr>lt_workers := (lt_workers t)(unat (wf_worker_id f) := Some f)\<rparr>)"

definition local_publish_node :: "node_frame \<Rightarrow> local_state \<Rightarrow> local_state" where
  "local_publish_node f t =
     (if MAX_WORKERS \<le> unat (nf_sentinel_worker_id f) then t
      else t\<lparr>lt_nodes := (lt_nodes t)(unat (nf_sentinel_worker_id f) := Some f)\<rparr>)"

definition dirty_slots :: "(nat \<Rightarrow> 'a option) \<Rightarrow> (32 word \<times> 'a) list" where
  "dirty_slots slots =
     concat (map (\<lambda>i. case slots i of None \<Rightarrow> [] | Some f \<Rightarrow> [(word_of_nat i, f)]) [0..<MAX_WORKERS])"

definition local_poll :: "local_state \<Rightarrow> (32 word \<times> worker_frame) list \<times> (32 word \<times> node_frame) list \<times> local_state" where
  "local_poll t =
     (dirty_slots (lt_workers t), dirty_slots (lt_nodes t),
      t\<lparr>lt_workers := (\<lambda>i. if i < MAX_WORKERS then None else lt_workers t i),
        lt_nodes := (\<lambda>i. if i < MAX_WORKERS then None else lt_nodes t i)\<rparr>)"

definition local_send_control :: "32 word \<Rightarrow> control_msg \<Rightarrow> local_state \<Rightarrow> local_state" where
  "local_send_control dst m t = t\<lparr>lt_controls := lt_controls t @ [(dst, m)]\<rparr>"

text \<open>The message at the front, whatever rank it is addressed to.\<close>

definition local_try_recv_control :: "local_state \<Rightarrow> control_msg option \<times> local_state" where
  "local_try_recv_control t =
     (case lt_controls t of [] \<Rightarrow> (None, t) | (dst, m) # ms \<Rightarrow> (Some m, t\<lparr>lt_controls := ms\<rparr>))"

function local_recv_controls :: "local_state \<Rightarrow> control_msg list \<times> local_state" where
  "local_recv_controls t =
     (case local_try_recv_control t of
        (None, t1) \<Rightarrow> ([], t1)
      | (Some m, t1) \<Rightarrow> let (ms, t2) = local_recv_controls t1 in (m # ms, t2))"
  by pat_completeness auto
termination
  by (relation "measure (\<lambda>t. length (lt_controls t))") (auto simp: local_try_recv_control_def split: list.splits)

declare local_recv_controls.simps [simp del]

definition local_ops :: "local_state transport" where
  "local_ops = \<lparr>tr_publish_worker = local_publish_worker, tr_publish_final = local_publish_worker,
     tr_publish_node = local_publish_node, tr_final_received = (\<lambda>t. 0), tr_poll = local_poll,
     tr_send_control = local_send_control, tr_recv_controls = local_recv_controls\<rparr>"

section \<open>Between processes\<close>

text \<open>
  The messages on the duplicated communicator, for each tag and each pair of ranks in the order they were
  sent, and what each rank keeps. \<open>MPI_Iprobe\<close> may or may not see a message that was sent: the loops
  take, as an argument, the sources it finds, one after the other; a source with nothing under way is
  not found.
\<close>

record mpi_state =
  mp_world_size :: nat
  mp_frames :: "nat \<Rightarrow> byte list list"
  mp_finals :: "nat \<Rightarrow> byte list list"
  mp_nodes :: "nat \<Rightarrow> node_frame list"
  mp_controls :: "nat \<Rightarrow> nat \<Rightarrow> control_msg list"
  mp_inbound :: "nat \<Rightarrow> control_msg list"
  mp_final_frames_received :: "nat \<Rightarrow> 32 word"

definition new_mpi :: "nat \<Rightarrow> mpi_state" where
  "new_mpi n = \<lparr>mp_world_size = n, mp_frames = (\<lambda>r. []), mp_finals = (\<lambda>r. []), mp_nodes = (\<lambda>r. []),
     mp_controls = (\<lambda>s d. []), mp_inbound = (\<lambda>r. []), mp_final_frames_received = (\<lambda>r. 0)\<rparr>"

record probe_order =
  po_frames :: "nat list"
  po_finals :: "nat list"
  po_nodes :: "nat list"
  po_controls :: "nat list"

definition mpi_publish_worker :: "nat \<Rightarrow> worker_frame \<Rightarrow> mpi_state \<Rightarrow> mpi_state" where
  "mpi_publish_worker r f w = w\<lparr>mp_frames := (mp_frames w)(r := mp_frames w r @ [encode_worker_frame f])\<rparr>"

definition mpi_publish_final :: "nat \<Rightarrow> worker_frame \<Rightarrow> mpi_state \<Rightarrow> mpi_state" where
  "mpi_publish_final r f w = w\<lparr>mp_finals := (mp_finals w)(r := mp_finals w r @ [encode_worker_frame f])\<rparr>"

definition mpi_publish_node :: "nat \<Rightarrow> node_frame \<Rightarrow> mpi_state \<Rightarrow> mpi_state" where
  "mpi_publish_node r f w = w\<lparr>mp_nodes := (mp_nodes w)(r := mp_nodes w r @ [f])\<rparr>"

text \<open>Receiving from the sources found, in that order: what was received and what is left.\<close>

fun take_found :: "nat list \<Rightarrow> (nat \<Rightarrow> 'a list) \<Rightarrow> (nat \<times> 'a) list \<times> (nat \<Rightarrow> 'a list)" where
  "take_found [] ch = ([], ch)"
| "take_found (s # ss) ch =
     (case ch s of [] \<Rightarrow> take_found ss ch
      | m # ms \<Rightarrow> let (got, ch') = take_found ss (ch(s := ms)) in ((s, m) # got, ch'))"

definition decoded :: "(nat \<times> byte list) list \<Rightarrow> (32 word \<times> worker_frame) list" where
  "decoded got = concat (map (\<lambda>(s, bs). case decode_worker_frame bs of None \<Rightarrow> [] | Some f \<Rightarrow> [(word_of_nat s, f)]) got)"

definition drain_worker_frames :: "nat list \<Rightarrow> mpi_state \<Rightarrow> (32 word \<times> worker_frame) list \<times> mpi_state" where
  "drain_worker_frames found w =
     (let (got, ch) = take_found found (mp_frames w) in (decoded got, w\<lparr>mp_frames := ch\<rparr>))"

text \<open>The final frames are counted before they are decoded.\<close>

definition drain_final_frames :: "nat \<Rightarrow> nat list \<Rightarrow> mpi_state \<Rightarrow> (32 word \<times> worker_frame) list \<times> mpi_state" where
  "drain_final_frames r found w =
     (let (got, ch) = take_found found (mp_finals w)
      in (decoded got, w\<lparr>mp_finals := ch, mp_final_frames_received :=
            (mp_final_frames_received w)(r := mp_final_frames_received w r + word_of_nat (length got))\<rparr>))"

definition drain_node_frames :: "nat list \<Rightarrow> mpi_state \<Rightarrow> (32 word \<times> node_frame) list \<times> mpi_state" where
  "drain_node_frames found w =
     (let (got, ch) = take_found found (mp_nodes w) in (map (\<lambda>(s, f). (word_of_nat s, f)) got, w\<lparr>mp_nodes := ch\<rparr>))"

definition mpi_poll :: "nat \<Rightarrow> probe_order \<Rightarrow> mpi_state \<Rightarrow>
    (32 word \<times> worker_frame) list \<times> (32 word \<times> node_frame) list \<times> mpi_state" where
  "mpi_poll r po w =
     (if r \<noteq> 0 then ([], [], w)
      else let (fs, w1) = drain_worker_frames (po_frames po) w;
               (ls, w2) = drain_final_frames r (po_finals po) w1;
               (ns, w3) = drain_node_frames (po_nodes po) w2
           in (fs @ ls, ns, w3))"

definition mpi_send_control :: "nat \<Rightarrow> 32 word \<Rightarrow> control_msg \<Rightarrow> mpi_state \<Rightarrow> mpi_state" where
  "mpi_send_control r dst m w =
     (if mp_world_size w \<le> unat dst then w
      else w\<lparr>mp_controls := (mp_controls w)(r := (mp_controls w r)(unat dst := mp_controls w r (unat dst) @ [m]))\<rparr>)"

text \<open>
  The hub's loop calls \<open>try_recv_control\<close> until nothing is left: all the messages found are queued behind
  those kept, and the queue is emptied.
\<close>

definition mpi_recv_controls :: "nat \<Rightarrow> nat list \<Rightarrow> mpi_state \<Rightarrow> control_msg list \<times> mpi_state" where
  "mpi_recv_controls r found w =
     (let (got, ch) = take_found found (\<lambda>s. mp_controls w s r)
      in (mp_inbound w r @ map snd got,
          w\<lparr>mp_controls := (\<lambda>s. (mp_controls w s)(r := ch s)), mp_inbound := (mp_inbound w)(r := [])\<rparr>))"

definition mpi_ops :: "nat \<Rightarrow> probe_order \<Rightarrow> mpi_state transport" where
  "mpi_ops r po = \<lparr>tr_publish_worker = mpi_publish_worker r, tr_publish_final = mpi_publish_final r,
     tr_publish_node = mpi_publish_node r, tr_final_received = (\<lambda>w. mp_final_frames_received w r),
     tr_poll = mpi_poll r po, tr_send_control = mpi_send_control r, tr_recv_controls = mpi_recv_controls r (po_controls po)\<rparr>"

end
