(* ===== verification/Run_Id.thy ===== *)
theory Run_Id
  imports Byte_Codec
begin

unbundle bit_operations_syntax

text \<open>
  The identifier of a run (\<open>private/impl/telemetry/run_id.hpp\<close>), from the two words the random engine gives.
\<close>

definition version_and_variant :: "byte list \<Rightarrow> byte list" where
  "version_and_variant bs = bs[6 := (bs ! 6 AND 0x0F) OR 0x40, 8 := (bs ! 8 AND 0x3F) OR 0x80]"

definition k_hex :: "byte \<Rightarrow> char" where
  "k_hex d = ''0123456789abcdef'' ! unat d"

definition uuid_byte :: "byte list \<Rightarrow> nat \<Rightarrow> string" where
  "uuid_byte bs i =
     (if i = 4 \<or> i = 6 \<or> i = 8 \<or> i = 10 then ''-'' else '''') @ [k_hex (drop_bit 4 (bs ! i)), k_hex (bs ! i AND 0x0F)]"

definition format_uuid_v4 :: "byte list \<Rightarrow> string" where
  "format_uuid_v4 bs = concat (map (uuid_byte (version_and_variant bs)) [0..<length bs])"

definition generate_run_id :: "64 word \<Rightarrow> 64 word \<Rightarrow> string" where
  "generate_run_id u v = format_uuid_v4 (map (\<lambda>i. ucast (drop_bit (8 * (i mod 8)) (if i < 8 then u else v))) [0..<16])"

lemma nibble: "unat (drop_bit 4 (b :: byte)) < 16" "unat (b AND 0x0F) < 16"
proof -
  have "unat (drop_bit 4 b) = unat b div 16"
    by (simp add: drop_bit_eq_div unat_div)
  then show "unat (drop_bit 4 b) < 16" using unat_byte_less [of b] by simp
  have "(b AND 0x0F) \<le> 0x0F" by (rule word_and_le1)
  then show "unat (b AND 0x0F) < 16" by (simp add: word_le_nat_alt)
qed

lemma k_hex_in: "unat d < 16 \<Longrightarrow> k_hex d \<in> set ''0123456789abcdef''"
  unfolding k_hex_def by (rule nth_mem) simp

text \<open>An identifier consists of hexadecimal digits and hyphens.\<close>

lemma run_id_characters: "set (generate_run_id u v) \<subseteq> set ''-0123456789abcdef''"
proof -
  have b: "set (uuid_byte bs i) \<subseteq> set ''-0123456789abcdef''" for bs i
    using k_hex_in [OF nibble(1) [of "bs ! i"]] k_hex_in [OF nibble(2) [of "bs ! i"]] by (auto simp: uuid_byte_def)
  then show ?thesis unfolding generate_run_id_def format_uuid_v4_def set_concat by fastforce
qed

end
