(* ===== verification/Telemetry_Hub.thy ===== *)
theory Telemetry_Hub
  imports Telemetry_Transport Scheduler_Clock Topology_Snapshot Run_Id Json_Serializer "HOL-Library.AList"
begin

text \<open>
  The hub of a process (\<open>include/gempba/telemetry/telemetry_hub.hpp\<close>, \<open>src/telemetry/telemetry_hub.cpp\<close>):
  its counters, its settings, what the aggregator keeps, and the tick that publishes frames, passes
  controls on and takes frames in. The clocks and what the probes, the load balancer and the scheduler
  report are arguments.
\<close>

section \<open>State\<close>

definition MAX_RUN_ANNOTATIONS :: nat where "MAX_RUN_ANNOTATIONS = 8"
definition MAX_RUN_ANNOTATION_KEY_BYTES :: nat where "MAX_RUN_ANNOTATION_KEY_BYTES = 32"
definition MAX_RUN_ANNOTATION_VALUE_BYTES :: nat where "MAX_RUN_ANNOTATION_VALUE_BYTES = 64"
definition MAX_RUN_MARKERS :: nat where "MAX_RUN_MARKERS = 32"
definition MAX_RUN_MARKER_LABEL_BYTES :: nat where "MAX_RUN_MARKER_LABEL_BYTES = 64"

record edge_slot =
  es_bytes :: "64 word"
  es_count :: "64 word"

record counters =
  ct_tasks_started :: "64 word"
  ct_tasks_sent :: "64 word"
  ct_tasks_recv :: "64 word"
  ct_bytes_sent :: "64 word"
  ct_bytes_recv :: "64 word"
  ct_send_nanoseconds :: "64 word"
  ct_recv_nanoseconds :: "64 word"
  ct_state_msgs :: "64 word"
  ct_score_proposals :: "64 word"
  ct_score_broadcasts :: "64 word"
  ct_proposals_sent :: "64 word"
  ct_telemetry_microseconds :: "64 word"
  ct_edges_out :: "edge_slot list"
  ct_clock :: scheduler_clock

definition new_counters :: counters where
  "new_counters = \<lparr>ct_tasks_started = 0, ct_tasks_sent = 0, ct_tasks_recv = 0, ct_bytes_sent = 0, ct_bytes_recv = 0,
     ct_send_nanoseconds = 0, ct_recv_nanoseconds = 0, ct_state_msgs = 0, ct_score_proposals = 0,
     ct_score_broadcasts = 0, ct_proposals_sent = 0, ct_telemetry_microseconds = 0, ct_edges_out = [],
     ct_clock = new_clock\<rparr>"

text \<open>The maps of the aggregator are association lists, each key in it once.\<close>

record aggregator =
  ag_latest_worker :: "(32 word \<times> worker_frame) list"
  ag_latest_node :: "(32 word \<times> node_frame) list"
  ag_last_seen_ms :: "(32 word \<times> 64 word) list"

definition new_aggregator :: aggregator where
  "new_aggregator = \<lparr>ag_latest_worker = [], ag_latest_node = [], ag_last_seen_ms = []\<rparr>"

record hub =
  th_mode :: runtime_mode
  th_rank :: "32 word"
  th_world_size :: "32 word"
  th_is_sentinel :: bool
  th_interval_ms :: "32 word"
  th_paused :: bool
  th_snapshot_requested :: "32 word"
  th_snapshot_requested_ms :: "64 word"
  th_snapshot_due :: "32 word"
  th_snapshot_answered :: "32 word"
  th_last_rank_emit_ms :: "64 word"
  th_seq_no :: "32 word"
  th_start_ms :: "64 word"
  th_run_id :: string
  th_counters :: counters
  th_aggregator :: "aggregator option"
  th_topology :: topology_snapshot
  th_running :: bool
  th_pending_fanout :: "control_msg list"
  th_annotations :: "(string \<times> string) list"
  th_markers :: "run_marker list"
  th_scheduler_name :: string
  th_scheduler_roles :: "rank_role list"
  th_load_balancer_name :: string

definition new_hub :: hub where
  "new_hub = \<lparr>th_mode = MT_ONLY, th_rank = 0, th_world_size = 1, th_is_sentinel = False, th_interval_ms = 500,
     th_paused = False, th_snapshot_requested = 0, th_snapshot_requested_ms = 0, th_snapshot_due = 0,
     th_snapshot_answered = 0, th_last_rank_emit_ms = 0, th_seq_no = 0, th_start_ms = 0, th_run_id = [],
     th_counters = new_counters, th_aggregator = None, th_topology = \<lparr>tp_nodes = [], tp_identities = []\<rparr>,
     th_running = False, th_pending_fanout = [], th_annotations = [], th_markers = [], th_scheduler_name = [],
     th_scheduler_roles = [], th_load_balancer_name = []\<rparr>"

text \<open>
  \<open>on_runtime_ready\<close>, without the transport and the threads: \<open>engine\<close> gives the words of the run's
  identifier, the topology is the one the ranks agreed on.
\<close>

definition on_runtime_ready :: "runtime_mode \<Rightarrow> 32 word \<Rightarrow> 32 word \<Rightarrow> 64 word \<Rightarrow> 64 word \<times> 64 word \<Rightarrow> topology_snapshot \<Rightarrow>
    hub \<Rightarrow> hub" where
  "on_runtime_ready mode rank world_size now engine topology h =
     (let h1 = h\<lparr>th_mode := mode, th_rank := rank, th_world_size := world_size,
            th_counters := (th_counters h)\<lparr>ct_edges_out := replicate (unat world_size) \<lparr>es_bytes = 0, es_count = 0\<rparr>\<rparr>,
            th_start_ms := now\<rparr>;
          h2 = (if rank = 0 then h1\<lparr>th_run_id := generate_run_id (fst engine) (snd engine),
                  th_aggregator := Some new_aggregator\<rparr> else h1);
          h3 = h2\<lparr>th_topology := topology\<rparr>;
          h4 = (if list_ex (\<lambda>n. tn_sentinel_worker_id n = rank) (tp_nodes topology)
                then h3\<lparr>th_is_sentinel := True\<rparr> else h3)
      in h4\<lparr>th_running := True\<rparr>)"

section \<open>Recording\<close>

definition on_counters :: "(counters \<Rightarrow> counters) \<Rightarrow> hub \<Rightarrow> hub" where
  "on_counters f h = h\<lparr>th_counters := f (th_counters h)\<rparr>"

definition on_clock :: "(scheduler_clock \<Rightarrow> scheduler_clock) \<Rightarrow> hub \<Rightarrow> hub" where
  "on_clock f = on_counters (\<lambda>c. c\<lparr>ct_clock := f (ct_clock c)\<rparr>)"

text \<open>
  A counter is atomic, an operation that adds to several is not: \<open>send_adds\<close> are the additions of one
  \<open>record_send\<close>, in order, for a run of \<open>n\<close> ranks.
\<close>

datatype counter_add =
    Edge_Bytes nat "64 word" | Edge_Count nat | Tasks_Sent | Bytes_Sent "64 word" | Send_Nanoseconds "64 word"

fun fetch_add :: "counter_add \<Rightarrow> counters \<Rightarrow> counters" where
  "fetch_add (Edge_Bytes i v) c =
     c\<lparr>ct_edges_out := (ct_edges_out c)[i := (ct_edges_out c ! i)\<lparr>es_bytes := es_bytes (ct_edges_out c ! i) + v\<rparr>]\<rparr>"
| "fetch_add (Edge_Count i) c =
     c\<lparr>ct_edges_out := (ct_edges_out c)[i := (ct_edges_out c ! i)\<lparr>es_count := es_count (ct_edges_out c ! i) + 1\<rparr>]\<rparr>"
| "fetch_add Tasks_Sent c = c\<lparr>ct_tasks_sent := ct_tasks_sent c + 1\<rparr>"
| "fetch_add (Bytes_Sent v) c = c\<lparr>ct_bytes_sent := ct_bytes_sent c + v\<rparr>"
| "fetch_add (Send_Nanoseconds v) c = c\<lparr>ct_send_nanoseconds := ct_send_nanoseconds c + v\<rparr>"

definition send_adds :: "nat \<Rightarrow> 32 word \<Rightarrow> 64 word \<Rightarrow> 64 word \<Rightarrow> counter_add list" where
  "send_adds n dst bytes elapsed =
     (if unat dst < n then [Edge_Bytes (unat dst) bytes, Edge_Count (unat dst)] else []) @
     [Tasks_Sent, Bytes_Sent bytes, Send_Nanoseconds elapsed]"

definition record_send :: "32 word \<Rightarrow> 64 word \<Rightarrow> 64 word \<Rightarrow> hub \<Rightarrow> hub" where
  "record_send dst bytes elapsed =
     on_counters (\<lambda>c. fold fetch_add (send_adds (length (ct_edges_out c)) dst bytes elapsed) c)"

definition record_recv :: "64 word \<Rightarrow> 64 word \<Rightarrow> hub \<Rightarrow> hub" where
  "record_recv bytes elapsed = on_counters (\<lambda>c. c\<lparr>ct_tasks_recv := ct_tasks_recv c + 1,
     ct_bytes_recv := ct_bytes_recv c + bytes, ct_recv_nanoseconds := ct_recv_nanoseconds c + elapsed\<rparr>)"

definition record_task_local :: "hub \<Rightarrow> hub" where
  "record_task_local = on_counters (\<lambda>c. c\<lparr>ct_tasks_started := ct_tasks_started c + 1\<rparr>)"

definition record_run_start :: "64 word \<Rightarrow> hub \<Rightarrow> hub" where
  "record_run_start now = on_clock (on_run_start now)"

definition record_run_end :: "64 word \<Rightarrow> hub \<Rightarrow> hub" where
  "record_run_end now = on_clock (on_run_end now)"

definition record_worker_waiting :: "64 word \<Rightarrow> hub \<Rightarrow> hub" where
  "record_worker_waiting now = on_clock (on_worker_waiting now)"

definition record_worker_running :: "64 word \<Rightarrow> hub \<Rightarrow> hub" where
  "record_worker_running now = on_clock (on_worker_running now)"

definition record_assignment :: "32 word \<Rightarrow> 64 word \<Rightarrow> hub \<Rightarrow> hub" where
  "record_assignment r now = on_clock (on_assignment r now)"

definition record_assignment_accepted :: "32 word \<Rightarrow> 64 word \<Rightarrow> hub \<Rightarrow> hub" where
  "record_assignment_accepted r now = on_clock (on_assignment_accepted r now)"

definition record_coordinator_queue :: "32 word \<Rightarrow> bool \<Rightarrow> 64 word \<Rightarrow> hub \<Rightarrow> hub" where
  "record_coordinator_queue available queue_empty now = on_clock (on_coordinator_queue available queue_empty now)"

definition record_coordinator_full :: "64 word \<Rightarrow> hub \<Rightarrow> hub" where
  "record_coordinator_full now = on_clock (on_coordinator_full now)"

definition record_coordinator_free :: "64 word \<Rightarrow> hub \<Rightarrow> hub" where
  "record_coordinator_free now = on_clock (on_coordinator_free now)"

definition record_global_score_improved :: "64 word \<Rightarrow> hub \<Rightarrow> hub" where
  "record_global_score_improved now = on_clock (on_global_score_improved now)"

definition record_coordinator_state_msg :: "hub \<Rightarrow> hub" where
  "record_coordinator_state_msg = on_counters (\<lambda>c. c\<lparr>ct_state_msgs := ct_state_msgs c + 1\<rparr>)"

definition record_coordinator_score_proposal :: "hub \<Rightarrow> hub" where
  "record_coordinator_score_proposal = on_counters (\<lambda>c. c\<lparr>ct_score_proposals := ct_score_proposals c + 1\<rparr>)"

definition record_coordinator_score_broadcast :: "hub \<Rightarrow> hub" where
  "record_coordinator_score_broadcast = on_counters (\<lambda>c. c\<lparr>ct_score_broadcasts := ct_score_broadcasts c + 1\<rparr>)"

definition record_score_proposal_sent :: "hub \<Rightarrow> hub" where
  "record_score_proposal_sent = on_counters (\<lambda>c. c\<lparr>ct_proposals_sent := ct_proposals_sent c + 1\<rparr>)"

section \<open>Describing the run\<close>

definition annotate_run :: "string \<Rightarrow> string \<Rightarrow> hub \<Rightarrow> bool \<times> hub" where
  "annotate_run key v h =
     (if key = [] \<or> MAX_RUN_ANNOTATION_KEY_BYTES < length key \<or> MAX_RUN_ANNOTATION_VALUE_BYTES < length v then (False, h)
      else if key \<in> set (map fst (th_annotations h))
      then (True, h\<lparr>th_annotations := AList.update key v (th_annotations h)\<rparr>)
      else if MAX_RUN_ANNOTATIONS \<le> length (th_annotations h) then (False, h)
      else (True, h\<lparr>th_annotations := th_annotations h @ [(key, v)]\<rparr>))"

definition mark_run :: "string \<Rightarrow> marker_source \<Rightarrow> 64 word \<Rightarrow> hub \<Rightarrow> bool \<times> hub" where
  "mark_run label source now h =
     (if \<not> th_running h \<or> th_rank h \<noteq> 0 then (False, h)
      else if label = [] \<or> MAX_RUN_MARKER_LABEL_BYTES < length label then (False, h)
      else if MAX_RUN_MARKERS \<le> length (th_markers h) then (False, h)
      else (True, h\<lparr>th_markers := th_markers h @
              [\<lparr>rm_elapsed_ms = now - th_start_ms h, rm_label = label, rm_source = source\<rparr>]\<rparr>))"

definition describe_scheduler :: "string \<Rightarrow> rank_role list \<Rightarrow> hub \<Rightarrow> hub" where
  "describe_scheduler name roles h = h\<lparr>th_scheduler_name := name, th_scheduler_roles := roles\<rparr>"

datatype balancing_policy = QUASI_HORIZONTAL | WORK_STEALING

definition describe_load_balancer :: "balancing_policy \<Rightarrow> hub \<Rightarrow> hub" where
  "describe_load_balancer policy h = h\<lparr>th_load_balancer_name :=
     (case policy of QUASI_HORIZONTAL \<Rightarrow> ''quasi_horizontal'' | WORK_STEALING \<Rightarrow> ''work_stealing'')\<rparr>"

text \<open>The largest pool among the ranks that are no coordinators; the frame counts the scheduler's thread too.\<close>

definition pool_size :: "rank_role list \<Rightarrow> 32 word \<times> worker_frame \<Rightarrow> 32 word \<Rightarrow> 32 word" where
  "pool_size roles entry acc =
     (let (r, f) = entry; coordinator = (unat r < length roles \<and> roles ! unat r = ROLE_COORDINATOR)
      in if \<not> coordinator \<and> 0 < wf_process_threads f then max acc (wf_process_threads f - 1) else acc)"

definition describe_run :: "string \<Rightarrow> hub \<Rightarrow> run_description" where
  "describe_run gempba_version h =
     \<lparr>rd_mode = th_mode h, rd_scheduler = th_scheduler_name h, rd_load_balancer = th_load_balancer_name h,
      rd_world_size = th_world_size h, rd_roles = th_scheduler_roles h,
      rd_threads_per_process = (case th_aggregator h of None \<Rightarrow> 0
        | Some a \<Rightarrow> fold (pool_size (th_scheduler_roles h)) (ag_latest_worker a) 0),
      rd_gempba_version = gempba_version, rd_annotations = th_annotations h, rd_markers = th_markers h\<rparr>"

definition program_elapsed_seconds :: "64 word \<Rightarrow> hub \<Rightarrow> 64 word" where
  "program_elapsed_seconds now h =
     (if th_start_ms h = 0 then 0 else if th_start_ms h < now then (now - th_start_ms h) div 1000 else 0)"

section \<open>Frames\<close>

text \<open>
  What a rank samples for a frame: its clocks, the process probe, the load balancer and the scheduler,
  where there is one, and its host.
\<close>

record balancer_sample =
  bs_pool_size :: "32 word"
  bs_idle :: "64 word"
  bs_starved :: "64 word"
  bs_imbalanced :: "64 word"
  bs_running :: "32 word"
  bs_rejected_pool_full :: "64 word"
  bs_remote_rejected :: "64 word"

record frame_sample =
  fs_local_ms :: "64 word"
  fs_clock_us :: "64 word"
  fs_cpu_pct :: "32 word"
  fs_rss_bytes :: "64 word"
  fs_balancer :: "balancer_sample option"
  fs_pending :: "32 word option"
  fs_node_ms :: "64 word"
  fs_host :: host_probe

definition edges_of :: "edge_slot list \<Rightarrow> edge_counter list" where
  "edges_of es = map (\<lambda>(i, e). \<lparr>ec_dst = word_of_nat i, ec_bytes = es_bytes e, ec_count = es_count e\<rparr>)
     (filter (\<lambda>(i, e). es_count e \<noteq> 0) (enumerate 0 es))"

definition snapshot_worker_frame :: "frame_sample \<Rightarrow> hub \<Rightarrow> worker_frame" where
  "snapshot_worker_frame s h =
     (let c = th_counters h;
          f1 = zero_frame\<lparr>wf_version := TELEMETRY_SCHEMA_VERSION, wf_worker_id := th_rank h, wf_seq_no := th_seq_no h,
                 wf_snapshot_id := th_snapshot_answered h, wf_worker_local_ms := fs_local_ms s,
                 wf_tasks_started_total := ct_tasks_started c, wf_tasks_sent_total := ct_tasks_sent c,
                 wf_tasks_recv_total := ct_tasks_recv c, wf_bytes_sent_total := ct_bytes_sent c,
                 wf_bytes_recv_total := ct_bytes_recv c,
                 wf_send_microseconds_total := ct_send_nanoseconds c div 1000,
                 wf_recv_microseconds_total := ct_recv_nanoseconds c div 1000,
                 wf_coordinator_state_msgs_total := ct_state_msgs c,
                 wf_coordinator_score_proposals_total := ct_score_proposals c,
                 wf_coordinator_score_broadcasts_total := ct_score_broadcasts c,
                 wf_score_proposals_sent := ct_proposals_sent c,
                 wf_telemetry_microseconds_total := ct_telemetry_microseconds c,
                 wf_edges_out := edges_of (ct_edges_out c)\<rparr>;
          f2 = fill f1 (fs_clock_us s) (ct_clock c);
          f3 = f2\<lparr>wf_process_cpu_pct := fs_cpu_pct s, wf_process_rss_bytes := fs_rss_bytes s\<rparr>;
          f4 = (case fs_balancer s of None \<Rightarrow> f3
                | Some b \<Rightarrow> f3\<lparr>wf_process_threads := bs_pool_size b + 1, wf_idle_microseconds_per_worker := bs_idle b,
                    wf_idle_microseconds_starved := bs_starved b, wf_idle_microseconds_imbalanced := bs_imbalanced b,
                    wf_tasks_running := bs_running b, wf_spawn_rejected_pool_full := bs_rejected_pool_full b,
                    wf_spawn_remote_rejected := bs_remote_rejected b\<rparr>)
      in (case fs_pending s of None \<Rightarrow> f4 | Some n \<Rightarrow> f4\<lparr>wf_scheduler_pending_count := n\<rparr>))"

definition zero_node_frame :: node_frame where
  "zero_node_frame = \<lparr>nf_version = 0, nf_sentinel_worker_id = 0, nf_sentinel_local_ms = 0, nf_hostname = [],
     nf_socket_count = 0, nf_logical_cores = 0,
     nf_sockets = replicate MAX_SOCKETS \<lparr>ss_socket_id = 0, ss_cpu_pct = 0, ss_mem_total_bytes = 0, ss_mem_used_bytes = 0\<rparr>,
     nf_mem_total_bytes = 0, nf_mem_avail_bytes = 0, nf_cgroup_mem_used_bytes = 0, nf_cgroup_mem_limit_bytes = 0\<rparr>"

definition snapshot_node_frame :: "frame_sample \<Rightarrow> hub \<Rightarrow> node_frame res" where
  "snapshot_node_frame s h = sample_node_frame (fs_host s) (zero_node_frame\<lparr>nf_version := TELEMETRY_SCHEMA_VERSION,
     nf_sentinel_worker_id := th_rank h, nf_sentinel_local_ms := fs_node_ms s\<rparr>)"

definition latest_rank_frame :: "32 word \<Rightarrow> hub \<Rightarrow> worker_frame option" where
  "latest_rank_frame r h = (case th_aggregator h of None \<Rightarrow> None | Some a \<Rightarrow> map_of (ag_latest_worker a) r)"

definition latest_node_frame :: "32 word \<Rightarrow> hub \<Rightarrow> node_frame option" where
  "latest_node_frame r h = (case th_aggregator h of None \<Rightarrow> None | Some a \<Rightarrow> map_of (ag_latest_node a) r)"

section \<open>The tick\<close>

definition handle_control :: "control_msg \<Rightarrow> hub \<Rightarrow> hub" where
  "handle_control m h =
     (case cm_kind m of
        UNSPECIFIED \<Rightarrow> h
      | SET_INTERVAL_MS \<Rightarrow> h\<lparr>th_interval_ms := cm_value m\<rparr>
      | BE_NODE_SENTINEL \<Rightarrow> h\<lparr>th_is_sentinel := True\<rparr>
      | PAUSE \<Rightarrow> h\<lparr>th_paused := True\<rparr>
      | RESUME \<Rightarrow> h\<lparr>th_paused := False\<rparr>
      | SNAPSHOT \<Rightarrow> h\<lparr>th_snapshot_due := cm_value m\<rparr>)"

definition k_snapshot_wait_ms :: "64 word" where "k_snapshot_wait_ms = 1000"
definition k_snapshot_floor_ms :: "64 word" where "k_snapshot_floor_ms = 50"

definition snapshot_outstanding :: "64 word \<Rightarrow> hub \<Rightarrow> bool" where
  "snapshot_outstanding now h \<longleftrightarrow>
     (case th_aggregator h of None \<Rightarrow> False
      | Some a \<Rightarrow> th_snapshot_requested h \<noteq> 0 \<and> \<not> k_snapshot_wait_ms \<le> now - th_snapshot_requested_ms h \<and>
          list_ex (\<lambda>r. case map_of (ag_latest_worker a) (word_of_nat r) of None \<Rightarrow> True
                       | Some f \<Rightarrow> wf_snapshot_id f < th_snapshot_requested h) [0..<unat (th_world_size h)])"

definition take_worker_frame :: "64 word \<Rightarrow> 32 word \<times> worker_frame \<Rightarrow> aggregator \<Rightarrow> aggregator" where
  "take_worker_frame now entry a =
     a\<lparr>ag_latest_worker := AList.update (fst entry) (snd entry) (ag_latest_worker a),
       ag_last_seen_ms := AList.update (fst entry) now (ag_last_seen_ms a)\<rparr>"

definition take_node_frame :: "32 word \<times> node_frame \<Rightarrow> aggregator \<Rightarrow> aggregator" where
  "take_node_frame entry a = a\<lparr>ag_latest_node := AList.update (fst entry) (snd entry) (ag_latest_node a)\<rparr>"

text \<open>Only the aggregator drains.\<close>

definition drain_inbound_frames :: "'t transport \<Rightarrow> 64 word \<Rightarrow> aggregator \<Rightarrow> 't \<Rightarrow> bool \<times> aggregator \<times> 't" where
  "drain_inbound_frames ops now a t =
     (let (fs, ns, t1) = tr_poll ops t
      in (fs \<noteq> [] \<or> ns \<noteq> [], fold take_node_frame ns (fold (take_worker_frame now) fs a), t1))"

text \<open>The clocks read during a tick.\<close>

record tick_times =
  tt_start_us :: "64 word"
  tt_outstanding_ms :: "64 word"
  tt_drain_ms :: "64 word"
  tt_end_us :: "64 word"

definition publish_frames :: "'t transport \<Rightarrow> frame_sample \<Rightarrow> hub \<Rightarrow> 't \<Rightarrow> 't res" where
  "publish_frames ops s h t =
     (let t1 = tr_publish_worker ops (snapshot_worker_frame s h) t
      in if th_is_sentinel h then rbind (snapshot_node_frame s h) (\<lambda>n. Inr (tr_publish_node ops n t1)) else Inr t1)"

definition fan_out :: "'t transport \<Rightarrow> hub \<Rightarrow> 't \<Rightarrow> 't" where
  "fan_out ops h t =
     fold (\<lambda>m. fold (\<lambda>r. if word_of_nat r = th_rank h then id else tr_send_control ops (word_of_nat r) m)
        [0..<unat (th_world_size h)]) (th_pending_fanout h) t"

definition publish_due :: "64 word \<Rightarrow> hub \<Rightarrow> bool" where
  "publish_due now h \<longleftrightarrow> th_snapshot_due h \<noteq> 0 \<or>
     (\<not> th_paused h \<and> ucast (th_interval_ms h) \<le> now - th_last_rank_emit_ms h)"

definition begin_frame :: "hub \<Rightarrow> hub" where
  "begin_frame h = h\<lparr>th_snapshot_answered := (if th_snapshot_due h \<noteq> 0 then th_snapshot_due h else th_snapshot_answered h),
     th_snapshot_due := 0, th_seq_no := th_seq_no h + 1\<rparr>"

definition tick_if_due :: "'t transport \<Rightarrow> tick_times \<Rightarrow> frame_sample \<Rightarrow> hub \<Rightarrow> 't \<Rightarrow> (hub \<times> 't) res" where
  "tick_if_due ops tt s h t =
     (let now = tt_start_us tt div 1000;
          (cs, t1) = tr_recv_controls ops t;
          h1 = fold handle_control cs h;
          due = publish_due now h1;
          h2 = (if due then begin_frame h1 else h1\<lparr>th_snapshot_due := 0\<rparr>)
      in rbind (if due then publish_frames ops s h2 t1 else Inr t1) (\<lambda>t2.
           let h3 = (if due then h2\<lparr>th_last_rank_emit_ms := now\<rparr> else h2);
               t3 = fan_out ops h3 t2;
               h4 = h3\<lparr>th_pending_fanout := []\<rparr>;
               (received, h5, t4) =
                 (case th_aggregator h4 of None \<Rightarrow> (False, h4, t3)
                  | Some a \<Rightarrow>
                      if \<not> th_paused h4 \<or> snapshot_outstanding (tt_outstanding_ms tt) h4
                      then let (b, a', t') = drain_inbound_frames ops (tt_drain_ms tt) a t3
                           in (b, h4\<lparr>th_aggregator := Some a'\<rparr>, t')
                      else (False, h4, t3))
           in Inr (if due \<or> received
                   then on_counters (\<lambda>c. c\<lparr>ct_telemetry_microseconds :=
                          ct_telemetry_microseconds c + (tt_end_us tt - tt_start_us tt)\<rparr>) h5
                   else h5, t4)))"

section \<open>Controls and the end\<close>

definition apply_control_from_client :: "control_kind \<Rightarrow> 32 word \<Rightarrow> 64 word \<Rightarrow> hub \<Rightarrow> hub" where
  "apply_control_from_client k v now h =
     (let m = (\<lambda>x. \<lparr>cm_version = TELEMETRY_SCHEMA_VERSION, cm_kind = k, cm_value = x\<rparr>);
          push_back = (\<lambda>x g. g\<lparr>th_pending_fanout := th_pending_fanout g @ [m x]\<rparr>)
      in case k of
           SET_INTERVAL_MS \<Rightarrow> let c = max 50 (min v 600000) in push_back c (h\<lparr>th_interval_ms := c\<rparr>)
         | PAUSE \<Rightarrow> push_back 0 (h\<lparr>th_paused := True\<rparr>)
         | RESUME \<Rightarrow> push_back 0 (h\<lparr>th_paused := False\<rparr>)
         | SNAPSHOT \<Rightarrow>
             let last_id = th_snapshot_requested h
             in if last_id \<noteq> 0 \<and> now - th_snapshot_requested_ms h < k_snapshot_floor_ms then h
                else push_back (last_id + 1) (h\<lparr>th_snapshot_requested_ms := now, th_snapshot_due := last_id + 1,
                       th_snapshot_requested := last_id + 1\<rparr>)
         | UNSPECIFIED \<Rightarrow> h
         | BE_NODE_SENTINEL \<Rightarrow> h)"

definition set_interval_ms :: "32 word \<Rightarrow> hub \<Rightarrow> hub" where
  "set_interval_ms v h = h\<lparr>th_interval_ms := v\<rparr>"

definition mark_as_node_sentinel :: "hub \<Rightarrow> hub" where
  "mark_as_node_sentinel h = h\<lparr>th_is_sentinel := True\<rparr>"

text \<open>
  The wait for the final frames: each round is what the transport's loop finds then, and the clock read
  before it; without a further round, the deadline has passed.
\<close>

fun await_finals :: "('t transport \<times> 64 word) list \<Rightarrow> 64 word \<Rightarrow> 32 word \<Rightarrow> aggregator \<Rightarrow> 't \<Rightarrow> aggregator \<times> 't" where
  "await_finals [] deadline world_size a t = (a, t)"
| "await_finals ((ops, now) # rounds) deadline world_size a t =
     (if 1 < world_size \<and> tr_final_received ops t < world_size \<and> now < deadline
      then let (b, a', t') = drain_inbound_frames ops now a t in await_finals rounds deadline world_size a' t'
      else (a, t))"

definition k_final_frame_wait_ms :: "64 word" where "k_final_frame_wait_ms = 1000"

text \<open>\<open>shutdown\<close>, up to the stop of the server; the transport and the aggregator go with it.\<close>

definition shutdown_frames :: "'t transport \<Rightarrow> ('t transport \<times> 64 word) list \<Rightarrow> 64 word \<Rightarrow> frame_sample \<Rightarrow> hub \<Rightarrow> 't \<Rightarrow> (hub \<times> 't) res" where
  "shutdown_frames ops rounds now s h t =
     (if \<not> th_running h then Inr (h, t)
      else let h1 = h\<lparr>th_running := False, th_seq_no := th_seq_no h + 1\<rparr>;
               t1 = tr_publish_final ops (snapshot_worker_frame s h1) t
           in rbind (if th_is_sentinel h1 then rbind (snapshot_node_frame s h1) (\<lambda>n. Inr (tr_publish_node ops n t1)) else Inr t1)
                (\<lambda>t2. Inr (case th_aggregator h1 of None \<Rightarrow> (h1, t2)
                   | Some a \<Rightarrow>
                       let (b, a1, t3) = drain_inbound_frames ops now a t2;
                           (a2, t4) = await_finals rounds (now + k_final_frame_wait_ms) (th_world_size h1) a1 t3
                       in (h1\<lparr>th_aggregator := Some a2\<rparr>, t4))))"

section \<open>The installed hub\<close>

text \<open>The process-wide owner: a hub may only be installed while telemetry is enabled.\<close>

record hub_owner =
  ho_hub :: "hub option"
  ho_enabled :: bool

definition owner_start :: hub_owner where
  "owner_start = \<lparr>ho_hub = None, ho_enabled = True\<rparr>"

text \<open>
  A hub that is replaced or not taken is destroyed, which shuts it down; the rounds, the clock and the
  sample are those of the shutdown.
\<close>

definition install_hub :: "'t transport \<Rightarrow> ('t transport \<times> 64 word) list \<Rightarrow> 64 word \<Rightarrow> frame_sample \<Rightarrow> hub \<Rightarrow> hub_owner \<Rightarrow> 't \<Rightarrow>
    (hub_owner \<times> 't) res" where
  "install_hub ops rounds now s h g t =
     (if \<not> ho_enabled g then rbind (shutdown_frames ops rounds now s h t) (\<lambda>(h', t'). Inr (g, t'))
      else case ho_hub g of None \<Rightarrow> Inr (g\<lparr>ho_hub := Some h\<rparr>, t)
        | Some old \<Rightarrow> rbind (shutdown_frames ops rounds now s old t) (\<lambda>(h', t'). Inr (g\<lparr>ho_hub := Some h\<rparr>, t')))"

definition uninstall_hub :: "'t transport \<Rightarrow> ('t transport \<times> 64 word) list \<Rightarrow> 64 word \<Rightarrow> frame_sample \<Rightarrow> hub_owner \<Rightarrow> 't \<Rightarrow>
    (hub_owner \<times> 't) res" where
  "uninstall_hub ops rounds now s g t =
     (case ho_hub g of None \<Rightarrow> Inr (g, t)
      | Some h \<Rightarrow> rbind (shutdown_frames ops rounds now s h t) (\<lambda>(h', t'). Inr (g\<lparr>ho_hub := None\<rparr>, t')))"

definition disable_telemetry :: "'t transport \<Rightarrow> ('t transport \<times> 64 word) list \<Rightarrow> 64 word \<Rightarrow> frame_sample \<Rightarrow> hub_owner \<Rightarrow> 't \<Rightarrow>
    (hub_owner \<times> 't) res" where
  "disable_telemetry ops rounds now s g t = uninstall_hub ops rounds now s (g\<lparr>ho_enabled := False\<rparr>) t"

definition enable_telemetry :: "hub_owner \<Rightarrow> hub_owner" where
  "enable_telemetry g = g\<lparr>ho_enabled := True\<rparr>"

definition annotate_installed :: "string \<Rightarrow> string \<Rightarrow> hub_owner \<Rightarrow> bool \<times> hub_owner" where
  "annotate_installed key v g =
     (case ho_hub g of None \<Rightarrow> (False, g) | Some h \<Rightarrow> let (b, h') = annotate_run key v h in (b, g\<lparr>ho_hub := Some h'\<rparr>))"

definition mark_installed :: "string \<Rightarrow> 64 word \<Rightarrow> hub_owner \<Rightarrow> bool \<times> hub_owner" where
  "mark_installed label now g =
     (case ho_hub g of None \<Rightarrow> (False, g) | Some h \<Rightarrow> let (b, h') = mark_run label CODE now h in (b, g\<lparr>ho_hub := Some h'\<rparr>))"

text \<open>While telemetry is disabled, no hub is installed.\<close>

definition owner_ok :: "hub_owner \<Rightarrow> bool" where
  "owner_ok g \<longleftrightarrow> ho_enabled g \<or> ho_hub g = None"

lemma owner_kept:
  "owner_ok owner_start"
  "owner_ok g \<Longrightarrow> install_hub ops rounds now s h g t = Inr (g', t') \<Longrightarrow> owner_ok g'"
  "owner_ok g \<Longrightarrow> uninstall_hub ops rounds now s g t = Inr (g', t') \<Longrightarrow> owner_ok g' \<and> ho_hub g' = None"
  "owner_ok g \<Longrightarrow> disable_telemetry ops rounds now s g t = Inr (g', t') \<Longrightarrow> owner_ok g' \<and> ho_hub g' = None"
  "owner_ok (enable_telemetry g)"
  "owner_ok g \<Longrightarrow> owner_ok (snd (annotate_installed key v g))"
  "owner_ok g \<Longrightarrow> owner_ok (snd (mark_installed label now g))"
  by (auto simp: owner_ok_def owner_start_def install_hub_def uninstall_hub_def disable_telemetry_def enable_telemetry_def
      annotate_installed_def mark_installed_def split_def Let_def rbind_def split: option.splits sum.splits if_splits)

end
