(* ===== verification/Frame_Streams.thy ===== *)
theory Frame_Streams
  imports Telemetry_Hub
begin

text \<open>
  What a transport promises for the frames of one rank and one kind, and that both transports keep it: the
  aggregator is given frames the rank published, each at most once and in their order. Regular and final
  frames travel under tags of their own; \<open>mpi_run\<close> is the transport over MPI with all its operations, where
  the two kinds interleave, which is less than the code expects of it.
\<close>

section \<open>The interface\<close>

datatype 'p stream_event = Publish worker_frame | Poll 'p

fun stream_run :: "(worker_frame \<Rightarrow> 't \<Rightarrow> 't) \<Rightarrow> ('p \<Rightarrow> 't \<Rightarrow> worker_frame list \<times> 't) \<Rightarrow> 'p stream_event list \<Rightarrow> 't \<Rightarrow>
    worker_frame list \<times> 't" where
  "stream_run publish poll [] t = ([], t)"
| "stream_run publish poll (Publish f # es) t = stream_run publish poll es (publish f t)"
| "stream_run publish poll (Poll p # es) t =
     (let (fs, t1) = poll p t; (gs, t2) = stream_run publish poll es t1 in (fs @ gs, t2))"

fun published :: "'p stream_event list \<Rightarrow> worker_frame list" where
  "published [] = []"
| "published (Publish f # es) = f # published es"
| "published (Poll p # es) = published es"

text \<open>
  \<open>pending t\<close>: the frames that may still be delivered, the newest last. A transport may drop frames that a
  newer one replaces, never the newest.
\<close>

locale frame_stream =
  fixes publish :: "worker_frame \<Rightarrow> 't \<Rightarrow> 't" and poll :: "'p \<Rightarrow> 't \<Rightarrow> worker_frame list \<times> 't"
    and pending :: "'t \<Rightarrow> worker_frame list" and sendable :: "worker_frame \<Rightarrow> bool"
  assumes publish_newest: "sendable f \<Longrightarrow> pending (publish f t) \<noteq> [] \<and> last (pending (publish f t)) = f"
    and publish_order: "sendable f \<Longrightarrow> subseq (pending (publish f t)) (pending t @ [f])"
    and poll_order: "poll p t = (fs, t') \<Longrightarrow> fs @ pending t' = pending t"
begin

lemma delivered_in_order:
  "list_all sendable (published es) \<Longrightarrow> stream_run publish poll es t = (fs, t') \<Longrightarrow>
   subseq (fs @ pending t') (pending t @ published es)"
proof (induction es arbitrary: t fs)
  case (Cons e es)
  show ?case
  proof (cases e)
    case (Publish f)
    then have "subseq (fs @ pending t') (pending (publish f t) @ published es)" using Cons by simp
    moreover have "subseq (pending (publish f t) @ published es) ((pending t @ [f]) @ published es)"
      using Cons.prems(1) Publish publish_order [of f t] by (intro list_emb_append_mono) simp_all
    ultimately show ?thesis using Publish subseq_order.trans by fastforce
  next
    case (Poll p)
    obtain gs t1 where g: "poll p t = (gs, t1)" by (metis prod.exhaust)
    obtain hs where h: "stream_run publish poll es t1 = (hs, t')" "fs = gs @ hs"
      using Cons.prems(2) Poll g by (auto simp: split_def prod_eq_iff Let_def)
    have "subseq (hs @ pending t') (pending t1 @ published es)" using Cons.IH [OF _ h(1)] Cons.prems(1) Poll by simp
    then have "subseq (gs @ hs @ pending t') (gs @ pending t1 @ published es)"
      using list_emb_append_mono [OF subseq_order.refl, of "hs @ pending t'" "pending t1 @ published es" gs] by blast
    then show ?thesis using Poll h(2) poll_order [OF g] by (metis append.assoc published.simps(3))
  qed
qed simp

text \<open>A poll that takes all that is pending ends with the newest frame.\<close>

lemma newest_delivered:
  assumes "sendable f" and "poll p (publish f t) = (fs, t')" and "pending t' = []"
  shows "fs \<noteq> [] \<and> last fs = f"
  using publish_newest [OF assms(1), of t] poll_order [OF assms(2)] assms(3) by simp

end

section \<open>The local transport\<close>

definition local_pending :: "nat \<Rightarrow> local_state \<Rightarrow> worker_frame list" where
  "local_pending r t = (case lt_workers t r of None \<Rightarrow> [] | Some f \<Rightarrow> [f])"

definition local_poll_of :: "nat \<Rightarrow> unit \<Rightarrow> local_state \<Rightarrow> worker_frame list \<times> local_state" where
  "local_poll_of r u t = (let (fs, ns, t1) = local_poll t in (map snd (filter (\<lambda>(s, f). unat s = r) fs), t1))"

definition local_sendable :: "nat \<Rightarrow> worker_frame \<Rightarrow> bool" where
  "local_sendable r f \<longleftrightarrow> unat (wf_worker_id f) = r \<and> r < MAX_WORKERS"

lemma slots_of_rank:
  "k \<le> MAX_WORKERS \<Longrightarrow> map snd (filter (\<lambda>(s, f). unat s = r)
     (concat (map (\<lambda>i. case slots i of None \<Rightarrow> [] | Some f \<Rightarrow> [(word_of_nat i :: 32 word, f)]) [0..<k]))) =
   (if r < k then case slots r of None \<Rightarrow> [] | Some f \<Rightarrow> [f] else [])"
proof (induction k)
  case (Suc k)
  have "unat (word_of_nat k :: 32 word) = k" using Suc.prems by (simp add: MAX_WORKERS_def unat_of_nat)
  then show ?case using Suc by (auto simp: less_Suc_eq split: option.splits)
qed simp

lemma local_poll_step:
  assumes "r < MAX_WORKERS" and "local_poll_of r u t = (fs, t')"
  shows "fs @ local_pending r t' = local_pending r t"
proof -
  have "fs = map snd (filter (\<lambda>(s, f). unat s = r) (dirty_slots (lt_workers t)))"
    using assms(2) by (auto simp: local_poll_of_def local_poll_def)
  then have "fs = local_pending r t"
    using slots_of_rank [of MAX_WORKERS r "lt_workers t"] assms(1) by (simp add: dirty_slots_def local_pending_def)
  moreover have "local_pending r t' = []"
    using assms by (auto simp: local_poll_of_def local_poll_def local_pending_def)
  ultimately show ?thesis by simp
qed

text \<open>The slots are those of the ranks below \<open>MAX_WORKERS\<close>; \<open>small r\<close> is \<open>r\<close> when it is one.\<close>

definition small :: "nat \<Rightarrow> nat" where
  "small r = (if r < MAX_WORKERS then r else 0)"

lemma small_less: "small r < MAX_WORKERS"
  by (simp add: small_def MAX_WORKERS_def)

interpretation local_stream: frame_stream local_publish_worker "local_poll_of (small r)" "local_pending (small r)" "local_sendable (small r)"
  for r
  by unfold_locales
    (auto simp: local_sendable_def local_publish_worker_def local_pending_def split: option.splits
      dest: local_poll_step [OF small_less, unfolded local_pending_def])

section \<open>The transport over MPI\<close>

text \<open>
  The channel of one tag, for the rank \<open>r\<close>: its frames that were sent and not received, and those one loop
  of probes receives from it.
\<close>

definition frames_of :: "byte list list \<Rightarrow> worker_frame list" where
  "frames_of ms = concat (map (\<lambda>bs. case decode_worker_frame bs of None \<Rightarrow> [] | Some f \<Rightarrow> [f]) ms)"

definition received_from :: "nat \<Rightarrow> (nat \<times> byte list) list \<Rightarrow> worker_frame list" where
  "received_from r got = frames_of (map snd (filter (\<lambda>(s, m). s = r) got))"

definition regular_poll :: "nat \<Rightarrow> nat list \<Rightarrow> mpi_state \<Rightarrow> worker_frame list \<times> mpi_state" where
  "regular_poll r found w =
     (let (got, ch) = take_found found (mp_frames w) in (received_from r got, w\<lparr>mp_frames := ch\<rparr>))"

definition final_poll :: "nat \<Rightarrow> nat list \<Rightarrow> mpi_state \<Rightarrow> worker_frame list \<times> mpi_state" where
  "final_poll r found w =
     (let (got, ch) = take_found found (mp_finals w) in (received_from r got, w\<lparr>mp_finals := ch\<rparr>))"

lemma frames_of_append: "frames_of (ms @ ms') = frames_of ms @ frames_of ms'"
  by (simp add: frames_of_def)

lemma frames_of_encoded [simp]: "frames_of [] = []" "frames_of [encode_worker_frame f] = [f]"
  by (simp_all add: frames_of_def decode_encode)

lemma take_found_channel:
  "take_found found ch = (got, ch') \<Longrightarrow> map snd (filter (\<lambda>(s, m). s = r) got) @ ch' r = ch r"
proof (induction found arbitrary: ch got)
  case (Cons s ss)
  show ?case
  proof (cases "ch s")
    case Nil
    then show ?thesis using Cons by simp
  next
    case c: (Cons m ms)
    obtain rest where r: "take_found ss (ch(s := ms)) = (rest, ch')" "got = (s, m) # rest"
      using Cons.prems c by (auto simp: split_def Let_def prod_eq_iff)
    show ?thesis using Cons.IH [OF r(1)] r(2) c by (auto split: if_splits)
  qed
qed simp

lemma take_found_sources: "take_found found ch = (got, ch') \<Longrightarrow> (x, m) \<in> set got \<Longrightarrow> ch x \<noteq> []"
proof (induction found arbitrary: ch got)
  case (Cons s ss)
  show ?case
  proof (cases "ch s")
    case Nil
    then show ?thesis using Cons by auto
  next
    case c: (Cons k ks)
    obtain rest where r: "take_found ss (ch(s := ks)) = (rest, ch')" "got = (s, k) # rest"
      using Cons.prems c by (auto simp: split_def Let_def prod_eq_iff)
    show ?thesis using Cons.IH [OF r(1)] Cons.prems(2) r(2) c by (cases "x = s") auto
  qed
qed simp

lemma poll_channel:
  "take_found found ch = (got, ch') \<Longrightarrow> received_from r got @ frames_of (ch' r) = frames_of (ch r)"
  using take_found_channel [of found ch got ch' r] by (simp add: received_from_def flip: frames_of_append)

interpretation regular: frame_stream "mpi_publish_worker r" "regular_poll r" "\<lambda>w. frames_of (mp_frames w r)" "\<lambda>f. True" for r
  by unfold_locales
    (auto simp: mpi_publish_worker_def frames_of_append regular_poll_def poll_channel split: prod.splits)

interpretation final: frame_stream "mpi_publish_final r" "final_poll r" "\<lambda>w. frames_of (mp_finals w r)" "\<lambda>f. True" for r
  by unfold_locales
    (auto simp: mpi_publish_final_def frames_of_append final_poll_def poll_channel split: prod.splits)

section \<open>All operations of the transport over MPI\<close>

datatype mpi_event =
    E_Worker nat worker_frame | E_Final nat worker_frame | E_Node nat node_frame | E_Poll nat probe_order
  | E_Control nat "32 word" control_msg | E_Recv nat "nat list"

fun mpi_do :: "mpi_event \<Rightarrow> mpi_state \<Rightarrow> (32 word \<times> worker_frame) list \<times> mpi_state" where
  "mpi_do (E_Worker r f) w = ([], mpi_publish_worker r f w)"
| "mpi_do (E_Final r f) w = ([], mpi_publish_final r f w)"
| "mpi_do (E_Node r f) w = ([], mpi_publish_node r f w)"
| "mpi_do (E_Poll r po) w = (let (fs, ns, w1) = mpi_poll r po w in (fs, w1))"
| "mpi_do (E_Control r dst m) w = ([], mpi_send_control r dst m w)"
| "mpi_do (E_Recv r found) w = ([], snd (mpi_recv_controls r found w))"

text \<open>The frames given to the aggregator, with the rank each comes from.\<close>

fun mpi_run :: "mpi_event list \<Rightarrow> mpi_state \<Rightarrow> (32 word \<times> worker_frame) list \<times> mpi_state" where
  "mpi_run [] w = ([], w)"
| "mpi_run (e # es) w = (let (fs, w1) = mpi_do e w; (gs, w2) = mpi_run es w1 in (fs @ gs, w2))"

fun regulars :: "nat \<Rightarrow> mpi_event list \<Rightarrow> worker_frame list" where
  "regulars s [] = []"
| "regulars s (E_Worker r f # es) = (if r = s then f # regulars s es else regulars s es)"
| "regulars s (e # es) = regulars s es"

fun finals :: "nat \<Rightarrow> mpi_event list \<Rightarrow> worker_frame list" where
  "finals s [] = []"
| "finals s (E_Final r f # es) = (if r = s then f # finals s es else finals s es)"
| "finals s (e # es) = finals s es"

fun sender_ok :: "mpi_event \<Rightarrow> bool" where
  "sender_ok (E_Worker r f) \<longleftrightarrow> r < 2 ^ 31"
| "sender_ok (E_Final r f) \<longleftrightarrow> r < 2 ^ 31"
| "sender_ok e \<longleftrightarrow> True"

definition frames_from :: "nat \<Rightarrow> (32 word \<times> worker_frame) list \<Rightarrow> worker_frame list" where
  "frames_from s fs = map snd (filter (\<lambda>(x, f). unat x = s) fs)"

definition ranks_ok :: "mpi_state \<Rightarrow> bool" where
  "ranks_ok w \<longleftrightarrow> (\<forall>s. mp_frames w s \<noteq> [] \<or> mp_finals w s \<noteq> [] \<longrightarrow> s < 2 ^ 31)"

lemma decoded_from_rank:
  "\<forall>g \<in> set got. fst g < 2 ^ 31 \<Longrightarrow> frames_from r (decoded got) = received_from r got"
proof (induction got)
  case Nil
  show ?case by (simp add: decoded_def frames_from_def received_from_def)
next
  case (Cons g got)
  obtain s bs where g: "g = (s, bs)" by (metis prod.exhaust)
  have "unat (word_of_nat s :: 32 word) = s" using Cons.prems g by (simp add: unat_of_nat)
  moreover have "decoded (g # got) = (case decode_worker_frame bs of None \<Rightarrow> [] | Some f \<Rightarrow> [(word_of_nat s, f)]) @ decoded got"
    by (simp add: decoded_def g)
  ultimately show ?case using Cons g
    by (cases "s = r") (auto simp: frames_from_def received_from_def frames_of_def split: option.split)
qed

lemma frames_from_append: "frames_from s (fs @ gs) = frames_from s fs @ frames_from s gs"
  by (simp add: frames_from_def)

text \<open>A poll hands over what the two streams do, the regular frames first.\<close>

lemma mpi_poll_streams:
  assumes "mpi_poll r po w = (fs, ns, w')" and ok: "ranks_ok w"
  shows "\<exists>a b. frames_from s fs = a @ b \<and> a @ frames_of (mp_frames w' s) = frames_of (mp_frames w s) \<and>
    b @ frames_of (mp_finals w' s) = frames_of (mp_finals w s) \<and> ranks_ok w'"
proof (cases "r = 0")
  case False
  then show ?thesis using assms by (intro exI [of _ "[]"]) (simp add: mpi_poll_def frames_from_def)
next
  case True
  obtain got ch where g: "take_found (po_frames po) (mp_frames w) = (got, ch)" by (metis prod.exhaust)
  obtain got' ch' where g': "take_found (po_finals po) (mp_finals w) = (got', ch')" by (metis prod.exhaust)
  have w: "fs = decoded got @ decoded got'" "mp_frames w' = ch" "mp_finals w' = ch'"
    using assms(1) True g g'
    by (auto simp: mpi_poll_def drain_worker_frames_def drain_final_frames_def drain_node_frames_def Let_def
        split: prod.splits)
  have "\<forall>g \<in> set got. fst g < 2 ^ 31" "\<forall>g \<in> set got'. fst g < 2 ^ 31"
    using take_found_sources [OF g] take_found_sources [OF g'] ok by (auto simp: ranks_ok_def)
  then have f: "frames_from s fs = received_from s got @ received_from s got'"
    by (simp add: w(1) frames_from_append decoded_from_rank)
  have "ranks_ok w'"
    using take_found_channel [OF g] take_found_channel [OF g'] ok by (auto simp: ranks_ok_def w) (metis append_is_Nil_conv)+
  then show ?thesis using f poll_channel [OF g, of s] poll_channel [OF g', of s] by (auto simp: w)
qed

lemma append_in_shuffles:
  "x \<in> shuffles rs ls \<Longrightarrow> a @ x \<in> shuffles (a @ rs) ls" "x \<in> shuffles rs ls \<Longrightarrow> b @ x \<in> shuffles rs (b @ ls)"
  by (induction a; simp add: Cons_in_shuffles_leftI) (induction b; simp add: Cons_in_shuffles_rightI)

lemma mpi_run_streams:
  "mpi_run es w = (fs, w') \<Longrightarrow> list_all sender_ok es \<Longrightarrow> ranks_ok w \<Longrightarrow>
   \<exists>rs ls. frames_from s fs \<in> shuffles rs ls \<and>
     rs @ frames_of (mp_frames w' s) = frames_of (mp_frames w s) @ regulars s es \<and>
     ls @ frames_of (mp_finals w' s) = frames_of (mp_finals w s) @ finals s es"
proof (induction es arbitrary: w fs)
  case Nil
  then show ?case by (intro exI [of _ "[]"]) (simp add: frames_from_def)
next
  case (Cons e es)
  obtain as w1 where d: "mpi_do e w = (as, w1)" by (metis prod.exhaust)
  obtain gs where g: "mpi_run es w1 = (gs, w')" "fs = as @ gs"
    using Cons.prems(1) d by (auto simp: split_def Let_def prod_eq_iff)
  have e: "sender_ok e" "list_all sender_ok es" using Cons.prems(2) by simp_all
  have "\<exists>a b. frames_from s as = a @ b \<and>
      a @ frames_of (mp_frames w1 s) = frames_of (mp_frames w s) @ regulars s [e] \<and>
      b @ frames_of (mp_finals w1 s) = frames_of (mp_finals w s) @ finals s [e] \<and> ranks_ok w1"
  proof (cases e)
    case (E_Poll r po)
    then obtain ns where "mpi_poll r po w = (as, ns, w1)" using d by (auto simp: split_def Let_def prod_eq_iff)
    from mpi_poll_streams [OF this Cons.prems(3), of s] show ?thesis using E_Poll by simp
  qed (use d e(1) Cons.prems(3) in \<open>auto simp: frames_from_def mpi_publish_worker_def mpi_publish_final_def
      mpi_publish_node_def mpi_send_control_def mpi_recv_controls_def ranks_ok_def frames_of_append
      split: prod.splits if_splits\<close>)
  then obtain a b where a: "frames_from s as = a @ b" "ranks_ok w1"
    "a @ frames_of (mp_frames w1 s) = frames_of (mp_frames w s) @ regulars s [e]"
    "b @ frames_of (mp_finals w1 s) = frames_of (mp_finals w s) @ finals s [e]" by blast
  from Cons.IH [OF g(1) e(2) a(2)] obtain rs ls where r: "frames_from s gs \<in> shuffles rs ls"
    "rs @ frames_of (mp_frames w' s) = frames_of (mp_frames w1 s) @ regulars s es"
    "ls @ frames_of (mp_finals w' s) = frames_of (mp_finals w1 s) @ finals s es" by blast
  have front: "regulars s (e # es) = regulars s [e] @ regulars s es" "finals s (e # es) = finals s [e] @ finals s es"
    by (cases e; simp)+
  have "frames_from s fs \<in> shuffles (a @ rs) (b @ ls)"
    unfolding g(2) frames_from_append a(1) append.assoc by (intro append_in_shuffles r(1))
  moreover have "(a @ rs) @ frames_of (mp_frames w' s) = frames_of (mp_frames w s) @ regulars s (e # es)"
    using r(2) a(3) unfolding front by (metis append.assoc)
  moreover have "(b @ ls) @ frames_of (mp_finals w' s) = frames_of (mp_finals w s) @ finals s (e # es)"
    using r(3) a(4) unfolding front by (metis append.assoc)
  ultimately show ?case by blast
qed

section \<open>Properties\<close>

lemma subseq_front: "subseq (xs @ ys) zs \<Longrightarrow> subseq xs zs"
  using subseq_order.trans [of xs "xs @ ys" zs] by (simp add: prefix_imp_subseq)

lemma local_new: "local_pending r new_local = []"
  by (simp add: local_pending_def new_local_def)

text \<open>C24: The frames of one kind reach the aggregator in the order their rank published them. Over MPI,
  whatever the ranks publish, send and receive, in whatever order, and whatever the probes of each poll
  find: of the frames of one rank the aggregator has at any time been given the first of its regular
  frames and the first of its final frames, each kind in the order of publication, no frame skipped and
  none twice, as they were before their encoding; between the two kinds there is no order (C37). Within a
  process, where a newer frame replaces one that was not taken yet and final frames are ordinary ones, it
  is given some of the frames, in order and each at most once.\<close>

theorem frames_in_order:
  assumes "list_all sender_ok arrivals" and "r < MAX_WORKERS" and "list_all (local_sendable r) (published events)"
  shows "(\<exists>rs ls. prefix rs (regulars s arrivals) \<and> prefix ls (finals s arrivals) \<and>
      frames_from s (fst (mpi_run arrivals (new_mpi n))) \<in> shuffles rs ls) \<and>
    subseq (fst (stream_run local_publish_worker (local_poll_of r) events new_local)) (published events)"
proof (intro conjI)
  obtain fs w where w: "mpi_run arrivals (new_mpi n) = (fs, w)" by (metis prod.exhaust)
  have "ranks_ok (new_mpi n)" by (simp add: ranks_ok_def new_mpi_def)
  moreover have "frames_of (mp_frames (new_mpi n) s) = []" "frames_of (mp_finals (new_mpi n) s) = []"
    by (simp_all add: new_mpi_def)
  ultimately obtain rs ls where "frames_from s fs \<in> shuffles rs ls"
    "rs @ frames_of (mp_frames w s) = regulars s arrivals" "ls @ frames_of (mp_finals w s) = finals s arrivals"
    using mpi_run_streams [OF w assms(1), of s] by auto
  then show "\<exists>rs ls. prefix rs (regulars s arrivals) \<and>
      prefix ls (finals s arrivals) \<and> frames_from s (fst (mpi_run arrivals (new_mpi n))) \<in> shuffles rs ls"
    unfolding w fst_conv by (metis prefixI)
next
  obtain fs t where t: "stream_run local_publish_worker (local_poll_of r) events new_local = (fs, t)" by (metis prod.exhaust)
  have r: "small r = r" using assms(2) by (simp add: small_def)
  have "subseq (fs @ local_pending r t) (local_pending r new_local @ published events)"
    using local_stream.delivered_in_order [of r events new_local fs t] assms(3) t by (simp add: r)
  then show "subseq (fst (stream_run local_publish_worker (local_poll_of r) events new_local)) (published events)"
    using t subseq_front [of fs "local_pending r t"] local_new by simp
qed

definition sample_arrivals :: "mpi_event list" where
  "sample_arrivals = [E_Worker 1 zero_frame, E_Final 1 zero_frame,
     E_Poll 0 \<lparr>po_frames = [1], po_finals = [], po_nodes = [], po_controls = []\<rparr>]"

lemma frames_in_order_witness:
  "(\<exists>rs ls. prefix rs [zero_frame] \<and> prefix ls [zero_frame] \<and>
     frames_from 1 (fst (mpi_run sample_arrivals (new_mpi 2))) \<in> shuffles rs ls) \<and>
   subseq (fst (stream_run local_publish_worker (local_poll_of 0) [Publish zero_frame, Poll ()] new_local)) [zero_frame]"
  using frames_in_order [of sample_arrivals 0 "[Publish zero_frame, Poll ()]" 1 2]
  by (simp add: sample_arrivals_def MAX_WORKERS_def local_sendable_def zero_frame_def)

text \<open>C37: Final frames have no place in this order: when a poll's probes for regular frames find nothing, both a
  regular frame and the final one arrive, and its probes for final frames find the latter, the next poll
  delivers the older frame last, and the aggregator's latest frame of the rank goes back.\<close>

theorem final_frame_overtaken:
  "let w = mpi_publish_final 1 new (mpi_publish_worker 1 old (new_mpi 3));
       (b, a1, w1) = drain_inbound_frames (mpi_ops 0 \<lparr>po_frames = [], po_finals = [1], po_nodes = [], po_controls = []\<rparr>) t1 a w;
       (b', a2, w2) = drain_inbound_frames (mpi_ops 0 \<lparr>po_frames = [1], po_finals = [], po_nodes = [], po_controls = []\<rparr>) t2 a1 w1
   in map_of (ag_latest_worker a1) 1 = Some new \<and> map_of (ag_latest_worker a2) 1 = Some old"
  by (simp add: drain_inbound_frames_def mpi_ops_def mpi_poll_def drain_worker_frames_def drain_final_frames_def
      drain_node_frames_def mpi_publish_final_def mpi_publish_worker_def new_mpi_def decoded_def decode_encode
      take_worker_frame_def update_conv')

end
