(* ===== verification/Hub_Properties.thy ===== *)
theory Hub_Properties
  imports Telemetry_Hub
begin

text \<open>
  What the hub of one process keeps: its traffic counters add up, and the description of the run stays
  within its limits.
\<close>

section \<open>Traffic\<close>

datatype record_op =
    Send "32 word" "64 word" "64 word" | Recv "64 word" "64 word" | Task_Local
  | State_Msg | Score_Proposal | Score_Broadcast | Proposal_Sent
  | Run_Start "64 word" | Run_End "64 word" | Clock "64 word \<times> sched_event"

fun apply_record :: "record_op \<Rightarrow> hub \<Rightarrow> hub" where
  "apply_record (Send dst bytes elapsed) = record_send dst bytes elapsed"
| "apply_record (Recv bytes elapsed) = record_recv bytes elapsed"
| "apply_record Task_Local = record_task_local"
| "apply_record State_Msg = record_coordinator_state_msg"
| "apply_record Score_Proposal = record_coordinator_score_proposal"
| "apply_record Score_Broadcast = record_coordinator_score_broadcast"
| "apply_record Proposal_Sent = record_score_proposal_sent"
| "apply_record (Run_Start now) = record_run_start now"
| "apply_record (Run_End now) = record_run_end now"
| "apply_record (Clock (now, Worker_Waiting)) = record_worker_waiting now"
| "apply_record (Clock (now, Worker_Running)) = record_worker_running now"
| "apply_record (Clock (now, Assignment r)) = record_assignment r now"
| "apply_record (Clock (now, Accepted r)) = record_assignment_accepted r now"
| "apply_record (Clock (now, Coordinator_Queue n b)) = record_coordinator_queue n b now"
| "apply_record (Clock (now, Coordinator_Full)) = record_coordinator_full now"
| "apply_record (Clock (now, Coordinator_Free)) = record_coordinator_free now"
| "apply_record (Clock (now, Score_Improved)) = record_global_score_improved now"

lemmas record_defs = record_recv_def record_task_local_def record_coordinator_state_msg_def
  record_coordinator_score_proposal_def record_coordinator_score_broadcast_def record_score_proposal_sent_def
  record_run_start_def record_run_end_def record_worker_waiting_def record_worker_running_def record_assignment_def
  record_assignment_accepted_def record_coordinator_queue_def record_coordinator_full_def record_coordinator_free_def
  record_global_score_improved_def on_clock_def on_counters_def

text \<open>What the frames show of the traffic: the edges and the two totals.\<close>

definition traffic :: "hub \<Rightarrow> edge_slot list \<times> 64 word \<times> 64 word" where
  "traffic h = (ct_edges_out (th_counters h), ct_bytes_sent (th_counters h), ct_tasks_sent (th_counters h))"

definition is_send :: "record_op \<Rightarrow> bool" where
  "is_send p = (case p of Send dst bytes elapsed \<Rightarrow> True | _ \<Rightarrow> False)"

lemma traffic_other: "\<not> is_send p \<Longrightarrow> traffic (apply_record p h) = traffic h"
  by (cases p rule: apply_record.cases) (simp_all add: traffic_def record_defs is_send_def)

section \<open>What an addition changes\<close>

text \<open>
  Quantities of the counters that an addition \<open>a\<close> raises by \<open>g a\<close>: the totals, the count of an edge, and
  the bytes and the counts of all edges \<open>K\<close> keeps.
\<close>

fun add_ok :: "nat \<Rightarrow> counter_add \<Rightarrow> bool" where
  "add_ok n (Edge_Bytes i v) \<longleftrightarrow> i < n"
| "add_ok n (Edge_Count i) \<longleftrightarrow> i < n"
| "add_ok n a \<longleftrightarrow> True"

definition raised_by :: "nat \<Rightarrow> (counters \<Rightarrow> 64 word) \<Rightarrow> (counter_add \<Rightarrow> 64 word) \<Rightarrow> bool" where
  "raised_by n q g \<longleftrightarrow>
     (\<forall>a (c :: counters). add_ok n a \<longrightarrow> length (ct_edges_out c) = n \<longrightarrow> q (fetch_add a c) = q c + g a)"

lemma fetch_add_length: "length (ct_edges_out (fetch_add a c)) = length (ct_edges_out c)"
  by (cases a) simp_all

lemma fold_raises:
  "raised_by n q g \<Longrightarrow> list_all (add_ok n) as \<Longrightarrow> length (ct_edges_out c) = n \<Longrightarrow>
   q (fold fetch_add as c) = q c + sum_list (map g as) \<and> length (ct_edges_out (fold fetch_add as c)) = n"
  by (induction as arbitrary: c) (auto simp: raised_by_def fetch_add_length algebra_simps)

definition slot_sum :: "(edge_slot \<Rightarrow> 64 word) \<Rightarrow> (nat \<Rightarrow> bool) \<Rightarrow> edge_slot list \<Rightarrow> 64 word" where
  "slot_sum f K es = (\<Sum>j < length es. if K j then f (es ! j) else 0)"

definition edge_sum :: "(edge_slot \<Rightarrow> 64 word) \<Rightarrow> (nat \<Rightarrow> bool) \<Rightarrow> counters \<Rightarrow> 64 word" where
  "edge_sum f K c = slot_sum f K (ct_edges_out c)"

lemma edge_sum_update:
  assumes "i < length es" and "f e = f (es ! i) + d"
  shows "slot_sum f K (es[i := e]) = slot_sum f K es + (if K i then d else 0)"
proof -
  have "(\<Sum>j < length es. if K j then f (es[i := e] ! j) else 0) =
      (\<Sum>j < length es. (if K j then f (es ! j) else 0) + (if j = i then if K i then d else 0 else 0))"
    by (rule sum.cong) (use assms in \<open>auto simp: nth_list_update\<close>)
  also have "\<dots> = (\<Sum>j < length es. if K j then f (es ! j) else 0) + (if K i then d else 0)"
    using assms(1) by (simp add: sum.distrib)
  finally show ?thesis by (simp add: slot_sum_def)
qed

fun bytes_raise :: "(nat \<Rightarrow> bool) \<Rightarrow> counter_add \<Rightarrow> 64 word" where
  "bytes_raise K (Edge_Bytes i v) = (if K i then v else 0)"
| "bytes_raise K a = 0"

fun count_raise :: "(nat \<Rightarrow> bool) \<Rightarrow> counter_add \<Rightarrow> 64 word" where
  "count_raise K (Edge_Count i) = (if K i then 1 else 0)"
| "count_raise K a = 0"

fun total_raise :: "counter_add \<Rightarrow> 64 word" where
  "total_raise (Bytes_Sent v) = v"
| "total_raise a = 0"

fun tasks_raise :: "counter_add \<Rightarrow> 64 word" where
  "tasks_raise Tasks_Sent = 1"
| "tasks_raise a = 0"

lemma raises:
  "raised_by n (edge_sum es_bytes K) (bytes_raise K)" "raised_by n (edge_sum es_count K) (count_raise K)"
  "raised_by n ct_bytes_sent total_raise" "raised_by n ct_tasks_sent tasks_raise"
proof -
  show "raised_by n (edge_sum es_bytes K) (bytes_raise K)"
    unfolding raised_by_def
  proof (intro allI impI)
    fix a and c :: counters
    assume "add_ok n a" "length (ct_edges_out c) = n"
    then show "edge_sum es_bytes K (fetch_add a c) = edge_sum es_bytes K c + bytes_raise K a"
      using edge_sum_update [of _ "ct_edges_out c" es_bytes _ _ K] edge_sum_update [of _ "ct_edges_out c" es_bytes _ 0 K]
      by (cases a) (simp_all add: edge_sum_def)
  qed
  show "raised_by n (edge_sum es_count K) (count_raise K)"
    unfolding raised_by_def
  proof (intro allI impI)
    fix a and c :: counters
    assume "add_ok n a" "length (ct_edges_out c) = n"
    then show "edge_sum es_count K (fetch_add a c) = edge_sum es_count K c + count_raise K a"
      using edge_sum_update [of _ "ct_edges_out c" es_count _ _ K] edge_sum_update [of _ "ct_edges_out c" es_count _ 0 K]
      by (cases a) (simp_all add: edge_sum_def)
  qed
  show "raised_by n ct_bytes_sent total_raise" "raised_by n ct_tasks_sent tasks_raise"
    unfolding raised_by_def by (intro allI impI; rename_tac a c; case_tac a; simp)+
qed

section \<open>Calls that overlap a snapshot\<close>

text \<open>
  A call of \<open>record_send\<close> and which of its additions the loads of a snapshot see: a counter is loaded
  once, so any choice is possible.
\<close>

type_synonym send_call = "32 word \<times> 64 word \<times> 64 word"

fun call_adds :: "nat \<Rightarrow> send_call \<Rightarrow> counter_add list" where
  "call_adds n (dst, bytes, elapsed) = send_adds n dst bytes elapsed"

definition seen_adds :: "nat \<Rightarrow> (send_call \<times> (counter_add \<Rightarrow> bool)) list \<Rightarrow> counter_add list" where
  "seen_adds n calls = concat (map (\<lambda>(call, visible). filter visible (call_adds n call)) calls)"

definition snapshot_during ::
    "frame_sample \<Rightarrow> (send_call \<times> (counter_add \<Rightarrow> bool)) list \<Rightarrow> hub \<Rightarrow> worker_frame" where
  "snapshot_during s calls h =
     snapshot_worker_frame s (on_counters (\<lambda>c. fold fetch_add (seen_adds (length (ct_edges_out c)) calls) c) h)"

fun call_dst :: "send_call \<Rightarrow> nat" where
  "call_dst (dst, bytes, elapsed) = unat dst"

fun call_bytes :: "send_call \<Rightarrow> 64 word" where
  "call_bytes (dst, bytes, elapsed) = bytes"

definition bytes_of_calls :: "send_call list \<Rightarrow> 64 word" where
  "bytes_of_calls calls = sum_list (map call_bytes calls)"

lemma seen_adds_ok:
  "list_all (\<lambda>(call, visible). call_dst call < n) calls \<Longrightarrow> list_all (add_ok n) (seen_adds n calls)"
  by (induction calls) (auto simp: seen_adds_def send_adds_def)

lemma seen_adds_sum:
  assumes "list_all (\<lambda>(call, visible). call_dst call < n) calls"
    and "\<And>call visible. call_dst call < n \<Longrightarrow>
      sum_list (map g (filter visible (call_adds n call))) = (if P (call, visible) then h (call, visible) else 0)"
  shows "sum_list (map g (seen_adds n calls)) = sum_list (map h (filter P calls))"
  using assms(1)
proof (induction calls)
  case (Cons x calls)
  obtain call visible where x: "x = (call, visible)" by (metis prod.exhaust)
  have "seen_adds n (x # calls) = filter visible (call_adds n call) @ seen_adds n calls"
    by (simp add: seen_adds_def x)
  then show ?case using Cons assms(2) [of call visible] by (simp add: x)
qed (simp add: seen_adds_def)

definition sum_over :: "((send_call \<times> (counter_add \<Rightarrow> bool)) \<Rightarrow> bool) \<Rightarrow> (send_call \<times> (counter_add \<Rightarrow> bool)) list \<Rightarrow> send_call list" where
  "sum_over P calls = map fst (filter P calls)"

lemma raise_sums:
  assumes ok: "list_all (\<lambda>(call, visible). call_dst call < n) calls"
  shows "sum_list (map (bytes_raise K) (seen_adds n calls)) =
      bytes_of_calls (sum_over (\<lambda>(x, v). K (call_dst x) \<and> v (Edge_Bytes (call_dst x) (call_bytes x))) calls)"
    "sum_list (map (count_raise K) (seen_adds n calls)) =
      of_nat (length (sum_over (\<lambda>(x, v). K (call_dst x) \<and> v (Edge_Count (call_dst x))) calls))"
    "sum_list (map total_raise (seen_adds n calls)) =
      bytes_of_calls (sum_over (\<lambda>(x, v). v (Bytes_Sent (call_bytes x))) calls)"
    "sum_list (map tasks_raise (seen_adds n calls)) = of_nat (length (sum_over (\<lambda>(x, v). v Tasks_Sent) calls))"
proof -
  have ones: "sum_list (map (\<lambda>x. 1 :: 64 word) xs) = of_nat (length xs)" for xs :: "'b list"
    by (induction xs) simp_all
  show "sum_list (map (bytes_raise K) (seen_adds n calls)) =
      bytes_of_calls (sum_over (\<lambda>(x, v). K (call_dst x) \<and> v (Edge_Bytes (call_dst x) (call_bytes x))) calls)"
    by (subst seen_adds_sum [OF ok, where h = "\<lambda>x. call_bytes (fst x)"])
      (auto simp: bytes_of_calls_def sum_over_def send_adds_def comp_def)
  show "sum_list (map (count_raise K) (seen_adds n calls)) =
      of_nat (length (sum_over (\<lambda>(x, v). K (call_dst x) \<and> v (Edge_Count (call_dst x))) calls))"
    by (subst seen_adds_sum [OF ok, where h = "\<lambda>x. 1"]) (auto simp: ones sum_over_def send_adds_def)
  show "sum_list (map total_raise (seen_adds n calls)) =
      bytes_of_calls (sum_over (\<lambda>(x, v). v (Bytes_Sent (call_bytes x))) calls)"
    by (subst seen_adds_sum [OF ok, where h = "\<lambda>x. call_bytes (fst x)"])
      (auto simp: bytes_of_calls_def sum_over_def send_adds_def comp_def)
  show "sum_list (map tasks_raise (seen_adds n calls)) = of_nat (length (sum_over (\<lambda>(x, v). v Tasks_Sent) calls))"
    by (subst seen_adds_sum [OF ok, where h = "\<lambda>x. 1"]) (auto simp: ones sum_over_def send_adds_def)
qed

section \<open>The calls that are over\<close>

definition sends_of :: "record_op list \<Rightarrow> send_call list" where
  "sends_of ops = concat (map (\<lambda>p. case p of Send dst bytes elapsed \<Rightarrow> [(dst, bytes, elapsed)] | _ \<Rightarrow> []) ops)"

definition whole :: "send_call list \<Rightarrow> (send_call \<times> (counter_add \<Rightarrow> bool)) list" where
  "whole calls = map (\<lambda>x. (x, \<lambda>a. True)) calls"

text \<open>A quantity of the edges and the two totals.\<close>

definition of_traffic :: "(counters \<Rightarrow> 'a) \<Rightarrow> bool" where
  "of_traffic q \<longleftrightarrow> (\<forall>h h'. traffic h = traffic h' \<longrightarrow> q (th_counters h) = q (th_counters h'))"

lemma of_traffics: "of_traffic (edge_sum f K)" "of_traffic ct_bytes_sent" "of_traffic ct_tasks_sent" "of_traffic ct_edges_out"
  by (simp_all add: of_traffic_def traffic_def edge_sum_def)

lemma recorded:
  assumes q: "raised_by n q g" "of_traffic q"
  shows "length (ct_edges_out (th_counters h)) = n \<Longrightarrow> list_all (\<lambda>x. call_dst x < n) (sends_of ops) \<Longrightarrow>
    q (th_counters (fold apply_record ops h)) = q (th_counters h) + sum_list (map g (seen_adds n (whole (sends_of ops)))) \<and>
    length (ct_edges_out (th_counters (fold apply_record ops h))) = n"
proof (induction ops arbitrary: h)
  case Nil
  then show ?case by (simp add: sends_of_def whole_def seen_adds_def)
next
  case (Cons p ops)
  show ?case
  proof (cases "is_send p")
    case True
    then obtain dst bytes elapsed where p: "p = Send dst bytes elapsed" by (auto simp: is_send_def split: record_op.splits)
    let ?as = "send_adds n dst bytes elapsed"
    have s: "sends_of (p # ops) = (dst, bytes, elapsed) # sends_of ops" by (simp add: sends_of_def p)
    have ok: "list_all (add_ok n) ?as" using Cons.prems(2) by (simp add: s send_adds_def)
    have h: "th_counters (apply_record p h) = fold fetch_add ?as (th_counters h)"
      using Cons.prems(1) by (simp add: p record_send_def on_counters_def)
    note R = fold_raises [OF q(1) ok Cons.prems(1)]
    have "seen_adds n (whole (sends_of (p # ops))) = ?as @ seen_adds n (whole (sends_of ops))"
      by (simp add: s whole_def seen_adds_def)
    then show ?thesis using Cons.IH [of "apply_record p h"] Cons.prems(2) R by (simp add: h s add.assoc)
  next
    case False
    then have s: "sends_of (p # ops) = sends_of ops" by (simp add: sends_of_def is_send_def split: record_op.splits)
    have "q (th_counters (apply_record p h)) = q (th_counters h)"
      "ct_edges_out (th_counters (apply_record p h)) = ct_edges_out (th_counters h)"
      using q(2) of_traffics(4) traffic_other [OF False, of h] unfolding of_traffic_def by blast+
    then show ?thesis using Cons.IH [of "apply_record p h"] Cons.prems s by simp
  qed
qed

text \<open>The counters a snapshot sees, while \<open>during\<close> run, of a rank that has just started and recorded \<open>ops\<close>.\<close>

lemma seen_quantity:
  assumes q: "raised_by n q g" "of_traffic q" and n: "length (ct_edges_out (th_counters h)) = n"
    and d: "list_all (\<lambda>x. call_dst x < n) (sends_of ops)" "list_all (\<lambda>(call, visible). call_dst call < n) during"
    and c: "c = fold fetch_add (seen_adds n during) (th_counters (fold apply_record ops h))"
  shows "q c = q (th_counters h) + sum_list (map g (seen_adds n (whole (sends_of ops) @ during))) \<and>
    length (ct_edges_out c) = n"
proof -
  note A = recorded [OF q n d(1)]
  have "seen_adds n (whole (sends_of ops) @ during) = seen_adds n (whole (sends_of ops)) @ seen_adds n during"
    by (simp add: seen_adds_def)
  then show ?thesis
    using A fold_raises [OF q(1) seen_adds_ok [OF d(2)] A [THEN conjunct2]] by (simp add: c add.assoc)
qed

lemma edges_of_slots:
  "sum_list (map ec_bytes (edges_of es)) = slot_sum es_bytes (\<lambda>j. es_count (es ! j) \<noteq> 0) es \<and>
   sum_list (map ec_count (edges_of es)) = slot_sum es_count (\<lambda>j. True) es"
proof -
  have "sum_list (map ec_bytes (map (\<lambda>(i, e). \<lparr>ec_dst = word_of_nat i, ec_bytes = es_bytes e, ec_count = es_count e\<rparr>)
        (filter (\<lambda>(i, e). es_count e \<noteq> 0) (enumerate k es)))) = sum_list (map (\<lambda>e. if es_count e \<noteq> 0 then es_bytes e else 0) es) \<and>
      sum_list (map ec_count (map (\<lambda>(i, e). \<lparr>ec_dst = word_of_nat i, ec_bytes = es_bytes e, ec_count = es_count e\<rparr>)
        (filter (\<lambda>(i, e). es_count e \<noteq> 0) (enumerate k es)))) = sum_list (map es_count es)" for k
    by (induction es arbitrary: k) auto
  then show ?thesis by (simp add: edges_of_def slot_sum_def sum_list_sum_nth atLeast0LessThan)
qed

text \<open>The fields of a frame that the samples do not touch.\<close>

lemma frame_fields:
  "wf_edges_out (snapshot_worker_frame s h) = edges_of (ct_edges_out (th_counters h))"
  "wf_bytes_sent_total (snapshot_worker_frame s h) = ct_bytes_sent (th_counters h)"
  "wf_tasks_sent_total (snapshot_worker_frame s h) = ct_tasks_sent (th_counters h)"
  "wf_worker_id (snapshot_worker_frame s h) = th_rank h"
  "wf_seq_no (snapshot_worker_frame s h) = th_seq_no h"
  "wf_snapshot_id (snapshot_worker_frame s h) = th_snapshot_answered h"
  by (simp_all add: snapshot_worker_frame_def fill_def Let_def zero_frame_def split: option.split)

lemma slot_sum_fresh: "f e = 0 \<Longrightarrow> slot_sum f K (replicate n e) = 0"
  by (simp add: slot_sum_def sum.neutral)

lemma sum_over_length: "length (sum_over P calls) \<le> length calls"
  by (simp add: sum_over_def)

lemma sum_over_append: "sum_over P (xs @ ys) = sum_over P xs @ sum_over P ys"
  by (simp add: sum_over_def)

lemma sum_over_whole: "\<forall>x \<in> set calls. P (x, \<lambda>a. True) \<Longrightarrow> sum_over P (whole calls) = calls"
  by (induction calls) (simp_all add: sum_over_def whole_def)

text \<open>C25: The traffic a frame reports is that of the sends, each counted at most once. A frame is taken after the
  operations \<open>ops\<close> and while other threads are in calls of \<open>record_send\<close> (\<open>during\<close>), of whose relaxed
  additions each load may have seen any. Then the bytes and the counts of the edges the frame lists, and
  its totals of bytes and of tasks sent, are each the sum over the sends that are over and over some of the
  calls still running, which need not be the same calls for the four; edges without a task are left out.
  So with no call running the edges add up to the totals. Tasks go to ranks of the run.\<close>

theorem traffic_adds_up:
  assumes "list_all (\<lambda>x. call_dst x < unat n) (sends_of ops)" and "list_all (\<lambda>(x, visible). call_dst x < unat n) during"
    and "length (sends_of ops) + length during < 2 ^ 64"
    and "f = snapshot_during s during (fold apply_record ops (on_runtime_ready mode r n now engine topology new_hub))"
  shows "\<exists>xs ys zs ws. list_all (\<lambda>calls. subseq calls (map fst during)) [xs, ys, zs, ws] \<and>
    sum_list (map ec_bytes (wf_edges_out f)) = bytes_of_calls (sends_of ops @ xs) \<and>
    sum_list (map ec_count (wf_edges_out f)) = of_nat (length (sends_of ops @ ys)) \<and>
    wf_bytes_sent_total f = bytes_of_calls (sends_of ops @ zs) \<and>
    wf_tasks_sent_total f = of_nat (length (sends_of ops @ ws))"
proof -
  let ?h0 = "on_runtime_ready mode r n now engine topology new_hub" and ?n = "unat n"
  define c where "c = fold fetch_add (seen_adds ?n during) (th_counters (fold apply_record ops ?h0))"
  let ?all = "whole (sends_of ops) @ during"
  have h0: "ct_edges_out (th_counters ?h0) = replicate ?n \<lparr>es_bytes = 0, es_count = 0\<rparr>"
    "ct_bytes_sent (th_counters ?h0) = 0" "ct_tasks_sent (th_counters ?h0) = 0"
    by (simp_all add: on_runtime_ready_def new_hub_def new_counters_def Let_def)
  then have n: "length (ct_edges_out (th_counters ?h0)) = ?n" by simp
  have z: "edge_sum es_bytes K (th_counters ?h0) = 0" "edge_sum es_count K (th_counters ?h0) = 0" for K
    unfolding edge_sum_def h0(1) by (simp_all add: slot_sum_fresh)
  have ok: "list_all (\<lambda>(x, visible). call_dst x < ?n) ?all"
    using assms(1,2) by (auto simp: whole_def list_all_iff)
  note Q = seen_quantity [OF _ _ n assms(1,2) c_def]
  note B = Q [OF raises(1) of_traffics(1)] and N = Q [OF raises(2) of_traffics(1)]
    and T = Q [OF raises(3) of_traffics(2)] and W = Q [OF raises(4) of_traffics(3)]
  have "length (ct_edges_out (th_counters (fold apply_record ops ?h0))) = ?n"
    using recorded [OF raises(3) of_traffics(2) n assms(1)] by blast
  then have f: "wf_edges_out f = edges_of (ct_edges_out c)" "wf_bytes_sent_total f = ct_bytes_sent c"
    "wf_tasks_sent_total f = ct_tasks_sent c"
    by (simp_all add: assms(4) snapshot_during_def frame_fields on_counters_def c_def)
  let ?K = "\<lambda>j. es_count (ct_edges_out c ! j) \<noteq> 0"
  have listed: "?K (call_dst x)" if x: "x \<in> set (sends_of ops)" for x
  proof -
    let ?P = "\<lambda>(y, v). call_dst y = call_dst x \<and> v (Edge_Count (call_dst y))"
    have d: "call_dst x < length (ct_edges_out c)" using x assms(1) B by (auto simp: list_all_iff)
    have "es_count (ct_edges_out c ! call_dst x) = edge_sum es_count (\<lambda>j. j = call_dst x) c"
      using d by (simp add: edge_sum_def slot_sum_def)
    also have "\<dots> = of_nat (length (sum_over ?P ?all))"
      using N [of "\<lambda>j. j = call_dst x"] raise_sums(2) [OF ok, of "\<lambda>j. j = call_dst x"] z by simp
    finally have e: "es_count (ct_edges_out c ! call_dst x) = of_nat (length (sum_over ?P ?all))" .
    have "(x, \<lambda>a. True) \<in> set (filter ?P ?all)" using x by (simp add: whole_def)
    then have "0 < length (sum_over ?P ?all)" unfolding sum_over_def length_map by (rule length_pos_if_in_set)
    moreover have "length (sum_over ?P ?all) \<le> length (sends_of ops) + length during"
      using sum_over_length [of ?P ?all] by (simp add: whole_def)
    ultimately show ?thesis using assms(3) unfolding e by (simp add: word_of_nat_eq_0_iff nat_dvd_not_less)
  qed
  let ?X = "\<lambda>(x, v). ?K (call_dst x) \<and> v (Edge_Bytes (call_dst x) (call_bytes x))"
  let ?Y = "\<lambda>(x, v). True \<and> v (Edge_Count (call_dst x))"
  let ?Z = "\<lambda>(x, v). v (Bytes_Sent (call_bytes x))" and ?W = "\<lambda>(x, v). v Tasks_Sent"
  have "sum_list (map ec_bytes (wf_edges_out f)) = bytes_of_calls (sends_of ops @ sum_over ?X during)"
    using B [of ?K] raise_sums(1) [OF ok, of ?K] z listed edges_of_slots
    by (simp add: f sum_over_append sum_over_whole flip: edge_sum_def)
  moreover have "sum_list (map ec_count (wf_edges_out f)) = of_nat (length (sends_of ops @ sum_over ?Y during))"
    using N [of "\<lambda>j. True"] raise_sums(2) [OF ok, of "\<lambda>j. True"] z edges_of_slots
    by (simp add: f sum_over_append sum_over_whole flip: edge_sum_def)
  moreover have "wf_bytes_sent_total f = bytes_of_calls (sends_of ops @ sum_over ?Z during)"
    using T raise_sums(3) [OF ok] h0 by (simp add: f sum_over_append sum_over_whole)
  moreover have "wf_tasks_sent_total f = of_nat (length (sends_of ops @ sum_over ?W during))"
    using W raise_sums(4) [OF ok] h0 by (simp add: f sum_over_append sum_over_whole)
  moreover have "subseq (sum_over P during) (map fst during)" for P
    by (simp add: sum_over_def subseq_map)
  ultimately show ?thesis
    by (intro exI [of _ "sum_over ?X during"] exI [of _ "sum_over ?Y during"] exI [of _ "sum_over ?Z during"]
        exI [of _ "sum_over ?W during"]) simp
qed

definition sample_frame_sample :: frame_sample where
  "sample_frame_sample = \<lparr>fs_local_ms = 1, fs_clock_us = 1000, fs_cpu_pct = 0, fs_rss_bytes = 0, fs_balancer = None,
     fs_pending = None, fs_node_ms = 1, fs_host = sample_host ''a'' 1\<rparr>"

text \<open>A send is over and one has added to its edge but not yet to the totals.\<close>

lemma traffic_adds_up_witness:
  "let during = [((1, 9, 3), \<lambda>a. a = Edge_Bytes 1 9 \<or> a = Edge_Count 1)];
       f = snapshot_during sample_frame_sample during (fold apply_record [Send 1 7 3, Task_Local]
         (on_runtime_ready MT_ONLY 0 2 5 (1, 2) \<lparr>tp_nodes = [], tp_identities = []\<rparr> new_hub))
   in \<exists>xs zs. subseq xs [(1, 9, 3)] \<and> subseq zs [(1, 9, 3)] \<and>
     sum_list (map ec_bytes (wf_edges_out f)) = 7 + bytes_of_calls xs \<and> wf_bytes_sent_total f = 7 + bytes_of_calls zs"
proof -
  let ?during = "[((1, 9, 3), \<lambda>a. a = Edge_Bytes 1 9 \<or> a = Edge_Count 1)] :: (send_call \<times> (counter_add \<Rightarrow> bool)) list"
  have s: "sends_of [Send 1 7 3, Task_Local] = [(1, 7, 3)]" by (simp add: sends_of_def)
  show ?thesis
    unfolding Let_def
    using traffic_adds_up [of 2 "[Send 1 7 3, Task_Local]" ?during, OF _ _ _ refl, of sample_frame_sample MT_ONLY 0 5
        "(1, 2)" "\<lparr>tp_nodes = [], tp_identities = []\<rparr>"]
    by (simp add: s bytes_of_calls_def) blast
qed

section \<open>The description of the run\<close>

datatype describe_op =
    Annotate string string | Mark_Run string marker_source "64 word" | Scheduler string "rank_role list"
  | Balancer balancing_policy | Ready runtime_mode "32 word" "32 word" "64 word" "64 word \<times> 64 word" topology_snapshot

fun apply_describe :: "describe_op \<Rightarrow> hub \<Rightarrow> hub" where
  "apply_describe (Annotate key v) h = snd (annotate_run key v h)"
| "apply_describe (Mark_Run label source now) h = snd (mark_run label source now h)"
| "apply_describe (Scheduler name roles) h = describe_scheduler name roles h"
| "apply_describe (Balancer policy) h = describe_load_balancer policy h"
| "apply_describe (Ready mode r n now engine topology) h = on_runtime_ready mode r n now engine topology h"

definition within_limits :: "run_description \<Rightarrow> bool" where
  "within_limits d \<longleftrightarrow>
     length (rd_annotations d) \<le> 8 \<and> distinct (map fst (rd_annotations d)) \<and>
     list_all (\<lambda>(k, v). 1 \<le> length k \<and> length k \<le> 32 \<and> length v \<le> 64) (rd_annotations d) \<and>
     length (rd_markers d) \<le> 32 \<and> list_all (\<lambda>m. 1 \<le> length (rm_label m) \<and> length (rm_label m) \<le> 64) (rd_markers d)"

lemma describe_fields: "rd_annotations (describe_run v h) = th_annotations h" "rd_markers (describe_run v h) = th_markers h"
  by (simp_all add: describe_run_def)

lemma update_old: "k \<in> set (map fst xs) \<Longrightarrow> length (AList.update k v xs) = length xs"
  by (induction xs) auto

lemma update_all: "list_all P xs \<Longrightarrow> P (k, v) \<Longrightarrow> list_all P (AList.update k v xs)"
  by (induction xs) auto

lemma annotate_within:
  assumes "within_limits (describe_run w h)"
  shows "within_limits (describe_run w (snd (annotate_run key v h)))"
proof (cases "key \<in> set (map fst (th_annotations h))")
  case True
  then show ?thesis
    using assms update_old [OF True, of v]
    by (cases key) (auto intro!: update_all simp: Suc_le_eq within_limits_def describe_fields annotate_run_def distinct_update
        MAX_RUN_ANNOTATION_KEY_BYTES_def MAX_RUN_ANNOTATION_VALUE_BYTES_def)
next
  case False
  then show ?thesis
    using assms by (cases key) (auto simp: within_limits_def describe_fields annotate_run_def MAX_RUN_ANNOTATIONS_def
        MAX_RUN_ANNOTATION_KEY_BYTES_def MAX_RUN_ANNOTATION_VALUE_BYTES_def)
qed

lemma mark_within:
  assumes "within_limits (describe_run w h)"
  shows "within_limits (describe_run w (snd (mark_run label source now h)))"
  using assms
  by (cases label) (auto simp: within_limits_def describe_fields mark_run_def MAX_RUN_MARKERS_def MAX_RUN_MARKER_LABEL_BYTES_def)

lemma describe_op_within:
  assumes "within_limits (describe_run w h)"
  shows "within_limits (describe_run w (apply_describe p h))"
proof (cases p)
  case (Ready mode r n now engine topology)
  then show ?thesis using assms by (simp add: within_limits_def describe_fields on_runtime_ready_def Let_def)
qed (use assms in \<open>simp_all add: annotate_within mark_within describe_scheduler_def describe_load_balancer_def\<close>,
    simp_all add: within_limits_def describe_fields)

text \<open>C26: The description a run broadcasts stays within its limits whatever is annotated and marked, from the
  code or by clients: at most 8 annotations with distinct keys of 1 to 32 bytes and values of up to 64, and
  at most 32 markers with labels of 1 to 64 bytes.\<close>

theorem description_within_limits: "within_limits (describe_run version (fold apply_describe ops new_hub))"
proof (induction ops rule: rev_induct)
  case Nil
  show ?case by (simp add: within_limits_def describe_fields new_hub_def)
next
  case (snoc p ops)
  then show ?case using describe_op_within by simp
qed

end
