(* ===== verification/Telemetry_Network.thy ===== *)
theory Telemetry_Network
  imports Frame_Streams Hub_Properties
begin

text \<open>
  The hubs of all ranks and the messages between them as a step relation: a client's control applied at the
  aggregator, and the tick of any rank, with whatever its probes find. What is shown is that the settings
  a client chose reach every rank.
\<close>

record telemetry_net =
  tn_hubs :: "nat \<Rightarrow> hub"
  tn_mpi :: mpi_state

definition telemetry_start :: "nat \<Rightarrow> (nat \<Rightarrow> 64 word) \<Rightarrow> 64 word \<times> 64 word \<Rightarrow> topology_snapshot \<Rightarrow> telemetry_net" where
  "telemetry_start n now engine topology =
     \<lparr>tn_hubs = (\<lambda>r. on_runtime_ready MP_MPI (word_of_nat r) (word_of_nat n) (now r) engine topology new_hub), tn_mpi = new_mpi n\<rparr>"

inductive telemetry_step :: "nat \<Rightarrow> telemetry_net \<Rightarrow> telemetry_net \<Rightarrow> bool" for n :: nat where
  client: "telemetry_step n w (w\<lparr>tn_hubs := (tn_hubs w)(0 := apply_control_from_client k v now (tn_hubs w 0))\<rparr>)"
| record_event: "r < n \<Longrightarrow> telemetry_step n w (w\<lparr>tn_hubs := (tn_hubs w)(r := on_counters f (tn_hubs w r))\<rparr>)"
| tick: "r < n \<Longrightarrow> tick_if_due (mpi_ops r po) tt s (tn_hubs w r) (tn_mpi w) = Inr (h, m) \<Longrightarrow>
    telemetry_step n w \<lparr>tn_hubs = (tn_hubs w)(r := h), tn_mpi = m\<rparr>"

inductive_cases telemetry_stepE: "telemetry_step n w w'"

inductive telemetry_reach :: "nat \<Rightarrow> telemetry_net \<Rightarrow> telemetry_net \<Rightarrow> bool" for n :: nat and w :: telemetry_net where
  start: "telemetry_reach n w w"
| step: "telemetry_reach n w x \<Longrightarrow> telemetry_step n x y \<Longrightarrow> telemetry_reach n w y"

section \<open>Settings\<close>

definition settings :: "hub \<Rightarrow> 32 word \<times> bool" where
  "settings h = (th_interval_ms h, th_paused h)"

definition apply_setting :: "control_msg \<Rightarrow> 32 word \<times> bool \<Rightarrow> 32 word \<times> bool" where
  "apply_setting m s =
     (case cm_kind m of SET_INTERVAL_MS \<Rightarrow> (cm_value m, snd s) | PAUSE \<Rightarrow> (fst s, True) | RESUME \<Rightarrow> (fst s, False) | _ \<Rightarrow> s)"

lemma settings_control: "settings (handle_control m h) = apply_setting m (settings h)"
  by (simp add: settings_def handle_control_def apply_setting_def split: control_kind.split)

lemma settings_controls: "settings (fold handle_control ms h) = fold apply_setting ms (settings h)"
  by (induction ms arbitrary: h) (simp_all add: settings_control)

text \<open>What a control leaves alone.\<close>

definition frame_of_hub :: "hub \<Rightarrow> control_msg list \<times> 32 word \<times> 32 word \<times> bool" where
  "frame_of_hub h = (th_pending_fanout h, th_rank h, th_world_size h, th_aggregator h = None)"

lemma frame_control: "frame_of_hub (handle_control m h) = frame_of_hub h"
  by (simp add: frame_of_hub_def handle_control_def split: control_kind.split)

lemma frame_controls: "frame_of_hub (fold handle_control ms h) = frame_of_hub h"
  by (induction ms arbitrary: h) (simp_all add: frame_control)

section \<open>The messages a tick sends\<close>

definition controls_part :: "mpi_state \<Rightarrow> nat \<times> (nat \<Rightarrow> nat \<Rightarrow> control_msg list) \<times> (nat \<Rightarrow> control_msg list)" where
  "controls_part w = (mp_world_size w, mp_controls w, mp_inbound w)"

lemma publish_controls:
  assumes "publish_frames (mpi_ops r po) s h w = Inr w'"
  shows "controls_part w' = controls_part w"
  using assms by (auto simp: publish_frames_def mpi_ops_def mpi_publish_worker_def mpi_publish_node_def controls_part_def
      Let_def split: if_splits)

lemma drain_controls: "drain_inbound_frames (mpi_ops r po) now a w = (b, a', w') \<Longrightarrow> controls_part w' = controls_part w"
  by (auto simp: drain_inbound_frames_def mpi_ops_def mpi_poll_def drain_worker_frames_def drain_final_frames_def
      drain_node_frames_def controls_part_def Let_def split_def split: if_splits)

text \<open>Only the channels from \<open>r\<close> to the other ranks grow.\<close>

definition sends :: "nat \<Rightarrow> nat \<Rightarrow> control_msg list \<Rightarrow> mpi_state \<Rightarrow> mpi_state" where
  "sends k r ms w = w\<lparr>mp_controls := (mp_controls w)(r := (\<lambda>d. if d < k \<and> d \<noteq> r then mp_controls w r d @ ms else mp_controls w r d))\<rparr>"

lemma sends_nothing: "sends k r [] w = w"
  by (simp add: sends_def cong: if_cong)

lemma sends_more: "sends k r ns (sends k r ms w) = sends k r (ms @ ns) w"
  by (auto simp: sends_def fun_eq_iff)

lemma send_one:
  assumes "r < n" and "n < 2 ^ 32" and "k \<le> n" and "mp_world_size w = n"
  shows "fold (\<lambda>d. if word_of_nat d = (word_of_nat r :: 32 word) then id else mpi_send_control r (word_of_nat d) m) [0..<k] w = sends k r [m] w"
  using assms(3)
proof (induction k)
  case 0
  show ?case by (simp add: sends_def)
next
  case (Suc k)
  have u: "unat (word_of_nat k :: 32 word) = k" "unat (word_of_nat r :: 32 word) = r"
    using Suc.prems assms by (simp_all add: unat_of_nat)
  then have e: "(word_of_nat k = (word_of_nat r :: 32 word)) = (k = r)" by metis
  show ?case
    using Suc u e assms by (auto simp: mpi_send_control_def sends_def fun_eq_iff less_Suc_eq)
qed

lemma fan_out_sends:
  assumes "r < n" and "n < 2 ^ 32" and "mp_world_size w = n" and "th_rank h = word_of_nat r" and "th_world_size h = word_of_nat n"
  shows "fan_out (mpi_ops r po) h w = sends n r (th_pending_fanout h) w"
proof -
  have n: "unat (word_of_nat n :: 32 word) = n" using assms(2) by (simp add: unat_of_nat)
  have e: "fold (\<lambda>m. fold (\<lambda>d. if word_of_nat d = (word_of_nat r :: 32 word) then id else mpi_send_control r (word_of_nat d) m) [0..<n]) ms w =
      sends n r ms w" for ms
    using assms(3)
  proof (induction ms arbitrary: w)
    case (Cons m ms)
    have "mp_world_size (sends n r [m] w) = n" using Cons.prems by (simp add: sends_def)
    then show ?case using Cons.IH send_one [OF assms(1,2) _ Cons.prems, of n m] sends_more [of n r ms "[m]" w] by simp
  qed (simp add: sends_nothing)
  have t: "tr_send_control (mpi_ops r po) = mpi_send_control r" by (simp add: mpi_ops_def)
  show ?thesis unfolding fan_out_def t assms(4,5) n by (rule e)
qed

lemma sends_controls: "controls_part v = controls_part w \<Longrightarrow> controls_part (sends k r ms v) = controls_part (sends k r ms w)"
  by (simp add: controls_part_def sends_def cong: if_cong)

section \<open>The invariant\<close>

text \<open>
  What is under way from the aggregator to a rank, the oldest first: what it keeps, what is on the channel,
  and what waits for the next tick of the aggregator. Applied in that order, it makes the rank's settings
  those of the aggregator.
\<close>

definition under_way :: "telemetry_net \<Rightarrow> nat \<Rightarrow> control_msg list" where
  "under_way w r = mp_inbound (tn_mpi w) r @ mp_controls (tn_mpi w) 0 r @ th_pending_fanout (tn_hubs w 0)"

definition interval_ok :: "32 word \<Rightarrow> bool" where
  "interval_ok v \<longleftrightarrow> 50 \<le> v \<and> v \<le> 600000"

definition msg_ok :: "control_msg \<Rightarrow> bool" where
  "msg_ok m \<longleftrightarrow> (cm_kind m = SET_INTERVAL_MS \<longrightarrow> interval_ok (cm_value m))"

definition net_ok :: "nat \<Rightarrow> telemetry_net \<Rightarrow> bool" where
  "net_ok n w \<longleftrightarrow> mp_world_size (tn_mpi w) = n \<and>
     (\<forall>r < n. th_rank (tn_hubs w r) = word_of_nat r \<and> th_world_size (tn_hubs w r) = word_of_nat n) \<and>
     (\<forall>r < n. 0 < r \<longrightarrow> th_pending_fanout (tn_hubs w r) = []) \<and>
     (\<forall>r d. mp_controls (tn_mpi w) r d \<noteq> [] \<longrightarrow> r = 0 \<and> 0 < d) \<and> mp_inbound (tn_mpi w) 0 = [] \<and>
     (\<forall>r < n. 0 < r \<longrightarrow> fold apply_setting (under_way w r) (settings (tn_hubs w r)) = settings (tn_hubs w 0)) \<and>
     (\<forall>r < n. interval_ok (th_interval_ms (tn_hubs w r)) \<and> (0 < r \<longrightarrow> list_all msg_ok (under_way w r)))"

lemma ready_hub:
  "frame_of_hub (on_runtime_ready MP_MPI r n now engine topology new_hub) = ([], r, n, r \<noteq> 0)"
  "settings (on_runtime_ready MP_MPI r n now engine topology new_hub) = (500, False)"
  by (simp_all add: on_runtime_ready_def new_hub_def Let_def frame_of_hub_def settings_def)

lemma ready_hub_fields:
  "th_rank (on_runtime_ready MP_MPI r n now engine topology new_hub) = r"
  "th_world_size (on_runtime_ready MP_MPI r n now engine topology new_hub) = n"
  "th_pending_fanout (on_runtime_ready MP_MPI r n now engine topology new_hub) = []"
  "th_interval_ms (on_runtime_ready MP_MPI r n now engine topology new_hub) = 500"
  using ready_hub [of r n now engine topology] by (simp_all add: frame_of_hub_def settings_def)

lemma start_ok: "net_ok n (telemetry_start n now engine topology)"
  by (simp add: net_ok_def telemetry_start_def new_mpi_def under_way_def ready_hub ready_hub_fields interval_ok_def)

lemma interval_settings: "th_interval_ms h = fst (settings h)"
  by (simp add: settings_def)

lemma apply_setting_ok: "list_all msg_ok ms \<Longrightarrow> interval_ok (fst s) \<Longrightarrow> interval_ok (fst (fold apply_setting ms s))"
  by (induction ms arbitrary: s) (auto simp: apply_setting_def msg_ok_def split: control_kind.splits)

text \<open>A client's control extends what is under way by what it does to the aggregator.\<close>

lemma client_control:
  obtains ms where "th_pending_fanout (apply_control_from_client k v now h) = th_pending_fanout h @ ms"
    "settings (apply_control_from_client k v now h) = fold apply_setting ms (settings h)" "list_all msg_ok ms"
    "th_rank (apply_control_from_client k v now h) = th_rank h"
    "th_world_size (apply_control_from_client k v now h) = th_world_size h"
proof -
  have c: "interval_ok (max 50 (min v 600000))" by (auto simp: interval_ok_def)
  let ?h = "apply_control_from_client k v now h"
  have "\<exists>ms. th_pending_fanout ?h = th_pending_fanout h @ ms \<and> settings ?h = fold apply_setting ms (settings h) \<and>
      list_all msg_ok ms \<and> th_rank ?h = th_rank h \<and> th_world_size ?h = th_world_size h"
    by (cases k) (auto simp: apply_control_from_client_def Let_def settings_def apply_setting_def msg_ok_def c)
  then show thesis using that by blast
qed

lemma client_ok:
  assumes "net_ok n w"
  shows "net_ok n (w\<lparr>tn_hubs := (tn_hubs w)(0 := apply_control_from_client k v now (tn_hubs w 0))\<rparr>)" (is "net_ok n ?w")
proof -
  obtain ms where c: "th_pending_fanout (tn_hubs ?w 0) = th_pending_fanout (tn_hubs w 0) @ ms"
    "settings (tn_hubs ?w 0) = fold apply_setting ms (settings (tn_hubs w 0))" "list_all msg_ok ms"
    "th_rank (tn_hubs ?w 0) = th_rank (tn_hubs w 0)" "th_world_size (tn_hubs ?w 0) = th_world_size (tn_hubs w 0)"
    using client_control [of k v now "tn_hubs w 0"] by auto
  have o: "tn_hubs ?w r = tn_hubs w r" if "0 < r" for r using that by simp
  have u: "under_way ?w r = under_way w r @ ms" for r using c(1) by (simp add: under_way_def)
  have m: "tn_mpi ?w = tn_mpi w" by simp
  have i: "0 < n \<Longrightarrow> interval_ok (fst (settings (tn_hubs ?w 0)))"
    unfolding c(2) using assms c(3) by (intro apply_setting_ok) (simp_all add: net_ok_def interval_settings)
  show ?thesis
    unfolding net_ok_def m
  proof (intro conjI allI impI)
    fix r assume r: "r < n"
    show "th_rank (tn_hubs ?w r) = word_of_nat r" "th_world_size (tn_hubs ?w r) = word_of_nat n"
      using assms r c(4,5) o [of r] by (cases "r = 0"; simp add: net_ok_def)+
    show "interval_ok (th_interval_ms (tn_hubs ?w r))"
      using assms r i o [of r] by (cases "r = 0") (simp_all add: net_ok_def interval_settings)
    assume "0 < r"
    with assms r o [of r] show "th_pending_fanout (tn_hubs ?w r) = []"
      "fold apply_setting (under_way ?w r) (settings (tn_hubs ?w r)) = settings (tn_hubs ?w 0)"
      "list_all msg_ok (under_way ?w r)"
      unfolding u c(2) using c(3) by (simp_all add: net_ok_def)
  qed (use assms in \<open>auto simp: net_ok_def\<close>)
qed

section \<open>What a tick does to the settings\<close>

text \<open>The fields of the hub that matter to the controls.\<close>

definition who :: "hub \<Rightarrow> (control_msg list \<times> 32 word \<times> 32 word) \<times> 32 word \<times> bool" where
  "who h = ((th_pending_fanout h, th_rank h, th_world_size h), settings h)"

lemma who_same [simp]:
  "who (on_counters f h) = who h" "who (begin_frame h) = who h" "who (h\<lparr>th_snapshot_due := x\<rparr>) = who h"
  "who (h\<lparr>th_last_rank_emit_ms := y\<rparr>) = who h" "who (h\<lparr>th_aggregator := z\<rparr>) = who h"
  "who (h\<lparr>th_pending_fanout := []\<rparr>) = (([], th_rank h, th_world_size h), settings h)"
  by (simp_all add: who_def settings_def on_counters_def begin_frame_def)

lemma who_controls: "who (fold handle_control ms h) = (fst (who h), fold apply_setting ms (settings h))"
  using frame_controls [of ms h] by (simp add: who_def settings_controls frame_of_hub_def)

text \<open>The last part of a tick, the aggregator's.\<close>

definition drain_part :: "'t transport \<Rightarrow> tick_times \<Rightarrow> hub \<Rightarrow> 't \<Rightarrow> bool \<times> hub \<times> 't" where
  "drain_part ops tt h t =
     (case th_aggregator h of None \<Rightarrow> (False, h, t)
      | Some a \<Rightarrow>
          if \<not> th_paused h \<or> snapshot_outstanding (tt_outstanding_ms tt) h
          then let (b, a', t') = drain_inbound_frames ops (tt_drain_ms tt) a t in (b, h\<lparr>th_aggregator := Some a'\<rparr>, t')
          else (False, h, t))"

lemma drain_part_controls:
  assumes "drain_part (mpi_ops r po) tt h w = (b, h', w')"
  shows "who h' = who h \<and> controls_part w' = controls_part w"
proof (cases "th_aggregator h")
  case None
  with assms show ?thesis by (simp add: drain_part_def)
next
  case (Some a)
  obtain b1 a1 w1 where d: "drain_inbound_frames (mpi_ops r po) (tt_drain_ms tt) a w = (b1, a1, w1)"
    by (metis prod.exhaust)
  from assms Some d drain_controls [OF d] show ?thesis by (auto simp: drain_part_def split: if_splits)
qed

lemma tick_parts:
  assumes "tick_if_due ops tt s h t = Inr (h', t')" and "tr_recv_controls ops t = (cs, t1)"
  obtains h3 t2 b h5 where "who h3 = who (fold handle_control cs h)"
    "t2 = t1 \<or> (\<exists>h2. publish_frames ops s h2 t1 = Inr t2)"
    "drain_part ops tt (h3\<lparr>th_pending_fanout := []\<rparr>) (fan_out ops h3 t2) = (b, h5, t')" "who h' = who h5"
proof -
  let ?now = "tt_start_us tt div 1000"
  let ?h1 = "fold handle_control cs h"
  show thesis
  proof (cases "publish_due ?now ?h1")
    case True
    then obtain t2 where p: "publish_frames ops s (begin_frame ?h1) t1 = Inr t2"
      using assms by (cases "publish_frames ops s (begin_frame ?h1) t1") (simp_all add: tick_if_due_def rbind_def)
    let ?h3 = "begin_frame ?h1\<lparr>th_last_rank_emit_ms := ?now\<rparr>"
    obtain b h5 t4 where d: "drain_part ops tt (?h3\<lparr>th_pending_fanout := []\<rparr>) (fan_out ops ?h3 t2) = (b, h5, t4)"
      by (metis prod.exhaust)
    from assms True p d have "h' = on_counters (\<lambda>c. c\<lparr>ct_telemetry_microseconds :=
        ct_telemetry_microseconds c + (tt_end_us tt - tt_start_us tt)\<rparr>) h5" "t' = t4"
      by (simp_all add: tick_if_due_def rbind_def drain_part_def [symmetric])
    with p d show thesis using that [of ?h3 t2 b h5] by auto
  next
    case False
    let ?h3 = "?h1\<lparr>th_snapshot_due := 0\<rparr>"
    obtain b h5 t4 where d: "drain_part ops tt (?h3\<lparr>th_pending_fanout := []\<rparr>) (fan_out ops ?h3 t1) = (b, h5, t4)"
      by (metis prod.exhaust)
    from assms False d have "who h' = who h5" "t' = t4"
      by (auto simp: tick_if_due_def rbind_def drain_part_def [symmetric] split: if_splits)
    with d show thesis using that [of ?h3 t1 b h5] by auto
  qed
qed

lemma tick_controls:
  assumes t: "tick_if_due (mpi_ops r po) tt s h w = Inr (h', w')"
    and r: "r < n" "n < 2 ^ 32" "mp_world_size w = n" "th_rank h = word_of_nat r" "th_world_size h = word_of_nat n"
    and c: "mpi_recv_controls r (po_controls po) w = (cs, w1)"
  shows "who h' = (([], th_rank h, th_world_size h), fold apply_setting cs (settings h))"
    "controls_part w' = controls_part (sends n r (th_pending_fanout h) w1)"
proof -
  have "tr_recv_controls (mpi_ops r po) w = (cs, w1)" using c by (simp add: mpi_ops_def)
  from tick_parts [OF t this] obtain h3 w2 b h5 where p: "who h3 = who (fold handle_control cs h)"
    "w2 = w1 \<or> (\<exists>h2. publish_frames (mpi_ops r po) s h2 w1 = Inr w2)"
    "drain_part (mpi_ops r po) tt (h3\<lparr>th_pending_fanout := []\<rparr>) (fan_out (mpi_ops r po) h3 w2) = (b, h5, w')"
    "who h' = who h5" by metis
  have h3: "th_pending_fanout h3 = th_pending_fanout h" "th_rank h3 = th_rank h" "th_world_size h3 = th_world_size h"
    "settings h3 = fold apply_setting cs (settings h)"
    using p(1) unfolding who_controls by (simp_all add: who_def)
  have w2: "controls_part w2 = controls_part w1" using p(2) publish_controls by blast
  have "mp_world_size w1 = n" using c r(3) by (auto simp: mpi_recv_controls_def split_def Let_def)
  with w2 have n: "mp_world_size w2 = n" by (simp add: controls_part_def)
  have f: "fan_out (mpi_ops r po) h3 w2 = sends n r (th_pending_fanout h) w2"
    using fan_out_sends [OF r(1,2) n, of h3 po] h3 r(4,5) by simp
  from drain_part_controls [OF p(3)] p(4) h3
  show "who h' = (([], th_rank h, th_world_size h), fold apply_setting cs (settings h))" by simp
  from drain_part_controls [OF p(3)] sends_controls [OF w2]
  show "controls_part w' = controls_part (sends n r (th_pending_fanout h) w1)" unfolding f by simp
qed

text \<open>Where only the aggregator sends, the messages taken are the first ones of its channel.\<close>

lemma take_found_single:
  assumes "\<And>s. s \<noteq> 0 \<Longrightarrow> ch s = []"
  obtains k where "map snd (fst (take_found found ch)) = take k (ch 0)" "snd (take_found found ch) = ch(0 := drop k (ch 0))"
    "min (count_list found 0) (length (ch 0)) \<le> k"
proof -
  have "\<exists>k. map snd (fst (take_found found ch)) = take k (ch 0) \<and> snd (take_found found ch) = ch(0 := drop k (ch 0)) \<and>
      min (count_list found 0) (length (ch 0)) \<le> k"
    using assms
  proof (induction found arbitrary: ch)
    case Nil
    show ?case by (intro exI [of _ 0]) simp
  next
    case (Cons s found)
    show ?case
    proof (cases "ch s")
      case Nil
      obtain k where "map snd (fst (take_found found ch)) = take k (ch 0)" "snd (take_found found ch) = ch(0 := drop k (ch 0))"
        "min (count_list found 0) (length (ch 0)) \<le> k" using Cons by blast
      with Nil show ?thesis by (intro exI [of _ k]) (cases "s = 0"; simp)
    next
      case (Cons m ms)
      with Cons.prems [of s] have s: "s = 0" by force
      have z: "x \<noteq> 0 \<Longrightarrow> (ch(0 := ms)) x = []" for x using Cons.prems by simp
      obtain got ch' where t: "take_found found (ch(0 := ms)) = (got, ch')" by (metis prod.exhaust)
      have "\<exists>k. map snd (fst (take_found found (ch(0 := ms)))) = take k ((ch(0 := ms)) 0) \<and>
          snd (take_found found (ch(0 := ms))) = (ch(0 := ms))(0 := drop k ((ch(0 := ms)) 0)) \<and>
          min (count_list found 0) (length ((ch(0 := ms)) 0)) \<le> k"
        by (rule Cons.IH) (rule z)
      then obtain k where "map snd got = take k ms" "ch' = ch(0 := drop k ms)" "min (count_list found 0) (length ms) \<le> k"
        unfolding t by auto
      moreover from Cons have "take_found (s # found) ch = ((0, m) # got, ch')"
        unfolding s by (simp only: take_found.simps list.case t Let_def split_conv)
      ultimately show ?thesis using Cons s by (intro exI [of _ "Suc k"]) simp
    qed
  qed
  then show thesis using that by blast
qed

lemma recv_controls_aggregated:
  assumes "\<And>s. s \<noteq> 0 \<Longrightarrow> mp_controls w s r = []" and c: "mpi_recv_controls r found w = (cs, w1)"
  obtains k where "cs = mp_inbound w r @ take k (mp_controls w 0 r)"
    "controls_part w1 = (mp_world_size w, (mp_controls w)(0 := (mp_controls w 0)(r := drop k (mp_controls w 0 r))), (mp_inbound w)(r := []))"
    "min (count_list found 0) (length (mp_controls w 0 r)) \<le> k"
proof -
  obtain k where k: "map snd (fst (take_found found (\<lambda>s. mp_controls w s r))) = take k (mp_controls w 0 r)"
    "snd (take_found found (\<lambda>s. mp_controls w s r)) = (\<lambda>s. mp_controls w s r)(0 := drop k (mp_controls w 0 r))"
    "min (count_list found 0) (length (mp_controls w 0 r)) \<le> k"
    using take_found_single [of "\<lambda>s. mp_controls w s r" found] assms(1) by metis
  have "(\<lambda>s. (mp_controls w s)(r := ((\<lambda>s. mp_controls w s r)(0 := drop k (mp_controls w 0 r))) s)) =
      (mp_controls w)(0 := (mp_controls w 0)(r := drop k (mp_controls w 0 r)))"
    by (auto simp: fun_eq_iff)
  with c k show thesis
    by (intro that [of k]) (auto simp: mpi_recv_controls_def split_def Let_def controls_part_def)
qed

lemma tick_ok:
  assumes ok: "net_ok n w" and r: "r < n" "n < 2 ^ 32"
    and t: "tick_if_due (mpi_ops r po) tt s (tn_hubs w r) (tn_mpi w) = Inr (h, m)"
  shows "net_ok n \<lparr>tn_hubs = (tn_hubs w)(r := h), tn_mpi = m\<rparr>" (is "net_ok n ?w")
proof -
  let ?h = "tn_hubs w r"
  obtain cs w1 where c: "mpi_recv_controls r (po_controls po) (tn_mpi w) = (cs, w1)" by (metis prod.exhaust)
  have z: "mp_controls (tn_mpi w) x r = []" if "x \<noteq> 0" for x using ok that unfolding net_ok_def by blast
  obtain k where k: "cs = mp_inbound (tn_mpi w) r @ take k (mp_controls (tn_mpi w) 0 r)"
    "controls_part w1 = (mp_world_size (tn_mpi w), (mp_controls (tn_mpi w))(0 := (mp_controls (tn_mpi w) 0)
       (r := drop k (mp_controls (tn_mpi w) 0 r))), (mp_inbound (tn_mpi w))(r := []))"
    using recv_controls_aggregated [OF z c] by metis
  have hub: "mp_world_size (tn_mpi w) = n" "th_rank ?h = word_of_nat r" "th_world_size ?h = word_of_nat n"
    using ok r unfolding net_ok_def by blast+
  note e = tick_controls [OF t r hub c]
  have h: "th_pending_fanout h = []" "th_rank h = word_of_nat r" "th_world_size h = word_of_nat n"
    "settings h = fold apply_setting cs (settings ?h)"
    using e(1) hub(2,3) by (simp_all add: who_def)
  show ?thesis
  proof (cases "r = 0")
    case True
    have c0: "mp_controls (tn_mpi w) 0 0 = []" "mp_inbound (tn_mpi w) 0 = []" using ok unfolding net_ok_def by blast+
    have "controls_part w1 = controls_part (tn_mpi w)" 
      using k(2) True c0 by (simp add: controls_part_def fun_upd_idem)
    from e(2) sends_controls [OF this] have m: "controls_part m = controls_part (sends n 0 (th_pending_fanout ?h) (tn_mpi w))"
      using True by simp
    have s: "settings h = settings (tn_hubs w 0)" using h(4) k(1) c0 True by simp
    have mw: "mp_world_size m = n" "mp_inbound m = mp_inbound (tn_mpi w)" using m hub(1) by (simp_all add: controls_part_def sends_def)
    have mc: "mp_controls m x d = (if x = 0 \<and> d < n \<and> d \<noteq> 0 then mp_controls (tn_mpi w) x d @ th_pending_fanout ?h
        else mp_controls (tn_mpi w) x d)" for x d
      using m by (simp add: controls_part_def sends_def)
    have u: "under_way ?w q = under_way w q" if "q < n" "0 < q" for q
      using mw mc that True h(1) by (simp add: under_way_def)
    have i: "th_interval_ms h = th_interval_ms (tn_hubs w 0)" using s by (simp add: settings_def)
    show ?thesis
      unfolding net_ok_def
    proof (intro conjI allI impI)
      fix q assume q: "q < n"
      show "th_rank (tn_hubs ?w q) = word_of_nat q" "th_world_size (tn_hubs ?w q) = word_of_nat n"
        using ok h(2,3) q True by (cases "q = 0"; simp add: net_ok_def)+
      show "interval_ok (th_interval_ms (tn_hubs ?w q))" using ok q True i by (cases "q = 0") (simp_all add: net_ok_def)
      assume q0: "0 < q"
      with ok q True show "th_pending_fanout (tn_hubs ?w q) = []" by (simp add: net_ok_def)
      from ok q q0 True s show "fold apply_setting (under_way ?w q) (settings (tn_hubs ?w q)) = settings (tn_hubs ?w 0)"
        "list_all msg_ok (under_way ?w q)" unfolding u [OF q q0] by (simp_all add: net_ok_def)
    next
      fix x d assume "mp_controls (tn_mpi ?w) x d \<noteq> []"
      then have "mp_controls m x d \<noteq> []" by simp
      then have "mp_controls (tn_mpi w) x d \<noteq> [] \<or> (x = 0 \<and> 0 < d)" unfolding mc by (auto split: if_splits)
      with ok show "x = 0" "0 < d" unfolding net_ok_def by blast+
    qed (use mw c0 in simp_all)
  next
    case False
    then have m: "controls_part m = controls_part w1"
      using e(2) ok r by (simp add: net_ok_def sends_nothing)
    have mw: "mp_world_size m = n" "mp_inbound m = (mp_inbound (tn_mpi w))(r := [])" using m k(2) hub(1) by (simp_all add: controls_part_def)
    have mc: "mp_controls m = (mp_controls (tn_mpi w))(0 := (mp_controls (tn_mpi w) 0)(r := drop k (mp_controls (tn_mpi w) 0 r)))"
      using m k(2) by (simp add: controls_part_def)
    have u: "under_way ?w q = under_way w q" if "q \<noteq> r" for q
      using mw mc that False by (simp add: under_way_def)
    have ur: "under_way w r = cs @ under_way ?w r"
      using mw mc False k(1) by (simp add: under_way_def)
    have i: "interval_ok (th_interval_ms h)"
    proof -
      have "list_all msg_ok (under_way w r)" "interval_ok (th_interval_ms (tn_hubs w r))" using ok r False by (simp_all add: net_ok_def)
      then show ?thesis unfolding interval_settings h(4) ur by (intro apply_setting_ok) simp_all
    qed
    show ?thesis
      unfolding net_ok_def
    proof (intro conjI allI impI)
      fix q assume q: "q < n"
      show "th_rank (tn_hubs ?w q) = word_of_nat q" "th_world_size (tn_hubs ?w q) = word_of_nat n"
        using ok h(2,3) q by (cases "q = r"; simp add: net_ok_def)+
      show "interval_ok (th_interval_ms (tn_hubs ?w q))" using ok q i by (cases "q = r") (simp_all add: net_ok_def)
      assume q0: "0 < q"
      with ok q h(1) show "th_pending_fanout (tn_hubs ?w q) = []" by (simp add: net_ok_def)
      have o: "fold apply_setting (under_way w q) (settings (tn_hubs w q)) = settings (tn_hubs w 0)" "list_all msg_ok (under_way w q)"
        using ok q q0 by (simp_all add: net_ok_def)
      show "fold apply_setting (under_way ?w q) (settings (tn_hubs ?w q)) = settings (tn_hubs ?w 0)"
        using o(1) u [of q] ur h(4) False by (cases "q = r") simp_all
      show "list_all msg_ok (under_way ?w q)"
        using o(2) u [of q] ur by (cases "q = r") simp_all
    next
      fix x d assume "mp_controls (tn_mpi ?w) x d \<noteq> []"
      then have "mp_controls (tn_mpi w) x d \<noteq> []" by (auto simp: mc split: if_splits)
      with ok show "x = 0" "0 < d" unfolding net_ok_def by blast+
    next
      show "mp_inbound (tn_mpi ?w) 0 = []" using mw ok False by (simp add: net_ok_def)
    qed (use mw in simp_all)
  qed
qed

lemma counters_ok:
  assumes "net_ok n w"
  shows "net_ok n (w\<lparr>tn_hubs := (tn_hubs w)(r := on_counters f (tn_hubs w r))\<rparr>)" (is "net_ok n ?w")
proof -
  have e: "th_rank (tn_hubs ?w q) = th_rank (tn_hubs w q)" "th_world_size (tn_hubs ?w q) = th_world_size (tn_hubs w q)"
    "th_pending_fanout (tn_hubs ?w q) = th_pending_fanout (tn_hubs w q)" "settings (tn_hubs ?w q) = settings (tn_hubs w q)"
    "th_interval_ms (tn_hubs ?w q) = th_interval_ms (tn_hubs w q)" for q
    by (simp_all add: on_counters_def settings_def)
  have u: "under_way ?w q = under_way w q" for q unfolding under_way_def e by simp
  have m: "tn_mpi ?w = tn_mpi w" by simp
  show ?thesis using assms unfolding net_ok_def u e m .
qed

lemma step_ok: "telemetry_step n w w' \<Longrightarrow> n < 2 ^ 32 \<Longrightarrow> net_ok n w \<Longrightarrow> net_ok n w'"
  by (erule telemetry_stepE) (auto intro: client_ok counters_ok tick_ok)

lemma reach_ok: "telemetry_reach n w w' \<Longrightarrow> n < 2 ^ 32 \<Longrightarrow> net_ok n w \<Longrightarrow> net_ok n w'"
  by (induction rule: telemetry_reach.induct) (blast intro: step_ok)+

text \<open>C16: From the start of telemetry on fewer than 2^32 ranks, whatever controls clients send at the
  aggregator, whichever ranks tick in whichever order and whatever their probes find, the interval of every
  rank stays between 50 ms and 600 s, and a rank for which no control is under way - waiting at the
  aggregator for its next tick, on the channel, or kept by the rank - has the aggregator's interval and is
  paused exactly if the aggregator is.\<close>

theorem controls_reach_all:
  assumes "telemetry_reach n (telemetry_start n now engine topology) w" and "n < 2 ^ 32" and "r < n"
  shows "50 \<le> th_interval_ms (tn_hubs w r) \<and> th_interval_ms (tn_hubs w r) \<le> 600000 \<and>
    (under_way w r = [] \<longrightarrow> th_interval_ms (tn_hubs w r) = th_interval_ms (tn_hubs w 0) \<and>
       th_paused (tn_hubs w r) = th_paused (tn_hubs w 0))"
proof -
  have ok: "net_ok n w" using reach_ok [OF assms(1,2) start_ok] .
  from ok assms(3) have "interval_ok (th_interval_ms (tn_hubs w r))" by (simp add: net_ok_def)
  moreover have "settings (tn_hubs w r) = settings (tn_hubs w 0)" if "under_way w r = []"
  proof (cases "r = 0")
    case False
    then have "fold apply_setting (under_way w r) (settings (tn_hubs w r)) = settings (tn_hubs w 0)"
      using ok assms(3) by (simp add: net_ok_def)
    then show ?thesis using that by simp
  qed simp
  ultimately show ?thesis by (simp add: interval_ok_def settings_def)
qed

section \<open>Settings arrive\<close>

lemma under_way_settings:
  "net_ok n w \<Longrightarrow> 0 < r \<Longrightarrow> r < n \<Longrightarrow> fold apply_setting (under_way w r) (settings (tn_hubs w r)) = settings (tn_hubs w 0)"
  by (simp add: net_ok_def)

lemma tick_drains:
  assumes ok: "net_ok n w" and r: "0 < r" "r < n" "n < 2 ^ 32"
    and t: "tick_if_due (mpi_ops r po) tt s (tn_hubs w r) (tn_mpi w) = Inr (h, m)"
    and f: "length (mp_controls (tn_mpi w) 0 r) \<le> count_list (po_controls po) 0"
  shows "mp_inbound m r = [] \<and> mp_controls m 0 r = []"
proof -
  obtain cs w1 where c: "mpi_recv_controls r (po_controls po) (tn_mpi w) = (cs, w1)" by (metis prod.exhaust)
  have z: "mp_controls (tn_mpi w) x r = []" if "x \<noteq> 0" for x using ok that unfolding net_ok_def by blast
  obtain k where k: "controls_part w1 = (mp_world_size (tn_mpi w), (mp_controls (tn_mpi w))(0 := (mp_controls (tn_mpi w) 0)
       (r := drop k (mp_controls (tn_mpi w) 0 r))), (mp_inbound (tn_mpi w))(r := []))"
    "min (count_list (po_controls po) 0) (length (mp_controls (tn_mpi w) 0 r)) \<le> k"
    using recv_controls_aggregated [OF z c] by metis
  have hub: "mp_world_size (tn_mpi w) = n" "th_rank (tn_hubs w r) = word_of_nat r" "th_world_size (tn_hubs w r) = word_of_nat n"
    "th_pending_fanout (tn_hubs w r) = []"
    using ok r unfolding net_ok_def by blast+
  from tick_controls(2) [OF t r(2,3) hub(1-3) c] have "controls_part m = controls_part w1"
    by (simp add: hub(4) sends_nothing)
  with k f show ?thesis by (simp add: controls_part_def)
qed

text \<open>C17: In every reachable state, once the aggregator has ticked and then a rank has ticked with a
  probe that finds the controls under way to it, that rank has the aggregator's interval and is paused
  exactly if the aggregator is: a client's change of the settings takes one tick of each.\<close>

theorem controls_arrive:
  assumes "telemetry_reach n (telemetry_start n now engine topology) w" and "0 < r" "r < n" "n < 2 ^ 32"
    and "tick_if_due (mpi_ops 0 po) tt s (tn_hubs w 0) (tn_mpi w) = Inr (h, m)"
    and "tick_if_due (mpi_ops r po') tt' s' (tn_hubs w r) m = Inr (h', m')"
    and "length (mp_controls m 0 r) \<le> count_list (po_controls po') 0"
  shows "th_interval_ms h' = th_interval_ms h \<and> th_paused h' = th_paused h"
proof -
  let ?w1 = "\<lparr>tn_hubs = (tn_hubs w)(0 := h), tn_mpi = m\<rparr>"
  let ?w2 = "\<lparr>tn_hubs = (tn_hubs ?w1)(r := h'), tn_mpi = m'\<rparr>"
  have ok: "net_ok n w" using reach_ok [OF assms(1,4) start_ok] .
  have n: "0 < n" using assms(3) by simp
  have ok1: "net_ok n ?w1" using tick_ok [OF ok n assms(4,5)] .
  have t2: "tick_if_due (mpi_ops r po') tt' s' (tn_hubs ?w1 r) (tn_mpi ?w1) = Inr (h', m')" using assms(2,6) by simp
  have ok2: "net_ok n ?w2" using tick_ok [OF ok1 assms(3,4) t2] by simp
  have "th_pending_fanout h = []"
  proof -
    obtain cs w1 where c: "mpi_recv_controls 0 (po_controls po) (tn_mpi w) = (cs, w1)" by (metis prod.exhaust)
    have "mp_world_size (tn_mpi w) = n" "th_rank (tn_hubs w 0) = word_of_nat 0" "th_world_size (tn_hubs w 0) = word_of_nat n"
      using ok n unfolding net_ok_def by blast+
    from tick_controls(1) [OF assms(5) n assms(4) this c] show ?thesis by (simp add: who_def)
  qed
  moreover from tick_drains [OF ok1 assms(2-4) t2] assms(7) have "mp_inbound m' r = [] \<and> mp_controls m' 0 r = []" by simp
  ultimately have "under_way ?w2 r = []" using assms(2) by (simp add: under_way_def)
  moreover have "fold apply_setting (under_way ?w2 r) (settings (tn_hubs ?w2 r)) = settings (tn_hubs ?w2 0)"
    using under_way_settings [OF ok2 assms(2,3)] .
  ultimately show ?thesis using assms(2) by (simp add: settings_def)
qed

text \<open>Two ranks of which a client has just changed the interval.\<close>

definition nothing_found :: probe_order where
  "nothing_found = \<lparr>po_frames = [], po_finals = [], po_nodes = [], po_controls = []\<rparr>"

definition at_start :: tick_times where
  "at_start = \<lparr>tt_start_us = 0, tt_outstanding_ms = 0, tt_drain_ms = 0, tt_end_us = 0\<rparr>"

lemmas tick_defs = tick_if_due_def mpi_ops_def mpi_recv_controls_def nothing_found_def at_start_def publish_due_def rbind_def
  fan_out_def drain_inbound_frames_def mpi_poll_def drain_worker_frames_def drain_final_frames_def drain_node_frames_def
  decoded_def mpi_send_control_def

definition two_ranks :: telemetry_net where
  "two_ranks = (let w = telemetry_start 2 (\<lambda>r. 0) (0, 0) \<lparr>tp_nodes = [], tp_identities = []\<rparr>
     in w\<lparr>tn_hubs := (tn_hubs w)(0 := apply_control_from_client SET_INTERVAL_MS 7 0 (tn_hubs w 0))\<rparr>)"

lemma two_ranks_reached:
  "telemetry_reach 2 (telemetry_start 2 (\<lambda>r. 0) (0, 0) \<lparr>tp_nodes = [], tp_identities = []\<rparr>) two_ranks"
  unfolding two_ranks_def Let_def by (rule telemetry_reach.step [OF telemetry_reach.start telemetry_step.client])

lemma first_tick:
  "\<exists>h m. tick_if_due (mpi_ops 0 nothing_found) at_start s (tn_hubs two_ranks 0) (tn_mpi two_ranks) = Inr (h, m) \<and>
     mp_controls m 0 1 = [\<lparr>cm_version = TELEMETRY_SCHEMA_VERSION, cm_kind = SET_INTERVAL_MS, cm_value = 50\<rparr>] \<and>
     mp_inbound m 1 = []"
proof -
  have u: "[0..<2] = [0, Suc 0]" by (simp add: upt_rec)
  show ?thesis
    by (simp add: tick_defs two_ranks_def telemetry_start_def new_mpi_def apply_control_from_client_def on_runtime_ready_def
      new_hub_def Let_def u)
qed

lemma second_tick:
  assumes "mp_controls m 0 1 = [\<lparr>cm_version = TELEMETRY_SCHEMA_VERSION, cm_kind = SET_INTERVAL_MS, cm_value = 50\<rparr>]"
    and "mp_inbound m 1 = []"
  shows "\<exists>h' m'. tick_if_due (mpi_ops 1 (nothing_found\<lparr>po_controls := [0]\<rparr>)) at_start s (tn_hubs two_ranks 1) m = Inr (h', m') \<and>
     th_interval_ms h' = 50"
  using assms
  by (simp add: tick_defs two_ranks_def telemetry_start_def apply_control_from_client_def on_runtime_ready_def
      new_hub_def Let_def handle_control_def)

theorem controls_reach_all_witness:
  "th_interval_ms (tn_hubs two_ranks 0) = 50 \<and> under_way two_ranks 1 \<noteq> [] \<and> 50 \<le> th_interval_ms (tn_hubs two_ranks 1)"
  using controls_reach_all [OF two_ranks_reached, of 1]
  by (simp add: two_ranks_def telemetry_start_def under_way_def apply_control_from_client_def Let_def)

theorem controls_arrive_witness:
  "case tick_if_due (mpi_ops 0 nothing_found) at_start sample_frame_sample (tn_hubs two_ranks 0) (tn_mpi two_ranks) of
     Inl e \<Rightarrow> False
   | Inr (h, m) \<Rightarrow>
       (case tick_if_due (mpi_ops 1 (nothing_found\<lparr>po_controls := [0]\<rparr>)) at_start sample_frame_sample (tn_hubs two_ranks 1) m of
          Inl e \<Rightarrow> False
        | Inr (h', m') \<Rightarrow> th_interval_ms h' = 50 \<and> th_interval_ms h = 50)"
proof -
  obtain h m where t1: "tick_if_due (mpi_ops 0 nothing_found) at_start sample_frame_sample (tn_hubs two_ranks 0) (tn_mpi two_ranks) = Inr (h, m)"
    and m: "mp_controls m 0 1 = [\<lparr>cm_version = TELEMETRY_SCHEMA_VERSION, cm_kind = SET_INTERVAL_MS, cm_value = 50\<rparr>]" "mp_inbound m 1 = []"
    using first_tick by blast
  obtain h' m' where t2: "tick_if_due (mpi_ops 1 (nothing_found\<lparr>po_controls := [0]\<rparr>)) at_start sample_frame_sample (tn_hubs two_ranks 1) m = Inr (h', m')"
    and i: "th_interval_ms h' = 50" using second_tick [OF m] by blast
  have "th_interval_ms h' = th_interval_ms h \<and> th_paused h' = th_paused h"
    by (rule controls_arrive [OF two_ranks_reached _ _ _ t1 t2]) (simp_all add: m [simplified])
  with t1 t2 i show ?thesis by simp
qed

end
