(* ===== verification/Telemetry_Server.thy ===== *)
theory Telemetry_Server
  imports Client_Outbox Control_Lines Telemetry_Hub
begin

text \<open>
  The server of the dashboard (\<open>src/telemetry/aggregator_tcp_server.cpp\<close>): a thread that accepts clients
  and one that, round after round, carries out what clients sent, builds a line when one is due, and
  serves every client. What the sockets give and take, the clocks, and the hub as the other threads
  leave it are arguments.
\<close>

section \<open>The line\<close>

definition build_broadcast_line :: "string \<Rightarrow> 64 word \<Rightarrow> 64 word \<Rightarrow> bool \<Rightarrow> bool \<Rightarrow> hub \<Rightarrow> string" where
  "build_broadcast_line version wall_ms now with_frames final h =
     (let p = \<lparr>bp_run_id = th_run_id h, bp_now_ms = wall_ms, bp_elapsed_seconds = program_elapsed_seconds now h,
            bp_topology = None, bp_run = None, bp_workers = None, bp_nodes = None, bp_paused = th_paused h, bp_final = final\<rparr>
      in if \<not> with_frames then serialize_paused_broadcast p @ [newline]
         else let nodes = tp_nodes (th_topology h);
                  workers = concat (map (\<lambda>n. List.map_filter (\<lambda>i. latest_rank_frame i h) (tn_worker_ids n)) nodes);
                  hosts = List.map_filter (\<lambda>n. latest_node_frame (tn_sentinel_worker_id n) h) nodes
              in serialize_broadcast (p\<lparr>bp_topology := Some (th_topology h), bp_run := Some (describe_run version h),
                   bp_workers := Some workers, bp_nodes := Some hosts\<rparr>) @ [newline])"

section \<open>Clients\<close>

definition k_outbox_lines :: nat where "k_outbox_lines = 16"
definition k_min_broadcast_interval :: nat where "k_min_broadcast_interval = 50"
definition k_final_flush_timeout :: nat where "k_final_flush_timeout = 1000"

definition broadcast_interval :: "hub \<Rightarrow> nat" where
  "broadcast_interval h = max (unat (th_interval_ms h)) k_min_broadcast_interval"

record client_state =
  cs_sock :: nat
  cs_inbox :: string
  cs_outbox :: outbox

definition new_client :: "nat \<Rightarrow> client_state" where
  "new_client sock = \<lparr>cs_sock = sock, cs_inbox = [], cs_outbox = new_outbox k_outbox_lines\<rparr>"

definition apply_command :: "client_command \<times> 64 word \<Rightarrow> hub \<Rightarrow> hub" where
  "apply_command entry h =
     (case entry of
        (Mark label, now) \<Rightarrow> snd (mark_run label DASHBOARD now h)
      | (Control ck v, now) \<Rightarrow> apply_control_from_client ck v now h
      | (Malformed n, now) \<Rightarrow> h)"

text \<open>
  The first half of a round: each client's lines are carried out; a client whose connection ended or whose
  inbox overflows is dead. \<open>clock s i\<close> is the hub's clock at the line \<open>i\<close> of the socket \<open>s\<close>.
\<close>

fun drain_clients :: "(nat \<Rightarrow> received list) \<Rightarrow> (nat \<Rightarrow> nat \<Rightarrow> 64 word) \<Rightarrow> client_state list \<Rightarrow> hub \<Rightarrow>
    client_state list \<times> nat list \<times> hub" where
  "drain_clients received clock [] h = ([], [], h)"
| "drain_clients received clock (c # cs) h =
     (case drain_inbound (cs_inbox c) (received (cs_sock c)) of
        None \<Rightarrow> let (cs', dead, h') = drain_clients received clock cs h in (c # cs', cs_sock c # dead, h')
      | Some (commands, rest) \<Rightarrow>
          let (cs', dead, h') = drain_clients received clock cs
                (fold apply_command (map (\<lambda>(i, m). (m, clock (cs_sock c) i)) (enumerate 0 commands)) h)
          in (c\<lparr>cs_inbox := rest\<rparr> # cs', dead, h'))"

text \<open>
  The second half: the line, if there is one, goes into the outbox of every client that is not dead, and
  each outbox is flushed. The result holds the clients, the dead, whether a line waits somewhere, the
  connections and what each of them took.
\<close>

fun serve_clients :: "(nat \<Rightarrow> nat sender) \<Rightarrow> string option \<Rightarrow> nat list \<Rightarrow> client_state list \<Rightarrow> (nat \<Rightarrow> nat) \<Rightarrow>
    (client_state list \<times> nat list \<times> bool \<times> (nat \<Rightarrow> nat) \<times> (nat \<times> string) list) res" where
  "serve_clients send line dead [] conns = Inr ([], dead, False, conns, [])"
| "serve_clients send line dead (c # cs) conns =
     (if cs_sock c \<in> set dead
      then rbind (serve_clients send line dead cs conns) (\<lambda>(cs', rest). Inr (c # cs', rest))
      else let ob = (case line of None \<Rightarrow> cs_outbox c | Some l \<Rightarrow> push l (cs_outbox c))
           in rbind (flush (send (cs_sock c)) (conns (cs_sock c)) ob) (\<lambda>(alive, ob', conn, out).
                rbind (serve_clients send line (if alive then dead else dead @ [cs_sock c]) cs (conns(cs_sock c := conn)))
                  (\<lambda>(cs', dead', backlog, conns', outs).
                     Inr (c\<lparr>cs_outbox := ob'\<rparr> # cs', dead', (alive \<and> \<not> outbox_empty ob') \<or> backlog, conns', (cs_sock c, out) # outs))))"

section \<open>The end\<close>

text \<open>\<open>flush_final_lines\<close>: clients marked as waiting are flushed until none waits or the deadline has passed.\<close>

fun flush_waiting :: "(nat \<Rightarrow> nat sender) \<Rightarrow> (client_state \<times> bool) list \<Rightarrow> (nat \<Rightarrow> nat) \<Rightarrow>
    ((client_state \<times> bool) list \<times> (nat \<Rightarrow> nat) \<times> (nat \<times> string) list) res" where
  "flush_waiting send [] conns = Inr ([], conns, [])"
| "flush_waiting send ((c, waiting) # cs) conns =
     (if \<not> waiting then rbind (flush_waiting send cs conns) (\<lambda>(cs', rest). Inr ((c, False) # cs', rest))
      else rbind (flush (send (cs_sock c)) (conns (cs_sock c)) (cs_outbox c)) (\<lambda>(alive, ob', conn, out).
             rbind (flush_waiting send cs (conns(cs_sock c := conn))) (\<lambda>(cs', conns', outs).
               Inr ((c\<lparr>cs_outbox := ob'\<rparr>, alive \<and> \<not> outbox_empty ob') # cs', conns', (cs_sock c, out) # outs))))"

text \<open>\<open>ts\<close> are the clock's readings after each pass; without one, the deadline has passed.\<close>

fun flush_final_lines :: "(nat \<Rightarrow> nat sender) \<Rightarrow> nat \<Rightarrow> nat list \<Rightarrow> (client_state \<times> bool) list \<Rightarrow> (nat \<Rightarrow> nat) \<Rightarrow>
    ((client_state \<times> bool) list \<times> (nat \<Rightarrow> nat) \<times> (nat \<times> string) list) res" where
  "flush_final_lines send deadline [] cs conns = flush_waiting send cs conns"
| "flush_final_lines send deadline (t # ts) cs conns =
     rbind (flush_waiting send cs conns) (\<lambda>(cs', conns', outs).
       if \<not> list_ex snd cs' \<or> deadline \<le> t then Inr (cs', conns', outs)
       else rbind (flush_final_lines send deadline ts cs' conns') (\<lambda>(cs2, conns2, outs2). Inr (cs2, conns2, outs @ outs2)))"

section \<open>The server\<close>

text \<open>Where the broadcasting thread is, with what it holds there; other threads run in between.\<close>

datatype server_point = Waiting | Polled "nat list" | Serving "nat list" "string option" | Stopped

record server =
  sv_hub :: hub
  sv_clients :: "client_state list"
  sv_last_broadcast :: nat
  sv_broadcast_snapshot :: "32 word"
  sv_backlog :: bool
  sv_conns :: "nat \<Rightarrow> nat"
  sv_point :: server_point

definition server_start :: "nat \<Rightarrow> (nat \<Rightarrow> nat) \<Rightarrow> hub \<Rightarrow> server" where
  "server_start now conns h = \<lparr>sv_hub = h, sv_clients = [], sv_last_broadcast = now, sv_broadcast_snapshot = 0,
     sv_backlog = False, sv_conns = conns, sv_point = Waiting\<rparr>"

definition accept_client :: "nat \<Rightarrow> nat \<Rightarrow> server \<Rightarrow> server" where
  "accept_client sock conn v = v\<lparr>sv_clients := sv_clients v @ [new_client sock], sv_conns := (sv_conns v)(sock := conn)\<rparr>"

definition poll_clients :: "(nat \<Rightarrow> received list) \<Rightarrow> (nat \<Rightarrow> nat \<Rightarrow> 64 word) \<Rightarrow> server \<Rightarrow> server" where
  "poll_clients received clock v =
     (let (cs, dead, h) = drain_clients received clock (sv_clients v) (sv_hub v)
      in v\<lparr>sv_clients := cs, sv_hub := h, sv_point := Polled dead\<rparr>)"

record line_times =
  lm_outstanding_ms :: "64 word"
  lm_now :: nat
  lm_broadcast :: nat
  lm_wall_ms :: "64 word"
  lm_elapsed_ms :: "64 word"

definition line_if_due :: "string \<Rightarrow> line_times \<Rightarrow> nat list \<Rightarrow> server \<Rightarrow> server" where
  "line_if_due version tm dead v =
     (let snapshot = th_snapshot_requested (sv_hub v);
          ready = (snapshot \<noteq> sv_broadcast_snapshot v \<and> \<not> snapshot_outstanding (lm_outstanding_ms tm) (sv_hub v))
      in if ready \<or> sv_last_broadcast v + broadcast_interval (sv_hub v) \<le> lm_now tm
         then v\<lparr>sv_last_broadcast := lm_broadcast tm,
                sv_broadcast_snapshot := (if ready then snapshot else sv_broadcast_snapshot v),
                sv_point := Serving dead (Some (build_broadcast_line version (lm_wall_ms tm) (lm_elapsed_ms tm)
                  (ready \<or> \<not> th_paused (sv_hub v)) False (sv_hub v)))\<rparr>
         else v\<lparr>sv_point := Serving dead None\<rparr>)"

definition serve_round :: "(nat \<Rightarrow> nat sender) \<Rightarrow> string option \<Rightarrow> nat list \<Rightarrow> server \<Rightarrow> (server \<times> (nat \<times> string) list) res" where
  "serve_round send line dead v =
     rbind (serve_clients send line dead (sv_clients v) (sv_conns v)) (\<lambda>(cs, dead', backlog, conns, outs).
       Inr (v\<lparr>sv_clients := filter (\<lambda>c. cs_sock c \<notin> set dead') cs, sv_backlog := backlog, sv_conns := conns,
              sv_point := Waiting\<rparr>, outs))"

text \<open>
  \<open>stop\<close>, once the threads have been joined: the clients as they were when their sockets were closed, and
  what they were sent.
\<close>

definition server_stop :: "string \<Rightarrow> line_times \<Rightarrow> (nat \<Rightarrow> nat sender) \<Rightarrow> nat list \<Rightarrow> server \<Rightarrow>
    (server \<times> client_state list \<times> (nat \<times> string) list) res" where
  "server_stop version tm send ts v =
     (let final = build_broadcast_line version (lm_wall_ms tm) (lm_elapsed_ms tm) True True (sv_hub v);
          cs = map (\<lambda>c. (c\<lparr>cs_outbox := push final (cs_outbox c)\<rparr>, True)) (sv_clients v)
      in rbind (if sv_clients v = [] then Inr ([], sv_conns v, [])
                else flush_final_lines send (lm_now tm + k_final_flush_timeout) ts cs (sv_conns v)) (\<lambda>(cs', conns, outs).
           Inr (v\<lparr>sv_clients := [], sv_conns := conns, sv_point := Stopped\<rparr>, map fst cs', outs)))"

end
