(* ===== verification/Server_Run.thy ===== *)
theory Server_Run
  imports Telemetry_Server
begin

text \<open>
  The server as a step relation: clients come, other threads change the hub, and the broadcasting thread
  makes one step of its round, or stops. Beside the server stand what was pushed for each socket since it was
  accepted, what each was sent since, and the clients that \<open>stop\<close> closed.
\<close>

definition gained :: "(nat \<times> string) list \<Rightarrow> nat \<Rightarrow> string" where
  "gained outs k = concat (map snd (filter (\<lambda>e. fst e = k) outs))"

definition line_list :: "string option \<Rightarrow> string list" where
  "line_list line = (case line of None \<Rightarrow> [] | Some l \<Rightarrow> [l])"

record served =
  sd_server :: server
  sd_pushed :: "nat \<Rightarrow> string list"
  sd_sent :: "nat \<Rightarrow> string"
  sd_closed :: "client_state list"

definition served_start :: "nat \<Rightarrow> (nat \<Rightarrow> nat) \<Rightarrow> hub \<Rightarrow> served" where
  "served_start now conns h = \<lparr>sd_server = server_start now conns h, sd_pushed = (\<lambda>k. []), sd_sent = (\<lambda>k. []), sd_closed = []\<rparr>"

inductive server_step :: "string \<Rightarrow> (nat \<Rightarrow> nat sender) \<Rightarrow> served \<Rightarrow> served \<Rightarrow> bool" for version send where
  accept: "sv_point (sd_server d) \<noteq> Stopped \<Longrightarrow> sock \<notin> cs_sock ` set (sv_clients (sd_server d)) \<Longrightarrow>
    server_step version send d (d\<lparr>sd_server := accept_client sock conn (sd_server d),
      sd_pushed := (sd_pushed d)(sock := []), sd_sent := (sd_sent d)(sock := [])\<rparr>)"
| hub: "server_step version send d (d\<lparr>sd_server := (sd_server d)\<lparr>sv_hub := h\<rparr>\<rparr>)"
| poll: "sv_point (sd_server d) = Waiting \<Longrightarrow>
    server_step version send d (d\<lparr>sd_server := poll_clients received clock (sd_server d)\<rparr>)"
| line: "sv_point (sd_server d) = Polled dead \<Longrightarrow>
    server_step version send d (d\<lparr>sd_server := line_if_due version tm dead (sd_server d)\<rparr>)"
| serve: "sv_point (sd_server d) = Serving dead line \<Longrightarrow> serve_round send line dead (sd_server d) = Inr (v, outs) \<Longrightarrow>
    server_step version send d (d\<lparr>sd_server := v, sd_pushed := (\<lambda>k. sd_pushed d k @ line_list line),
      sd_sent := (\<lambda>k. sd_sent d k @ gained outs k)\<rparr>)"
| stop: "sv_point (sd_server d) = Waiting \<Longrightarrow> server_stop version tm send ts (sd_server d) = Inr (v, gone, outs) \<Longrightarrow>
    server_step version send d (d\<lparr>sd_server := v,
      sd_pushed := (\<lambda>k. sd_pushed d k @ [build_broadcast_line version (lm_wall_ms tm) (lm_elapsed_ms tm) True True (sv_hub (sd_server d))]),
      sd_sent := (\<lambda>k. sd_sent d k @ gained outs k), sd_closed := gone\<rparr>)"

inductive server_reach :: "string \<Rightarrow> (nat \<Rightarrow> nat sender) \<Rightarrow> served \<Rightarrow> served \<Rightarrow> bool" for version send d where
  start: "server_reach version send d d"
| step: "server_reach version send d x \<Longrightarrow> server_step version send x y \<Longrightarrow> server_reach version send d y"

section \<open>One client\<close>

definition honest :: "(nat \<Rightarrow> nat sender) \<Rightarrow> bool" where
  "honest send \<longleftrightarrow> (\<forall>sock bytes s k s'. send sock bytes s = (Some k, s') \<longrightarrow> k \<le> length bytes)"

definition client_reached :: "(nat \<Rightarrow> string list) \<Rightarrow> (nat \<Rightarrow> string) \<Rightarrow> client_state \<Rightarrow> bool" where
  "client_reached pushed sent c \<longleftrightarrow> outbox_reached k_outbox_lines (pushed (cs_sock c)) (sent (cs_sock c)) (cs_outbox c)"

lemma honestD: "honest send \<Longrightarrow> send sock bytes s = (Some k, s') \<Longrightarrow> k \<le> length bytes"
  unfolding honest_def by blast

lemma flush_reached:
  assumes "honest send" and r: "outbox_reached n pushed sent ob"
  obtains alive ob' conn out where "flush (send sock) s ob = Inr (alive, ob', conn, out)"
    "outbox_reached n pushed (sent @ out) ob'"
proof -
  have h: "\<And>bytes s k s'. send sock bytes s = (Some k, s') \<Longrightarrow> k \<le> length bytes" using honestD [OF assms(1)] by blast
  obtain alive ob' conn out where f: "flush (send sock) s ob = Inr (alive, ob', conn, out)"
    using flush_ok [where send = "send sock", OF conjunct1 [OF outbox_reached_ok [OF r]]] h by meson
  have "outbox_reached n pushed (sent @ out) ob'"
    by (rule outbox_reached.flushed [OF r _ f]) (erule h)
  with f show thesis using that by blast
qed

lemma push_reached:
  "outbox_reached n pushed sent ob \<Longrightarrow>
     outbox_reached n (pushed @ line_list line) sent (case line of None \<Rightarrow> ob | Some l \<Rightarrow> push l ob)"
  by (cases line) (auto simp: line_list_def intro: outbox_reached.pushed)

lemma gained_simps [simp]:
  "gained [] k = []" "gained ((k', out) # outs) k = (if k' = k then out @ gained outs k else gained outs k)"
  "gained (outs @ outs') k = gained outs k @ gained outs' k"
  by (simp_all add: gained_def)

lemma gained_other: "k \<notin> fst ` set outs \<Longrightarrow> gained outs k = []"
  by (induction outs) auto

section \<open>All clients\<close>

text \<open>What serving does to the clients that are not dead.\<close>

definition serve_ok :: "(nat \<Rightarrow> string list) \<Rightarrow> (nat \<Rightarrow> string) \<Rightarrow> string option \<Rightarrow> nat list \<Rightarrow> client_state list \<Rightarrow>
    client_state list \<Rightarrow> nat list \<Rightarrow> (nat \<times> string) list \<Rightarrow> bool" where
  "serve_ok pushed sent line dead cs cs' dead' outs \<longleftrightarrow>
     map cs_sock cs' = map cs_sock cs \<and> set dead \<subseteq> set dead' \<and> fst ` set outs \<subseteq> cs_sock ` set cs \<and>
     (\<forall>c \<in> set cs'. cs_sock c \<notin> set dead \<longrightarrow>
        client_reached (\<lambda>k. pushed k @ line_list line) (\<lambda>k. sent k @ gained outs k) c)"

lemma serve_clients_ok:
  assumes "honest send"
  shows "distinct (map cs_sock cs) \<Longrightarrow> \<forall>c \<in> set cs. client_reached pushed sent c \<Longrightarrow>
    \<exists>cs' dead' backlog conns' outs. serve_clients send line dead cs conns = Inr (cs', dead', backlog, conns', outs) \<and>
      serve_ok pushed sent line dead cs cs' dead' outs"
proof (induction cs arbitrary: dead conns)
  case Nil
  show ?case by (auto simp: serve_ok_def)
next
  case (Cons c cs)
  have d: "distinct (map cs_sock cs)" "\<forall>c \<in> set cs. client_reached pushed sent c" using Cons.prems by simp_all
  show ?case
  proof (cases "cs_sock c \<in> set dead")
    case True
    from Cons.IH [OF d, of dead conns] obtain cs' dead' backlog conns' outs where
      s: "serve_clients send line dead cs conns = Inr (cs', dead', backlog, conns', outs)"
      "serve_ok pushed sent line dead cs cs' dead' outs" by blast
    from s(2) True have "serve_ok pushed sent line dead (c # cs) (c # cs') dead' outs" by (auto simp: serve_ok_def)
    with s(1) True show ?thesis by simp
  next
    case False
    let ?ob = "case line of None \<Rightarrow> cs_outbox c | Some l \<Rightarrow> push l (cs_outbox c)"
    have "outbox_reached k_outbox_lines (pushed (cs_sock c) @ line_list line) (sent (cs_sock c)) ?ob"
      using Cons.prems(2) by (intro push_reached) (simp add: client_reached_def)
    from flush_reached [OF assms(1) this] obtain alive ob' conn out where
      f: "flush (send (cs_sock c)) (conns (cs_sock c)) ?ob = Inr (alive, ob', conn, out)"
      and r: "outbox_reached k_outbox_lines (pushed (cs_sock c) @ line_list line) (sent (cs_sock c) @ out) ob'" by blast
    let ?dead = "if alive then dead else dead @ [cs_sock c]"
    from Cons.IH [OF d, of ?dead "conns(cs_sock c := conn)"] obtain cs' dead' backlog conns' outs where
      s: "serve_clients send line ?dead cs (conns(cs_sock c := conn)) = Inr (cs', dead', backlog, conns', outs)"
      and o: "serve_ok pushed sent line ?dead cs cs' dead' outs" by blast
    have n: "cs_sock c \<notin> cs_sock ` set cs" using Cons.prems(1) by simp
    then have g: "gained outs (cs_sock c) = []" using o by (intro gained_other) (auto simp: serve_ok_def)
    have socks: "cs_sock ` set cs' = cs_sock ` set cs" using o unfolding serve_ok_def by (metis list.set_map)
    let ?c = "c\<lparr>cs_outbox := ob'\<rparr>"
    have "serve_clients send line dead (c # cs) conns =
        Inr (?c # cs', dead', (alive \<and> \<not> outbox_empty ob') \<or> backlog, conns', (cs_sock c, out) # outs)"
      using False f s by (simp add: Let_def split del: if_split)
    moreover have "serve_ok pushed sent line dead (c # cs) (?c # cs') dead' ((cs_sock c, out) # outs)"
      unfolding serve_ok_def
    proof (intro conjI ballI impI)
      fix x assume x: "x \<in> set (?c # cs')" "cs_sock x \<notin> set dead"
      show "client_reached (\<lambda>k. pushed k @ line_list line) (\<lambda>k. sent k @ gained ((cs_sock c, out) # outs) k) x"
      proof (cases "x \<in> set cs'")
        case True
        then have "cs_sock x \<noteq> cs_sock c" using n socks by (metis imageI)
        with True x(2) o show ?thesis by (simp add: client_reached_def serve_ok_def split: if_splits)
      next
        case False
        with x(1) r g show ?thesis by (simp add: client_reached_def)
      qed
    qed (use o in \<open>auto simp: serve_ok_def split: if_splits\<close>)
    ultimately show ?thesis by blast
  qed
qed

text \<open>Flushing at the end pushes nothing.\<close>

definition entry_sock :: "client_state \<times> bool \<Rightarrow> nat" where
  "entry_sock e = cs_sock (fst e)"

lemma entry_sock_pair [simp]: "entry_sock (c, b) = cs_sock c"
  by (simp add: entry_sock_def)

definition entries_ok :: "(nat \<Rightarrow> string list) \<Rightarrow> (nat \<Rightarrow> string) \<Rightarrow> (client_state \<times> bool) list \<Rightarrow> bool" where
  "entries_ok pushed sent cs \<longleftrightarrow> distinct (map entry_sock cs) \<and> (\<forall>e \<in> set cs. client_reached pushed sent (fst e))"

lemma entries_okI:
  assumes "cs_sock c \<notin> entry_sock ` set cs" and "client_reached pushed sent c" and "entries_ok pushed sent cs"
  shows "entries_ok pushed sent ((c, b) # cs)"
  using assms by (auto simp: entries_ok_def)

lemma flush_waiting_ok:
  assumes "honest send"
  shows "entries_ok pushed sent cs \<Longrightarrow>
    \<exists>cs' conns' outs. flush_waiting send cs conns = Inr (cs', conns', outs) \<and>
      map entry_sock cs' = map entry_sock cs \<and> fst ` set outs \<subseteq> entry_sock ` set cs \<and>
      entries_ok pushed (\<lambda>k. sent k @ gained outs k) cs'"
proof (induction cs arbitrary: conns)
  case Nil
  show ?case by (simp add: entries_ok_def)
next
  case (Cons e cs)
  obtain c w where e: "e = (c, w)" by (metis prod.exhaust)
  have n: "cs_sock c \<notin> entry_sock ` set cs" using Cons.prems by (simp add: entries_ok_def e)
  have d: "entries_ok pushed sent cs" using Cons.prems by (simp add: entries_ok_def)
  have c: "client_reached pushed sent c" using Cons.prems by (simp add: entries_ok_def e)
  show ?case
  proof (cases w)
    case False
    from Cons.IH [OF d, of conns] obtain cs' conns' outs where
      s: "flush_waiting send cs conns = Inr (cs', conns', outs)" "map entry_sock cs' = map entry_sock cs"
      "fst ` set outs \<subseteq> entry_sock ` set cs" "entries_ok pushed (\<lambda>k. sent k @ gained outs k) cs'" by blast
    have g: "gained outs (cs_sock c) = []" using s(3) n by (intro gained_other) blast
    have n': "cs_sock c \<notin> entry_sock ` set cs'" using n s(2) by (metis list.set_map)
    have "entries_ok pushed (\<lambda>k. sent k @ gained outs k) ((c, False) # cs')"
      using c g by (intro entries_okI n' s(4)) (simp add: client_reached_def)
    with s False show ?thesis unfolding e by auto
  next
    case True
    from flush_reached [OF assms c [unfolded client_reached_def]] obtain alive ob' conn out where
      f: "flush (send (cs_sock c)) (conns (cs_sock c)) (cs_outbox c) = Inr (alive, ob', conn, out)"
      and r: "outbox_reached k_outbox_lines (pushed (cs_sock c)) (sent (cs_sock c) @ out) ob'" by blast
    from Cons.IH [OF d, of "conns(cs_sock c := conn)"] obtain cs' conns' outs where
      s: "flush_waiting send cs (conns(cs_sock c := conn)) = Inr (cs', conns', outs)"
      "map entry_sock cs' = map entry_sock cs" "fst ` set outs \<subseteq> entry_sock ` set cs"
      "entries_ok pushed (\<lambda>k. sent k @ gained outs k) cs'" by blast
    have g: "gained outs (cs_sock c) = []" using s(3) n by (intro gained_other) blast
    have n': "cs_sock c \<notin> entry_sock ` set cs'" using n s(2) by (metis list.set_map)
    let ?c = "c\<lparr>cs_outbox := ob'\<rparr>"
    let ?outs = "(cs_sock c, out) # outs"
    have "client_reached pushed (\<lambda>k. sent k @ gained ?outs k) (fst x)" if "x \<in> set cs'" for x
    proof -
      have "cs_sock (fst x) \<noteq> cs_sock c" using n' that by (metis entry_sock_def image_eqI)
      with s(4) that show ?thesis by (simp add: entries_ok_def client_reached_def)
    qed
    then have "entries_ok pushed (\<lambda>k. sent k @ gained ?outs k) cs'" using s(4) by (simp add: entries_ok_def)
    moreover have "client_reached pushed (\<lambda>k. sent k @ gained ?outs k) ?c" using r g by (simp add: client_reached_def)
    ultimately have "entries_ok pushed (\<lambda>k. sent k @ gained ?outs k) ((?c, alive \<and> \<not> outbox_empty ob') # cs')"
      using n' by (intro entries_okI) simp_all
    moreover have "flush_waiting send (e # cs) conns = Inr ((?c, alive \<and> \<not> outbox_empty ob') # cs', conns', ?outs)"
      using f s(1) True by (simp add: e)
    moreover have "map entry_sock ((?c, alive \<and> \<not> outbox_empty ob') # cs') = map entry_sock (e # cs)" using s(2) by (simp add: e)
    moreover have "fst ` set ?outs \<subseteq> entry_sock ` set (e # cs)" using s(3) by (auto simp: e)
    ultimately show ?thesis by blast
  qed
qed

lemma flush_final_ok:
  assumes "honest send"
  shows "entries_ok pushed sent cs \<Longrightarrow>
    \<exists>cs' conns' outs. flush_final_lines send deadline ts cs conns = Inr (cs', conns', outs) \<and>
      entries_ok pushed (\<lambda>k. sent k @ gained outs k) cs'"
proof (induction ts arbitrary: sent cs conns)
  case Nil
  from flush_waiting_ok [OF assms Nil, of conns] show ?case by auto
next
  case (Cons t ts)
  from flush_waiting_ok [OF assms Cons.prems, of conns] obtain cs1 conns1 outs1 where
    f: "flush_waiting send cs conns = Inr (cs1, conns1, outs1)" "entries_ok pushed (\<lambda>k. sent k @ gained outs1 k) cs1" by blast
  show ?case
  proof (cases "\<not> list_ex snd cs1 \<or> deadline \<le> t")
    case True
    with f show ?thesis by auto
  next
    case False
    from Cons.IH [OF f(2), of conns1] obtain cs2 conns2 outs2 where
      g: "flush_final_lines send deadline ts cs1 conns1 = Inr (cs2, conns2, outs2)"
      "entries_ok pushed (\<lambda>k. (sent k @ gained outs1 k) @ gained outs2 k) cs2" by blast
    then have "entries_ok pushed (\<lambda>k. sent k @ gained (outs1 @ outs2) k) cs2" by simp
    moreover have "flush_final_lines send deadline (t # ts) cs conns = Inr (cs2, conns2, outs1 @ outs2)"
      using f(1) g(1) False by simp
    ultimately show ?thesis by blast
  qed
qed

section \<open>A run\<close>

definition served_ok :: "served \<Rightarrow> bool" where
  "served_ok d \<longleftrightarrow> distinct (map cs_sock (sv_clients (sd_server d))) \<and>
     (\<forall>c \<in> set (sv_clients (sd_server d)) \<union> set (sd_closed d). client_reached (sd_pushed d) (sd_sent d) c) \<and>
     (sv_point (sd_server d) \<noteq> Stopped \<longrightarrow> sd_closed d = [])"

lemma start_served: "served_ok (served_start now conns h)"
  by (simp add: served_ok_def served_start_def server_start_def)

lemma drain_clients_keeps:
  "map cs_sock (fst (drain_clients received clock cs h)) = map cs_sock cs \<and>
   map cs_outbox (fst (drain_clients received clock cs h)) = map cs_outbox cs"
  by (induction cs arbitrary: h) (auto simp: split_def Let_def split: option.splits)

lemma drain_clients_same:
  "drain_clients received clock cs h = (cs', dead, h') \<Longrightarrow>
     map cs_sock cs' = map cs_sock cs \<and> map cs_outbox cs' = map cs_outbox cs"
  using drain_clients_keeps [of received clock cs h] by simp

lemma same_reached:
  assumes "map cs_sock cs' = map cs_sock cs" and "map cs_outbox cs' = map cs_outbox cs" and "\<forall>c \<in> set cs. client_reached p s c"
  shows "\<forall>c \<in> set cs'. client_reached p s c"
proof
  fix c assume "c \<in> set cs'"
  then obtain i where i: "i < length cs'" "c = cs' ! i" by (metis in_set_conv_nth)
  have l: "length cs = length cs'" using assms(1) by (metis length_map)
  from i l assms(1,2) have "cs_sock c = cs_sock (cs ! i)" "cs_outbox c = cs_outbox (cs ! i)" by (metis nth_map)+
  then show "client_reached p s c" using assms(3) i(1) l by (simp add: client_reached_def)
qed

lemma server_stop_ok:
  assumes "honest send" and ok: "distinct (map cs_sock (sv_clients v))" "\<forall>c \<in> set (sv_clients v). client_reached p s c"
  shows "\<exists>v' cs outs. server_stop version tm send ts v = Inr (v', cs, outs) \<and> sv_clients v' = [] \<and> sv_point v' = Stopped \<and>
    (\<forall>c \<in> set cs. client_reached (\<lambda>k. p k @ [build_broadcast_line version (lm_wall_ms tm) (lm_elapsed_ms tm) True True (sv_hub v)])
       (\<lambda>k. s k @ gained outs k) c)"
proof (cases "sv_clients v = []")
  case True
  then show ?thesis by (simp add: server_stop_def)
next
  case False
  let ?l = "build_broadcast_line version (lm_wall_ms tm) (lm_elapsed_ms tm) True True (sv_hub v)"
  let ?p = "\<lambda>k. p k @ [?l]"
  let ?cs = "map (\<lambda>c. (c\<lparr>cs_outbox := push ?l (cs_outbox c)\<rparr>, True)) (sv_clients v)"
  have a: "map entry_sock ?cs = map cs_sock (sv_clients v)" by simp
  have "distinct (map entry_sock ?cs)" unfolding a by (rule ok(1))
  moreover have "client_reached ?p s (fst e)" if "e \<in> set ?cs" for e
    using ok(2) that by (auto simp: client_reached_def intro!: outbox_reached.pushed)
  ultimately have "entries_ok ?p s ?cs" unfolding entries_ok_def by blast
  from flush_final_ok [OF assms(1) this, of "lm_now tm + k_final_flush_timeout" ts "sv_conns v"]
  obtain cs' conns' outs where f: "flush_final_lines send (lm_now tm + k_final_flush_timeout) ts ?cs (sv_conns v) = Inr (cs', conns', outs)"
    "entries_ok ?p (\<lambda>k. s k @ gained outs k) cs'" by blast
  have "\<forall>c \<in> set (map fst cs'). client_reached ?p (\<lambda>k. s k @ gained outs k) c" using f(2) by (auto simp: entries_ok_def)
  moreover have "server_stop version tm send ts v =
      Inr (v\<lparr>sv_clients := [], sv_conns := conns', sv_point := Stopped\<rparr>, map fst cs', outs)"
    using False f(1) by (simp add: server_stop_def)
  ultimately show ?thesis
    by (intro exI [of _ "v\<lparr>sv_clients := [], sv_conns := conns', sv_point := Stopped\<rparr>"] exI [of _ "map fst cs'"] exI [of _ outs]) simp
qed

lemma serve_server_ok:
  assumes "honest send" and ok: "distinct (map cs_sock (sv_clients v))" "\<forall>c \<in> set (sv_clients v). client_reached p s c"
  shows "\<exists>v' outs. serve_round send line dead v = Inr (v', outs) \<and> distinct (map cs_sock (sv_clients v')) \<and>
    (\<forall>c \<in> set (sv_clients v'). client_reached (\<lambda>k. p k @ line_list line) (\<lambda>k. s k @ gained outs k) c) \<and> sv_point v' = Waiting"
proof -
  from serve_clients_ok [OF assms, of line dead "sv_conns v"] obtain cs' dead' backlog conns' outs where
    f: "serve_clients send line dead (sv_clients v) (sv_conns v) = Inr (cs', dead', backlog, conns', outs)"
    "serve_ok p s line dead (sv_clients v) cs' dead' outs" by blast
  have "distinct (map cs_sock cs')" using f(2) ok(1) by (simp add: serve_ok_def)
  then have "distinct (map cs_sock (filter (\<lambda>c. cs_sock c \<notin> set dead') cs'))" by (rule distinct_map_filter)
  with f show ?thesis by (auto simp: serve_round_def serve_ok_def)
qed

lemma step_served:
  assumes "server_step version send d d'" and "honest send" and "served_ok d"
  shows "served_ok d'"
  using assms(1)
proof cases
  case (accept sock conn)
  with assms(3) have "sd_closed d = []" by (simp add: served_ok_def)
  moreover have "client_reached ((sd_pushed d)(sock := [])) ((sd_sent d)(sock := [])) c"
    if "c \<in> set (sv_clients (sd_server d))" for c
  proof -
    from that accept(3) have "cs_sock c \<noteq> sock" by blast
    with assms(3) that show ?thesis by (simp add: served_ok_def client_reached_def)
  qed
  moreover have "client_reached ((sd_pushed d)(sock := [])) ((sd_sent d)(sock := [])) (new_client sock)"
    by (simp add: client_reached_def new_client_def outbox_reached.start)
  ultimately show ?thesis using assms(3) accept by (auto simp: served_ok_def accept_client_def new_client_def)
next
  case (hub h)
  with assms(3) show ?thesis by (simp add: served_ok_def)
next
  case (poll received clock)
  obtain cs' dead h' where f: "drain_clients received clock (sv_clients (sd_server d)) (sv_hub (sd_server d)) = (cs', dead, h')"
    by (metis prod.exhaust)
  note m = drain_clients_same [OF f]
  have "\<forall>c \<in> set cs'. client_reached (sd_pushed d) (sd_sent d) c"
    using m assms(3) by (intro same_reached [of cs' "sv_clients (sd_server d)"]) (simp_all add: served_ok_def)
  with poll f m assms(3) show ?thesis by (simp add: served_ok_def poll_clients_def)
next
  case (line dead tm)
  with assms(3) show ?thesis by (simp add: served_ok_def line_if_due_def Let_def)
next
  case (serve dead line v outs)
  obtain v' outs' where "serve_round send line dead (sd_server d) = Inr (v', outs')" "distinct (map cs_sock (sv_clients v'))"
    "\<forall>c \<in> set (sv_clients v'). client_reached (\<lambda>k. sd_pushed d k @ line_list line) (\<lambda>k. sd_sent d k @ gained outs' k) c" "sv_point v' = Waiting"
    using serve_server_ok [OF assms(2), of "sd_server d" "sd_pushed d" "sd_sent d" line dead] assms(3) by (auto simp: served_ok_def)
  moreover have "sd_closed d = []" using serve(2) assms(3) by (simp add: served_ok_def)
  ultimately show ?thesis using serve by (simp add: served_ok_def)
next
  case (stop tm ts v gone outs)
  obtain v' cs outs' where "server_stop version tm send ts (sd_server d) = Inr (v', cs, outs')" "sv_clients v' = []" "sv_point v' = Stopped"
    "\<forall>c \<in> set cs. client_reached (\<lambda>k. sd_pushed d k @ [build_broadcast_line version (lm_wall_ms tm) (lm_elapsed_ms tm) True True (sv_hub (sd_server d))])
       (\<lambda>k. sd_sent d k @ gained outs' k) c"
    using server_stop_ok [OF assms(2), of "sd_server d" "sd_pushed d" "sd_sent d" version tm ts] assms(3) by (auto simp: served_ok_def)
  with stop show ?thesis by (simp add: served_ok_def)
qed

lemma reach_served: "server_reach version send d d' \<Longrightarrow> honest send \<Longrightarrow> served_ok d \<Longrightarrow> served_ok d'"
  by (induction rule: server_reach.induct) (blast intro: step_served)+

text \<open>C27: Whatever clients connect, send and disconnect, however slowly or badly their connections take
  what they are offered, and whatever the other threads do to the hub in between: every client of the server,
  and every one that \<open>stop\<close> closed, has received whole lines of those broadcast since it connected, in order,
  and then the start of the line still going out; the newest line is among those received or waiting, at
  most 17 lines wait, and neither a round nor \<open>stop\<close> fails.\<close>

theorem every_client_whole_lines:
  assumes "server_reach version send (served_start now conns h) d" and "honest send"
    and "c \<in> set (sv_clients (sd_server d)) \<union> set (sd_closed d)"
  shows "(\<exists>whole. sd_sent d (cs_sock c) =
        concat whole @ take (ob_front_written (cs_outbox c)) (concat (take 1 (ob_lines (cs_outbox c)))) \<and>
      subseq (whole @ ob_lines (cs_outbox c)) (sd_pushed d (cs_sock c)) \<and>
      (if sd_pushed d (cs_sock c) = [] then ob_lines (cs_outbox c) = []
       else last (whole @ ob_lines (cs_outbox c)) = last (sd_pushed d (cs_sock c)))) \<and>
    length (ob_lines (cs_outbox c)) \<le> 17 \<and> is_ok (serve_round send line dead (sd_server d)) \<and>
    is_ok (server_stop version tm send ts (sd_server d))"
proof -
  have ok: "served_ok d" using reach_served [OF assms(1,2) start_served] .
  then have r: "outbox_reached 16 (sd_pushed d (cs_sock c)) (sd_sent d (cs_sock c)) (cs_outbox c)"
    using assms(3) unfolding served_ok_def client_reached_def k_outbox_lines_def by blast
  have d: "distinct (map cs_sock (sv_clients (sd_server d)))" "\<forall>c \<in> set (sv_clients (sd_server d)). client_reached (sd_pushed d) (sd_sent d) c"
    using ok by (simp_all add: served_ok_def)
  have "is_ok (serve_round send line dead (sd_server d))" "is_ok (server_stop version tm send ts (sd_server d))"
    using serve_server_ok [OF assms(2) d, of line dead] server_stop_ok [OF assms(2) d, of version tm ts] by (auto simp: is_ok_iff)
  then show ?thesis using outbox_lines [OF r] by simp
qed

lemmas server_defs = poll_clients_def served_start_def server_start_def accept_client_def new_client_def drain_inbound_def
  take_lines.simps line_if_due_def Let_def new_hub_def broadcast_interval_def k_min_broadcast_interval_def

lemma every_client_whole_lines_witness:
  "\<exists>d l. server_reach [] (\<lambda>k. slow_sender) (served_start 0 (\<lambda>k. 2) new_hub) d \<and> map cs_sock (sv_clients (sd_server d)) = [7] \<and>
     sv_point (sd_server d) = Serving [] (Some l) \<and> is_ok (serve_round (\<lambda>k. slow_sender) (Some l) [] (sd_server d))"
proof -
  let ?s = "\<lambda>k :: nat. slow_sender"
  let ?tm = "\<lparr>lm_outstanding_ms = 0, lm_now = 700, lm_broadcast = 700, lm_wall_ms = 5, lm_elapsed_ms = 6\<rparr>"
  let ?d0 = "served_start 0 (\<lambda>k. 2) new_hub"
  let ?d1 = "?d0\<lparr>sd_server := accept_client 7 2 (sd_server ?d0), sd_pushed := (sd_pushed ?d0)(7 := []), sd_sent := (sd_sent ?d0)(7 := [])\<rparr>"
  let ?d2 = "?d1\<lparr>sd_server := poll_clients (\<lambda>k. []) (\<lambda>k i. 0) (sd_server ?d1)\<rparr>"
  let ?d3 = "?d2\<lparr>sd_server := line_if_due [] ?tm [] (sd_server ?d2)\<rparr>"
  have "server_step [] ?s ?d0 ?d1" by (rule server_step.accept) (simp_all add: served_start_def server_start_def)
  moreover have "server_step [] ?s ?d1 ?d2"
    by (rule server_step.poll) (simp add: served_start_def server_start_def accept_client_def)
  moreover have "server_step [] ?s ?d2 ?d3" by (rule server_step.line) (simp add: server_defs)
  ultimately have r: "server_reach [] ?s ?d0 ?d3" by (meson server_reach.start server_reach.step)
  have c: "sv_clients (sd_server ?d3) = [new_client 7]" by (simp add: server_defs)
  obtain l where l: "sv_point (sd_server ?d3) = Serving [] (Some l)" by (simp add: server_defs)
  have "honest ?s" by (auto simp: honest_def slow_sender_def split: if_splits)
  then have "is_ok (serve_round ?s (Some l) [] (sd_server ?d3))"
    using every_client_whole_lines [OF r, of "new_client 7" "Some l" "[]"] c by simp
  with r c l show ?thesis by (intro exI [of _ ?d3] exI [of _ l]) (simp add: new_client_def)
qed

end
