(* ===== verification/Detection_Ends.thy ===== *)
theory Detection_Ends
  imports Dijkstra_Scholten
begin

text \<open>
  Once no task is sent any more, the detection comes to its end: every step uses up some of what is left
  to do, and where none is possible the root knows.
\<close>

section \<open>What is left to do\<close>

definition engaged :: "ds \<Rightarrow> rank set" where
  "engaged s = {q. in_world (ds_world s) q \<and> td_parent (ds_dets s q) \<noteq> NO_PARENT}"

definition active_ranks :: "ds \<Rightarrow> rank set" where
  "active_ranks s = {q. in_world (ds_world s) q \<and> ds_active s q}"

definition left_to_do :: "ds \<Rightarrow> nat" where
  "left_to_do s = 4 * size (ds_tasks s) + size (ds_acks s) + 2 * card (engaged s) + card (active_ranks s)"

text \<open>A step that sends no task.\<close>

inductive ds_closing :: "ds \<Rightarrow> ds \<Rightarrow> bool" where
  receive: "(p, q) \<in># ds_tasks s \<Longrightarrow> ds_closing s (ds_receive s p q)"
| finish: "ds_active s p \<Longrightarrow> in_world (ds_world s) p \<Longrightarrow> ds_closing s (ds_finish s p)"
| ack: "(q, p) \<in># ds_acks s \<Longrightarrow> \<not> ds_active s p \<or> p = 0 \<Longrightarrow> ds_closing s (ds_ack s q p)"

lemma closing_step: "ds_closing s t \<Longrightarrow> ds_step s t"
  by (induction rule: ds_closing.induct) (auto intro: ds_step.intros)

lemma world_finite: "finite {q. in_world n q \<and> P q}"
  by (rule finite_subset [of _ "{0..<n}"]) (auto simp: in_world_def)

lemma finite_sets [simp]: "finite (engaged s)" "finite (active_ranks s)"
  unfolding engaged_def active_ranks_def by (rule world_finite)+

lemma size_take: "m \<in># M \<Longrightarrow> size M = size (M - {#m#}) + 1"
  by (metis Suc_eq_plus1 insert_DiffM size_add_mset)

lemma receive_less:
  assumes inv: "ds_inv s" and m: "(p, q) \<in># ds_tasks s"
  shows "left_to_do (ds_receive s p q) < left_to_do s"
proof -
  have q: "in_world (ds_world s) q" using inv m by (auto simp: ds_inv_but_def msgs_ok_def)
  have t: "size (ds_tasks s) = size (ds_tasks s - {#(p, q)#}) + 1" by (rule size_take [OF m])
  let ?t = "ds_receive s p q"
  have "active_ranks ?t = insert q (active_ranks s)"
    using q by (auto simp: active_ranks_def ds_receive_def split: prod.split)
  then have a: "card (active_ranks ?t) \<le> card (active_ranks s) + 1" by (simp add: card_insert_if)
  have n: "ds_tasks ?t = ds_tasks s - {#(p, q)#}" by (simp add: ds_receive_def split: prod.split)
  show ?thesis
  proof (cases "td_is_root (ds_dets s q) \<or> td_parent (ds_dets s q) \<noteq> NO_PARENT")
    case True
    then have "engaged ?t = engaged s" "size (ds_acks ?t) = size (ds_acks s) + 1"
      by (simp_all add: engaged_def ds_receive_def on_task_received_engaged)
    with a n t show ?thesis by (simp add: left_to_do_def)
  next
    case False
    then have "engaged ?t \<subseteq> insert q (engaged s)" "ds_acks ?t = ds_acks s"
      by (auto simp: engaged_def ds_receive_def on_task_received_fresh split: if_splits)
    moreover from this(1) have "card (engaged ?t) \<le> card (insert q (engaged s))" by (intro card_mono) simp_all
    then have "card (engaged ?t) \<le> card (engaged s) + 1" by (simp add: card_insert_if split: if_splits)
    ultimately show ?thesis using a n t by (simp add: left_to_do_def)
  qed
qed

lemma passive_less:
  assumes "parents_ok s"
  shows "left_to_do (ds_passive s p) \<le> left_to_do s"
proof (cases "td_deficit (ds_dets s p) = 0 \<and> td_parent (ds_dets s p) \<noteq> NO_PARENT")
  case True
  then have "in_world (ds_world s) p" using assms by (simp add: parents_ok_def)
  with True have "p \<in> engaged s" by (simp add: engaged_def)
  moreover have t: "ds_passive s p = s\<lparr>ds_dets := (ds_dets s)(p := (ds_dets s p)\<lparr>td_parent := NO_PARENT\<rparr>),
      ds_acks := add_mset (p, td_parent (ds_dets s p)) (ds_acks s)\<rparr>" using True by (intro ds_passive_release) simp_all
  have "engaged (ds_passive s p) = engaged s - {p}" unfolding t by (auto simp: engaged_def)
  ultimately have "card (engaged s) = card (engaged (ds_passive s p)) + 1" using card.remove [of "engaged s" p] by simp
  moreover have "size (ds_acks (ds_passive s p)) = size (ds_acks s) + 1" "ds_tasks (ds_passive s p) = ds_tasks s"
    "active_ranks (ds_passive s p) = active_ranks s" unfolding t by (simp_all add: active_ranks_def)
  ultimately show ?thesis by (simp add: left_to_do_def)
next
  case False
  then have "ds_passive s p = s" by (intro ds_passive_held) blast
  then show ?thesis by simp
qed

lemma closing_less:
  assumes "ds_closing s t" and inv: "ds_inv s"
  shows "left_to_do t < left_to_do s"
  using assms(1)
proof cases
  case (receive p q)
  then show ?thesis using receive_less [OF inv] by simp
next
  case (finish p)
  let ?u = "s\<lparr>ds_active := (ds_active s)(p := False)\<rparr>"
  have "active_ranks ?u = active_ranks s - {p}" by (auto simp: active_ranks_def)
  moreover have "p \<in> active_ranks s" using finish by (simp add: active_ranks_def)
  ultimately have "card (active_ranks s) = card (active_ranks ?u) + 1" using card.remove [of "active_ranks s" p] by simp
  moreover have "engaged ?u = engaged s" by (simp add: engaged_def)
  ultimately have "left_to_do ?u < left_to_do s" by (simp add: left_to_do_def)
  moreover have "parents_ok ?u" using inv by (simp add: ds_inv_but_def parents_ok_def)
  ultimately show ?thesis using passive_less [of ?u p] finish(1) by (simp add: ds_finish_def)
next
  case (ack q p)
  let ?u = "ds_take_ack s q p"
  have i: "ds_inv_but {p} ?u" by (rule ds_take_ack_inv [OF inv ack(2)])
  have "0 < td_deficit (ds_dets s p)" by (rule ds_ack_expected [OF inv ack(2)])
  then have u: "?u = s\<lparr>ds_dets := (ds_dets s)(p := (ds_dets s p)\<lparr>td_deficit := td_deficit (ds_dets s p) - 1\<rparr>),
                 ds_acks := ds_acks s - {#(q, p)#}\<rparr>" by (simp add: ds_take_ack_def on_ack_received_expected)
  have "engaged ?u = engaged s" "active_ranks ?u = active_ranks s" unfolding u by (auto simp: engaged_def active_ranks_def)
  moreover have "size (ds_acks s) = size (ds_acks ?u) + 1" unfolding u using size_take [OF ack(2)] by simp
  moreover have "ds_tasks ?u = ds_tasks s" unfolding u by simp
  ultimately have "left_to_do ?u < left_to_do s" by (simp add: left_to_do_def)
  then show ?thesis using passive_less [of ?u p] i ack(1) by (simp add: ds_ack_def ds_inv_but_def)
qed

lemma stuck_detected:
  assumes inv: "ds_inv s" and stuck: "\<And>t. \<not> ds_closing s t"
  shows "td_deficit (ds_dets s 0) = 0"
proof (rule ds_quiet_detected [OF inv])
  show idle: "\<not> ds_active s q" for q
  proof
    assume a: "ds_active s q"
    have "in_world (ds_world s) q"
    proof (cases "q = 0")
      case True
      then show ?thesis using inv by (simp add: ds_inv_but_def in_world_zero)
    next
      case False
      with a inv have "td_parent (ds_dets s q) \<noteq> NO_PARENT" by (auto simp: ds_inv_but_def idle_ok_def)
      with inv show ?thesis by (simp add: ds_inv_but_def parents_ok_def)
    qed
    from ds_closing.finish [OF a this] stuck show False by blast
  qed
  show "ds_tasks s = {#}"
  proof (rule multiset_eqI, rule ccontr)
    fix m assume "count (ds_tasks s) m \<noteq> count {#} m"
    then have "(fst m, snd m) \<in># ds_tasks s" by (auto simp: not_in_iff)
    from ds_closing.receive [OF this] stuck show False by blast
  qed
  show "ds_acks s = {#}"
  proof (rule multiset_eqI, rule ccontr)
    fix m assume "count (ds_acks s) m \<noteq> count {#} m"
    then have "(fst m, snd m) \<in># ds_acks s" by (auto simp: not_in_iff)
    from ds_closing.ack [OF this] idle stuck show False by blast
  qed
qed

section \<open>The end\<close>

text \<open>C4: Detection terminates: from any reachable state, once no task is sent any more, at most
  four steps for each task in transit, one for each acknowledgement, two for each engaged rank and one for
  each active one are possible, in whatever order they come, and when no step is possible any more the root
  has detected the end, while nothing is in transit and no rank is active.\<close>

theorem detection_ends:
  assumes "ds_reachable n s" and "0 < n" and "(ds_closing ^^ k) s t"
  shows "k + left_to_do t \<le> left_to_do s \<and>
    (if \<exists>u. ds_closing t u then 0 < left_to_do t
     else td_deficit (ds_dets t 0) = 0 \<and> ds_tasks t = {#} \<and> ds_acks t = {#} \<and> (\<forall>q. \<not> ds_active t q))"
proof -
  have "ds_inv t \<and> k + left_to_do t \<le> left_to_do s" using assms(3)
  proof (induction k arbitrary: t)
    case 0
    then show ?case using ds_reachable_inv [OF assms(1,2)] by simp
  next
    case (Suc k)
    then obtain u where u: "(ds_closing ^^ k) s u" "ds_closing u t" by auto
    have i: "ds_inv u" "k + left_to_do u \<le> left_to_do s" using Suc.IH [OF u(1)] by simp_all
    then show ?case using closing_less [OF u(2) i(1)] ds_step_inv [OF closing_step [OF u(2)] i(1)] by simp
  qed
  then have inv: "ds_inv t" and le: "k + left_to_do t \<le> left_to_do s" by simp_all
  show ?thesis
  proof (cases "\<exists>u. ds_closing t u")
    case True
    then obtain u where "ds_closing t u" by blast
    from closing_less [OF this inv] True le show ?thesis by simp
  next
    case False
    then have d: "td_deficit (ds_dets t 0) = 0" using stuck_detected [OF inv] by blast
    have "\<not> ds_active t q" for q
    proof (cases "q = 0")
      case True
      from False ds_closing.finish [of t 0] inv show ?thesis unfolding True by (auto simp: ds_inv_but_def in_world_zero)
    qed (rule ds_terminated(4) [OF inv d])
    with d ds_terminated(1,2) [OF inv d] le False show ?thesis by simp
  qed
qed

text \<open>The root sends one task, which its receiver finishes.\<close>

lemma detection_ends_witness:
  "\<exists>t. (ds_closing ^^ 4) (ds_send (ds_init 2) 0 1) t \<and> 4 + left_to_do t \<le> left_to_do (ds_send (ds_init 2) 0 1)"
proof -
  let ?s = "ds_send (ds_init 2) 0 1"
  let ?a = "ds_receive ?s 0 1"
  let ?b = "ds_finish ?a 1"
  let ?c = "ds_ack ?b 1 0"
  let ?d = "ds_finish ?c 0"
  note d = ds_send_def ds_init_def ds_receive_def ds_finish_def ds_passive_def ds_ack_def ds_take_ack_def on_task_received_def
    on_passive_def on_ack_received_def on_task_sent_def new_detector_def in_world_def NO_PARENT_def
  have r: "ds_reachable 2 ?s"
    by (rule ds_reachable.step [OF ds_reachable.start ds_step.send]) (simp_all add: ds_init_def in_world_def)
  have "ds_closing ?s ?a" by (rule ds_closing.receive) (simp add: d)
  moreover have "ds_closing ?a ?b" by (rule ds_closing.finish) (simp_all add: d)
  moreover have "ds_closing ?b ?c" by (rule ds_closing.ack) (simp_all add: d)
  moreover have "ds_closing ?c ?d" by (rule ds_closing.finish) (simp_all add: d)
  ultimately have k: "(ds_closing ^^ 4) ?s ?d" by (simp add: numeral_eq_Suc relcomppI) blast
  from detection_ends [OF r _ k] have "4 + left_to_do ?d \<le> left_to_do ?s" by simp
  with k show ?thesis by blast
qed

end
