(* ===== verification/Runtime_Facade.thy ===== *)
theory Runtime_Facade
  imports Telemetry_Hub
begin

text \<open>
  The factories and the singletons of the library (\<open>src/gempba/gempba.cpp\<close>). A scheduler is what the
  factories ask it for; a load balancer is its policy.
\<close>

record scheduler_view =
  sw_name :: string
  sw_rank_me :: int
  sw_world_size :: int
  sw_role_of :: "int \<Rightarrow> rank_role"

record runtime =
  rt_scheduler :: "scheduler_view option"
  rt_load_balancer :: "balancing_policy option"
  rt_node_manager :: bool
  rt_telemetry :: hub_owner

definition runtime_start :: runtime where
  "runtime_start = \<lparr>rt_scheduler = None, rt_load_balancer = None, rt_node_manager = False, rt_telemetry = owner_start\<rparr>"

text \<open>What \<open>on_runtime_ready\<close> reads: the clock, the random words and the topology.\<close>

record ready_env =
  ry_now :: "64 word"
  ry_engine :: "64 word \<times> 64 word"
  ry_topology :: topology_snapshot

section \<open>The hub\<close>

definition describe_parts :: "runtime \<Rightarrow> hub \<Rightarrow> hub" where
  "describe_parts rt h =
     (let h1 = (case rt_scheduler rt of None \<Rightarrow> h
                | Some s \<Rightarrow> describe_scheduler (sw_name s) (map (\<lambda>r. sw_role_of s (int r)) [0..<nat (sw_world_size s)]) h)
      in case rt_load_balancer rt of None \<Rightarrow> h1 | Some p \<Rightarrow> describe_load_balancer p h1)"

definition install_telemetry_hub_if_needed :: "ready_env \<Rightarrow> runtime \<Rightarrow> runtime" where
  "install_telemetry_hub_if_needed e rt =
     (if \<not> ho_enabled (rt_telemetry rt) \<or> ho_hub (rt_telemetry rt) \<noteq> None then rt
      else let h = describe_parts rt new_hub;
               h' = (case rt_scheduler rt of
                       Some s \<Rightarrow> on_runtime_ready MP_MPI (word_of_int (sw_rank_me s)) (word_of_int (sw_world_size s))
                                  (ry_now e) (ry_engine e) (ry_topology e) h
                     | None \<Rightarrow> on_runtime_ready MT_ONLY 0 1 (ry_now e) (ry_engine e) (ry_topology e) h)
           in rt\<lparr>rt_telemetry := (rt_telemetry rt)\<lparr>ho_hub := Some h'\<rparr>\<rparr>)"

section \<open>Factories\<close>

text \<open>A custom load balancer may be null; the hub, where there is one, asks it for its policy.\<close>

definition assign_load_balancer :: "balancing_policy option \<Rightarrow> runtime \<Rightarrow> runtime res" where
  "assign_load_balancer p rt =
     (if rt_load_balancer rt \<noteq> None then Inl (Thrown ''load_balancer already exists!'')
      else case (ho_hub (rt_telemetry rt), p) of
             (None, _) \<Rightarrow> Inr (rt\<lparr>rt_load_balancer := p\<rparr>)
           | (Some h, None) \<Rightarrow> Inl Undefined
           | (Some h, Some policy) \<Rightarrow> Inr (rt\<lparr>rt_load_balancer := p,
               rt_telemetry := (rt_telemetry rt)\<lparr>ho_hub := Some (describe_load_balancer policy h)\<rparr>\<rparr>))"

definition build_load_balancer :: "balancing_policy \<Rightarrow> runtime \<Rightarrow> runtime res" where
  "build_load_balancer policy rt =
     (if rt_load_balancer rt \<noteq> None then Inl (Thrown ''load_balancer already exists!'')
      else Inr (rt\<lparr>rt_load_balancer := Some policy, rt_telemetry := (rt_telemetry rt)\<lparr>ho_hub :=
             map_option (describe_load_balancer policy) (ho_hub (rt_telemetry rt))\<rparr>\<rparr>))"

definition build_node_manager :: "ready_env \<Rightarrow> runtime \<Rightarrow> runtime res" where
  "build_node_manager e rt =
     (if rt_node_manager rt then Inl (Thrown ''node_manager already exist!'')
      else Inr (install_telemetry_hub_if_needed e (rt\<lparr>rt_node_manager := True\<rparr>)))"

text \<open>The message of the first factory names the load balancer.\<close>

definition create_custom_scheduler :: "ready_env \<Rightarrow> scheduler_view option \<Rightarrow> runtime \<Rightarrow> runtime res" where
  "create_custom_scheduler e s rt =
     (if rt_scheduler rt \<noteq> None then Inl (Thrown ''load_balancer already exists!'')
      else Inr (install_telemetry_hub_if_needed e (rt\<lparr>rt_scheduler := s\<rparr>)))"

definition create_scheduler :: "ready_env \<Rightarrow> scheduler_view \<Rightarrow> runtime \<Rightarrow> runtime res" where
  "create_scheduler e s rt =
     (if rt_scheduler rt \<noteq> None then Inl (Thrown ''scheduler already exists!'')
      else Inr (install_telemetry_hub_if_needed e (rt\<lparr>rt_scheduler := Some s\<rparr>)))"

definition get_scheduler :: "runtime \<Rightarrow> scheduler_view res" where
  "get_scheduler rt = (case rt_scheduler rt of None \<Rightarrow> Inl (Thrown ''scheduler not yet instantiated!'') | Some s \<Rightarrow> Inr s)"

definition get_node_manager :: "runtime \<Rightarrow> unit res" where
  "get_node_manager rt = (if \<not> rt_node_manager rt then Inl (Thrown ''scheduler not yet instantiated!'') else Inr ())"

definition reset_scheduler :: "runtime \<Rightarrow> runtime" where
  "reset_scheduler rt = rt\<lparr>rt_scheduler := None\<rparr>"

definition reset_load_balancer :: "runtime \<Rightarrow> runtime" where
  "reset_load_balancer rt = rt\<lparr>rt_load_balancer := None\<rparr>"

definition reset_node_manager :: "runtime \<Rightarrow> runtime" where
  "reset_node_manager rt = rt\<lparr>rt_node_manager := False\<rparr>"

text \<open>\<open>shutdown\<close> first uninstalls the hub, while the scheduler still lives.\<close>

definition shutdown_runtime :: "'t transport \<Rightarrow> ('t transport \<times> 64 word) list \<Rightarrow> 64 word \<Rightarrow> frame_sample \<Rightarrow> runtime \<Rightarrow> 't \<Rightarrow>
    (runtime \<times> 't) res" where
  "shutdown_runtime ops rounds now s rt t =
     rbind (uninstall_hub ops rounds now s (rt_telemetry rt) t) (\<lambda>(g, t').
       Inr (\<lparr>rt_scheduler = None, rt_load_balancer = None, rt_node_manager = False, rt_telemetry = g\<rparr>, t'))"

section \<open>What the hub knows of the load balancer\<close>

datatype runtime_op =
    Assign_Balancer "balancing_policy option" | Build_Balancer balancing_policy | Build_Manager ready_env
  | Custom_Scheduler ready_env "scheduler_view option" | New_Scheduler ready_env scheduler_view
  | Reset_Scheduler | Reset_Balancer | Reset_Manager | Annotate string string | Mark_Code string "64 word"

fun apply_runtime :: "runtime_op \<Rightarrow> runtime \<Rightarrow> runtime res" where
  "apply_runtime (Assign_Balancer p) rt = assign_load_balancer p rt"
| "apply_runtime (Build_Balancer p) rt = build_load_balancer p rt"
| "apply_runtime (Build_Manager e) rt = build_node_manager e rt"
| "apply_runtime (Custom_Scheduler e s) rt = create_custom_scheduler e s rt"
| "apply_runtime (New_Scheduler e s) rt = create_scheduler e s rt"
| "apply_runtime Reset_Scheduler rt = Inr (reset_scheduler rt)"
| "apply_runtime Reset_Balancer rt = Inr (reset_load_balancer rt)"
| "apply_runtime Reset_Manager rt = Inr (reset_node_manager rt)"
| "apply_runtime (Annotate k v) rt = Inr (rt\<lparr>rt_telemetry := snd (annotate_installed k v (rt_telemetry rt))\<rparr>)"
| "apply_runtime (Mark_Code l now) rt = Inr (rt\<lparr>rt_telemetry := snd (mark_installed l now (rt_telemetry rt))\<rparr>)"

text \<open>An operation that throws leaves the singletons as they were.\<close>

definition step_runtime :: "runtime_op \<Rightarrow> runtime \<Rightarrow> runtime" where
  "step_runtime op rt = (case apply_runtime op rt of Inl e \<Rightarrow> rt | Inr rt' \<Rightarrow> rt')"

definition balancer_name :: "balancing_policy \<Rightarrow> string" where
  "balancer_name p = (case p of QUASI_HORIZONTAL \<Rightarrow> ''quasi_horizontal'' | WORK_STEALING \<Rightarrow> ''work_stealing'')"

definition names_balancer :: "runtime \<Rightarrow> bool" where
  "names_balancer rt \<longleftrightarrow> (case (ho_hub (rt_telemetry rt), rt_load_balancer rt) of
     (Some h, Some p) \<Rightarrow> th_load_balancer_name h = balancer_name p | _ \<Rightarrow> True)"

lemma name_described [simp]: "th_load_balancer_name (describe_load_balancer p h) = balancer_name p"
  by (simp add: describe_load_balancer_def balancer_name_def split: balancing_policy.split)

lemma name_kept [simp]:
  "th_load_balancer_name (on_runtime_ready m r n now e t h) = th_load_balancer_name h"
  "th_load_balancer_name (snd (annotate_run k v h)) = th_load_balancer_name h"
  "th_load_balancer_name (snd (mark_run l s now h)) = th_load_balancer_name h"
  by (simp_all add: on_runtime_ready_def annotate_run_def mark_run_def Let_def)

lemma name_parts: "rt_load_balancer rt = Some p \<Longrightarrow> th_load_balancer_name (describe_parts rt h) = balancer_name p"
  by (simp add: describe_parts_def Let_def)

lemma install_names: "names_balancer rt \<Longrightarrow> names_balancer (install_telemetry_hub_if_needed e rt)"
  by (auto simp: install_telemetry_hub_if_needed_def names_balancer_def Let_def name_parts split: option.splits)

lemma step_names: "names_balancer rt \<Longrightarrow> names_balancer (step_runtime op rt)"
proof (cases op)
  case (Build_Manager e)
  assume "names_balancer rt"
  then have "names_balancer (rt\<lparr>rt_node_manager := True\<rparr>)" by (simp add: names_balancer_def)
  from install_names [OF this, of e] Build_Manager \<open>names_balancer rt\<close> show ?thesis
    by (simp add: step_runtime_def build_node_manager_def)
next
  case (Custom_Scheduler e s)
  assume "names_balancer rt"
  then have "names_balancer (rt\<lparr>rt_scheduler := s\<rparr>)" by (simp add: names_balancer_def)
  from install_names [OF this, of e] Custom_Scheduler \<open>names_balancer rt\<close> show ?thesis
    by (simp add: step_runtime_def create_custom_scheduler_def)
next
  case (New_Scheduler e s)
  assume "names_balancer rt"
  then have "names_balancer (rt\<lparr>rt_scheduler := Some s\<rparr>)" by (simp add: names_balancer_def)
  from install_names [OF this, of e] New_Scheduler \<open>names_balancer rt\<close> show ?thesis
    by (simp add: step_runtime_def create_scheduler_def)
qed (auto simp: step_runtime_def names_balancer_def assign_load_balancer_def build_load_balancer_def reset_scheduler_def
    reset_load_balancer_def reset_node_manager_def annotate_installed_def mark_installed_def split_def Let_def split: option.splits)

text \<open>Whatever the program creates and resets, the hub names the load balancer there is.\<close>

lemma hub_names_balancer: "names_balancer (fold step_runtime ops runtime_start)"
proof (induction ops rule: rev_induct)
  case Nil
  show ?case by (simp add: names_balancer_def runtime_start_def owner_start_def)
qed (simp add: step_names)

end
