(* ===== verification/Process_Probe.thy ===== *)
theory Process_Probe
  imports Host_Probes
begin

text \<open>
  The CPU share and the memory of the process (\<open>src/telemetry/process_probe.cpp\<close>, the Linux branch). The answer
  of \<open>getrusage\<close>, the lines of \<open>/proc/self/status\<close>, the clock, and the floating-point division are arguments.
\<close>

record process_probe =
  pp_has_baseline :: bool
  pp_last_cpu :: "64 word"
  pp_last_wall :: "64 word"

definition new_process_probe :: process_probe where
  "new_process_probe = \<lparr>pp_has_baseline = False, pp_last_cpu = 0, pp_last_wall = 0\<rparr>"

definition timeval_to_microseconds :: "64 word \<times> 64 word \<Rightarrow> 64 word" where
  "timeval_to_microseconds tv = fst tv * 1000000 + snd tv"

fun rss_of :: "string list \<Rightarrow> 64 word res" where
  "rss_of [] = Inr 0"
| "rss_of (line # rest) = (if starts_with ''VmRSS:'' line \<and> list_ex is_digit line then kilobytes line else rss_of rest)"

definition read_rss_bytes :: "string list option \<Rightarrow> 64 word res" where
  "read_rss_bytes status = (case status of None \<Rightarrow> Inr 0 | Some ls \<Rightarrow> rss_of ls)"

text \<open>The user and system times, if \<open>getrusage\<close> succeeds.\<close>

definition sample_platform :: "((64 word \<times> 64 word) \<times> (64 word \<times> 64 word)) option \<Rightarrow> string list option \<Rightarrow> (64 word \<times> 64 word) res" where
  "sample_platform usage status =
     (let cpu = (case usage of None \<Rightarrow> 0 | Some (user, system) \<Rightarrow> timeval_to_microseconds user + timeval_to_microseconds system)
      in rbind (read_rss_bytes status) (\<lambda>rss. Inr (cpu, rss)))"

text \<open>\<open>percent\<close> is the division of two numbers of microseconds in \<open>double\<close>, as a \<open>float\<close>; the result is the
  percentage, the memory and the probe.\<close>

definition sample_process :: "(64 word \<Rightarrow> 64 word \<Rightarrow> 32 word) \<Rightarrow> 64 word \<Rightarrow> ((64 word \<times> 64 word) \<times> (64 word \<times> 64 word)) option \<Rightarrow>
    string list option \<Rightarrow> process_probe \<Rightarrow> (32 word \<times> 64 word \<times> process_probe) res" where
  "sample_process percent wall usage status pp =
     rbind (sample_platform usage status) (\<lambda>(cpu, rss).
       let cpu_delta = cpu - pp_last_cpu pp; wall_delta = wall - pp_last_wall pp;
           pct = (if \<not> pp_has_baseline pp then 0 else if 0 < wall_delta then percent cpu_delta wall_delta else 0)
       in Inr (pct, rss, pp\<lparr>pp_has_baseline := True, pp_last_cpu := cpu, pp_last_wall := wall\<rparr>))"

text \<open>
  The first sample reports no CPU share; a later one the CPU time since the one before over the time
  since then, unless no time has passed.
\<close>

lemma first_sample: "sample_process percent wall usage status new_process_probe = Inr (pct, rss, pp) \<Longrightarrow> pct = 0"
  by (auto simp: sample_process_def new_process_probe_def rbind_def split: sum.splits)

lemma next_sample:
  assumes "sample_process percent wall (Some (user, system)) status pp = Inr (pct, rss, pp1)"
    and "sample_process percent wall' (Some (user', system')) status' pp1 = Inr (pct', rss', pp2)" and "wall \<noteq> wall'"
  shows "pct' = percent (timeval_to_microseconds user' + timeval_to_microseconds system' -
      (timeval_to_microseconds user + timeval_to_microseconds system)) (wall' - wall)"
proof -
  have "0 < wall' - wall" using assms(3) by (simp add: word_gt_0)
  moreover have "pp_has_baseline pp1" "pp_last_wall pp1 = wall"
    "pp_last_cpu pp1 = timeval_to_microseconds user + timeval_to_microseconds system"
    using assms(1) by (auto simp: sample_process_def sample_platform_def rbind_def Let_def split: sum.splits)
  ultimately show ?thesis
    using assms(2) by (auto simp: sample_process_def sample_platform_def rbind_def Let_def split: sum.splits)
qed

end
