(* ===== verification/Spec2Isabelle.thy ===== *)
theory Spec2Isabelle
  imports Dijkstra_Scholten Mpi_Stats Topology Task_Priority Semi_Outcome Central_Properties Balancer_Properties
    Scheduler_Clock Client_Outbox Topology_Snapshot Control_Lines Worker_Frame_Codec
    Telemetry_Network Server_Run Detection_Ends
    Runtime_Facade Process_Probe
begin

text \<open>
  GemPBA is a C++ library that runs branch-and-bound searches on many threads and, through MPI, on many
  processes. This library of theories models its own logic and proves what makes it correct. All paths
  below are under \<open>src/\<close>.

  \<^bold>\<open>The program.\<close> A user's function explores a search tree; each call is a \<open>node\<close>. A load balancer
  decides, for each new node, whether another thread runs it, another process runs it, or the calling
  thread goes on with it. A scheduler moves nodes between processes as \<open>task_packet\<close>s: rank 0, the
  center, keeps the states of the other ranks, the workers; the semi-centralized scheduler tells a busy
  worker which idle rank to send to, the centralized one queues the tasks at the center. Both share the
  best score found so far, detect termination by counting acknowledgements (Dijkstra and Scholten), and
  collect the solutions at the end.

  \<^bold>\<open>The theories.\<close>

  \<^item> \<open>Gempba_Prelude\<close>: faults and results of fallible operations, counting in multisets, vectors, numerals.
  \<^item> \<open>Byte_Codec\<close>, \<open>Score\<close>: values as bytes, and \<open>score\<close> (\<open>include/gempba/utils/score.hpp\<close>) with its order,
    which rounds to \<open>long double\<close>, conversions and default; \<open>Task_Packet\<close>: packets, bundles and results; \<open>Mpi_Stats\<close>: the statistics,
    their serialization (\<open>private/impl/schedulers/default_mpi_stats.hpp\<close>) and how rank 0 gathers them.
  \<^item> \<open>Process_Tree\<close>, \<open>Topology\<close>: the tree of ranks (\<open>include/gempba/utils/tree.hpp\<close>) and the binomial
    topology built on it (\<open>include/gempba/utils/utils.hpp\<close>).
  \<^item> \<open>Node_Manager\<close>: the result and score a process keeps (\<open>include/gempba/node_manager.hpp\<close>).
  \<^item> \<open>Termination_Detector\<close>: the detector of one rank; \<open>Dijkstra_Scholten\<close>: the detectors of all ranks and
    the messages between them as a step relation, with the invariant that makes its verdict right;
    \<open>Detection_Ends\<close>: how many steps detection takes once no task is sent any more.
  \<^item> \<open>Mpi_Channels\<close>: the messages and the ordered channels between two ranks; \<open>Task_Funneling\<close>: the
    hand-over from the pool's threads to the thread that talks to MPI, as a program counter.
  \<^item> \<open>Semi_Worker\<close>, \<open>Semi_Center\<close>: the handlers of the semi-centralized scheduler, one definition for each;
    \<open>Semi_Network\<close>: all ranks together as a step relation, and its refinement of \<open>Dijkstra_Scholten\<close>;
    \<open>Semi_Run\<close>: the invariant of a run; \<open>Semi_Scores\<close>, \<open>Semi_Outcome\<close>: what happens to scores and solutions.
  \<^item> \<open>Task_Priority\<close>: the center's queue and the hand-out of tasks
    (\<open>private/impl/schedulers/centralized_utils.hpp\<close>); \<open>Central_Worker\<close>, \<open>Central_Center\<close>,
    \<open>Central_Network\<close>: the centralized scheduler in the same form; \<open>Central_Outcome\<close>: its queue, its
    notices and a solution it loses (the bound \<open>MAX_RANKS\<close> keeps the \<open>int\<close> products of the queue's limits in
    range, and the sizes of packets are checked where the code casts them to \<open>int\<close>); \<open>Detector_View\<close>: the moves of \<open>Dijkstra_Scholten\<close> on channels;
    \<open>Central_Inv\<close>, \<open>Central_Steps\<close>, \<open>Central_Turns\<close>, \<open>Central_Run\<close>: the invariant of a run and its
    preservation by each step; \<open>Central_Properties\<close>: what follows for every run.
  \<^item> \<open>Node_Heap\<close>, \<open>Node_Core\<close>: the nodes as objects on a heap and their operations
    (\<open>include/gempba/detail/nodes/node_core_impl.hpp\<close>); \<open>Node_Links\<close>: what the operations do to the tree
    and to the states of the nodes; \<open>Load_Balancers\<close>, \<open>Balancer_Send\<close>: the two balancers
    (\<open>private/impl/load_balancing\<close>); \<open>Balancer_Lives\<close>, \<open>Balancer_Tree\<close>, \<open>Balancer_Safety\<close>,
    \<open>Balancer_Create\<close>: handing over, lowering the root, and the absence of exceptions;
    \<open>Balancer_Properties\<close>: the properties of these.
  \<^item> \<open>Telemetry_Frames\<close>: the records of telemetry (\<open>include/gempba/telemetry\<close>); \<open>Scheduler_Clock\<close>: the times
    of a scheduler; \<open>Client_Outbox\<close>: the lines waiting for a client (\<open>private/impl/telemetry\<close>);
    \<open>Topology_Codec\<close>: the layout of a host on the wire (\<open>src/telemetry/topology_builder.cpp\<close>);
    \<open>Host_Probes\<close>, \<open>Host_Layout\<close>: what a process reads about its host (\<open>src/telemetry/node_probe.cpp\<close>,
    \<open>src/telemetry/hwloc_probe.cpp\<close>, \<open>private/impl/telemetry/cgroup_memory.hpp\<close>); \<open>Topology_Snapshot\<close>: how the
    ranks put the topology of the run together.
  \<^item> \<open>Json_Serializer\<close>, \<open>Json_Grammar\<close>: the lines of the dashboard (\<open>src/telemetry/json_serializer.cpp\<close>) and
    a grammar of JSON they satisfy; \<open>Control_Lines\<close>: what a client sends,
    poll by poll, with the limit of bytes for one poll and the close that ends a connection
    (\<open>src/telemetry/aggregator_tcp_server.cpp\<close>); \<open>Worker_Frame_Codec\<close>: a rank's frame as bytes
    (\<open>private/impl/telemetry/worker_frame_codec.hpp\<close>).
  \<^item> \<open>Run_Id\<close>: the identifier of a run; \<open>Telemetry_Transport\<close>: the transports within a process and over MPI
    (\<open>src/telemetry/local_transport.cpp\<close>, \<open>src/telemetry/mpi_transport.cpp\<close>), and \<open>Frame_Streams\<close>: the order in
    which they deliver frames: the regular frames of a rank among themselves and its final frames among
    themselves, a contract both transports meet for each kind; \<open>Telemetry_Hub\<close>: the hub, its counters, its tick and
    its controls (\<open>src/telemetry/telemetry_hub.cpp\<close>); \<open>Hub_Properties\<close>: the description, and the traffic
    counters when sends run on other threads, each as its separate atomic additions;
    \<open>Telemetry_Network\<close>: the hubs of all ranks and how a client's settings reach them;
    \<open>Telemetry_Server\<close>: the rounds of the dashboard's server (\<open>src/telemetry/aggregator_tcp_server.cpp\<close>), and
    \<open>Server_Run\<close>: its run among clients and other threads; \<open>Process_Probe\<close>: the CPU share and memory of a
    process (\<open>src/telemetry/process_probe.cpp\<close>).
  \<^item> \<open>Runtime_Facade\<close>: the factories and singletons of the library (\<open>src/gempba/gempba.cpp\<close>).

  \<^bold>\<open>How the code is read.\<close> A class is a record, a method a function from the state (and the arguments) to
  the new state and the messages sent; an exception is \<open>Inl (Thrown m)\<close>, an access the language leaves
  undefined \<open>Inl Undefined\<close>. What a parameter, another thread or MPI may choose is an argument: the clock,
  the memory in use, the random offset, whether a lock is free, what the user's functions return. MPI
  keeps the order of the messages between two ranks on one communicator and nothing else; a poll may
  find nothing although a message is under way. A \<open>long double\<close> has a significand of \<open>LDBL_MANT_DIG\<close> = 64
  bits, as on x86-64. A program
  counter marks the points at which other threads and messages interleave; the step relations let any
  rank move next.

  \<^bold>\<open>Bounds.\<close> Loops are recursive functions that terminate on every input: \<open>lower_root\<close> because each
  round leaves one node fewer with children, the \<open>send\<close> loops because each round consumes an unused node,
  \<open>dispatch_from\<close> because it passes each rank once. The network theorems hold for 2 to \<open>2^30\<close> ranks,
  which keeps the \<open>int\<close> arithmetic of the topology in range; that no step of the centralized scheduler
  fails needs at most \<open>MAX_RANKS\<close> = 1073741 of them, and one rank more does overflow. Counters of messages
  and the sum of the set bits of a packet are unbounded integers where the code has \<open>int\<close>: they stay in
  range while fewer than \<open>2^31\<close> messages are unacknowledged and a packet has fewer than \<open>2^28\<close> bytes.
  Unsigned types are words of 32 or 64 bits. The comparator of the center's \<open>std::priority_queue\<close> is not a
  strict order, as the library requires; the queue is taken to keep its elements all the same.

  \<^bold>\<open>Not modelled.\<close> The C interface and the JNI bindings (\<open>src/cabi\<close>, \<open>include/gempba/cabi\<close>, \<open>bindings\<close>)
  check their pointers and forward to the library. In the handlers of the schedulers and balancers the
  calls to telemetry are left out: telemetry observes the search and does not change it, and is modelled by
  itself. The initialization of MPI, the sockets of the server, the thread pool (a third-party library),
  logging, and the reading of clocks, files and memory are input and output; what they answer is an argument.
  Of the probes, the branches for Windows and macOS only call the system. The conversion of a score to a
  floating-point target and the printing of scores would need the rounding of the floating-point formats.
\<close>

end
